(* ===== verification/Prelude.thy ===== *)
theory Prelude
  imports Main "HOL-Library.AList" "HOL-Library.Multiset"
begin

text \<open>
  What the modelled TypeScript takes from its language, and the generic lemmas the components
  share.

  \<^item> A \<open>Map\<close> is an association list with one entry per key, in insertion order
    (\<open>jsmap\<close>): \<open>map_of\<close> reads it, \<open>map_set\<close> overwrites in place or appends.
  \<^item> A \<open>Set\<close> that is only asked \<open>has\<close>/\<open>add\<close>/\<open>delete\<close> is a HOL set; one that is
    iterated is a list in insertion order (\<open>set_of_iter\<close>).
  \<^item> An array used as a stack is a list with the top first.
  \<^item> Strings are lists of characters; \<open>toLowerCase\<close> and \<open>trim\<close> are the ASCII ones.
  \<^item> \<open>Array.prototype.sort\<close> with a comparator is a stable insertion sort (\<open>sort_by\<close>): for
    a consistent comparator the stable sorted permutation is unique.
  \<^item> \<open>worklist\<close> is the contract of a graph walk with an explicit stack that tests its
    visited set when it pops; the closure lemma is proved once in it.
\<close>

named_theorems dep_simps "equations the dependency-graph proofs unfold"
named_theorems wf_simps "equations the workflow proofs unfold"

section \<open>Maps and sets with an insertion order\<close>

type_synonym ('k, 'v) jsmap = "('k \<times> 'v) list"

definition map_set :: "'k \<Rightarrow> 'v \<Rightarrow> ('k, 'v) jsmap \<Rightarrow> ('k, 'v) jsmap" where
  "map_set k v m = AList.update k v m"

definition map_keys :: "('k, 'v) jsmap \<Rightarrow> 'k list" where
  "map_keys m = map fst m"

lemma map_of_map_set [simp]: "map_of (map_set k v m) = (map_of m)(k \<mapsto> v)"
  by (simp add: map_set_def update_conv')

lemma set_map_keys_map_set [simp]: "set (map_keys (map_set k v m)) = insert k (set (map_keys m))"
  by (auto simp: map_set_def map_keys_def update_keys)

lemma distinct_map_keys_map_set [simp]:
  "distinct (map_keys m) \<Longrightarrow> distinct (map_keys (map_set k v m))"
  by (simp add: map_set_def map_keys_def distinct_update)

lemma map_of_None_keys: "map_of m k = None \<longleftrightarrow> k \<notin> set (map_keys m)"
  by (simp add: map_keys_def map_of_eq_None_iff)

lemma map_set_absent: "k \<notin> set (map_keys m) \<Longrightarrow> map_set k v m = m @ [(k, v)]"
  by (induction m) (auto simp: map_set_def map_keys_def)

lemma map_set_mem: "x \<in> set (map_set k v m) \<Longrightarrow> x = (k, v) \<or> x \<in> set m"
  by (induction m) (auto simp: map_set_def split: if_splits)

lemma map_of_Some_keys: "map_of m k = Some v \<Longrightarrow> k \<in> set (map_keys m)"
  by (metis map_of_None_keys option.distinct(1))

lemma keys_map_of_Some: "k \<in> set (map_keys m) \<Longrightarrow> \<exists>v. map_of m k = Some v"
  by (metis map_of_None_keys option.exhaust)

definition map_del :: "'k \<Rightarrow> ('k, 'v) jsmap \<Rightarrow> ('k, 'v) jsmap" where
  "map_del k m = filter (\<lambda>e. fst e \<noteq> k) m"

definition has_key :: "'k \<Rightarrow> ('k, 'v) jsmap \<Rightarrow> bool" where
  "has_key k m = (map_of m k \<noteq> None)"

definition truthy :: "string option \<Rightarrow> bool" where
  "truthy x = (case x of None \<Rightarrow> False | Some s \<Rightarrow> s \<noteq> [])"

lemma map_of_del [simp]: "map_of (map_del k m) = (map_of m)(k := None)"
  by (induction m) (auto simp: map_del_def)

lemma keys_del [simp]: "set (map_keys (map_del k m)) = set (map_keys m) - {k}"
  by (auto simp: map_del_def map_keys_def)

lemma distinct_del [simp]: "distinct (map_keys m) \<Longrightarrow> distinct (map_keys (map_del k m))"
  unfolding map_del_def map_keys_def by (induction m) auto

lemma has_key_simps [simp]:
  "has_key k (map_set j v m) \<longleftrightarrow> k = j \<or> has_key k m"
  "has_key k (map_del j m) \<longleftrightarrow> k \<noteq> j \<and> has_key k m"
  by (auto simp: has_key_def)

text \<open>\<open>a ?? b\<close>, and the fields a partial update leaves alone.\<close>

definition or_else :: "'a option \<Rightarrow> 'a \<Rightarrow> 'a" where
  "or_else x d = (case x of None \<Rightarrow> d | Some v \<Rightarrow> v)"

definition patched :: "'a option \<Rightarrow> 'a option \<Rightarrow> 'a option" where
  "patched p old = (case p of None \<Rightarrow> old | Some x \<Rightarrow> Some x)"

definition set_add :: "'a \<Rightarrow> 'a list \<Rightarrow> 'a list" where
  "set_add x xs = (if x \<in> set xs then xs else xs @ [x])"

definition set_of_iter :: "'a list \<Rightarrow> 'a list" where
  "set_of_iter xs = fold set_add xs []"

lemma set_set_add [simp]: "set (set_add x xs) = insert x (set xs)"
  by (auto simp: set_add_def)

lemma distinct_set_add [simp]: "distinct xs \<Longrightarrow> distinct (set_add x xs)"
  by (simp add: set_add_def)

lemma set_of_iter_aux:
  "set (fold set_add xs ys) = set xs \<union> set ys \<and> (distinct ys \<longrightarrow> distinct (fold set_add xs ys))"
  by (induction xs arbitrary: ys) auto

lemma set_set_of_iter [simp]: "set (set_of_iter xs) = set xs"
  by (simp add: set_of_iter_def set_of_iter_aux)

lemma distinct_set_of_iter [simp]: "distinct (set_of_iter xs)"
  by (simp add: set_of_iter_def set_of_iter_aux)

lemma visit_measure:
  "k \<in> set ks \<Longrightarrow> k \<notin> set seen \<Longrightarrow>
   card (set ks - insert k (set seen)) < card (set ks - set seen)"
  by (intro psubset_card_mono) auto

section \<open>Strings\<close>

definition char_code :: "char \<Rightarrow> nat" where
  "char_code c = of_char c"

definition lower_char :: "char \<Rightarrow> char" where
  "lower_char c = (if 65 \<le> char_code c \<and> char_code c \<le> 90 then char_of (char_code c + 32) else c)"

definition toLowerCase :: "string \<Rightarrow> string" where
  "toLowerCase s = map lower_char s"

definition is_space :: "char \<Rightarrow> bool" where
  "is_space c = (char_code c = 32 \<or> (9 \<le> char_code c \<and> char_code c \<le> 13))"

definition trim :: "string \<Rightarrow> string" where
  "trim s = rev (dropWhile is_space (rev (dropWhile is_space s)))"

fun join :: "string \<Rightarrow> string list \<Rightarrow> string" where
  "join sep [] = []"
| "join sep [s] = s"
| "join sep (s # t # ss) = s @ sep @ join sep (t # ss)"

fun str_less :: "string \<Rightarrow> string \<Rightarrow> bool" where
  "str_less _ [] = False"
| "str_less [] (_ # _) = True"
| "str_less (a # s) (b # t) =
     (char_code a < char_code b \<or> (char_code a = char_code b \<and> str_less s t))"

text \<open>Decimal text of a number, as string interpolation writes it.\<close>

fun nat_text :: "nat \<Rightarrow> string" where
  "nat_text n = (if n < 10 then [char_of (48 + n)] else nat_text (n div 10) @ [char_of (48 + n mod 10)])"

declare nat_text.simps [simp del]

definition int_text :: "int \<Rightarrow> string" where
  "int_text i = (if i < 0 then CHR ''-'' # nat_text (nat (- i)) else nat_text (nat i))"

lemma lower_char_idem [simp]: "lower_char (lower_char c) = lower_char c"
proof (cases "65 \<le> char_code c \<and> char_code c \<le> 90")
  case True
  then have "char_code (char_of (char_code c + 32)) = char_code c + 32"
    by (simp add: char_code_def)
  with True show ?thesis by (simp add: lower_char_def)
next
  case False
  then have "lower_char c = c" by (auto simp: lower_char_def)
  then show ?thesis by simp
qed

lemma toLowerCase_idem [simp]: "toLowerCase (toLowerCase s) = toLowerCase s"
  by (simp add: toLowerCase_def)

section \<open>Stable sorting with a comparator\<close>

fun insort_by :: "('a \<Rightarrow> 'a \<Rightarrow> int) \<Rightarrow> 'a \<Rightarrow> 'a list \<Rightarrow> 'a list" where
  "insort_by cmp x [] = [x]"
| "insort_by cmp x (y # ys) = (if cmp x y \<le> 0 then x # y # ys else y # insort_by cmp x ys)"

definition sort_by :: "('a \<Rightarrow> 'a \<Rightarrow> int) \<Rightarrow> 'a list \<Rightarrow> 'a list" where
  "sort_by cmp xs = foldr (insort_by cmp) xs []"

lemma mset_insort_by: "mset (insort_by cmp x xs) = add_mset x (mset xs)"
  by (induction xs) auto

lemma mset_sort_by [simp]: "mset (sort_by cmp xs) = mset xs"
  by (induction xs) (simp_all add: sort_by_def mset_insort_by)

lemma set_sort_by [simp]: "set (sort_by cmp xs) = set xs"
  by (metis mset_sort_by set_mset_mset)

lemma length_sort_by [simp]: "length (sort_by cmp xs) = length xs"
  by (metis mset_sort_by size_mset)

lemma distinct_sort_by [simp]: "distinct (sort_by cmp xs) = distinct xs"
  by (metis mset_sort_by mset_eq_imp_distinct_iff)

lemma sort_by_Nil_iff [simp]: "sort_by cmp xs = [] \<longleftrightarrow> xs = []"
  by (metis length_sort_by length_0_conv)

text \<open>A comparator the sort may be given: total, with consistent signs, transitive.\<close>

locale comparator =
  fixes cmp :: "'a \<Rightarrow> 'a \<Rightarrow> int"
  assumes cmp_total: "cmp x y \<le> 0 \<or> cmp y x \<le> 0"
    and cmp_trans: "cmp x y \<le> 0 \<Longrightarrow> cmp y z \<le> 0 \<Longrightarrow> cmp x z \<le> 0"
begin

lemma set_insort: "set (insort_by cmp x xs) = insert x (set xs)"
  by (metis mset_insort_by set_mset_add_mset_insert set_mset_mset)

lemma sorted_insort:
  "sorted_wrt (\<lambda>a b. cmp a b \<le> 0) xs \<Longrightarrow> sorted_wrt (\<lambda>a b. cmp a b \<le> 0) (insort_by cmp x xs)"
proof (induction xs)
  case (Cons y ys)
  then show ?case
    using cmp_total cmp_trans by (auto simp: set_insort)
qed simp

lemma sorted_sort: "sorted_wrt (\<lambda>a b. cmp a b \<le> 0) (sort_by cmp xs)"
  by (induction xs) (simp_all add: sort_by_def sorted_insort)

lemma sort_head_least:
  assumes "sort_by cmp xs = y # ys" and "x \<in> set xs"
  shows "cmp y x \<le> 0"
proof -
  have "x \<in> set (y # ys)" using assms by (metis set_sort_by)
  then show ?thesis
    using sorted_sort [of xs] assms(1) cmp_total [of y y] by auto
qed

end

section \<open>Graph walks with an explicit stack\<close>

definition key_edge :: "('r \<Rightarrow> 'k) \<Rightarrow> ('k \<Rightarrow> 'r list) \<Rightarrow> 'k \<Rightarrow> 'k \<Rightarrow> bool" where
  "key_edge key succ a b \<longleftrightarrow> b \<in> key ` set (succ a)"

lemma key_edge_trancl:
  "(key_edge key succ)\<^sup>+\<^sup>+ a y \<longleftrightarrow> (\<exists>r \<in> set (succ a). (key_edge key succ)\<^sup>*\<^sup>* (key r) y)"
proof
  assume "(key_edge key succ)\<^sup>+\<^sup>+ a y"
  then obtain b where "key_edge key succ a b" "(key_edge key succ)\<^sup>*\<^sup>* b y"
    by (meson tranclpD)
  then show "\<exists>r \<in> set (succ a). (key_edge key succ)\<^sup>*\<^sup>* (key r) y"
    unfolding key_edge_def [of key succ a b] by blast
next
  assume "\<exists>r \<in> set (succ a). (key_edge key succ)\<^sup>*\<^sup>* (key r) y"
  then obtain r where "key_edge key succ a (key r)" "(key_edge key succ)\<^sup>*\<^sup>* (key r) y"
    unfolding key_edge_def [of key succ a] by blast
  then show "(key_edge key succ)\<^sup>+\<^sup>+ a y"
    by (rule rtranclp_into_tranclp2)
qed

text \<open>
  \<open>run stack seen\<close> is the final visited list. The stack holds raw references
  (\<open>'r\<close>), the visited list the keys they resolve to (\<open>'k\<close>).
\<close>

locale worklist =
  fixes key :: "'r \<Rightarrow> 'k"
    and succ :: "'k \<Rightarrow> 'r list"
    and run :: "'r list \<Rightarrow> 'k list \<Rightarrow> 'k list"
  assumes run_nil: "run [] seen = seen"
    and run_seen: "key r \<in> set seen \<Longrightarrow> run (r # stack) seen = run stack seen"
    and run_new: "key r \<notin> set seen \<Longrightarrow>
      run (r # stack) seen = run (rev (succ (key r)) @ stack) (seen @ [key r])"
    and finite_succ: "finite {k. succ k \<noteq> []}"
begin

abbreviation edge :: "'k \<Rightarrow> 'k \<Rightarrow> bool" where
  "edge \<equiv> key_edge key succ"

lemma run_induct [case_names Nil Seen New]:
  assumes "\<And>seen. P [] seen"
    and "\<And>r stack seen. key r \<in> set seen \<Longrightarrow> P stack seen \<Longrightarrow> P (r # stack) seen"
    and "\<And>r stack seen. key r \<notin> set seen \<Longrightarrow>
      P (rev (succ (key r)) @ stack) (seen @ [key r]) \<Longrightarrow> P (r # stack) seen"
  shows "P stack seen"
proof (induction "(stack, seen)" arbitrary: stack seen
    rule: wf_induct_rule [OF wf_measures [of "[\<lambda>(st, se). card ({k. succ k \<noteq> []} - set se),
      \<lambda>(st, se). length st]"]])
  case (1 stack seen)
  show ?case
  proof (cases stack)
    case Nil
    then show ?thesis using assms(1) by simp
  next
    case (Cons r st)
    show ?thesis
    proof (cases "key r \<in> set seen")
      case True
      then show ?thesis using 1 Cons assms(2) by auto
    next
      case False
      have "P (rev (succ (key r)) @ st) (seen @ [key r])"
      proof (rule 1)
        have fin: "finite ({k. succ k \<noteq> []} - set seen)" using finite_succ by simp
        show "((rev (succ (key r)) @ st, seen @ [key r]), (stack, seen))
          \<in> measures [\<lambda>(st, se). card ({k. succ k \<noteq> []} - set se), \<lambda>(st, se). length st]"
        proof (cases "succ (key r) = []")
          case True
          then have "{k. succ k \<noteq> []} - set (seen @ [key r]) = {k. succ k \<noteq> []} - set seen"
            by auto
          then show ?thesis using True Cons by simp
        next
          case False
          with \<open>key r \<notin> set seen\<close>
          have "{k. succ k \<noteq> []} - set (seen @ [key r]) \<subset> {k. succ k \<noteq> []} - set seen"
            by auto
          then show ?thesis using psubset_card_mono [OF fin] by simp
        qed
      qed
      with False Cons show ?thesis using assms(3) by simp
    qed
  qed
qed

lemma run_extends: "set seen \<subseteq> set (run stack seen) \<and> key ` set stack \<subseteq> set (run stack seen)"
  by (induction stack seen rule: run_induct) (auto simp: run_nil run_seen run_new)

lemma run_distinct: "distinct seen \<Longrightarrow> distinct (run stack seen)"
  by (induction stack seen rule: run_induct) (auto simp: run_nil run_seen run_new)

lemma run_sound:
  "y \<in> set (run stack seen) \<Longrightarrow> y \<in> set seen \<or> (\<exists>r \<in> set stack. edge\<^sup>*\<^sup>* (key r) y)"
proof (induction stack seen rule: run_induct)
  case (New r stack seen)
  from New.IH New.prems
  consider "y \<in> set (seen @ [key r])" | s where "s \<in> set (succ (key r))" "edge\<^sup>*\<^sup>* (key s) y"
    | s where "s \<in> set stack" "edge\<^sup>*\<^sup>* (key s) y"
    by (auto simp: run_new [OF New.hyps])
  then show ?case
  proof cases
    case 2
    then have "edge (key r) (key s)" by (auto simp: key_edge_def)
    with 2 show ?thesis by (auto intro: converse_rtranclp_into_rtranclp)
  qed auto
qed (auto simp: run_nil run_seen)

lemma run_closed:
  "(\<forall>k \<in> set seen. key ` set (succ k) \<subseteq> set seen \<union> key ` set stack) \<Longrightarrow>
   k \<in> set (run stack seen) \<Longrightarrow> edge k k' \<Longrightarrow> k' \<in> set (run stack seen)"
proof (induction stack seen rule: run_induct)
  case (Nil seen)
  then show ?case by (auto simp: run_nil key_edge_def)
next
  case (Seen r stack seen)
  from Seen.prems(1) Seen.hyps
  have "\<forall>k \<in> set seen. key ` set (succ k) \<subseteq> set seen \<union> key ` set stack"
    by (simp add: insert_absorb subset_iff)
  with Seen show ?case by (simp add: run_seen)
next
  case (New r stack seen)
  from New.prems(1)
  have "\<forall>k \<in> set (seen @ [key r]). key ` set (succ k)
      \<subseteq> set (seen @ [key r]) \<union> key ` set (rev (succ (key r)) @ stack)"
    by auto
  with New show ?case by (simp add: run_new)
qed

text \<open>The walk visits exactly what is reachable from its start references.\<close>

lemma run_reach: "set (run stack []) = {y. \<exists>r \<in> set stack. edge\<^sup>*\<^sup>* (key r) y}"
proof
  show "set (run stack []) \<subseteq> {y. \<exists>r \<in> set stack. edge\<^sup>*\<^sup>* (key r) y}"
    using run_sound by fastforce
next
  have "y \<in> set (run stack [])" if "r \<in> set stack" "edge\<^sup>*\<^sup>* (key r) y" for r y
    using that(2)
  proof (induction rule: rtranclp_induct)
    case base
    then show ?case using run_extends that(1) by fastforce
  next
    case (step y z)
    then show ?case using run_closed [of "[]" stack y z] by simp
  qed
  then show "{y. \<exists>r \<in> set stack. edge\<^sup>*\<^sup>* (key r) y} \<subseteq> set (run stack [])" by blast
qed

end

end
