(* ===== verification/DependencyGraph.thy ===== *)
theory DependencyGraph
  imports Prelude
begin

text \<open>
  The backlog's dependency graph, \<open>pipeline-cli/src/deps/dependency-graph.ts\<close>: the nodes the
  two backlog directories give, the frontier of dispatchable tasks, the transitive blockers and
  impact of a task, and the check that runs before a task starts. Nodes are keyed by lower-case
  id. What \<open>readDir\<close> returns for each directory is an input (the parsed nodes in directory
  order); \<open>localeCompare\<close> with the \<open>numeric\<close> option is the parameter \<open>lc\<close>.
\<close>

section \<open>Data\<close>

datatype TaskStatus = Open | Completed

datatype ExternalDependencyKind = NpmVersion | GithubPr | UrlHead | Manual | Other

record ExternalDependency =
  extId :: string
  extDescription :: string
  extKind :: ExternalDependencyKind
  resolverHint :: "string option"

record DependencyNode =
  nodeId :: string
  status :: TaskStatus
  fileLocation :: TaskStatus
  frontmatterStatus :: string
  priority :: string
  title :: string
  dependencies :: "string list"
  externalDependencies :: "ExternalDependency list"
  lastModified :: string
  filePath :: string
  parentTaskId :: string

record DependencyGraph =
  nodes :: "(string, DependencyNode) jsmap"
  openIds :: "string list"
  completedIds :: "string list"

type_synonym collation = "string \<Rightarrow> string \<Rightarrow> int"

definition isDoneStatus :: "string \<Rightarrow> bool" where
  "isDoneStatus s = (let t = toLowerCase (trim s)
     in t = ''done'' \<or> t = ''completed'' \<or> t = ''shipped'')"

section \<open>Building the graph\<close>

text \<open>One open-directory node: a Done status reclassifies it as completed.\<close>

definition add_open_node :: "DependencyNode \<Rightarrow> DependencyGraph \<Rightarrow> DependencyGraph" where
  "add_open_node n g = (let key = toLowerCase (nodeId n) in
     if isDoneStatus (frontmatterStatus n)
     then g\<lparr>nodes := map_set key (n\<lparr>status := Completed\<rparr>) (nodes g),
            completedIds := completedIds g @ [key]\<rparr>
     else g\<lparr>nodes := map_set key n (nodes g), openIds := openIds g @ [key]\<rparr>)"

text \<open>One completed-directory node: it replaces any earlier node of the same key.\<close>

definition add_completed_node :: "DependencyNode \<Rightarrow> DependencyGraph \<Rightarrow> DependencyGraph" where
  "add_completed_node n g = (let key = toLowerCase (nodeId n);
       cids = (if map_of (nodes g) key \<noteq> None then remove1 key (completedIds g)
               else completedIds g)
     in g\<lparr>nodes := map_set key n (nodes g), completedIds := cids @ [key]\<rparr>)"

definition empty_graph :: DependencyGraph where
  "empty_graph = \<lparr>nodes = [], openIds = [], completedIds = []\<rparr>"

definition buildDependencyGraph ::
  "DependencyNode list \<Rightarrow> DependencyNode list \<Rightarrow> DependencyGraph" where
  "buildDependencyGraph tasks completed =
     fold add_completed_node completed (fold add_open_node tasks empty_graph)"

section \<open>Frontier\<close>

record FrontierEntry =
  feId :: string
  feTitle :: string
  feDependencies :: "string list"

definition isInProgressStatus :: "string \<Rightarrow> bool" where
  "isInProgressStatus s = (toLowerCase (trim s) = ''in progress'')"

fun deps_completed :: "DependencyGraph \<Rightarrow> string list \<Rightarrow> bool" where
  "deps_completed g [] = True"
| "deps_completed g (dep # deps) =
     (case map_of (nodes g) (toLowerCase dep) of
        None \<Rightarrow> False
      | Some d \<Rightarrow> (if status d \<noteq> Completed then False else deps_completed g deps))"

definition allDependenciesCompleted :: "DependencyNode \<Rightarrow> DependencyGraph \<Rightarrow> bool" where
  "allDependenciesCompleted n g = deps_completed g (dependencies n)"

fun frontier_loop :: "DependencyGraph \<Rightarrow> string list \<Rightarrow> FrontierEntry list" where
  "frontier_loop g [] = []"
| "frontier_loop g (openId # ids) =
     (case map_of (nodes g) openId of
        None \<Rightarrow> frontier_loop g ids
      | Some n \<Rightarrow>
          (if isInProgressStatus (frontmatterStatus n) then frontier_loop g ids
           else if allDependenciesCompleted n g
           then \<lparr>feId = nodeId n, feTitle = title n, feDependencies = dependencies n\<rparr>
                  # frontier_loop g ids
           else frontier_loop g ids))"

definition frontier :: "collation \<Rightarrow> DependencyGraph \<Rightarrow> FrontierEntry list" where
  "frontier lc g = sort_by (\<lambda>a b. lc (feId a) (feId b)) (frontier_loop g (openIds g))"

section \<open>Transitive blockers and impact\<close>

text \<open>
  The loops return the visited keys with the collected nodes; the code keeps both in local
  variables. The stack has its top first, so pushing a list pushes it reversed.
\<close>

function blockers_loop :: "DependencyGraph \<Rightarrow> string list \<Rightarrow> string list \<Rightarrow>
    DependencyNode list \<Rightarrow> string list \<times> DependencyNode list" where
  "blockers_loop g [] visited out = (visited, out)"
| "blockers_loop g (nxt # stack) visited out =
     (let key = toLowerCase nxt in
      if key \<in> set visited then blockers_loop g stack visited out
      else case map_of (nodes g) key of
          None \<Rightarrow> blockers_loop g stack (visited @ [key]) out
        | Some n \<Rightarrow> blockers_loop g (rev (dependencies n) @ stack) (visited @ [key])
            (if status n = Open then out @ [n] else out))"
  by pat_completeness auto
termination
proof (relation "measures [\<lambda>(g, st, vis, out). card (set (map_keys (nodes g)) - set vis),
    \<lambda>(g, st, vis, out). length st]", goal_cases)
  case (3 g nxt stack visited out key)
  then show ?case by (simp add: map_of_None_keys)
next
  case (4 g nxt stack visited out key n)
  then show ?case using visit_measure [OF map_of_Some_keys [OF 4(3)] 4(2)] by simp
qed simp_all

definition blockers :: "collation \<Rightarrow> DependencyGraph \<Rightarrow> string \<Rightarrow> DependencyNode list" where
  "blockers lc g taskId =
     (case map_of (nodes g) (toLowerCase taskId) of
        None \<Rightarrow> []
      | Some start \<Rightarrow> sort_by (\<lambda>a b. lc (nodeId a) (nodeId b))
          (snd (blockers_loop g (rev (dependencies start)) [] [])))"

text \<open>The reverse adjacency: for each dependency key the ids of the nodes that name it.\<close>

type_synonym reverse_map = "(string, string list) jsmap"

definition reverse_get :: "reverse_map \<Rightarrow> string \<Rightarrow> string list" where
  "reverse_get r k = (case map_of r k of None \<Rightarrow> [] | Some arr \<Rightarrow> arr)"

fun reverse_node :: "string \<Rightarrow> string list \<Rightarrow> reverse_map \<Rightarrow> reverse_map" where
  "reverse_node nid [] r = r"
| "reverse_node nid (dep # deps) r =
     (let key = toLowerCase dep
      in reverse_node nid deps (map_set key (reverse_get r key @ [nid]) r))"

fun reverse_adjacency :: "DependencyNode list \<Rightarrow> reverse_map \<Rightarrow> reverse_map" where
  "reverse_adjacency [] r = r"
| "reverse_adjacency (n # ns) r = reverse_adjacency ns (reverse_node (nodeId n) (dependencies n) r)"

function impact_loop :: "DependencyGraph \<Rightarrow> reverse_map \<Rightarrow> string list \<Rightarrow> string list \<Rightarrow>
    DependencyNode list \<Rightarrow> string list \<times> DependencyNode list" where
  "impact_loop g r [] visited out = (visited, out)"
| "impact_loop g r (nxt # stack) visited out =
     (let key = toLowerCase nxt in
      if key \<in> set visited then impact_loop g r stack visited out
      else case map_of (nodes g) key of
          None \<Rightarrow> impact_loop g r stack (visited @ [key]) out
        | Some n \<Rightarrow> impact_loop g r (rev (reverse_get r key) @ stack) (visited @ [key])
            (if status n = Open then out @ [n] else out))"
  by pat_completeness auto
termination
proof (relation "measures [\<lambda>(g, r, st, vis, out). card (set (map_keys (nodes g)) - set vis),
    \<lambda>(g, r, st, vis, out). length st]", goal_cases)
  case (3 g r nxt stack visited out key)
  then show ?case by (simp add: map_of_None_keys)
next
  case (4 g r nxt stack visited out key n)
  then show ?case using visit_measure [OF map_of_Some_keys [OF 4(3)] 4(2)] by simp
qed simp_all

definition impact :: "collation \<Rightarrow> DependencyGraph \<Rightarrow> string \<Rightarrow> DependencyNode list" where
  "impact lc g taskId =
     (case map_of (nodes g) (toLowerCase taskId) of
        None \<Rightarrow> []
      | Some start \<Rightarrow>
          (let r = reverse_adjacency (map snd (nodes g)) []
           in sort_by (\<lambda>a b. lc (nodeId a) (nodeId b))
             (snd (impact_loop g r (rev (reverse_get r (toLowerCase (nodeId start)))) [] []))))"

section \<open>Dangling references and the pre-flight check\<close>

record DanglingRef =
  drSource :: string
  drMissing :: string

definition node_dangling :: "DependencyGraph \<Rightarrow> DependencyNode \<Rightarrow> DanglingRef list" where
  "node_dangling g n = map (\<lambda>dep. \<lparr>drSource = nodeId n, drMissing = dep\<rparr>)
     (filter (\<lambda>dep. map_of (nodes g) (toLowerCase dep) = None) (dependencies n))"

definition graph_dangling :: "DependencyGraph \<Rightarrow> DanglingRef list" where
  "graph_dangling g = concat (map (\<lambda>e. node_dangling g (snd e)) (nodes g))"

datatype PreflightReason =
    NoReason
  | UnknownTask string
  | AlreadyShipped string
  | NotReady "string list" "string list"

record PreflightResult =
  prOk :: bool
  prReason :: PreflightReason
  prBlockers :: "DependencyNode list"
  prDangling :: "DanglingRef list"

definition preflight :: "collation \<Rightarrow> DependencyGraph \<Rightarrow> string \<Rightarrow> PreflightResult" where
  "preflight lc g taskId =
     (case map_of (nodes g) (toLowerCase taskId) of
        None \<Rightarrow> \<lparr>prOk = False, prReason = UnknownTask taskId, prBlockers = [], prDangling = []\<rparr>
      | Some target \<Rightarrow>
          if status target = Completed
          then \<lparr>prOk = False, prReason = AlreadyShipped (nodeId target), prBlockers = [], prDangling = []\<rparr>
          else (let dangling = node_dangling g target; openBlockers = blockers lc g taskId in
            if openBlockers = [] \<and> dangling = []
            then \<lparr>prOk = True, prReason = NoReason, prBlockers = [], prDangling = []\<rparr>
            else \<lparr>prOk = False,
                  prReason = NotReady (map nodeId openBlockers) (map drMissing dangling),
                  prBlockers = openBlockers, prDangling = dangling\<rparr>))"

end
