(* ===== verification/DependencyFacts.thy ===== *)
theory DependencyFacts
  imports DependencyGraph
begin

text \<open>
  What the dependency-graph operations compute: the graph a build gives is well formed, the
  frontier lists exactly the tasks whose dependencies are completed, blockers and impact are the
  open part of the transitive closure in each direction, and the pre-flight check is stricter
  than the frontier.
\<close>

section \<open>The edge relation\<close>

definition node_deps :: "DependencyGraph \<Rightarrow> string \<Rightarrow> string list" where
  "node_deps g k = (case map_of (nodes g) k of None \<Rightarrow> [] | Some n \<Rightarrow> dependencies n)"

abbreviation dep_edge :: "DependencyGraph \<Rightarrow> string \<Rightarrow> string \<Rightarrow> bool" where
  "dep_edge g \<equiv> key_edge toLowerCase (node_deps g)"

definition open_of :: "DependencyGraph \<Rightarrow> string list \<Rightarrow> DependencyNode list" where
  "open_of g ks = concat (map (\<lambda>k. case map_of (nodes g) k of
      Some n \<Rightarrow> if status n = Open then [n] else [] | None \<Rightarrow> []) ks)"

lemma open_of_simps [simp]:
  "open_of g [] = []"
  "open_of g (xs @ ys) = open_of g xs @ open_of g ys"
  "open_of g (k # ks) = (case map_of (nodes g) k of
      Some n \<Rightarrow> if status n = Open then [n] else [] | None \<Rightarrow> []) @ open_of g ks"
  by (simp_all add: open_of_def)

lemma set_open_of:
  "set (open_of g ks) = {n. \<exists>k \<in> set ks. map_of (nodes g) k = Some n \<and> status n = Open}"
  by (induction ks) (auto split: option.splits if_splits)

lemma finite_node_deps: "finite {k. node_deps g k \<noteq> []}"
proof (rule finite_subset)
  show "{k. node_deps g k \<noteq> []} \<subseteq> set (map_keys (nodes g))"
    by (auto simp: node_deps_def map_of_Some_keys split: option.splits)
qed simp

section \<open>Blockers\<close>

lemma blockers_loop_fst:
  "fst (blockers_loop g st vis out) = fst (blockers_loop g st vis out')"
proof (induction g st vis out arbitrary: out' rule: blockers_loop.induct)
  case (2 g nxt stack visited out)
  let ?k = "toLowerCase nxt"
  show ?case
  proof (cases "?k \<in> set visited")
    case True
    then show ?thesis using "2.IH"(1) [of ?k out'] by (simp add: Let_def)
  next
    case False
    show ?thesis
    proof (cases "map_of (nodes g) ?k")
      case None
      with False show ?thesis using "2.IH"(2) [of ?k out'] by (simp add: Let_def)
    next
      case (Some n)
      with False show ?thesis
        using "2.IH"(3) [of ?k n "if status n = Open then out' @ [n] else out'"]
        by (simp add: Let_def)
    qed
  qed
qed simp

lemma blockers_loop_out:
  "\<exists>new. blockers_loop g st vis out = (vis @ new, out @ open_of g new)"
proof (induction g st vis out rule: blockers_loop.induct)
  case (2 g nxt stack visited out)
  let ?k = "toLowerCase nxt"
  show ?case
  proof (cases "?k \<in> set visited")
    case True
    then show ?thesis using "2.IH"(1) by (simp add: Let_def)
  next
    case False
    show ?thesis
    proof (cases "map_of (nodes g) ?k")
      case None
      with "2.IH"(2) False obtain new where
        "blockers_loop g stack (visited @ [?k]) out = (visited @ ?k # new, out @ open_of g new)"
        by auto
      with None False show ?thesis by (intro exI [of _ "?k # new"]) (simp add: Let_def)
    next
      case (Some n)
      with "2.IH"(3) [of ?k n] False obtain new where
        "blockers_loop g (rev (dependencies n) @ stack) (visited @ [?k])
           (if status n = Open then out @ [n] else out)
         = (visited @ ?k # new, (if status n = Open then out @ [n] else out) @ open_of g new)"
        by auto
      with Some False show ?thesis by (intro exI [of _ "?k # new"]) (simp add: Let_def)
    qed
  qed
qed simp

lemma blockers_loop_snd:
  "snd (blockers_loop g st [] []) = open_of g (fst (blockers_loop g st [] []))"
  using blockers_loop_out [of g st "[]" "[]"] by auto

interpretation blk: worklist toLowerCase "node_deps g" "\<lambda>st seen. fst (blockers_loop g st seen [])"
  for g
proof
  fix r stack seen
  assume "toLowerCase r \<notin> set seen"
  then show "fst (blockers_loop g (r # stack) seen [])
    = fst (blockers_loop g (rev (node_deps g (toLowerCase r)) @ stack) (seen @ [toLowerCase r]) [])"
    using blockers_loop_fst by (auto simp: Let_def node_deps_def split: option.split)
qed (simp_all add: Let_def finite_node_deps)

lemma set_blockers:
  "set (blockers lc g t) =
     {n. \<exists>k. (dep_edge g)\<^sup>+\<^sup>+ (toLowerCase t) k \<and> map_of (nodes g) k = Some n \<and> status n = Open}"
proof (cases "map_of (nodes g) (toLowerCase t)")
  case None
  then have "\<not> dep_edge g (toLowerCase t) k" for k
    by (simp add: key_edge_def node_deps_def)
  then have "\<not> (dep_edge g)\<^sup>+\<^sup>+ (toLowerCase t) k" for k
    by (meson tranclpD)
  with None show ?thesis by (simp add: blockers_def)
next
  case (Some s)
  then have deps: "node_deps g (toLowerCase t) = dependencies s"
    by (simp add: node_deps_def)
  have "set (blockers lc g t) = set (open_of g (fst (blockers_loop g (rev (dependencies s)) [] [])))"
    using Some by (simp add: blockers_def blockers_loop_snd)
  also have "\<dots> = {n. \<exists>k. (\<exists>r \<in> set (dependencies s). (dep_edge g)\<^sup>*\<^sup>* (toLowerCase r) k)
      \<and> map_of (nodes g) k = Some n \<and> status n = Open}"
    by (auto simp: set_open_of blk.run_reach)
  finally show ?thesis by (simp add: key_edge_trancl deps)
qed

section \<open>Well-formed graphs\<close>

definition wf_graph :: "DependencyGraph \<Rightarrow> bool" where
  "wf_graph g \<longleftrightarrow> distinct (map_keys (nodes g)) \<and>
     (\<forall>e \<in> set (nodes g). fst e = toLowerCase (nodeId (snd e)))"

lemma wf_graph_key: "wf_graph g \<Longrightarrow> map_of (nodes g) k = Some n \<Longrightarrow> toLowerCase (nodeId n) = k"
  by (drule map_of_SomeD) (auto simp: wf_graph_def)

lemma wf_graph_node:
  "wf_graph g \<Longrightarrow> n \<in> snd ` set (nodes g) \<longleftrightarrow> map_of (nodes g) (toLowerCase (nodeId n)) = Some n"
  by (force simp: wf_graph_def map_keys_def map_of_eq_Some_iff)

lemma set_map_set:
  "distinct (map_keys m) \<Longrightarrow> set (map_set k v m) = {e \<in> set m. fst e \<noteq> k} \<union> {(k, v)}"
  unfolding map_set_def map_keys_def by (induction m) (auto simp: image_iff)

lemma wf_graph_map_set:
  "wf_graph g \<Longrightarrow> nodes g' = map_set (toLowerCase (nodeId n)) n (nodes g) \<Longrightarrow> wf_graph g'"
  by (auto simp: wf_graph_def set_map_set)

lemma nodeId_status [simp]: "nodeId (n\<lparr>status := s\<rparr>) = nodeId n"
  by simp

lemma wf_add_open: "wf_graph g \<Longrightarrow> wf_graph (add_open_node n g)"
  by (cases "isDoneStatus (frontmatterStatus n)")
    (auto simp: add_open_node_def Let_def wf_graph_def set_map_set)

lemma wf_add_completed: "wf_graph g \<Longrightarrow> wf_graph (add_completed_node n g)"
  by (rule wf_graph_map_set [where n = n]) (simp_all add: add_completed_node_def Let_def)

lemma fold_invariant: "(\<And>n acc. n \<in> set ns \<Longrightarrow> P acc \<Longrightarrow> P (add n acc)) \<Longrightarrow> P start \<Longrightarrow> P (fold add ns start)"
  by (induction ns arbitrary: start) auto

lemma wf_buildDependencyGraph: "wf_graph (buildDependencyGraph ts cs)"
proof -
  have "wf_graph empty_graph" by (simp add: wf_graph_def empty_graph_def map_keys_def)
  then have "wf_graph (fold add_open_node ts empty_graph)"
    using fold_invariant [of ts wf_graph add_open_node empty_graph] wf_add_open by blast
  then show ?thesis
    unfolding buildDependencyGraph_def
    using fold_invariant [of cs wf_graph add_completed_node] wf_add_completed by blast
qed

section \<open>Impact\<close>

lemma reverse_get_Nil [simp]: "reverse_get [] k = []"
  by (simp add: reverse_get_def)

lemma reverse_get_map_set [simp]:
  "reverse_get (map_set k v r) k' = (if k' = k then v else reverse_get r k')"
  by (simp add: reverse_get_def)

lemma set_reverse_node:
  "set (reverse_get (reverse_node nid deps r) k) =
     set (reverse_get r k) \<union> (if k \<in> toLowerCase ` set deps then {nid} else {})"
  by (induction nid deps r rule: reverse_node.induct) (auto simp: Let_def)

lemma set_reverse_adjacency:
  "set (reverse_get (reverse_adjacency ns r) k) =
     set (reverse_get r k) \<union> {nodeId n |n. n \<in> set ns \<and> k \<in> toLowerCase ` set (dependencies n)}"
  by (induction ns r rule: reverse_adjacency.induct) (auto simp: set_reverse_node)

definition dependents :: "DependencyGraph \<Rightarrow> reverse_map \<Rightarrow> string \<Rightarrow> string list" where
  "dependents g r k = (case map_of (nodes g) k of None \<Rightarrow> [] | Some _ \<Rightarrow> reverse_get r k)"

lemma finite_dependents: "finite {k. dependents g r k \<noteq> []}"
proof (rule finite_subset)
  show "{k. dependents g r k \<noteq> []} \<subseteq> set (map_keys (nodes g))"
    by (auto simp: dependents_def map_of_Some_keys split: option.splits)
qed simp

lemma impact_loop_fst:
  "fst (impact_loop g r st vis out) = fst (impact_loop g r st vis out')"
proof (induction g r st vis out arbitrary: out' rule: impact_loop.induct)
  case (2 g r nxt stack visited out)
  let ?k = "toLowerCase nxt"
  show ?case
  proof (cases "?k \<in> set visited")
    case True
    then show ?thesis using "2.IH"(1) [of ?k out'] by (simp add: Let_def)
  next
    case False
    show ?thesis
    proof (cases "map_of (nodes g) ?k")
      case None
      with False show ?thesis using "2.IH"(2) [of ?k out'] by (simp add: Let_def)
    next
      case (Some n)
      with False show ?thesis
        using "2.IH"(3) [of ?k n "if status n = Open then out' @ [n] else out'"]
        by (simp add: Let_def)
    qed
  qed
qed simp

lemma impact_loop_out:
  "\<exists>new. impact_loop g r st vis out = (vis @ new, out @ open_of g new)"
proof (induction g r st vis out rule: impact_loop.induct)
  case (2 g r nxt stack visited out)
  let ?k = "toLowerCase nxt"
  show ?case
  proof (cases "?k \<in> set visited")
    case True
    then show ?thesis using "2.IH"(1) by (simp add: Let_def)
  next
    case False
    show ?thesis
    proof (cases "map_of (nodes g) ?k")
      case None
      with "2.IH"(2) False obtain new where
        "impact_loop g r stack (visited @ [?k]) out = (visited @ ?k # new, out @ open_of g new)"
        by auto
      with None False show ?thesis by (intro exI [of _ "?k # new"]) (simp add: Let_def)
    next
      case (Some n)
      with "2.IH"(3) [of ?k n] False obtain new where
        "impact_loop g r (rev (reverse_get r ?k) @ stack) (visited @ [?k])
           (if status n = Open then out @ [n] else out)
         = (visited @ ?k # new, (if status n = Open then out @ [n] else out) @ open_of g new)"
        by auto
      with Some False show ?thesis by (intro exI [of _ "?k # new"]) (simp add: Let_def)
    qed
  qed
qed simp

lemma impact_loop_snd:
  "snd (impact_loop g r st [] []) = open_of g (fst (impact_loop g r st [] []))"
  using impact_loop_out [of g r st "[]" "[]"] by auto

interpretation imp: worklist toLowerCase "dependents g r"
    "\<lambda>st seen. fst (impact_loop g r st seen [])"
  for g r
proof
  fix u stack seen
  assume "toLowerCase u \<notin> set seen"
  then show "fst (impact_loop g r (u # stack) seen [])
    = fst (impact_loop g r (rev (dependents g r (toLowerCase u)) @ stack) (seen @ [toLowerCase u]) [])"
    using impact_loop_fst by (auto simp: Let_def dependents_def split: option.split)
qed (simp_all add: Let_def finite_dependents)

lemma dep_edge_source: "dep_edge g a b \<Longrightarrow> a \<in> set (map_keys (nodes g))"
  by (cases "map_of (nodes g) a") (auto simp: key_edge_def node_deps_def map_of_Some_keys)

lemma dependents_edge:
  assumes "wf_graph g" and "a \<in> set (map_keys (nodes g))"
  shows "key_edge toLowerCase (dependents g (reverse_adjacency (map snd (nodes g)) [])) a b
    \<longleftrightarrow> dep_edge g b a"
proof -
  have "b \<in> toLowerCase ` set (reverse_get (reverse_adjacency (map snd (nodes g)) []) a)
      \<longleftrightarrow> (\<exists>n \<in> snd ` set (nodes g). b = toLowerCase (nodeId n) \<and> a \<in> toLowerCase ` set (dependencies n))"
    by (auto simp: set_reverse_adjacency)
  also have "\<dots> \<longleftrightarrow> (\<exists>n. map_of (nodes g) b = Some n \<and> a \<in> toLowerCase ` set (dependencies n))"
    using wf_graph_node [OF assms(1)] wf_graph_key [OF assms(1)]
    by (metis (no_types, lifting) imageI map_of_SomeD snd_conv)
  finally show ?thesis
    using keys_map_of_Some [OF assms(2)]
    by (cases "map_of (nodes g) b") (auto simp: key_edge_def dependents_def node_deps_def)
qed

lemma dependents_trancl:
  assumes "wf_graph g" and "a \<in> set (map_keys (nodes g))"
  shows "(key_edge toLowerCase (dependents g (reverse_adjacency (map snd (nodes g)) [])))\<^sup>+\<^sup>+ a b
    \<longleftrightarrow> (dep_edge g)\<^sup>+\<^sup>+ b a"
  (is "?R\<^sup>+\<^sup>+ a b \<longleftrightarrow> _")
proof
  assume "?R\<^sup>+\<^sup>+ a b"
  then have "(dep_edge g)\<^sup>+\<^sup>+ b a \<and> b \<in> set (map_keys (nodes g))"
  proof (induction rule: tranclp_induct)
    case (base b)
    then show ?case using dependents_edge [OF assms] dep_edge_source by blast
  next
    case (step b c)
    then have "dep_edge g c b" using dependents_edge [OF assms(1)] by blast
    with step show ?case by (meson dep_edge_source tranclp_into_tranclp2)
  qed
  then show "(dep_edge g)\<^sup>+\<^sup>+ b a" ..
next
  assume "(dep_edge g)\<^sup>+\<^sup>+ b a"
  then show "?R\<^sup>+\<^sup>+ a b"
  proof (induction rule: converse_tranclp_induct)
    case (base y)
    then show ?case using dependents_edge [OF assms] by blast
  next
    case (step y z)
    then have "z \<in> set (map_keys (nodes g))" by (meson dep_edge_source tranclpD)
    with step show ?case using dependents_edge [OF assms(1)] by (meson tranclp.trancl_into_trancl)
  qed
qed

lemma set_impact:
  assumes wf: "wf_graph g" and start: "map_of (nodes g) (toLowerCase t) = Some s"
  shows "set (impact lc g t) =
     {n. \<exists>k. (dep_edge g)\<^sup>+\<^sup>+ k (toLowerCase t) \<and> map_of (nodes g) k = Some n \<and> status n = Open}"
proof -
  let ?r = "reverse_adjacency (map snd (nodes g)) []"
  have key: "toLowerCase (nodeId s) = toLowerCase t" by (rule wf_graph_key [OF wf start])
  have succ: "dependents g ?r (toLowerCase t) = reverse_get ?r (toLowerCase t)"
    using start by (simp add: dependents_def)
  have "set (impact lc g t)
      = set (open_of g (fst (impact_loop g ?r (rev (reverse_get ?r (toLowerCase t))) [] [])))"
    using start key by (simp add: impact_def Let_def impact_loop_snd)
  also have "\<dots> = {n. \<exists>k. (\<exists>u \<in> set (reverse_get ?r (toLowerCase t)).
        (key_edge toLowerCase (dependents g ?r))\<^sup>*\<^sup>* (toLowerCase u) k)
      \<and> map_of (nodes g) k = Some n \<and> status n = Open}"
    by (auto simp: set_open_of imp.run_reach)
  also have "\<dots> = {n. \<exists>k. (key_edge toLowerCase (dependents g ?r))\<^sup>+\<^sup>+ (toLowerCase t) k
      \<and> map_of (nodes g) k = Some n \<and> status n = Open}"
    by (simp add: key_edge_trancl succ)
  finally show ?thesis
    using dependents_trancl [OF wf map_of_Some_keys [OF start]] by simp
qed

end
