(* ===== verification/DependencyProps.thy ===== *)
theory DependencyProps
  imports DependencyFacts
begin

text \<open>
  The properties of the backlog graph, stated on what \<open>buildDependencyGraph\<close> returns for the
  parsed files of the two directories.
\<close>

abbreviation nkey :: "DependencyNode \<Rightarrow> string" where
  "nkey n \<equiv> toLowerCase (nodeId n)"

abbreviation isDone :: "DependencyNode \<Rightarrow> bool" where
  "isDone n \<equiv> isDoneStatus (frontmatterStatus n)"

definition placed :: "DependencyNode \<Rightarrow> DependencyNode" where
  "placed n = (if isDone n then n\<lparr>status := Completed\<rparr> else n)"

definition frontier_entry :: "DependencyNode \<Rightarrow> FrontierEntry" where
  "frontier_entry n = \<lparr>feId = nodeId n, feTitle = title n, feDependencies = dependencies n\<rparr>"

section \<open>What a build contains\<close>

lemma find_key_None: "find (\<lambda>m. nkey m = k) ts = None \<longleftrightarrow> k \<notin> nkey ` set ts"
  by (force simp: find_None_iff image_iff)

lemma fold_open_nodes:
  "distinct (map nkey ts) \<Longrightarrow>
   map_of (nodes (fold add_open_node ts g)) k =
     (case find (\<lambda>n. nkey n = k) ts of Some n \<Rightarrow> Some (placed n) | None \<Rightarrow> map_of (nodes g) k)"
proof (induction ts arbitrary: g)
  case (Cons n ts)
  then have "find (\<lambda>m. nkey m = nkey n) ts = None"
    by (simp add: find_key_None)
  with Cons show ?case
    by (auto simp: add_open_node_def Let_def placed_def split: option.split)
qed simp

lemma fold_completed_nodes:
  "distinct (map nkey cs) \<Longrightarrow>
   map_of (nodes (fold add_completed_node cs g)) k =
     (case find (\<lambda>n. nkey n = k) cs of Some n \<Rightarrow> Some n | None \<Rightarrow> map_of (nodes g) k)"
proof (induction cs arbitrary: g)
  case (Cons n cs)
  then have "find (\<lambda>m. nkey m = nkey n) cs = None"
    by (simp add: find_key_None)
  with Cons show ?case
    by (auto simp: add_completed_node_def Let_def split: option.split)
qed simp

lemma fold_open_openIds:
  "openIds (fold add_open_node ts g) = openIds g @ map nkey (filter (\<lambda>n. \<not> isDone n) ts)"
  by (induction ts arbitrary: g) (auto simp: add_open_node_def Let_def)

lemma fold_completed_openIds:
  "openIds (fold add_completed_node cs g) = openIds g"
  by (induction cs arbitrary: g) (auto simp: add_completed_node_def Let_def)

lemma build_openIds:
  "openIds (buildDependencyGraph ts cs) = map nkey (filter (\<lambda>n. \<not> isDone n) ts)"
  by (simp add: buildDependencyGraph_def fold_completed_openIds fold_open_openIds empty_graph_def)

lemma build_nodes:
  "distinct (map nkey ts) \<Longrightarrow> distinct (map nkey cs) \<Longrightarrow>
   map_of (nodes (buildDependencyGraph ts cs)) k =
     (case find (\<lambda>n. nkey n = k) cs of Some n \<Rightarrow> Some n
      | None \<Rightarrow> map_option placed (find (\<lambda>n. nkey n = k) ts))"
  by (auto simp: buildDependencyGraph_def fold_completed_nodes fold_open_nodes empty_graph_def
      split: option.split)

lemma find_key:
  "distinct (map nkey ts) \<Longrightarrow> n \<in> set ts \<Longrightarrow> find (\<lambda>m. nkey m = nkey n) ts = Some n"
  by (induction ts) auto

lemma find_key_iff:
  "distinct (map nkey ts) \<Longrightarrow> find (\<lambda>m. nkey m = k) ts = Some n \<longleftrightarrow> n \<in> set ts \<and> nkey n = k"
  using find_key by (auto simp: find_Some_iff in_set_conv_nth)

section \<open>Frontier\<close>

lemma deps_completed_iff:
  "deps_completed g deps \<longleftrightarrow>
     (\<forall>d \<in> set deps. \<exists>m. map_of (nodes g) (toLowerCase d) = Some m \<and> status m = Completed)"
  by (induction deps) (auto split: option.split)

lemma set_frontier_loop:
  "set (frontier_loop g ids) = {frontier_entry n |n k. k \<in> set ids \<and> map_of (nodes g) k = Some n
     \<and> \<not> isInProgressStatus (frontmatterStatus n) \<and> deps_completed g (dependencies n)}"
  by (induction ids)
    (auto simp: frontier_entry_def allDependenciesCompleted_def split: option.split)

lemma build_status_completed:
  assumes "distinct (map nkey ts)" "distinct (map nkey cs)" "\<forall>n \<in> set ts. status n = Open"
    "\<forall>n \<in> set cs. status n = Completed"
  shows "(\<exists>m. map_of (nodes (buildDependencyGraph ts cs)) k = Some m \<and> status m = Completed)
    \<longleftrightarrow> (\<exists>m \<in> set cs. nkey m = k) \<or> (\<exists>m \<in> set ts. nkey m = k \<and> isDone m)"
proof (cases "find (\<lambda>n. nkey n = k) cs")
  case (Some c)
  with assms have m: "map_of (nodes (buildDependencyGraph ts cs)) k = Some c"
    by (simp add: build_nodes)
  from Some assms have "c \<in> set cs" "nkey c = k"
    by (simp_all add: find_key_iff)
  with assms m show ?thesis by auto
next
  case None
  have "(\<exists>m. find (\<lambda>n. nkey n = k) ts = Some m \<and> status (placed m) = Completed)
    \<longleftrightarrow> (\<exists>m \<in> set ts. nkey m = k \<and> isDone m)"
    using assms by (auto simp: find_key_iff placed_def)
  moreover have "\<not> (\<exists>m \<in> set cs. nkey m = k)"
    using None by (auto simp: find_key_None)
  ultimately show ?thesis using assms None by (auto simp: build_nodes)
qed

text \<open>C1. When neither directory holds an id twice, and an id in both is done in the open directory too, the
  frontier holds exactly the tasks of the open directory that are neither done nor in progress and whose
  every dependency is a file of the completed directory or a stale open file whose status is done. An
  unknown dependency id keeps a task off the frontier.\<close>

theorem frontier_exact:
  assumes "distinct (map nkey ts)" and "distinct (map nkey cs)"
    and "\<forall>n \<in> set ts. nkey n \<in> nkey ` set cs \<longrightarrow> isDone n"
    and "\<forall>n \<in> set ts. status n = Open" and "\<forall>n \<in> set cs. status n = Completed"
  shows "set (frontier lc (buildDependencyGraph ts cs)) =
    {frontier_entry n |n. n \<in> set ts \<and> \<not> isDone n \<and> \<not> isInProgressStatus (frontmatterStatus n)
       \<and> (\<forall>d \<in> set (dependencies n). (\<exists>m \<in> set cs. nkey m = toLowerCase d)
            \<or> (\<exists>m \<in> set ts. nkey m = toLowerCase d \<and> isDone m))}"
proof -
  let ?g = "buildDependencyGraph ts cs"
  have node: "k \<in> set (openIds ?g) \<and> map_of (nodes ?g) k = Some n
      \<longleftrightarrow> n \<in> set ts \<and> \<not> isDone n \<and> nkey n = k" for k n
  proof -
    have "find (\<lambda>n. nkey n = nkey m) cs = None" if "m \<in> set ts" "\<not> isDone m" for m
      using assms(3) that by (auto simp: find_key_None)
    then show ?thesis
      using assms(1,2) find_key [of ts]
      by (auto simp: build_openIds build_nodes placed_def)
  qed
  have "set (frontier lc ?g) = {frontier_entry n |n k. k \<in> set (openIds ?g)
      \<and> map_of (nodes ?g) k = Some n \<and> \<not> isInProgressStatus (frontmatterStatus n)
      \<and> deps_completed ?g (dependencies n)}"
    by (simp add: frontier_def set_frontier_loop)
  also have "\<dots> = {frontier_entry n |n. n \<in> set ts \<and> \<not> isDone n
      \<and> \<not> isInProgressStatus (frontmatterStatus n) \<and> deps_completed ?g (dependencies n)}"
    using node by blast
  finally show ?thesis
    by (simp only: deps_completed_iff build_status_completed [OF assms(1,2,4,5)])
qed

definition sample_node :: "string \<Rightarrow> TaskStatus \<Rightarrow> string \<Rightarrow> string list \<Rightarrow> DependencyNode" where
  "sample_node i st fm deps = \<lparr>nodeId = i, status = st, fileLocation = st, frontmatterStatus = fm,
     priority = '''', title = '''', dependencies = deps, externalDependencies = [],
     lastModified = '''', filePath = '''', parentTaskId = ''''\<rparr>"

lemma sample_node_simps [simp]:
  "nodeId (sample_node i st fm deps) = i" "status (sample_node i st fm deps) = st"
  "frontmatterStatus (sample_node i st fm deps) = fm" "title (sample_node i st fm deps) = ''''"
  "dependencies (sample_node i st fm deps) = deps" "priority (sample_node i st fm deps) = ''''"
  by (simp_all add: sample_node_def)

text \<open>A collation for the witnesses: code-unit order.\<close>

definition code_unit_order :: collation where
  "code_unit_order s t = (if s = t then 0 else if str_less s t then - 1 else 1)"

abbreviation task_a :: DependencyNode where
  "task_a \<equiv> sample_node ''A'' Open ''To Do'' [''b'']"

abbreviation task_b :: DependencyNode where
  "task_b \<equiv> sample_node ''B'' Completed ''Done'' []"

abbreviation task_d :: DependencyNode where
  "task_d \<equiv> sample_node ''D'' Open ''To Do'' [''a'']"

abbreviation stale_b :: DependencyNode where
  "stale_b \<equiv> sample_node ''b'' Open ''Done'' []"

theorem frontier_exact_witness:
  "frontier_entry task_a \<in> set (frontier code_unit_order (buildDependencyGraph [task_a, task_d, stale_b] [task_b]))
    \<and> frontier_entry task_d \<notin> set (frontier code_unit_order (buildDependencyGraph [task_a, task_d, stale_b] [task_b]))"
proof -
  have "distinct (map nkey [task_a, task_d, stale_b])" and "distinct (map nkey [task_b])"
    and "\<forall>n \<in> set [task_a, task_d, stale_b]. nkey n \<in> nkey ` set [task_b] \<longrightarrow> isDone n"
    and "\<forall>n \<in> set [task_a, task_d, stale_b]. status n = Open" "\<forall>n \<in> set [task_b]. status n = Completed"
    by code_simp+
  note exact = frontier_exact [OF this]
  have "\<not> isDone task_a \<and> \<not> isInProgressStatus (frontmatterStatus task_a)
    \<and> (\<forall>d \<in> set (dependencies task_a). \<exists>m \<in> set [task_b]. nkey m = toLowerCase d)"
    by code_simp
  then have "frontier_entry task_a \<in> set (frontier code_unit_order (buildDependencyGraph [task_a, task_d, stale_b] [task_b]))"
    unfolding exact by auto
  moreover have off: "\<not> (\<exists>m \<in> set [task_b]. nkey m = toLowerCase ''a'')"
    "\<not> (\<exists>m \<in> set [task_a, task_d, stale_b]. nkey m = toLowerCase ''a'' \<and> isDone m)"
    by code_simp+
  have "''a'' \<in> set (dependencies n)" if "frontier_entry task_d = frontier_entry n" for n
  proof -
    have "dependencies n = dependencies task_d" using that by (simp add: frontier_entry_def)
    then show ?thesis by simp
  qed
  then have "frontier_entry task_d \<notin> set (frontier code_unit_order (buildDependencyGraph [task_a, task_d, stale_b] [task_b]))"
    unfolding exact using off by blast
  ultimately show ?thesis ..
qed

text \<open>A task whose id is in both directories, the open copy with a status that is not done,
  is put on the frontier although its node is the completed one: \<open>openIds\<close> keeps the id when the
  completed node replaces the open one.\<close>

theorem frontier_redispatches_completed:
  assumes "nkey a = nkey c" and "\<not> isDone a" and "status c = Completed"
    and "\<not> isInProgressStatus (frontmatterStatus c)" and "dependencies c = []"
  shows "frontier_entry c \<in> set (frontier lc (buildDependencyGraph [a] [c]))
    \<and> map_of (nodes (buildDependencyGraph [a] [c])) (nkey c) = Some c"
proof -
  have node: "map_of (nodes (buildDependencyGraph [a] [c])) (nkey c) = Some c"
    by (simp add: build_nodes)
  moreover have "nkey c \<in> set (openIds (buildDependencyGraph [a] [c]))"
    using assms(1,2) by (simp add: build_openIds)
  ultimately show ?thesis
    using assms(4,5) by (force simp: frontier_def set_frontier_loop)
qed

theorem frontier_redispatches_completed_witness:
  "frontier_entry (sample_node ''T-1'' Completed ''Done'' [])
     \<in> set (frontier code_unit_order (buildDependencyGraph
         [sample_node ''t-1'' Open ''To Do'' []] [sample_node ''T-1'' Completed ''Done'' []]))"
proof -
  let ?a = "sample_node ''t-1'' Open ''To Do'' []" and ?c = "sample_node ''T-1'' Completed ''Done'' []"
  have "nkey ?a = nkey ?c" "\<not> isDone ?a" "\<not> isInProgressStatus (frontmatterStatus ?c)"
    by code_simp+
  then show ?thesis
    using frontier_redispatches_completed [of ?a ?c code_unit_order] by simp
qed

section \<open>Blockers and impact\<close>

lemma open_of_distinct:
  assumes "wf_graph g" and "distinct ks"
  shows "distinct (open_of g ks)"
  using assms(2)
proof (induction ks)
  case (Cons k ks)
  then show ?case
    using wf_graph_key [OF assms(1)] by (auto simp: set_open_of split: option.split)
qed simp

text \<open>The blockers of a task are, without repetition, exactly the open tasks reachable from
  it by one or more dependency edges; dangling references are skipped.\<close>

theorem blockers_exact:
  "distinct (blockers lc (buildDependencyGraph ts cs) t)
   \<and> set (blockers lc (buildDependencyGraph ts cs) t) =
     {n. \<exists>k. (dep_edge (buildDependencyGraph ts cs))\<^sup>+\<^sup>+ (toLowerCase t) k
       \<and> map_of (nodes (buildDependencyGraph ts cs)) k = Some n \<and> status n = Open}"
proof -
  let ?g = "buildDependencyGraph ts cs"
  have "distinct (open_of ?g (fst (blockers_loop ?g st [] [])))" for st
    using open_of_distinct [OF wf_buildDependencyGraph] blk.run_distinct [of "[]" ?g st] by simp
  then have "distinct (blockers lc ?g t)"
    by (simp add: blockers_def blockers_loop_snd split: option.split)
  then show ?thesis by (simp add: set_blockers)
qed

text \<open>Impact is the converse of blockers: the tasks an open task unblocks are exactly the open
  tasks that have it among their blockers.\<close>

theorem impact_dual:
  assumes "map_of (nodes (buildDependencyGraph ts cs)) (toLowerCase t) = Some a"
    and "status a = Open"
  shows "set (impact lc (buildDependencyGraph ts cs) t) =
    {b. \<exists>k. map_of (nodes (buildDependencyGraph ts cs)) k = Some b \<and> status b = Open
          \<and> a \<in> set (blockers lc (buildDependencyGraph ts cs) (nodeId b))}"
proof -
  let ?g = "buildDependencyGraph ts cs"
  note wf = wf_buildDependencyGraph [of ts cs]
  have uniq: "map_of (nodes ?g) k = Some a \<longleftrightarrow> k = toLowerCase t" for k
    using wf_graph_key [OF wf] assms(1) by metis
  have mem: "a \<in> set (blockers lc ?g (nodeId b)) \<longleftrightarrow> (dep_edge ?g)\<^sup>+\<^sup>+ (nkey b) (toLowerCase t)" for b
    by (simp add: set_blockers uniq assms(2))
  have "nkey b = k" if "map_of (nodes ?g) k = Some b" for b k
    by (rule wf_graph_key [OF wf that])
  then have "map_of (nodes ?g) k = Some b \<and> status b = Open \<and> (dep_edge ?g)\<^sup>+\<^sup>+ (nkey b) (toLowerCase t)
      \<longleftrightarrow> (dep_edge ?g)\<^sup>+\<^sup>+ k (toLowerCase t) \<and> map_of (nodes ?g) k = Some b \<and> status b = Open" for b k
    by metis
  then show ?thesis by (simp only: set_impact [OF wf assms(1)] mem)
qed

theorem impact_dual_witness:
  "map_of (nodes (buildDependencyGraph [task_a, task_d] [])) (toLowerCase ''A'') = Some task_a
   \<and> task_d \<in> set (impact code_unit_order (buildDependencyGraph [task_a, task_d] []) ''A'')
   \<and> task_a \<in> set (blockers code_unit_order (buildDependencyGraph [task_a, task_d] []) ''D'')"
proof -
  let ?g = "buildDependencyGraph [task_a, task_d] []"
  have a: "map_of (nodes ?g) (toLowerCase ''A'') = Some task_a" by code_simp
  have d: "map_of (nodes ?g) (toLowerCase ''D'') = Some task_d" by code_simp
  have b: "task_a \<in> set (blockers code_unit_order ?g ''D'')" by code_simp
  have "task_d \<in> set (impact code_unit_order ?g ''A'')"
    using impact_dual [OF a] b d by auto
  with a b show ?thesis by simp
qed

section \<open>The pre-flight check\<close>

lemma not_Open: "x \<noteq> Open \<longleftrightarrow> x = Completed"
  by (cases x) simp_all

lemma blockers_Nil_iff:
  "blockers lc g t = [] \<longleftrightarrow>
     (\<forall>k n. (dep_edge g)\<^sup>+\<^sup>+ (toLowerCase t) k \<longrightarrow> map_of (nodes g) k = Some n \<longrightarrow> status n = Completed)"
proof -
  have "blockers lc g t = [] \<longleftrightarrow> set (blockers lc g t) = {}" by simp
  then show ?thesis unfolding set_blockers not_Open [symmetric] by blast
qed

lemma preflight_ok_cases:
  "prOk (preflight lc g t) \<longleftrightarrow>
     (\<exists>s. map_of (nodes g) (toLowerCase t) = Some s \<and> status s = Open
        \<and> node_dangling g s = [] \<and> blockers lc g t = [])"
  by (auto simp: preflight_def Let_def not_Open [symmetric] split: option.split)

lemma node_dangling_Nil:
  "node_dangling g s = [] \<longleftrightarrow> (\<forall>d \<in> set (dependencies s). map_of (nodes g) (toLowerCase d) \<noteq> None)"
  by (simp add: node_dangling_def filter_empty_conv)

text \<open>The pre-flight check passes exactly when the task exists and is open, each of its
  dependencies resolves, and every resolving task in its transitive closure is completed.\<close>

theorem preflight_ok_iff:
  "prOk (preflight lc g t) \<longleftrightarrow>
     (\<exists>s. map_of (nodes g) (toLowerCase t) = Some s \<and> status s = Open
        \<and> (\<forall>d \<in> set (dependencies s). map_of (nodes g) (toLowerCase d) \<noteq> None)
        \<and> (\<forall>k n. (dep_edge g)\<^sup>+\<^sup>+ (toLowerCase t) k \<longrightarrow> map_of (nodes g) k = Some n
              \<longrightarrow> status n = Completed))"
  by (simp add: preflight_ok_cases blockers_Nil_iff node_dangling_Nil)

theorem preflight_ok_iff_witness:
  "\<exists>s. map_of (nodes (buildDependencyGraph [task_a] [task_b])) (toLowerCase ''A'') = Some s
     \<and> status s = Open"
proof -
  have "prOk (preflight code_unit_order (buildDependencyGraph [task_a] [task_b]) ''A'')"
    by code_simp
  then show ?thesis unfolding preflight_ok_iff by blast
qed

lemma build_open_in_openIds:
  assumes "\<forall>n \<in> set cs. status n = Completed"
    and "map_of (nodes (buildDependencyGraph ts cs)) k = Some n" and "status n = Open"
  shows "k \<in> set (openIds (buildDependencyGraph ts cs))"
proof -
  let ?P = "\<lambda>g. \<forall>k n. map_of (nodes g) k = Some n \<longrightarrow> status n = Open \<longrightarrow> k \<in> set (openIds g)"
  have "?P (fold add_open_node ts empty_graph)"
    by (rule fold_invariant [where P = ?P])
      (auto simp: add_open_node_def Let_def empty_graph_def split: if_splits)
  then have "?P (buildDependencyGraph ts cs)"
    unfolding buildDependencyGraph_def using assms(1)
    by (intro fold_invariant [of cs ?P add_completed_node "fold add_open_node ts empty_graph"])
      (auto simp: add_completed_node_def Let_def split: if_splits)
  with assms(2,3) show ?thesis by blast
qed

text \<open>C34. A task that passes the pre-flight check and is not in progress is on the frontier.\<close>

theorem preflight_ok_on_frontier:
  assumes "\<forall>n \<in> set cs. status n = Completed"
    and "prOk (preflight lc (buildDependencyGraph ts cs) t)"
    and "map_of (nodes (buildDependencyGraph ts cs)) (toLowerCase t) = Some s"
    and "\<not> isInProgressStatus (frontmatterStatus s)"
  shows "frontier_entry s \<in> set (frontier lc (buildDependencyGraph ts cs))"
proof -
  let ?g = "buildDependencyGraph ts cs"
  from assms(2,3) have s: "status s = Open" "node_dangling ?g s = []" "blockers lc ?g t = []"
    by (auto simp: preflight_ok_cases)
  have "\<exists>m. map_of (nodes ?g) (toLowerCase d) = Some m \<and> status m = Completed"
    if d: "d \<in> set (dependencies s)" for d
  proof -
    obtain m where m: "map_of (nodes ?g) (toLowerCase d) = Some m"
      using s(2) d by (auto simp: node_dangling_Nil)
    have "dep_edge ?g (toLowerCase t) (toLowerCase d)"
      using d assms(3) by (simp add: key_edge_def node_deps_def)
    with m s(3) show ?thesis by (auto simp: blockers_Nil_iff)
  qed
  then have "deps_completed ?g (dependencies s)" by (simp add: deps_completed_iff)
  moreover have "toLowerCase t \<in> set (openIds ?g)"
    by (rule build_open_in_openIds [OF assms(1,3) s(1)])
  ultimately show ?thesis
    using assms(3,4) by (auto simp: frontier_def set_frontier_loop)
qed

theorem preflight_ok_on_frontier_witness:
  "frontier_entry task_a \<in> set (frontier code_unit_order (buildDependencyGraph [task_a] [task_b]))"
proof (rule preflight_ok_on_frontier)
  show "\<forall>n \<in> set [task_b]. status n = Completed" by simp
  show "prOk (preflight code_unit_order (buildDependencyGraph [task_a] [task_b]) ''A'')"
    by code_simp
  show "map_of (nodes (buildDependencyGraph [task_a] [task_b])) (toLowerCase ''A'') = Some task_a"
    by code_simp
  show "\<not> isInProgressStatus (frontmatterStatus task_a)" by code_simp
qed

end
