(* ===== verification/Cycles.thy ===== *)
theory Cycles
  imports DependencyGraph
begin

text \<open>
  The cycle finder and the two topological sorts of
  \<open>pipeline-cli/src/deps/dependency-graph.ts\<close> (\<open>findCycles\<close>, \<open>topologicalOrder\<close>,
  \<open>topologicalLayers\<close>, \<open>canonicalCycleKey\<close>, \<open>validate\<close>). The depth-first searches are
  iterative: a frame is a key and the dependencies its iterator has not yielded. The loops are
  total (each step shrinks a measure); the layering loop, which would spin on a cyclic graph, is
  option-valued.
\<close>

section \<open>The cycle finder\<close>

text \<open>\<open>a < b\<close> on strings is the code-unit order.\<close>

fun best_start :: "string list \<Rightarrow> nat \<Rightarrow> nat \<Rightarrow> string list \<Rightarrow> nat" where
  "best_start all best i [] = best"
| "best_start all best i (s # ss) =
     best_start all (if str_less s (all ! best) then i else best) (Suc i) ss"

definition canonicalCycleKey :: "string list \<Rightarrow> string" where
  "canonicalCycleKey path =
     (if length path < 2 then join ''->'' path
      else (let opn = map toLowerCase (butlast path);
                b = best_start opn 0 1 (tl opn)
            in join ''->'' (drop b opn @ take b opn)))"

record cyc_state =
  csPath :: "string list"
  csOnPath :: "string set"
  csStack :: "(string \<times> string list) list"
  csVisited :: "string list"
  csCycles :: "string list list"
  csSeen :: "string set"

text \<open>\<open>path.slice(path.indexOf(child))\<close>; \<open>slice(-1)\<close> is the last element.\<close>

definition slice_from :: "string \<Rightarrow> string list \<Rightarrow> string list" where
  "slice_from c p = (if c \<in> set p then dropWhile (\<lambda>x. x \<noteq> c) p else drop (length p - 1) p)"

fun cyc_step :: "string set \<Rightarrow> (string \<Rightarrow> string list) \<Rightarrow> cyc_state \<Rightarrow> cyc_state" where
  "cyc_step known depsOf s =
     (case csStack s of
        [] \<Rightarrow> s
      | (k, []) # fs \<Rightarrow> s\<lparr>csOnPath := csOnPath s - {k}, csPath := butlast (csPath s),
            csVisited := set_add k (csVisited s), csStack := fs\<rparr>
      | (k, c # it) # fs \<Rightarrow>
          (let s1 = s\<lparr>csStack := (k, it) # fs\<rparr> in
           if c \<notin> known then s1
           else if c \<in> csOnPath s then
             (let cyclePath = slice_from c (csPath s) @ [c];
                  canon = canonicalCycleKey cyclePath
              in if canon \<in> csSeen s then s1
                 else s1\<lparr>csSeen := insert canon (csSeen s), csCycles := csCycles s @ [cyclePath]\<rparr>)
           else if c \<in> set (csVisited s) then s1
           else s1\<lparr>csOnPath := insert c (csOnPath s), csPath := csPath s @ [c],
                   csStack := (c, depsOf c) # (k, it) # fs\<rparr>))"

declare cyc_step.simps [simp del]

lemma cyc_step_cases:
  assumes "csStack s = (k, it) # fs"
  obtains
    (pop) "it = []" "cyc_step known depsOf s = s\<lparr>csOnPath := csOnPath s - {k},
        csPath := butlast (csPath s), csVisited := set_add k (csVisited s), csStack := fs\<rparr>"
  | (skip) c it' where "it = c # it'" "c \<notin> known \<or> c \<in> set (csVisited s)" "c \<notin> known \<or> c \<notin> csOnPath s"
        "cyc_step known depsOf s = s\<lparr>csStack := (k, it') # fs\<rparr>"
  | (again) c it' where "it = c # it'" "c \<in> known" "c \<in> csOnPath s"
        "canonicalCycleKey (slice_from c (csPath s) @ [c]) \<in> csSeen s"
        "cyc_step known depsOf s = s\<lparr>csStack := (k, it') # fs\<rparr>"
  | (cycle) c it' where "it = c # it'" "c \<in> known" "c \<in> csOnPath s"
        "canonicalCycleKey (slice_from c (csPath s) @ [c]) \<notin> csSeen s"
        "cyc_step known depsOf s = s\<lparr>csStack := (k, it') # fs,
           csSeen := insert (canonicalCycleKey (slice_from c (csPath s) @ [c])) (csSeen s),
           csCycles := csCycles s @ [slice_from c (csPath s) @ [c]]\<rparr>"
  | (push) c it' where "it = c # it'" "c \<in> known" "c \<notin> csOnPath s" "c \<notin> set (csVisited s)"
        "cyc_step known depsOf s = s\<lparr>csOnPath := insert c (csOnPath s),
           csPath := csPath s @ [c], csStack := (c, depsOf c) # (k, it') # fs\<rparr>"
proof (cases it)
  case Nil
  with assms show thesis by (intro pop) (simp_all add: cyc_step.simps)
next
  case (Cons c it')
  have step: "cyc_step known depsOf s =
      (let s1 = s\<lparr>csStack := (k, it') # fs\<rparr> in
           if c \<notin> known then s1
           else if c \<in> csOnPath s then
             (let cyclePath = slice_from c (csPath s) @ [c];
                  canon = canonicalCycleKey cyclePath
              in if canon \<in> csSeen s then s1
                 else s1\<lparr>csSeen := insert canon (csSeen s), csCycles := csCycles s @ [cyclePath]\<rparr>)
           else if c \<in> set (csVisited s) then s1
           else s1\<lparr>csOnPath := insert c (csOnPath s), csPath := csPath s @ [c],
                   csStack := (c, depsOf c) # (k, it') # fs\<rparr>)"
    using assms Cons by (simp add: cyc_step.simps)
  consider "c \<notin> known" | "c \<in> known" "c \<in> csOnPath s"
      "canonicalCycleKey (slice_from c (csPath s) @ [c]) \<in> csSeen s"
    | "c \<in> known" "c \<in> csOnPath s" "canonicalCycleKey (slice_from c (csPath s) @ [c]) \<notin> csSeen s"
    | "c \<in> known" "c \<notin> csOnPath s" "c \<in> set (csVisited s)"
    | "c \<in> known" "c \<notin> csOnPath s" "c \<notin> set (csVisited s)" by blast
  then show thesis
  proof cases
    case 1 then show thesis using Cons step by (intro skip) (auto simp: Let_def)
  next
    case 2 then show thesis using Cons step by (intro again) (simp_all add: Let_def)
  next
    case 3 then show thesis using Cons step by (intro cycle) (simp_all add: Let_def)
  next
    case 4 then show thesis using Cons step by (intro skip) (auto simp: Let_def)
  next
    case 5 then show thesis using Cons step by (intro push) (simp_all add: Let_def)
  qed
qed

definition frames_size :: "(string \<times> string list) list \<Rightarrow> nat" where
  "frames_size fs = sum_list (map (\<lambda>f. Suc (length (snd f))) fs)"

definition unexplored :: "string set \<Rightarrow> cyc_state \<Rightarrow> nat" where
  "unexplored known s = card (known - (set (csVisited s) \<union> csOnPath s))"

lemma cyc_step_decreases:
  assumes "finite known" and "csStack s \<noteq> []"
  shows "(cyc_step known depsOf s, s) \<in> measures [unexplored known, \<lambda>s. frames_size (csStack s)]"
proof -
  obtain k it fs where st: "csStack s = (k, it) # fs"
    using assms(2) by (metis list.exhaust prod.exhaust)
  have fin: "finite (known - (set (csVisited s) \<union> csOnPath s))" using assms(1) by simp
  from st show ?thesis
  proof (cases rule: cyc_step_cases [where known = known and depsOf = depsOf])
    case pop
    have "known - (set (set_add k (csVisited s)) \<union> (csOnPath s - {k}))
        \<subseteq> known - (set (csVisited s) \<union> csOnPath s)" by auto
    then have "unexplored known (cyc_step known depsOf s) \<le> unexplored known s"
      using fin pop by (simp add: unexplored_def card_mono)
    then show ?thesis using pop st by (auto simp: frames_size_def)
  next
    case (push c it')
    then have "known - (set (csVisited s) \<union> insert c (csOnPath s))
        \<subset> known - (set (csVisited s) \<union> csOnPath s)" by auto
    note less = psubset_card_mono [OF fin this]
    have eqs: "csVisited (cyc_step known depsOf s) = csVisited s"
      "csOnPath (cyc_step known depsOf s) = insert c (csOnPath s)"
      using push by simp_all
    have "unexplored known (cyc_step known depsOf s) < unexplored known s"
      unfolding unexplored_def eqs by (rule less)
    then show ?thesis by simp
  qed (auto simp: unexplored_def frames_size_def st)
qed

function cyc_loop :: "string list \<Rightarrow> (string \<Rightarrow> string list) \<Rightarrow> cyc_state \<Rightarrow> cyc_state" where
  "cyc_loop known depsOf s =
     (if csStack s = [] then s else cyc_loop known depsOf (cyc_step (set known) depsOf s))"
  by pat_completeness auto
termination
proof (relation "inv_image (measures [\<lambda>(known, s). unexplored (set known) s,
      \<lambda>(known, s). frames_size (csStack s)]) (\<lambda>(known, depsOf, s). (known, s))", goal_cases)
  case (2 known depsOf s)
  then show ?case using cyc_step_decreases [of "set known" s depsOf] by simp
qed simp

declare cyc_loop.simps [simp del]

fun cyc_roots :: "string list \<Rightarrow> (string \<Rightarrow> string list) \<Rightarrow> string list \<Rightarrow> cyc_state \<Rightarrow> cyc_state" where
  "cyc_roots known depsOf [] s = s"
| "cyc_roots known depsOf (startKey # ks) s =
     (if startKey \<in> set (csVisited s) then cyc_roots known depsOf ks s
      else cyc_roots known depsOf ks (cyc_loop known depsOf
        (s\<lparr>csPath := [startKey], csOnPath := {startKey}, csStack := [(startKey, depsOf startKey)]\<rparr>)))"

definition cyc_init :: cyc_state where
  "cyc_init = \<lparr>csPath = [], csOnPath = {}, csStack = [], csVisited = [], csCycles = [], csSeen = {}\<rparr>"

definition findCycles :: "string list \<Rightarrow> (string \<Rightarrow> string list) \<Rightarrow> string list list" where
  "findCycles keys depsOf =
     (let known = set_of_iter keys in csCycles (cyc_roots known depsOf known cyc_init))"

section \<open>Validation\<close>

record ValidateReport =
  vrOk :: bool
  vrCycles :: "string list list"
  vrDangling :: "DanglingRef list"

definition lower_deps :: "DependencyGraph \<Rightarrow> string \<Rightarrow> string list" where
  "lower_deps g key = (case map_of (nodes g) key of
     None \<Rightarrow> [] | Some n \<Rightarrow> map toLowerCase (dependencies n))"

definition validate :: "DependencyGraph \<Rightarrow> ValidateReport" where
  "validate g =
     (let dangling = graph_dangling g;
          cycles = map (map (\<lambda>k. case map_of (nodes g) k of None \<Rightarrow> k | Some n \<Rightarrow> nodeId n))
            (findCycles (map_keys (nodes g)) (lower_deps g))
      in \<lparr>vrOk = (cycles = [] \<and> dangling = []), vrCycles = cycles, vrDangling = dangling\<rparr>)"

section \<open>Topological order\<close>

record topo_state =
  tsVisited :: "string set"
  tsStack :: "(string \<times> string list) list"
  tsSorted :: "string list"

fun topo_step :: "string set \<Rightarrow> (string \<Rightarrow> string list) \<Rightarrow> topo_state \<Rightarrow> topo_state" where
  "topo_step known depsOf s =
     (case tsStack s of
        [] \<Rightarrow> s
      | (k, []) # fs \<Rightarrow> s\<lparr>tsSorted := tsSorted s @ [k], tsStack := fs\<rparr>
      | (k, c # it) # fs \<Rightarrow>
          (if c \<in> known \<and> c \<notin> tsVisited s
           then s\<lparr>tsVisited := insert c (tsVisited s), tsStack := (c, depsOf c) # (k, it) # fs\<rparr>
           else s\<lparr>tsStack := (k, it) # fs\<rparr>))"

declare topo_step.simps [simp del]

lemma topo_step_decreases:
  assumes "finite known" and "tsStack s \<noteq> []"
  shows "(topo_step known depsOf s, s)
    \<in> measures [\<lambda>s. card (known - tsVisited s), \<lambda>s. frames_size (tsStack s)]"
proof -
  obtain k it fs where st: "tsStack s = (k, it) # fs"
    using assms(2) by (metis list.exhaust prod.exhaust)
  show ?thesis
  proof (cases it)
    case Nil
    with st show ?thesis by (simp add: topo_step.simps frames_size_def)
  next
    case (Cons c it')
    show ?thesis
    proof (cases "c \<in> known \<and> c \<notin> tsVisited s")
      case True
      then have "known - insert c (tsVisited s) \<subset> known - tsVisited s" by auto
      from psubset_card_mono [OF _ this] assms(1)
      have "card (known - insert c (tsVisited s)) < card (known - tsVisited s)" by simp
      with True Cons st show ?thesis by (simp add: topo_step.simps)
    next
      case False
      with Cons st show ?thesis by (auto simp: topo_step.simps frames_size_def)
    qed
  qed
qed

function topo_loop :: "string list \<Rightarrow> (string \<Rightarrow> string list) \<Rightarrow> topo_state \<Rightarrow> topo_state" where
  "topo_loop known depsOf s =
     (if tsStack s = [] then s else topo_loop known depsOf (topo_step (set known) depsOf s))"
  by pat_completeness auto
termination
proof (relation "inv_image (measures [\<lambda>(known, s). card (set known - tsVisited s),
      \<lambda>(known, s). frames_size (tsStack s)]) (\<lambda>(known, depsOf, s). (known, s))", goal_cases)
  case (2 known depsOf s)
  then show ?case using topo_step_decreases [of "set known" s depsOf] by simp
qed simp

declare topo_loop.simps [simp del]

fun topo_roots :: "string list \<Rightarrow> (string \<Rightarrow> string list) \<Rightarrow> string list \<Rightarrow> topo_state \<Rightarrow> topo_state" where
  "topo_roots known depsOf [] s = s"
| "topo_roots known depsOf (root # ks) s =
     (if root \<in> tsVisited s then topo_roots known depsOf ks s
      else topo_roots known depsOf ks (topo_loop known depsOf
        (s\<lparr>tsVisited := insert root (tsVisited s), tsStack := [(root, depsOf root)]\<rparr>)))"

definition cycle_message :: "string list \<Rightarrow> string" where
  "cycle_message c = ''Dependency cycle detected: '' @ join '' -> '' c"

definition topologicalOrder ::
  "string list \<Rightarrow> (string \<Rightarrow> string list) \<Rightarrow> string + string list" where
  "topologicalOrder keys depsOf =
     (case findCycles keys depsOf of
        c # _ \<Rightarrow> Inl (cycle_message c)
      | [] \<Rightarrow> (let known = set_of_iter keys
               in Inr (tsSorted (topo_roots known depsOf known
                    \<lparr>tsVisited = {}, tsStack = [], tsSorted = []\<rparr>))))"

section \<open>Topological layers\<close>

definition next_layer :: "string set \<Rightarrow> (string \<Rightarrow> string list) \<Rightarrow> string set \<Rightarrow> string list \<Rightarrow> string list" where
  "next_layer known depsOf finished remaining =
     filter (\<lambda>k. \<forall>d \<in> set (depsOf k). d \<notin> known \<or> d \<in> finished) remaining"

partial_function (option) layers_loop :: "string set \<Rightarrow> (string \<Rightarrow> string list) \<Rightarrow> string set \<Rightarrow>
    string list \<Rightarrow> string list list \<Rightarrow> string list list option" where
  "layers_loop known depsOf finished remaining layers =
     (if remaining = [] then Some layers
      else (let layer = next_layer known depsOf finished remaining;
                finished' = finished \<union> set layer
            in layers_loop known depsOf finished'
                 (filter (\<lambda>k. k \<notin> finished') remaining) (layers @ [layer])))"

text \<open>\<open>None\<close>: the loop does not return. \<open>Some (Inl m)\<close>: it throws \<open>m\<close>.\<close>

definition topologicalLayers ::
  "string list \<Rightarrow> (string \<Rightarrow> string list) \<Rightarrow> (string + string list list) option" where
  "topologicalLayers keys depsOf =
     (case findCycles keys depsOf of
        c # _ \<Rightarrow> Some (Inl (cycle_message c))
      | [] \<Rightarrow> (let known = set_of_iter keys
               in map_option Inr (layers_loop (set known) depsOf {} known [])))"

end
