(* ===== verification/CycleFacts.thy ===== *)
theory CycleFacts
  imports Cycles
begin

text \<open>
  What the depth-first searches of \<open>Cycles\<close> compute. One invariant on the stack of frames
  (\<open>frames_ok\<close>) serves both searches: the part of a frame's dependencies its iterator has
  yielded is explored, and consecutive frames are joined by an edge.
\<close>

section \<open>Edges, cycles, topological lists\<close>

definition known_edge :: "string set \<Rightarrow> (string \<Rightarrow> string list) \<Rightarrow> string \<Rightarrow> string \<Rightarrow> bool" where
  "known_edge K D a b \<longleftrightarrow> a \<in> K \<and> b \<in> K \<and> b \<in> set (D a)"

definition is_cycle :: "('a \<Rightarrow> 'a \<Rightarrow> bool) \<Rightarrow> 'a list \<Rightarrow> bool" where
  "is_cycle E c \<longleftrightarrow> 2 \<le> length c \<and> hd c = last c \<and> distinct (butlast c) \<and> successively E c"

definition acyclic_deps :: "string set \<Rightarrow> (string \<Rightarrow> string list) \<Rightarrow> bool" where
  "acyclic_deps K D \<longleftrightarrow> (\<forall>k. \<not> (known_edge K D)\<^sup>+\<^sup>+ k k)"

definition deps_first :: "string set \<Rightarrow> (string \<Rightarrow> string list) \<Rightarrow> string list \<Rightarrow> bool" where
  "deps_first K D vs \<longleftrightarrow> (\<forall>i < length vs. \<forall>d \<in> set (D (vs ! i)) \<inter> K. d \<in> set (take i vs))"

lemma deps_first_Nil [simp]: "deps_first K D []"
  by (simp add: deps_first_def)

lemma deps_first_snoc [simp]:
  "deps_first K D (vs @ [v]) \<longleftrightarrow> deps_first K D vs \<and> set (D v) \<inter> K \<subseteq> set vs"
  by (auto simp: deps_first_def less_Suc_eq nth_append)

lemma successively_rtranclp:
  "successively E xs \<Longrightarrow> x \<in> set xs \<Longrightarrow> E\<^sup>*\<^sup>* x (last xs)"
proof (induction E xs arbitrary: x rule: successively.induct)
  case (3 E a b ys)
  then have last: "E\<^sup>*\<^sup>* b (last (b # ys))" and ab: "E a b" by (simp, simp)
  show ?case
  proof (cases "x = a")
    case True
    with converse_rtranclp_into_rtranclp [of E, OF ab last] show ?thesis by simp
  next
    case False
    with "3.prems" "3.IH" [of x] show ?thesis by simp
  qed
qed simp_all

lemma is_cycle_trancl: "is_cycle E c \<Longrightarrow> E\<^sup>+\<^sup>+ (hd c) (hd c)"
proof -
  assume c: "is_cycle E c"
  then obtain a b xs where "c = a # b # xs"
    unfolding is_cycle_def by (metis One_nat_def Suc_1 Suc_le_length_iff)
  with c have "E a b" "E\<^sup>*\<^sup>* b a"
    using successively_rtranclp [of E "b # xs" b] by (auto simp: is_cycle_def)
  then have "E\<^sup>+\<^sup>+ a a" by (rule rtranclp_into_tranclp2)
  with \<open>c = a # b # xs\<close> show ?thesis by simp
qed

lemma deps_first_acyclic:
  assumes "deps_first K D vs" and "set vs = K"
  shows "acyclic_deps K D"
proof -
  define pos where "pos k = (LEAST i. i < length vs \<and> vs ! i = k)" for k
  have pos: "pos k < length vs \<and> vs ! pos k = k" if "k \<in> K" for k
    unfolding pos_def using that assms(2) by (metis (mono_tags, lifting) LeastI_ex in_set_conv_nth)
  have less: "pos b < pos a" if "known_edge K D a b" for a b
  proof -
    from that have ab: "a \<in> K" "b \<in> K" "b \<in> set (D a)" by (simp_all add: known_edge_def)
    with assms(1) pos [OF ab(1)] have "b \<in> set (take (pos a) vs)"
      by (fastforce simp: deps_first_def)
    then obtain i where "i < pos a" "i < length vs" "vs ! i = b"
      by (auto simp: in_set_conv_nth)
    then have "pos b \<le> i"
      unfolding pos_def by (intro Least_le) simp
    with \<open>i < pos a\<close> show ?thesis by simp
  qed
  have "(known_edge K D)\<^sup>+\<^sup>+ a b \<Longrightarrow> pos b < pos a" for a b
    by (induction rule: tranclp_induct) (auto dest: less)
  then show ?thesis by (auto simp: acyclic_deps_def)
qed

section \<open>The stack of frames\<close>

text \<open>\<open>A\<close> holds the key of the frame above, \<open>V\<close> what is explored.\<close>

definition frame_ok :: "string set \<Rightarrow> (string \<Rightarrow> string list) \<Rightarrow> string set \<Rightarrow> string set \<Rightarrow>
    string \<Rightarrow> string list \<Rightarrow> bool" where
  "frame_ok K D V A k it \<longleftrightarrow> (\<exists>don. D k = don @ it \<and> A \<subseteq> set don \<and> set don \<inter> K \<subseteq> V \<union> A)"

fun frames_ok :: "string set \<Rightarrow> (string \<Rightarrow> string list) \<Rightarrow> string set \<Rightarrow> string set \<Rightarrow>
    (string \<times> string list) list \<Rightarrow> bool" where
  "frames_ok K D V A [] = True"
| "frames_ok K D V A ((k, it) # fs) = (frame_ok K D V A k it \<and> frames_ok K D V {k} fs)"

lemma frame_ok_mono:
  "frame_ok K D V A k it \<Longrightarrow> V \<union> A \<subseteq> V' \<union> A' \<Longrightarrow> A' \<subseteq> A \<Longrightarrow> frame_ok K D V' A' k it"
  unfolding frame_ok_def by blast

lemma frame_ok_next:
  assumes "frame_ok K D V {} k (c # it)" and "A \<subseteq> {c}" and "c \<notin> K \<or> c \<in> V \<union> A"
  shows "frame_ok K D V A k it"
proof -
  obtain don where "D k = don @ c # it" "set don \<inter> K \<subseteq> V"
    using assms(1) by (auto simp: frame_ok_def)
  with assms(2,3) show ?thesis
    unfolding frame_ok_def by (intro exI [of _ "don @ [c]"]) auto
qed

lemma frame_ok_start [simp]: "frame_ok K D V {} k (D k)"
  by (simp add: frame_ok_def)

lemma frame_ok_end: "frame_ok K D V A k [] \<longleftrightarrow> A \<subseteq> set (D k) \<and> set (D k) \<inter> K \<subseteq> V \<union> A"
  by (simp add: frame_ok_def)

lemma frame_ok_above: "frame_ok K D V {c} k it \<Longrightarrow> c \<in> set (D k)"
  by (auto simp: frame_ok_def)

lemma frame_ok_head: "frame_ok K D V A k (c # it) \<Longrightarrow> c \<in> set (D k)"
  by (auto simp: frame_ok_def)

lemma frames_ok_mono: "frames_ok K D V A fs \<Longrightarrow> V \<subseteq> V' \<Longrightarrow> frames_ok K D V' A fs"
proof (induction K D V A fs rule: frames_ok.induct)
  case (2 K D V A k it fs)
  then show ?case using frame_ok_mono [of K D V A k it V' A] by auto
qed simp

lemma frames_ok_pop:
  assumes "frames_ok K D V A fs" and "V \<union> A \<subseteq> V'"
  shows "frames_ok K D V' {} fs"
proof (cases fs)
  case (Cons f gs)
  obtain k it where f: "f = (k, it)" by force
  from assms Cons f have "frame_ok K D V' {} k it" "frames_ok K D V' {k} gs"
    using frame_ok_mono [of K D V A k it V' "{}"] frames_ok_mono [of K D V "{k}" gs V'] by auto
  with Cons f show ?thesis by simp
qed simp

lemma frames_ok_advance:
  "frames_ok K D V {} ((k, c # it) # fs) \<Longrightarrow> c \<notin> K \<or> c \<in> V \<Longrightarrow> frames_ok K D V {} ((k, it) # fs)"
  using frame_ok_next [of K D V k c it "{}"] by simp

lemma frames_ok_push:
  "frames_ok K D V {} ((k, c # it) # fs) \<Longrightarrow> frames_ok K D V {} ((c, D c) # (k, it) # fs)"
  using frame_ok_next [of K D V k c it "{c}"] by simp

lemma frames_ok_chain:
  "frames_ok K D V A fs \<Longrightarrow> fst ` set fs \<subseteq> K \<Longrightarrow>
   successively (\<lambda>b a. known_edge K D a b) (map fst fs)"
proof (induction fs arbitrary: A)
  case (Cons f fs)
  obtain k it where f: "f = (k, it)" by force
  with Cons.prems have "frames_ok K D V {k} fs" "fst ` set fs \<subseteq> K" by simp_all
  from Cons.IH [OF this] have IH: "successively (\<lambda>b a. known_edge K D a b) (map fst fs)" .
  show ?case
  proof (cases fs)
    case Cons_g: (Cons g gs)
    obtain k' it' where "g = (k', it')" by force
    with Cons_g Cons.prems f IH show ?thesis
      using frame_ok_above [of K D V k k' it'] by (auto simp: known_edge_def)
  qed simp
qed simp

lemma frames_ok_path:
  assumes "frames_ok K D V A ((k, it) # fs)" and "fst ` set ((k, it) # fs) \<subseteq> K"
    and "d \<in> fst ` set ((k, it) # fs)"
  shows "(known_edge K D)\<^sup>*\<^sup>* d k"
proof -
  have "successively (known_edge K D) (rev (map fst ((k, it) # fs)))"
    using frames_ok_chain [OF assms(1,2)] by (simp only: successively_rev)
  from successively_rtranclp [OF this, of d] assms(3) show ?thesis by simp
qed

section \<open>The cycle finder\<close>

definition path_ok :: "string set \<Rightarrow> string set \<Rightarrow> string list \<Rightarrow> string set \<Rightarrow> bool" where
  "path_ok K R p V \<longleftrightarrow> distinct p \<and> set p \<subseteq> K \<and> V \<subseteq> K \<and> set p \<inter> V = {} \<and> R \<subseteq> set p \<union> V"

lemma path_ok_pop: "path_ok K R (k # p) V \<Longrightarrow> path_ok K R p (insert k V)"
  by (auto simp: path_ok_def)

lemma path_ok_push: "path_ok K R p V \<Longrightarrow> c \<in> K \<Longrightarrow> c \<notin> set p \<Longrightarrow> c \<notin> V \<Longrightarrow> path_ok K R (c # p) V"
  by (auto simp: path_ok_def)

lemma path_ok_keys: "path_ok K R p V \<Longrightarrow> set p \<subseteq> K" "path_ok K R p V \<Longrightarrow> distinct p"
  by (simp_all add: path_ok_def)

definition cyc_path_inv :: "string set \<Rightarrow> string set \<Rightarrow> cyc_state \<Rightarrow> bool" where
  "cyc_path_inv K R s \<longleftrightarrow> csPath s = rev (map fst (csStack s)) \<and> csOnPath s = set (csPath s)
     \<and> path_ok K R (map fst (csStack s)) (set (csVisited s))"

definition explored :: "string list list \<Rightarrow> string list \<Rightarrow> string set" where
  "explored cs vs = (if cs = [] then set vs else UNIV)"

definition cyc_frames_inv :: "string set \<Rightarrow> (string \<Rightarrow> string list) \<Rightarrow> cyc_state \<Rightarrow> bool" where
  "cyc_frames_inv K D s \<longleftrightarrow>
     frames_ok K D (explored (csCycles s) (csVisited s)) {} (csStack s)
     \<and> (csCycles s = [] \<longrightarrow> deps_first K D (csVisited s))"

definition cyc_found_inv :: "string set \<Rightarrow> (string \<Rightarrow> string list) \<Rightarrow> cyc_state \<Rightarrow> bool" where
  "cyc_found_inv K D s \<longleftrightarrow> csSeen s = canonicalCycleKey ` set (csCycles s)
     \<and> distinct (map canonicalCycleKey (csCycles s))
     \<and> (\<forall>c \<in> set (csCycles s). is_cycle (known_edge K D) c)"

definition cyc_inv :: "string set \<Rightarrow> (string \<Rightarrow> string list) \<Rightarrow> string set \<Rightarrow> cyc_state \<Rightarrow> bool" where
  "cyc_inv K D R s \<longleftrightarrow> cyc_path_inv K R s \<and> cyc_frames_inv K D s \<and> cyc_found_inv K D s"

lemma slice_from_split:
  assumes "c \<in> set p"
  obtains xs ys where "p = xs @ c # ys" "slice_from c p = c # ys"
proof -
  obtain xs ys where p: "p = xs @ c # ys" "c \<notin> set xs"
    using split_list_first [OF assms] by auto
  then have "dropWhile (\<lambda>x. x \<noteq> c) (xs @ c # ys) = c # ys"
    by (subst dropWhile_append2) auto
  with p that show thesis by (simp add: slice_from_def)
qed

lemma slice_from_cycle:
  assumes "successively E p" and "distinct p" and "c \<in> set p" and "E (last p) c"
  shows "is_cycle E (slice_from c p @ [c])"
proof -
  obtain xs ys where p: "p = xs @ c # ys" "slice_from c p = c # ys"
    using slice_from_split [OF assms(3)] .
  have "successively E (c # ys)" "distinct (c # ys)" "E (last (c # ys)) c"
    using assms(1,2,4) by (simp_all add: p(1) successively_append_iff)
  then have "successively E ((c # ys) @ [c])"
    unfolding successively_append_iff [of E "c # ys"] by simp
  with p(2) \<open>distinct (c # ys)\<close> show ?thesis
    unfolding is_cycle_def by (simp only: p(2) butlast_snoc) simp
qed

lemma cyc_path_pop:
  assumes "cyc_path_inv K R s" "csStack s = (k, it) # fs"
    "csPath s' = butlast (csPath s)" "csOnPath s' = csOnPath s - {k}"
    "set (csVisited s') = insert k (set (csVisited s))" "csStack s' = fs"
  shows "cyc_path_inv K R s'"
proof -
  from assms(1,2) have ok: "path_ok K R (k # map fst fs) (set (csVisited s))"
    by (simp add: cyc_path_inv_def)
  from path_ok_pop [OF ok] path_ok_keys(2) [OF ok] assms show ?thesis
    by (simp add: cyc_path_inv_def)
qed

lemma cyc_path_push:
  "cyc_path_inv K R s \<Longrightarrow> csStack s = (k, it) # fs \<Longrightarrow> c \<in> K \<Longrightarrow> c \<notin> csOnPath s \<Longrightarrow>
   c \<notin> set (csVisited s) \<Longrightarrow> csPath s' = csPath s @ [c] \<Longrightarrow> csOnPath s' = insert c (csOnPath s) \<Longrightarrow>
   csVisited s' = csVisited s \<Longrightarrow> csStack s' = (c, ds) # (k, it') # fs \<Longrightarrow> cyc_path_inv K R s'"
  unfolding cyc_path_inv_def by (simp add: path_ok_push insert_commute)

lemma cyc_path_stay:
  "cyc_path_inv K R s \<Longrightarrow> csStack s = (k, it) # fs \<Longrightarrow> csPath s' = csPath s \<Longrightarrow>
   csOnPath s' = csOnPath s \<Longrightarrow> csVisited s' = csVisited s \<Longrightarrow> csStack s' = (k, it') # fs \<Longrightarrow>
   cyc_path_inv K R s'"
  unfolding cyc_path_inv_def by simp

lemma cyc_path_step:
  assumes "cyc_path_inv K R s"
  shows "cyc_path_inv K R (cyc_step K D s)"
proof (cases "csStack s")
  case (Cons f fs)
  obtain k it where st: "csStack s = (k, it) # fs" using Cons by (cases f) simp
  from st show ?thesis
  proof (cases rule: cyc_step_cases [where known = K and depsOf = D])
    case pop
    show ?thesis by (rule cyc_path_pop [OF assms st]) (simp_all add: pop)
  next
    case (push c it')
    show ?thesis by (rule cyc_path_push [OF assms st, where c = c]) (simp_all add: push)
  next
    case (skip c it')
    show ?thesis by (rule cyc_path_stay [OF assms st, where it' = it']) (simp_all add: skip)
  next
    case (again c it')
    show ?thesis by (rule cyc_path_stay [OF assms st, where it' = it']) (simp_all add: again)
  next
    case (cycle c it')
    show ?thesis by (rule cyc_path_stay [OF assms st, where it' = it']) (simp_all add: cycle)
  qed
qed (use assms in \<open>simp add: cyc_step.simps\<close>)

lemma cyc_found_step:
  assumes "cyc_path_inv (set known) R s" and "cyc_frames_inv (set known) D s"
    and "cyc_found_inv (set known) D s"
  shows "cyc_found_inv (set known) D (cyc_step (set known) D s)"
proof (cases "csStack s")
  case (Cons f fs)
  obtain k it where st: "csStack s = (k, it) # fs" using Cons by (cases f) simp
  let ?E = "known_edge (set known) D"
  have ok: "path_ok (set known) R (map fst (csStack s)) (set (csVisited s))"
    using assms(1) by (simp add: cyc_path_inv_def)
  from path_ok_keys(1) [OF ok] have keys: "fst ` set (csStack s) \<subseteq> set known" by simp
  from st show ?thesis
  proof (cases rule: cyc_step_cases [where known = "set known" and depsOf = D])
    case (cycle c it')
    have path: "csPath s = rev (map fst (csStack s))" "distinct (csPath s)" "c \<in> set (csPath s)"
      using assms(1) cycle path_ok_keys(2) [OF ok] by (simp_all add: cyc_path_inv_def)
    have "successively ?E (csPath s)"
      using assms(2) frames_ok_chain [OF _ keys] path(1) by (auto simp: cyc_frames_inv_def)
    moreover have "?E (last (csPath s)) c"
      using assms(2) st cycle(1,2) keys path(1) frame_ok_head
      by (fastforce simp: cyc_frames_inv_def known_edge_def)
    ultimately have "is_cycle ?E (slice_from c (csPath s) @ [c])"
      using slice_from_cycle path(2,3) by metis
    with cycle assms(3) show ?thesis by (simp add: cyc_found_inv_def)
  qed (use assms(3) in \<open>simp_all add: cyc_found_inv_def\<close>)
qed (use assms(3) in \<open>simp add: cyc_step.simps\<close>)

lemma explored_simps [simp]:
  "set vs \<subseteq> explored cs vs" "explored (cs @ [c]) vs = UNIV" "explored [] vs = set vs"
  "cs \<noteq> [] \<Longrightarrow> explored cs vs = UNIV"
  by (simp_all add: explored_def)

lemma explored_snoc [simp]: "explored cs (vs @ [k]) = insert k (explored cs vs)"
  by (simp add: explored_def)

lemma cyc_frames_step:
  assumes "cyc_path_inv (set known) R s" and "cyc_frames_inv (set known) D s"
    and "cyc_found_inv (set known) D s"
  shows "cyc_frames_inv (set known) D (cyc_step (set known) D s)"
proof (cases "csStack s")
  case (Cons f fs)
  obtain k it where st: "csStack s = (k, it) # fs" using Cons by (cases f) simp
  define K where "K = set known"
  define V where "V = explored (csCycles s) (csVisited s)"
  from assms(2) st have fr: "frames_ok K D V {} ((k, it) # fs)"
    and df: "csCycles s = [] \<longrightarrow> deps_first K D (csVisited s)"
    by (simp_all add: cyc_frames_inv_def V_def K_def)
  from st show ?thesis
  proof (cases rule: cyc_step_cases [where known = "set known" and depsOf = D])
    case pop
    from fr pop(1) have top: "set (D k) \<inter> K \<subseteq> V" "frames_ok K D V {k} fs"
      by (simp_all add: frame_ok_end)
    have new: "set_add k (csVisited s) = csVisited s @ [k]"
      using assms(1) st by (simp add: cyc_path_inv_def path_ok_def set_add_def)
    have "frames_ok K D (insert k V) {} fs"
      using frames_ok_pop [OF top(2), of "insert k V"] by blast
    moreover from top(1) have "csCycles s = [] \<longrightarrow> set (D k) \<inter> K \<subseteq> set (csVisited s)"
      by (cases "csCycles s = []") (simp_all add: V_def)
    ultimately show ?thesis using pop(2) new df
      by (simp add: cyc_frames_inv_def V_def K_def)
  next
    case (skip c it')
    then have "c \<notin> K \<or> c \<in> V" by (auto simp: V_def K_def explored_def)
    from frames_ok_advance [OF fr [unfolded skip(1)] this] df skip(4) show ?thesis
      by (simp add: cyc_frames_inv_def V_def K_def)
  next
    case (again c it')
    with assms(3) have "csCycles s \<noteq> []" by (auto simp: cyc_found_inv_def)
    with frames_ok_advance [OF fr [unfolded again(1)]] again(5) show ?thesis
      by (simp add: cyc_frames_inv_def V_def K_def)
  next
    case (cycle c it')
    have "frames_ok K D UNIV {} ((k, c # it') # fs)"
      by (rule frames_ok_mono [OF fr [unfolded cycle(1)]]) simp
    from frames_ok_advance [OF this] cycle(5) show ?thesis
      by (simp add: cyc_frames_inv_def K_def)
  next
    case (push c it')
    from frames_ok_push [OF fr [unfolded push(1)]] push(5) df show ?thesis
      by (simp add: cyc_frames_inv_def V_def K_def)
  qed
qed (use assms(2) in \<open>simp add: cyc_step.simps\<close>)

lemma cyc_inv_step:
  "cyc_inv (set known) D R s \<Longrightarrow> cyc_inv (set known) D R (cyc_step (set known) D s)"
  unfolding cyc_inv_def using cyc_path_step cyc_frames_step cyc_found_step by blast

lemma cyc_inv_loop:
  "cyc_inv (set known) D R s \<Longrightarrow>
   cyc_inv (set known) D R (cyc_loop known D s) \<and> csStack (cyc_loop known D s) = []"
proof (induction known D s rule: cyc_loop.induct)
  case (1 known D s)
  then show ?case
    using cyc_inv_step [of known D R s] cyc_loop.simps [of known D s] by (cases "csStack s = []") simp_all
qed

lemma cyc_inv_roots:
  "cyc_inv (set known) D R s \<Longrightarrow> csStack s = [] \<Longrightarrow> set ks \<subseteq> set known \<Longrightarrow>
   cyc_inv (set known) D (R \<union> set ks) (cyc_roots known D ks s) \<and> csStack (cyc_roots known D ks s) = []"
proof (induction known D ks s arbitrary: R rule: cyc_roots.induct)
  case (2 known D k ks s)
  show ?case
  proof (cases "k \<in> set (csVisited s)")
    case True
    have "cyc_inv (set known) D (insert k R) s"
      using True "2.prems"(1,2) by (simp add: cyc_inv_def cyc_path_inv_def path_ok_def)
    from "2.IH"(1) [OF True this] "2.prems"(2,3) True show ?thesis by simp
  next
    case False
    let ?s = "s\<lparr>csPath := [k], csOnPath := {k}, csStack := [(k, D k)]\<rparr>"
    have "cyc_inv (set known) D (insert k R) ?s"
      using False "2.prems"
      by (auto simp: cyc_inv_def cyc_path_inv_def cyc_frames_inv_def cyc_found_inv_def path_ok_def)
    from cyc_inv_loop [OF this] "2.IH"(2) [OF False, of "insert k R"] False "2.prems"(3)
    show ?thesis by simp
  qed
qed simp

text \<open>The three invariants at the end of the search.\<close>

lemma findCycles_inv:
  "\<exists>s. findCycles keys D = csCycles s \<and> cyc_inv (set keys) D (set keys) s \<and> csStack s = []"
proof -
  have "cyc_inv (set (set_of_iter keys)) D {} cyc_init" "csStack cyc_init = []"
    by (simp_all add: cyc_init_def cyc_inv_def cyc_path_inv_def cyc_frames_inv_def cyc_found_inv_def
        path_ok_def)
  from cyc_inv_roots [OF this, of "set_of_iter keys"] show ?thesis
    by (auto simp: findCycles_def Let_def)
qed

lemma findCycles_sound: "c \<in> set (findCycles keys D) \<Longrightarrow> is_cycle (known_edge (set keys) D) c"
  using findCycles_inv [of keys D] by (auto simp: cyc_inv_def cyc_found_inv_def)

lemma findCycles_distinct: "distinct (map canonicalCycleKey (findCycles keys D))"
  using findCycles_inv [of keys D] by (auto simp: cyc_inv_def cyc_found_inv_def)

lemma findCycles_Nil: "findCycles keys D = [] \<longleftrightarrow> acyclic_deps (set keys) D"
proof
  assume none: "findCycles keys D = []"
  obtain s where s: "csCycles s = []" "cyc_inv (set keys) D (set keys) s" "csStack s = []"
    using findCycles_inv [of keys D] none by metis
  then have "deps_first (set keys) D (csVisited s)" "set (csVisited s) = set keys"
    by (auto simp: cyc_inv_def cyc_path_inv_def cyc_frames_inv_def path_ok_def)
  then show "acyclic_deps (set keys) D" by (rule deps_first_acyclic)
next
  assume "acyclic_deps (set keys) D"
  then have "c \<notin> set (findCycles keys D)" for c
    using findCycles_sound is_cycle_trancl unfolding acyclic_deps_def by blast
  then show "findCycles keys D = []" by (metis last_in_set)
qed

section \<open>Topological order\<close>

definition topo_inv :: "string set \<Rightarrow> (string \<Rightarrow> string list) \<Rightarrow> string set \<Rightarrow> topo_state \<Rightarrow> bool" where
  "topo_inv K D R s \<longleftrightarrow> path_ok K R (map fst (tsStack s)) (set (tsSorted s)) \<and> distinct (tsSorted s)
     \<and> tsVisited s = set (map fst (tsStack s)) \<union> set (tsSorted s)
     \<and> frames_ok K D (tsVisited s) {} (tsStack s) \<and> deps_first K D (tsSorted s)"

lemma topo_pop_deps:
  assumes "acyclic_deps K D" and "topo_inv K D R s" and "tsStack s = (k, []) # fs"
  shows "set (D k) \<inter> K \<subseteq> set (tsSorted s)"
proof
  fix d assume d: "d \<in> set (D k) \<inter> K"
  from assms(2,3) have fr: "frames_ok K D (tsVisited s) {} ((k, []) # fs)"
    and vis: "tsVisited s = set (map fst ((k, []) # fs)) \<union> set (tsSorted s)"
    and ok: "path_ok K R (map fst ((k, []) # fs)) (set (tsSorted s))"
    unfolding topo_inv_def by metis+
  from path_ok_keys(1) [OF ok] have keys: "fst ` set ((k, []) # fs) \<subseteq> K" by simp
  from fr d have "d \<in> tsVisited s" by (auto simp: frame_ok_end)
  moreover have "d \<notin> fst ` set ((k, []) # fs)"
  proof
    assume "d \<in> fst ` set ((k, []) # fs)"
    from frames_ok_path [OF fr keys this] have "(known_edge K D)\<^sup>*\<^sup>* d k" .
    moreover have "known_edge K D k d" using d keys by (simp add: known_edge_def)
    ultimately have "(known_edge K D)\<^sup>+\<^sup>+ k k" by (meson rtranclp_into_tranclp2)
    with assms(1) show False by (simp add: acyclic_deps_def)
  qed
  ultimately show "d \<in> set (tsSorted s)" unfolding vis by simp
qed

lemma topo_invI:
  "path_ok K R (map fst st) (set so) \<Longrightarrow> distinct so \<Longrightarrow> vis = set (map fst st) \<union> set so \<Longrightarrow>
   frames_ok K D vis {} st \<Longrightarrow> deps_first K D so \<Longrightarrow> tsStack s = st \<Longrightarrow> tsVisited s = vis \<Longrightarrow>
   tsSorted s = so \<Longrightarrow> topo_inv K D R s"
  by (simp add: topo_inv_def)

lemma topo_invD:
  assumes "topo_inv K D R s" and "tsStack s = (k, it) # fs"
  shows "path_ok K R (k # map fst fs) (set (tsSorted s))" and "distinct (tsSorted s)"
    and "tsVisited s = insert k (fst ` set fs) \<union> set (tsSorted s)"
    and "frames_ok K D (tsVisited s) {} ((k, it) # fs)" and "deps_first K D (tsSorted s)"
  using assms unfolding topo_inv_def by auto

lemma topo_inv_pop:
  assumes "acyclic_deps K D" and "topo_inv K D R s" and st: "tsStack s = (k, []) # fs"
  shows "topo_inv K D R (s\<lparr>tsSorted := tsSorted s @ [k], tsStack := fs\<rparr>)"
proof (rule topo_invI)
  note inv = topo_invD [OF assms(2) st]
  show "path_ok K R (map fst fs) (set (tsSorted s @ [k]))"
    using path_ok_pop [OF inv(1)] by simp
  show "distinct (tsSorted s @ [k])" using inv(1,2) by (simp add: path_ok_def)
  show "tsVisited s = set (map fst fs) \<union> set (tsSorted s @ [k])" using inv(3) by simp
  show "frames_ok K D (tsVisited s) {} fs"
    using inv(3,4) frames_ok_pop [of K D "tsVisited s" "{k}" fs "tsVisited s"] by simp
  show "deps_first K D (tsSorted s @ [k])"
    using inv(5) topo_pop_deps [OF assms] by simp
qed simp_all

lemma topo_inv_push:
  assumes "topo_inv K D R s" and st: "tsStack s = (k, c # it) # fs" and "c \<in> K" "c \<notin> tsVisited s"
  shows "topo_inv K D R (s\<lparr>tsVisited := insert c (tsVisited s), tsStack := (c, D c) # (k, it) # fs\<rparr>)"
proof (rule topo_invI)
  note inv = topo_invD [OF assms(1) st]
  show "path_ok K R (map fst ((c, D c) # (k, it) # fs)) (set (tsSorted s))"
    using path_ok_push [OF inv(1) assms(3)] assms(4) inv(3) by simp
  show "frames_ok K D (insert c (tsVisited s)) {} ((c, D c) # (k, it) # fs)"
    by (rule frames_ok_mono [OF frames_ok_push [OF inv(4)]]) blast
  show "insert c (tsVisited s) = set (map fst ((c, D c) # (k, it) # fs)) \<union> set (tsSorted s)"
    using inv(3) by simp
qed (use topo_invD [OF assms(1) st] in simp_all)

lemma topo_inv_skip:
  assumes "topo_inv K D R s" and st: "tsStack s = (k, c # it) # fs" and "c \<notin> K \<or> c \<in> tsVisited s"
  shows "topo_inv K D R (s\<lparr>tsStack := (k, it) # fs\<rparr>)"
proof (rule topo_invI)
  note inv = topo_invD [OF assms(1) st]
  show "frames_ok K D (tsVisited s) {} ((k, it) # fs)"
    by (rule frames_ok_advance [OF inv(4) assms(3)])
qed (use topo_invD [OF assms(1) st] in simp_all)

lemma topo_inv_step:
  assumes "acyclic_deps K D" and "topo_inv K D R s"
  shows "topo_inv K D R (topo_step K D s)"
proof (cases "tsStack s")
  case (Cons f fs)
  obtain k it where st: "tsStack s = (k, it) # fs" using Cons by (cases f) simp
  show ?thesis
  proof (cases it)
    case Nil
    with topo_inv_pop [OF assms] st show ?thesis by (simp add: topo_step.simps)
  next
    case it: (Cons c it')
    with topo_inv_push [OF assms(2)] topo_inv_skip [OF assms(2)] st show ?thesis
      by (simp add: topo_step.simps)
  qed
qed (use assms(2) in \<open>simp add: topo_step.simps\<close>)

lemma topo_inv_loop:
  "acyclic_deps (set known) D \<Longrightarrow> topo_inv (set known) D R s \<Longrightarrow>
   topo_inv (set known) D R (topo_loop known D s) \<and> tsStack (topo_loop known D s) = []"
proof (induction known D s rule: topo_loop.induct)
  case (1 known D s)
  then show ?case
    using topo_inv_step [of "set known" D R s] topo_loop.simps [of known D s]
    by (cases "tsStack s = []") simp_all
qed

lemma topo_inv_roots:
  "acyclic_deps (set known) D \<Longrightarrow> topo_inv (set known) D R s \<Longrightarrow> tsStack s = [] \<Longrightarrow>
   set ks \<subseteq> set known \<Longrightarrow>
   topo_inv (set known) D (R \<union> set ks) (topo_roots known D ks s) \<and> tsStack (topo_roots known D ks s) = []"
proof (induction known D ks s arbitrary: R rule: topo_roots.induct)
  case (2 known D k ks s)
  show ?case
  proof (cases "k \<in> tsVisited s")
    case True
    have "topo_inv (set known) D (insert k R) s"
      using True "2.prems"(2,3) by (simp add: topo_inv_def path_ok_def)
    from "2.IH"(1) [OF True "2.prems"(1) this] "2.prems"(3,4) True show ?thesis by simp
  next
    case False
    let ?s = "s\<lparr>tsVisited := insert k (tsVisited s), tsStack := [(k, D k)]\<rparr>"
    have "topo_inv (set known) D (insert k R) ?s"
      using False "2.prems" by (auto simp: topo_inv_def path_ok_def)
    from topo_inv_loop [OF "2.prems"(1) this] "2.IH"(2) [OF False "2.prems"(1), of "insert k R"]
      False "2.prems"(4)
    show ?thesis by simp
  qed
qed simp

lemma topologicalOrder_Inr:
  assumes "topologicalOrder keys D = Inr ord"
  shows "distinct ord \<and> set ord = set keys \<and> deps_first (set keys) D ord"
proof -
  let ?init = "\<lparr>tsVisited = {}, tsStack = [], tsSorted = []\<rparr>"
  let ?s = "topo_roots (set_of_iter keys) D (set_of_iter keys) ?init"
  have none: "findCycles keys D = []" and ord: "ord = tsSorted ?s"
    using assms by (auto simp: topologicalOrder_def Let_def split: list.splits)
  from none have "acyclic_deps (set (set_of_iter keys)) D" by (simp add: findCycles_Nil)
  moreover have "topo_inv (set (set_of_iter keys)) D {} ?init"
    by (simp add: topo_inv_def path_ok_def)
  ultimately have "topo_inv (set keys) D (set keys) ?s \<and> tsStack ?s = []"
    using topo_inv_roots [of "set_of_iter keys" D "{}" ?init "set_of_iter keys"] by simp
  then obtain s where "ord = tsSorted s" "topo_inv (set keys) D (set keys) s" "tsStack s = []"
    using ord by blast
  then show ?thesis by (auto simp: topo_inv_def path_ok_def)
qed

lemma topologicalOrder_ok_iff:
  "(\<exists>ord. topologicalOrder keys D = Inr ord) \<longleftrightarrow> acyclic_deps (set keys) D"
  by (auto simp: topologicalOrder_def Let_def findCycles_Nil [symmetric] split: list.splits)

section \<open>Topological layers\<close>

text \<open>On an acyclic graph every round finishes at least one key.\<close>

lemma acyclic_source:
  assumes "acyclic_deps K D" and "finite K" and "S \<subseteq> K" and "S \<noteq> {}"
  shows "\<exists>k \<in> S. \<forall>d \<in> set (D k) \<inter> K. d \<notin> S"
proof -
  have "finite {(a, b). known_edge K D b a}"
    by (rule finite_subset [of _ "K \<times> K"]) (auto simp: known_edge_def assms(2))
  moreover have "acyclic {(a, b). known_edge K D b a}"
  proof -
    have "(a, b) \<in> {(a, b). known_edge K D b a}\<^sup>+ \<Longrightarrow> (known_edge K D)\<^sup>+\<^sup>+ b a" for a b
      by (induction rule: trancl_induct) (auto intro: tranclp_into_tranclp2)
    with assms(1) show ?thesis by (auto simp: acyclic_def acyclic_deps_def)
  qed
  ultimately have "wf {(a, b). known_edge K D b a}" by (rule finite_acyclic_wf)
  then obtain k where "k \<in> S" "\<forall>d. known_edge K D k d \<longrightarrow> d \<notin> S"
    using assms(4) by (metis (mono_tags, lifting) case_prod_conv mem_Collect_eq wf_eq_minimal ex_in_conv)
  with assms(3) show ?thesis by (intro bexI [of _ k]) (auto simp: known_edge_def)
qed

definition layers_ok :: "string set \<Rightarrow> (string \<Rightarrow> string list) \<Rightarrow> string list list \<Rightarrow> bool" where
  "layers_ok K D ls \<longleftrightarrow> distinct (concat ls) \<and> [] \<notin> set ls \<and>
     (\<forall>i < length ls. \<forall>k \<in> set (ls ! i). \<forall>d \<in> set (D k) \<inter> K. \<exists>j < i. d \<in> set (ls ! j))"

lemma layers_ok_snoc:
  assumes "layers_ok K D ls" and "distinct l" and "l \<noteq> []" and "set l \<inter> set (concat ls) = {}"
    and deps: "\<forall>k \<in> set l. set (D k) \<inter> K \<subseteq> set (concat ls)"
  shows "layers_ok K D (ls @ [l])"
proof -
  have "\<exists>j < i. d \<in> set ((ls @ [l]) ! j)"
    if i: "i < Suc (length ls)" and k: "k \<in> set ((ls @ [l]) ! i)" and d: "d \<in> set (D k) \<inter> K" for i k d
  proof (cases "i = length ls")
    case True
    with k d deps have "d \<in> set (concat ls)" by auto
    then obtain l' where "l' \<in> set ls" "d \<in> set l'" by auto
    then obtain j where "j < length ls" "d \<in> set (ls ! j)"
      by (metis in_set_conv_nth)
    then show ?thesis using True by (intro exI [of _ j]) (simp add: nth_append)
  next
    case False
    with i have "i < length ls" by simp
    with k d assms(1) obtain j where "j < i" "d \<in> set (ls ! j)"
      unfolding layers_ok_def by (metis nth_append_left)
    then show ?thesis using False i by (intro exI [of _ j]) (simp add: nth_append)
  qed
  with assms show ?thesis by (auto simp: layers_ok_def)
qed

lemma layers_loop_total:
  assumes "acyclic_deps K D" and "finite K"
  shows "set rem = K - fin \<Longrightarrow> distinct rem \<Longrightarrow> fin \<subseteq> K \<Longrightarrow> set (concat ls) = fin \<Longrightarrow>
    layers_ok K D ls \<Longrightarrow>
    \<exists>ls'. layers_loop K D fin rem ls = Some ls' \<and> layers_ok K D ls' \<and> set (concat ls') = K"
proof (induction "length rem" arbitrary: fin rem ls rule: less_induct)
  case less
  show ?case
  proof (cases "rem = []")
    case True
    with less.prems show ?thesis by (auto simp: layers_loop.simps)
  next
    case False
    define l where "l = next_layer K D fin rem"
    have l: "set l = {k \<in> set rem. \<forall>d \<in> set (D k). d \<notin> K \<or> d \<in> fin}" "distinct l"
      using less.prems(2) by (auto simp: l_def next_layer_def)
    have "set rem \<noteq> {}" using False by simp
    moreover have "set rem \<subseteq> K" using less.prems(1) by blast
    ultimately have "set rem \<subseteq> K" "set rem \<noteq> {}" by simp_all
    from acyclic_source [OF assms this]
    have "\<exists>k \<in> set rem. \<forall>d \<in> set (D k) \<inter> K. d \<notin> set rem" .
    then obtain k where "k \<in> set rem" "\<forall>d \<in> set (D k) \<inter> K. d \<notin> set rem" ..
    with l(1) less.prems(1) have "k \<in> set l" by auto
    let ?fin = "fin \<union> set l" and ?rem = "filter (\<lambda>k. k \<notin> fin \<union> set l) rem"
    have "length ?rem < length rem"
      using \<open>k \<in> set rem\<close> \<open>k \<in> set l\<close> by (intro length_filter_less [of k]) auto
    moreover have "set ?rem = K - ?fin" "distinct ?rem" "?fin \<subseteq> K" "set (concat (ls @ [l])) = ?fin"
      using less.prems l by auto
    moreover have "layers_ok K D (ls @ [l])"
      using less.prems l \<open>k \<in> set l\<close> by (intro layers_ok_snoc) auto
    ultimately have "\<exists>ls'. layers_loop K D ?fin ?rem (ls @ [l]) = Some ls' \<and> layers_ok K D ls'
        \<and> set (concat ls') = K"
      by (rule less.hyps)
    with False show ?thesis
      by (subst layers_loop.simps) (simp add: l_def Let_def)
  qed
qed

end
