(* ===== verification/CycleProps.thy ===== *)
theory CycleProps
  imports CycleFacts
begin

text \<open>
  The properties of the cycle finder and of the topological sorts, for any key list and
  dependency function, and the validation of a built graph as a whole.
\<close>

section \<open>Cycles\<close>

text \<open>C21. The cycle finder is exact as a test and sound as a report: it reports nothing exactly
  when the dependencies among known keys are acyclic, each list it reports is an elementary cycle
  (consecutive dependency edges between known keys, closed, no repeated key), and no two reported
  cycles have the same canonical key.\<close>

theorem findCycles_exact:
  "(findCycles keys D = [] \<longleftrightarrow> acyclic_deps (set keys) D)
   \<and> (\<forall>c \<in> set (findCycles keys D). is_cycle (known_edge (set keys) D) c)
   \<and> distinct (map canonicalCycleKey (findCycles keys D))"
  using findCycles_Nil findCycles_sound findCycles_distinct by blast

definition ring_deps :: "string \<Rightarrow> string list" where
  "ring_deps k = (if k = ''a'' then [''b''] else if k = ''b'' then [''c'', ''x'']
                  else if k = ''c'' then [''a'', ''b''] else [])"

definition chain_deps :: "string \<Rightarrow> string list" where
  "chain_deps k = (if k = ''a'' then [''b'', ''c''] else if k = ''b'' then [''c'', ''x''] else [])"

theorem findCycles_exact_witness:
  "findCycles [''a'', ''b'', ''c''] ring_deps = [[''a'', ''b'', ''c'', ''a''], [''b'', ''c'', ''b'']]
   \<and> is_cycle (known_edge (set [''a'', ''b'', ''c'']) ring_deps) [''b'', ''c'', ''b'']"
proof -
  have found: "findCycles [''a'', ''b'', ''c''] ring_deps
      = [[''a'', ''b'', ''c'', ''a''], [''b'', ''c'', ''b'']]"
    by code_simp
  have "\<forall>c \<in> set (findCycles [''a'', ''b'', ''c''] ring_deps).
      is_cycle (known_edge (set [''a'', ''b'', ''c'']) ring_deps) c"
    using findCycles_exact [of "[''a'', ''b'', ''c'']" ring_deps] by blast
  with found show ?thesis by simp
qed

text \<open>The topological order throws exactly on a cyclic graph; otherwise it lists every key
  once, and each key after all its known dependencies.\<close>

theorem topologicalOrder_correct:
  "((\<exists>ord. topologicalOrder keys D = Inr ord) \<longleftrightarrow> acyclic_deps (set keys) D)
   \<and> (topologicalOrder keys D = Inr ord \<longrightarrow>
        distinct ord \<and> set ord = set keys
        \<and> (\<forall>i < length ord. \<forall>d \<in> set (D (ord ! i)) \<inter> set keys. d \<in> set (take i ord)))"
  using topologicalOrder_ok_iff topologicalOrder_Inr unfolding deps_first_def by blast

theorem topologicalOrder_correct_witness:
  "topologicalOrder [''a'', ''b'', ''c''] chain_deps = Inr [''c'', ''b'', ''a'']
   \<and> acyclic_deps (set [''a'', ''b'', ''c'']) chain_deps"
proof -
  have run: "topologicalOrder [''a'', ''b'', ''c''] chain_deps = Inr [''c'', ''b'', ''a'']"
    by code_simp
  then show ?thesis
    using topologicalOrder_correct [of "[''a'', ''b'', ''c'']" chain_deps "[''c'', ''b'', ''a'']"] by blast
qed

text \<open>C32. The layering returns on every input: on a cyclic graph it throws, on an acyclic one its
  layers are non-empty, partition the keys, and put every known dependency of a key in a strictly
  earlier layer.\<close>

theorem topologicalLayers_correct:
  "(\<not> acyclic_deps (set keys) D \<longrightarrow> (\<exists>m. topologicalLayers keys D = Some (Inl m)))
   \<and> (acyclic_deps (set keys) D \<longrightarrow> (\<exists>ls. topologicalLayers keys D = Some (Inr ls)
        \<and> distinct (concat ls) \<and> set (concat ls) = set keys \<and> [] \<notin> set ls
        \<and> (\<forall>i < length ls. \<forall>k \<in> set (ls ! i). \<forall>d \<in> set (D k) \<inter> set keys.
              \<exists>j < i. d \<in> set (ls ! j))))"
proof (cases "acyclic_deps (set keys) D")
  case True
  have "layers_ok (set keys) D []" by (simp add: layers_ok_def)
  then obtain ls where ls: "layers_loop (set keys) D {} (set_of_iter keys) [] = Some ls"
    "layers_ok (set keys) D ls" "set (concat ls) = set keys"
    using layers_loop_total [OF True, of "set_of_iter keys" "{}" "[]"] by auto
  with True have "topologicalLayers keys D = Some (Inr ls)"
    by (simp add: topologicalLayers_def Let_def findCycles_Nil [symmetric])
  moreover have "distinct (concat ls)" "[] \<notin> set ls" "\<forall>i < length ls. \<forall>k \<in> set (ls ! i).
      \<forall>d \<in> set (D k) \<inter> set keys. \<exists>j < i. d \<in> set (ls ! j)"
    using ls(2) unfolding layers_ok_def by blast+
  ultimately show ?thesis using True ls(3) by blast
next
  case False
  then obtain c cs where "findCycles keys D = c # cs"
    by (metis findCycles_Nil list.exhaust)
  with False show ?thesis by (simp add: topologicalLayers_def)
qed

theorem topologicalLayers_correct_witness:
  "\<exists>ls. topologicalLayers [''a'', ''b'', ''c''] chain_deps = Some (Inr ls)
     \<and> set (concat ls) = set [''a'', ''b'', ''c'']"
proof -
  have "findCycles [''a'', ''b'', ''c''] chain_deps = []" by code_simp
  then have "acyclic_deps (set [''a'', ''b'', ''c'']) chain_deps" by (simp only: findCycles_Nil)
  then show ?thesis using topologicalLayers_correct [of "[''a'', ''b'', ''c'']" chain_deps] by blast
qed

section \<open>Validation\<close>

lemma graph_dangling_Nil:
  "graph_dangling g = [] \<longleftrightarrow> (\<forall>n \<in> snd ` set (nodes g). \<forall>d \<in> set (dependencies n).
     map_of (nodes g) (toLowerCase d) \<noteq> None)"
  by (auto simp: graph_dangling_def node_dangling_def filter_empty_conv)

text \<open>A backlog graph validates exactly when every dependency of every task resolves, up to
  letter case, to a task of the graph and no task depends on itself through resolved
  dependencies.\<close>

theorem validate_ok_iff:
  "vrOk (validate g) \<longleftrightarrow>
     (\<forall>n \<in> snd ` set (nodes g). \<forall>d \<in> set (dependencies n). map_of (nodes g) (toLowerCase d) \<noteq> None)
     \<and> acyclic_deps (set (map_keys (nodes g))) (lower_deps g)"
  by (auto simp: validate_def Let_def graph_dangling_Nil findCycles_Nil)

definition two_cycle :: DependencyGraph where
  "two_cycle = \<lparr>nodes = [(''t-1'', \<lparr>nodeId = ''T-1'', status = Open, fileLocation = Open,
       frontmatterStatus = ''To Do'', priority = '''', title = '''', dependencies = [''t-2''],
       externalDependencies = [], lastModified = '''', filePath = '''', parentTaskId = ''''\<rparr>),
     (''t-2'', \<lparr>nodeId = ''t-2'', status = Open, fileLocation = Open,
       frontmatterStatus = ''To Do'', priority = '''', title = '''', dependencies = [''T-1''],
       externalDependencies = [], lastModified = '''', filePath = '''', parentTaskId = ''''\<rparr>)],
     openIds = [''t-1'', ''t-2''], completedIds = []\<rparr>"

theorem validate_ok_iff_witness:
  "vrCycles (validate two_cycle) = [[''T-1'', ''t-2'', ''T-1'']]
   \<and> \<not> acyclic_deps (set (map_keys (nodes two_cycle))) (lower_deps two_cycle)"
proof -
  have "\<forall>n \<in> snd ` set (nodes two_cycle). \<forall>d \<in> set (dependencies n).
      map_of (nodes two_cycle) (toLowerCase d) \<noteq> None"
    by code_simp
  moreover have "\<not> vrOk (validate two_cycle)" by code_simp
  moreover have "vrCycles (validate two_cycle) = [[''T-1'', ''t-2'', ''T-1'']]" by code_simp
  ultimately show ?thesis using validate_ok_iff [of two_cycle] by blast
qed

end
