(* ===== verification/EffectivePriority.thy ===== *)
theory EffectivePriority
  imports DependencyGraph
begin

text \<open>
  Depth-aware dispatch: \<open>pipeline-cli/src/deps/effective-priority.ts\<close>, \<open>dispatch.ts\<close> and the
  selection step of \<open>critical-path.ts\<close>. The two memoised depth-first searches thread their cache
  through the result. The priority resolver, the two collations (\<open>lcd\<close> plain, \<open>lc\<close> numeric)
  and the composition flag read from the environment are parameters.
\<close>

section \<open>Priority weights\<close>

definition readPriorityWeight :: "string option \<Rightarrow> nat" where
  "readPriorityWeight raw = (case raw of
     None \<Rightarrow> 2
   | Some s \<Rightarrow> (let key = toLowerCase (trim s) in
       if key = [] then 2
       else if key = ''low'' then 1 else if key = ''medium'' then 2
       else if key = ''high'' then 3 else if key = ''critical'' then 4 else 2))"

type_synonym resolver = "(DependencyNode \<Rightarrow> string option) option"

definition priorityWeightFor :: "resolver \<Rightarrow> DependencyNode \<Rightarrow> nat" where
  "priorityWeightFor rs n = readPriorityWeight
     (case rs of Some f \<Rightarrow> f n | None \<Rightarrow> Some (priority n))"

section \<open>The memoised searches\<close>

text \<open>
  \<open>children k\<close> is the reverse adjacency of \<open>k\<close>; a child that is no key of \<open>ks\<close> is skipped.
  Both functions return the value and the cache.
\<close>

type_synonym cache = "(string, nat) jsmap"

function effectiveOf :: "string list \<Rightarrow> (string \<Rightarrow> string list) \<Rightarrow> (string \<Rightarrow> nat) \<Rightarrow>
    string \<Rightarrow> string set \<Rightarrow> cache \<Rightarrow> nat \<times> cache"
  and effective_children :: "string list \<Rightarrow> (string \<Rightarrow> string list) \<Rightarrow> (string \<Rightarrow> nat) \<Rightarrow>
    string list \<Rightarrow> nat \<Rightarrow> string set \<Rightarrow> cache \<Rightarrow> nat \<times> cache" where
  "effectiveOf ks children base key onStack c =
     (case map_of c key of
        Some v \<Rightarrow> (v, c)
      | None \<Rightarrow>
          (if key \<in> onStack then (base key, c)
           else (let r = effective_children ks children base (children key) (base key)
                       (insert key onStack) c
                 in (fst r, map_set key (fst r) (snd r)))))"
| "effective_children ks children base [] best onStack c = (best, c)"
| "effective_children ks children base (childId # cs) best onStack c =
     (let childKey = toLowerCase childId in
      if childKey \<notin> set ks then effective_children ks children base cs best onStack c
      else (let r = effectiveOf ks children base childKey onStack c
            in effective_children ks children base cs
                 (if fst r > best then fst r else best) onStack (snd r)))"
  by pat_completeness auto
termination
proof (relation "measures [\<lambda>x. case x of
      Inl (ks, ch, base, key, stk, c) \<Rightarrow> card (set ks - stk) + (if key \<in> set ks then 0 else 1)
    | Inr (ks, ch, base, cs, best, stk, c) \<Rightarrow> card (set ks - stk),
    \<lambda>x. case x of Inl _ \<Rightarrow> 0 | Inr (ks, ch, base, cs, best, stk, c) \<Rightarrow> Suc (length cs)]", goal_cases)
  case (2 ks children base key onStack c)
  show ?case
  proof (cases "key \<in> set ks")
    case True
    then have "set ks - insert key onStack \<subset> set ks - onStack" using 2(2) by auto
    from psubset_card_mono [OF _ this] have "card (set ks - insert key onStack) < card (set ks - onStack)"
      by simp
    then show ?thesis by (simp add: True)
  next
    case False
    then have "set ks - insert key onStack = set ks - onStack" by auto
    with False show ?thesis by simp
  qed
qed simp_all

function cplOf :: "string list \<Rightarrow> (string \<Rightarrow> string list) \<Rightarrow>
    string \<Rightarrow> string set \<Rightarrow> cache \<Rightarrow> nat \<times> cache"
  and cpl_children :: "string list \<Rightarrow> (string \<Rightarrow> string list) \<Rightarrow>
    string list \<Rightarrow> nat \<Rightarrow> string set \<Rightarrow> cache \<Rightarrow> nat \<times> cache" where
  "cplOf ks children key onStack c =
     (case map_of c key of
        Some v \<Rightarrow> (v, c)
      | None \<Rightarrow>
          (if key \<in> onStack then (0, c)
           else (let r = cpl_children ks children (children key) 0 (insert key onStack) c
                 in (fst r, map_set key (fst r) (snd r)))))"
| "cpl_children ks children [] best onStack c = (best, c)"
| "cpl_children ks children (childId # cs) best onStack c =
     (let childKey = toLowerCase childId in
      if childKey \<notin> set ks then cpl_children ks children cs best onStack c
      else (let r = cplOf ks children childKey onStack c
            in cpl_children ks children cs
                 (if 1 + fst r > best then 1 + fst r else best) onStack (snd r)))"
  by pat_completeness auto
termination
proof (relation "measures [\<lambda>x. case x of
      Inl (ks, ch, key, stk, c) \<Rightarrow> card (set ks - stk) + (if key \<in> set ks then 0 else 1)
    | Inr (ks, ch, cs, best, stk, c) \<Rightarrow> card (set ks - stk),
    \<lambda>x. case x of Inl _ \<Rightarrow> 0 | Inr (ks, ch, cs, best, stk, c) \<Rightarrow> Suc (length cs)]", goal_cases)
  case (2 ks children key onStack c)
  show ?case
  proof (cases "key \<in> set ks")
    case True
    then have "set ks - insert key onStack \<subset> set ks - onStack" using 2(2) by auto
    from psubset_card_mono [OF _ this] have "card (set ks - insert key onStack) < card (set ks - onStack)"
      by simp
    then show ?thesis by (simp add: True)
  next
    case False
    then have "set ks - insert key onStack = set ks - onStack" by auto
    with False show ?thesis by simp
  qed
qed simp_all

declare effectiveOf.simps [simp del] effective_children.simps(2) [simp del]
declare cplOf.simps [simp del] cpl_children.simps(2) [simp del]

section \<open>The record set\<close>

record EffectivePriorityRecord =
  erId :: string
  erBase :: nat
  erEffective :: nat
  erCpl :: nat
  erModified :: string

text \<open>Unlike \<open>impact\<close>, this reverse map holds lower-case ids.\<close>

fun reverse_keys :: "DependencyNode list \<Rightarrow> reverse_map \<Rightarrow> reverse_map" where
  "reverse_keys [] r = r"
| "reverse_keys (n # ns) r =
     reverse_keys ns (reverse_node (toLowerCase (nodeId n)) (dependencies n) r)"

definition base_of :: "resolver \<Rightarrow> DependencyGraph \<Rightarrow> string \<Rightarrow> nat" where
  "base_of rs g k = (case map_of (nodes g) k of Some n \<Rightarrow> priorityWeightFor rs n | None \<Rightarrow> 2)"

definition children_of :: "DependencyGraph \<Rightarrow> string \<Rightarrow> string list" where
  "children_of g = (let r = reverse_keys (map snd (nodes g)) [] in reverse_get r)"

fun priority_records :: "resolver \<Rightarrow> DependencyGraph \<Rightarrow> (string, DependencyNode) jsmap \<Rightarrow>
    cache \<Rightarrow> cache \<Rightarrow> (string, EffectivePriorityRecord) jsmap \<Rightarrow>
    (string, EffectivePriorityRecord) jsmap" where
  "priority_records rs g [] effC cplC out = out"
| "priority_records rs g ((key, n) # es) effC cplC out =
     (let base = base_of rs g key;
          eff = effectiveOf (map_keys (nodes g)) (children_of g) (base_of rs g) key {} effC;
          cpl = cplOf (map_keys (nodes g)) (children_of g) key {} cplC
      in priority_records rs g es (snd eff) (snd cpl)
           (map_set key \<lparr>erId = nodeId n, erBase = base, erEffective = fst eff, erCpl = fst cpl,
                         erModified = lastModified n\<rparr> out))"

definition computeEffectivePriorities ::
  "resolver \<Rightarrow> DependencyGraph \<Rightarrow> (string, EffectivePriorityRecord) jsmap" where
  "computeEffectivePriorities rs g = priority_records rs g (nodes g) [] [] []"

section \<open>Dispatch order\<close>

record RankedFrontierEntry =
  rfEntry :: FrontierEntry
  rfBase :: nat
  rfEffective :: nat
  rfCpl :: nat
  rfModified :: string

text \<open>The comparison of \<open>compareForDispatch\<close> on its four fields; the inline comparators of
  \<open>rankAllByEffectivePriority\<close> and \<open>selectCriticalPath\<close> are the same four tests.\<close>

definition dispatch_cmp :: "collation \<Rightarrow> collation \<Rightarrow> nat \<times> nat \<times> string \<times> string \<Rightarrow>
    nat \<times> nat \<times> string \<times> string \<Rightarrow> int" where
  "dispatch_cmp lcd lc a b =
     (case a of (ea, ca, ma, ia) \<Rightarrow> case b of (eb, cb, mb, ib) \<Rightarrow>
        if ea \<noteq> eb then int eb - int ea
        else if ca \<noteq> cb then int cb - int ca
        else if ma \<noteq> mb then lcd mb ma
        else lc ia ib)"

definition ranked_fields :: "RankedFrontierEntry \<Rightarrow> nat \<times> nat \<times> string \<times> string" where
  "ranked_fields a = (rfEffective a, rfCpl a, rfModified a, feId (rfEntry a))"

definition compareForDispatch ::
  "collation \<Rightarrow> collation \<Rightarrow> RankedFrontierEntry \<Rightarrow> RankedFrontierEntry \<Rightarrow> int" where
  "compareForDispatch lcd lc a b = dispatch_cmp lcd lc (ranked_fields a) (ranked_fields b)"

record SortFrontierOpts =
  priorityResolver :: resolver
  forceComposition :: bool
  forceBaseline :: bool

definition composition_on :: "bool \<Rightarrow> SortFrontierOpts \<Rightarrow> bool" where
  "composition_on env opts =
     (if forceComposition opts then True else if forceBaseline opts then False else env)"

definition rank_entry ::
  "(string, EffectivePriorityRecord) jsmap \<Rightarrow> FrontierEntry \<Rightarrow> RankedFrontierEntry" where
  "rank_entry records e = (case map_of records (toLowerCase (feId e)) of
     None \<Rightarrow> \<lparr>rfEntry = e, rfBase = 0, rfEffective = 0, rfCpl = 0, rfModified = []\<rparr>
   | Some r \<Rightarrow> \<lparr>rfEntry = e, rfBase = erBase r, rfEffective = erEffective r, rfCpl = erCpl r,
                rfModified = erModified r\<rparr>)"

definition sortFrontierByEffectivePriority :: "collation \<Rightarrow> collation \<Rightarrow> bool \<Rightarrow>
    DependencyGraph \<Rightarrow> FrontierEntry list \<Rightarrow> SortFrontierOpts \<Rightarrow> RankedFrontierEntry list" where
  "sortFrontierByEffectivePriority lcd lc env g fr opts =
     (let ranked = map (rank_entry (computeEffectivePriorities (priorityResolver opts) g)) fr
      in if \<not> composition_on env opts then ranked
         else sort_by (compareForDispatch lcd lc) ranked)"

definition record_fields :: "EffectivePriorityRecord \<Rightarrow> nat \<times> nat \<times> string \<times> string" where
  "record_fields a = (erEffective a, erCpl a, erModified a, erId a)"

definition rankAllByEffectivePriority :: "collation \<Rightarrow> collation \<Rightarrow> bool \<Rightarrow>
    DependencyGraph \<Rightarrow> SortFrontierOpts \<Rightarrow> EffectivePriorityRecord list" where
  "rankAllByEffectivePriority lcd lc env g opts =
     (let records = map snd (computeEffectivePriorities (priorityResolver opts) g)
      in if \<not> composition_on env opts then sort_by (\<lambda>a b. lc (erId a) (erId b)) records
         else sort_by (\<lambda>a b. dispatch_cmp lcd lc (record_fields a) (record_fields b)) records)"

section \<open>Critical path\<close>

record SnapshotRecord =
  snId :: string
  snDependencies :: "string list"
  snDependents :: "string list"
  snCpl :: nat
  snModified :: string

record EnrichedSnapshotRecord =
  enId :: string
  enTitle :: string
  enStatus :: string
  enEffectiveStatus :: "TaskStatus option"
  enBase :: nat
  enEffective :: nat
  enCpl :: nat
  enDependentCount :: nat
  enDependencies :: "string list"
  enDependents :: "string list"
  enModified :: string
  enFilePath :: string
  enWarnings :: "string list"

definition enrich_row :: "DependencyGraph \<Rightarrow> (string, EffectivePriorityRecord) jsmap \<Rightarrow>
    SnapshotRecord \<Rightarrow> EnrichedSnapshotRecord" where
  "enrich_row g priorities r =
     (let key = toLowerCase (snId r); node = map_of (nodes g) key; pri = map_of priorities key
      in \<lparr>enId = snId r,
          enTitle = (case node of Some n \<Rightarrow> title n | None \<Rightarrow> []),
          enStatus = (case node of Some n \<Rightarrow> frontmatterStatus n | None \<Rightarrow> []),
          enEffectiveStatus = map_option status node,
          enBase = (case pri of Some p \<Rightarrow> erBase p | None \<Rightarrow> 0),
          enEffective = (case pri of Some p \<Rightarrow> erEffective p | None \<Rightarrow> 0),
          enCpl = snCpl r, enDependentCount = length (snDependents r),
          enDependencies = snDependencies r, enDependents = snDependents r,
          enModified = snModified r,
          enFilePath = (case node of Some n \<Rightarrow> filePath n | None \<Rightarrow> []),
          enWarnings = (if node = None
            then [''task '' @ snId r @ '' present in snapshot but missing from live graph''] else [])\<rparr>)"

definition enrichSnapshot ::
  "DependencyGraph \<Rightarrow> SnapshotRecord list \<Rightarrow> EnrichedSnapshotRecord list" where
  "enrichSnapshot g records = map (enrich_row g (computeEffectivePriorities None g)) records"

definition enriched_fields :: "EnrichedSnapshotRecord \<Rightarrow> nat \<times> nat \<times> string \<times> string" where
  "enriched_fields a = (enEffective a, enCpl a, enModified a, enId a)"

definition selectCriticalPath :: "collation \<Rightarrow> collation \<Rightarrow> nat \<Rightarrow> bool \<Rightarrow>
    EnrichedSnapshotRecord list \<Rightarrow> EnrichedSnapshotRecord list" where
  "selectCriticalPath lcd lc limit openOnly enriched =
     take limit (sort_by (\<lambda>a b. dispatch_cmp lcd lc (enriched_fields a) (enriched_fields b))
       (filter (\<lambda>r. if openOnly \<and> enEffectiveStatus r \<noteq> Some Open then False
                    else if enCpl r = 0 \<and> enDependentCount r = 0 then False else True) enriched))"

end
