(* ===== verification/EffectiveFacts.thy ===== *)
theory EffectiveFacts
  imports EffectivePriority DependencyFacts
begin

text \<open>
  What the memoised searches return. On any graph a returned value is attained (by a task
  downstream, by a chain) and an effective priority is at least the base priority; on an acyclic
  graph the cycle guard never fires and the values are the maxima.
\<close>

section \<open>Downstream edges\<close>

definition down_edge :: "string list \<Rightarrow> (string \<Rightarrow> string list) \<Rightarrow> string \<Rightarrow> string \<Rightarrow> bool" where
  "down_edge ks children a b \<longleftrightarrow> b \<in> toLowerCase ` set (children a) \<and> b \<in> set ks"

lemma down_edge_child:
  "d \<in> set (children k) \<Longrightarrow> toLowerCase d \<in> set ks \<Longrightarrow> down_edge ks children k (toLowerCase d)"
  by (simp add: down_edge_def)

definition cache_all :: "(string \<Rightarrow> nat \<Rightarrow> bool) \<Rightarrow> cache \<Rightarrow> bool" where
  "cache_all P c \<longleftrightarrow> (\<forall>k v. map_of c k = Some v \<longrightarrow> P k v)"

lemma cache_all_Nil [simp]: "cache_all P []"
  by (simp add: cache_all_def)

lemma cache_all_set [simp]: "cache_all P c \<Longrightarrow> P k v \<Longrightarrow> cache_all P (map_set k v c)"
  by (simp add: cache_all_def)

lemma cache_allD: "cache_all P c \<Longrightarrow> map_of c k = Some v \<Longrightarrow> P k v"
  by (simp add: cache_all_def)

section \<open>Effective priority\<close>

definition attained :: "(string \<Rightarrow> string \<Rightarrow> bool) \<Rightarrow> (string \<Rightarrow> nat) \<Rightarrow> string \<Rightarrow> nat \<Rightarrow> bool" where
  "attained E base k v \<longleftrightarrow> base k \<le> v \<and> (\<exists>y. E\<^sup>*\<^sup>* k y \<and> v = base y)"

definition covers :: "(string \<Rightarrow> string \<Rightarrow> bool) \<Rightarrow> (string \<Rightarrow> nat) \<Rightarrow> string \<Rightarrow> nat \<Rightarrow> bool" where
  "covers E base k v \<longleftrightarrow> (\<forall>y. E\<^sup>*\<^sup>* k y \<longrightarrow> base y \<le> v)"

lemma attained_self [simp]: "attained E base k (base k)"
  by (auto simp: attained_def)

lemma attained_child:
  "attained E base k v \<Longrightarrow> E k c \<Longrightarrow> attained E base c w \<Longrightarrow> v < w \<Longrightarrow> attained E base k w"
  by (auto simp: attained_def intro: converse_rtranclp_into_rtranclp)

lemma covers_mono: "covers E base k v \<Longrightarrow> v \<le> w \<Longrightarrow> covers E base k w"
  unfolding covers_def using le_trans by blast

lemma covers_node:
  "base k \<le> v \<Longrightarrow> (\<forall>c. E k c \<longrightarrow> covers E base c v) \<Longrightarrow> covers E base k v"
  unfolding covers_def by (metis converse_rtranclpE)


lemma effective_sound:
  "cache_all (attained (down_edge ks children) base) c \<Longrightarrow>
   attained (down_edge ks children) base key (fst (effectiveOf ks children base key stk c))
   \<and> cache_all (attained (down_edge ks children) base) (snd (effectiveOf ks children base key stk c))"
  "cache_all (attained (down_edge ks children) base) c \<Longrightarrow> set cs \<subseteq> set (children p) \<Longrightarrow>
   attained (down_edge ks children) base p best \<Longrightarrow>
   attained (down_edge ks children) base p (fst (effective_children ks children base cs best stk c))
   \<and> cache_all (attained (down_edge ks children) base)
       (snd (effective_children ks children base cs best stk c))"
proof (induction ks children base key stk c and ks children base cs best stk c arbitrary: and p
    rule: effectiveOf_effective_children.induct)
  case (1 ks children base key stk c)
  show ?case
  proof (cases "map_of c key")
    case None
    show ?thesis
    proof (cases "key \<in> stk")
      case True
      with None "1.prems" show ?thesis by (simp add: effectiveOf.simps)
    next
      case False
      from "1.IH" [OF None False "1.prems" subset_refl attained_self]
      show ?thesis using None False by (simp add: effectiveOf.simps Let_def)
    qed
  next
    case (Some v)
    with "1.prems" show ?thesis by (auto simp: effectiveOf.simps dest: cache_allD)
  qed
next
  case (2 ks children base best stk c)
  then show ?case by simp
next
  case (3 ks children base childId cs best stk c)
  let ?ck = "toLowerCase childId"
  let ?r = "effectiveOf ks children base ?ck stk c"
  show ?case
  proof (cases "?ck \<in> set ks")
    case False
    with "3.IH"(1) [OF refl False "3.prems"(1) _ "3.prems"(3)] "3.prems"(2) show ?thesis
      by (simp add: effective_children.simps Let_def)
  next
    case True
    then have known: "\<not> ?ck \<notin> set ks" by simp
    have child: "attained (down_edge ks children) base ?ck (fst ?r)"
      "cache_all (attained (down_edge ks children) base) (snd ?r)"
      using "3.IH"(2) [OF refl known "3.prems"(1)] by simp_all
    have "down_edge ks children p ?ck"
      using True "3.prems"(2) by (simp add: down_edge_def)
    then have "attained (down_edge ks children) base p (if fst ?r > best then fst ?r else best)"
      using attained_child [OF "3.prems"(3) _ child(1)] "3.prems"(3) by simp
    from "3.IH"(3) [OF refl known refl child(2) _ this] "3.prems"(2) True show ?thesis
      by (simp add: effective_children.simps Let_def)
  qed
qed

text \<open>On an acyclic graph the ancestors on the stack reach the current key, so the guard would
  close a cycle.\<close>

definition above :: "('a \<Rightarrow> 'a \<Rightarrow> bool) \<Rightarrow> 'a set \<Rightarrow> 'a \<Rightarrow> bool" where
  "above E stk k \<longleftrightarrow> (\<forall>s \<in> stk. E\<^sup>+\<^sup>+ s k)"

lemma above_empty [simp]: "above E {} k"
  by (simp add: above_def)

lemma above_child: "above E stk k \<Longrightarrow> E k c \<Longrightarrow> above E (insert k stk) c"
  by (auto simp: above_def intro: tranclp.trancl_into_trancl)

lemma above_notin: "above E stk k \<Longrightarrow> \<not> E\<^sup>+\<^sup>+ k k \<Longrightarrow> k \<notin> stk"
  by (auto simp: above_def)

lemma effective_complete:
  "\<forall>k. \<not> (down_edge ks children)\<^sup>+\<^sup>+ k k \<Longrightarrow> cache_all (covers (down_edge ks children) base) c \<Longrightarrow>
   above (down_edge ks children) stk key \<Longrightarrow>
   covers (down_edge ks children) base key (fst (effectiveOf ks children base key stk c))
   \<and> cache_all (covers (down_edge ks children) base) (snd (effectiveOf ks children base key stk c))"
  "\<forall>k. \<not> (down_edge ks children)\<^sup>+\<^sup>+ k k \<Longrightarrow> cache_all (covers (down_edge ks children) base) c \<Longrightarrow>
   \<forall>d \<in> set cs. toLowerCase d \<in> set ks \<longrightarrow> above (down_edge ks children) stk (toLowerCase d) \<Longrightarrow>
   best \<le> fst (effective_children ks children base cs best stk c)
   \<and> (\<forall>d \<in> set cs. toLowerCase d \<in> set ks \<longrightarrow> covers (down_edge ks children) base (toLowerCase d)
         (fst (effective_children ks children base cs best stk c)))
   \<and> cache_all (covers (down_edge ks children) base)
       (snd (effective_children ks children base cs best stk c))"
proof (induction ks children base key stk c and ks children base cs best stk c
    rule: effectiveOf_effective_children.induct)
  case (1 ks children base key stk c)
  let ?E = "down_edge ks children"
  show ?case
  proof (cases "map_of c key")
    case None
    have False: "key \<notin> stk" using above_notin [OF "1.prems"(3)] "1.prems"(1) by blast
    let ?r = "effective_children ks children base (children key) (base key) (insert key stk) c"
    have "\<forall>d \<in> set (children key). toLowerCase d \<in> set ks
        \<longrightarrow> above ?E (insert key stk) (toLowerCase d)"
      using above_child [OF "1.prems"(3) down_edge_child] by blast
    from "1.IH" [OF None False "1.prems"(1,2) this]
    have kids: "base key \<le> fst ?r" "\<forall>d \<in> set (children key). toLowerCase d \<in> set ks
        \<longrightarrow> covers ?E base (toLowerCase d) (fst ?r)" "cache_all (covers ?E base) (snd ?r)"
      by blast+
    then have "covers ?E base key (fst ?r)"
      by (intro covers_node) (auto simp: down_edge_def)
    with kids(3) None False show ?thesis by (simp add: effectiveOf.simps Let_def)
  next
    case (Some v)
    with "1.prems"(2) show ?thesis by (auto simp: effectiveOf.simps dest: cache_allD)
  qed
next
  case (2 ks children base best stk c)
  then show ?case by simp
next
  case (3 ks children base childId cs best stk c)
  let ?ck = "toLowerCase childId" and ?E = "down_edge ks children"
  let ?r = "effectiveOf ks children base ?ck stk c"
  show ?case
  proof (cases "?ck \<in> set ks")
    case False
    with "3.IH"(1) [OF refl False "3.prems"(1,2)] "3.prems"(3) show ?thesis
      by (simp add: effective_children.simps Let_def)
  next
    case True
    then have known: "\<not> ?ck \<notin> set ks" by simp
    have child: "covers ?E base ?ck (fst ?r)" "cache_all (covers ?E base) (snd ?r)"
      using "3.IH"(2) [OF refl known "3.prems"(1,2)] "3.prems"(3) True by simp_all
    define v where "v = fst (effective_children ks children base cs
        (if fst ?r > best then fst ?r else best) stk (snd ?r))"
    from "3.IH"(3) [OF refl known refl "3.prems"(1) child(2)] "3.prems"(3)
    have rest: "(if fst ?r > best then fst ?r else best) \<le> v"
      "\<forall>d \<in> set cs. toLowerCase d \<in> set ks \<longrightarrow> covers ?E base (toLowerCase d) v"
      "cache_all (covers ?E base) (snd (effective_children ks children base cs
        (if fst ?r > best then fst ?r else best) stk (snd ?r)))"
      by (simp_all add: v_def)
    from rest(1) have "best \<le> v" "fst ?r \<le> v" by (simp_all split: if_splits)
    with covers_mono [OF child(1)] rest(2,3) True show ?thesis
      by (simp add: effective_children.simps Let_def v_def)
  qed
qed

section \<open>Critical path length\<close>

definition has_chain :: "(string \<Rightarrow> string \<Rightarrow> bool) \<Rightarrow> string \<Rightarrow> nat \<Rightarrow> bool" where
  "has_chain E k n \<longleftrightarrow> (\<exists>y. (E ^^ n) k y)"

definition chain_bound :: "(string \<Rightarrow> string \<Rightarrow> bool) \<Rightarrow> string \<Rightarrow> nat \<Rightarrow> bool" where
  "chain_bound E k v \<longleftrightarrow> (\<forall>n. has_chain E k n \<longrightarrow> n \<le> v)"

lemma has_chain_zero [simp]: "has_chain E k 0"
  by (auto simp: has_chain_def)

lemma has_chain_Suc: "has_chain E k (Suc n) \<longleftrightarrow> (\<exists>c. E k c \<and> has_chain E c n)"
  unfolding has_chain_def by (metis relpowp_Suc_D2 relpowp_Suc_I2)

lemma chain_bound_node:
  "(\<forall>c. E k c \<longrightarrow> (\<exists>w. chain_bound E c w \<and> Suc w \<le> v)) \<Longrightarrow> chain_bound E k v"
  unfolding chain_bound_def
proof (intro allI impI)
  fix n assume kids: "\<forall>c. E k c \<longrightarrow> (\<exists>w. (\<forall>n. has_chain E c n \<longrightarrow> n \<le> w) \<and> Suc w \<le> v)"
    and "has_chain E k n"
  then show "n \<le> v"
    by (cases n) (auto simp: has_chain_Suc, metis Suc_leI le_imp_less_Suc le_trans not_less)
qed

lemma cpl_sound:
  "cache_all (has_chain (down_edge ks children)) c \<Longrightarrow>
   has_chain (down_edge ks children) key (fst (cplOf ks children key stk c))
   \<and> cache_all (has_chain (down_edge ks children)) (snd (cplOf ks children key stk c))"
  "cache_all (has_chain (down_edge ks children)) c \<Longrightarrow> set cs \<subseteq> set (children p) \<Longrightarrow>
   has_chain (down_edge ks children) p best \<Longrightarrow>
   has_chain (down_edge ks children) p (fst (cpl_children ks children cs best stk c))
   \<and> cache_all (has_chain (down_edge ks children)) (snd (cpl_children ks children cs best stk c))"
proof (induction ks children key stk c and ks children cs best stk c arbitrary: and p
    rule: cplOf_cpl_children.induct)
  case (1 ks children key stk c)
  show ?case
  proof (cases "map_of c key")
    case None
    show ?thesis
    proof (cases "key \<in> stk")
      case True
      with None "1.prems" show ?thesis by (simp add: cplOf.simps)
    next
      case False
      from "1.IH" [OF None False "1.prems" subset_refl has_chain_zero]
      show ?thesis using None False by (simp add: cplOf.simps Let_def)
    qed
  next
    case (Some v)
    with "1.prems" show ?thesis by (auto simp: cplOf.simps dest: cache_allD)
  qed
next
  case (2 ks children best stk c)
  then show ?case by simp
next
  case (3 ks children childId cs best stk c)
  let ?ck = "toLowerCase childId" and ?E = "down_edge ks children"
  let ?r = "cplOf ks children ?ck stk c"
  show ?case
  proof (cases "?ck \<in> set ks")
    case False
    with "3.IH"(1) [OF refl False "3.prems"(1) _ "3.prems"(3)] "3.prems"(2) show ?thesis
      by (simp add: cpl_children.simps Let_def)
  next
    case True
    then have known: "\<not> ?ck \<notin> set ks" by simp
    have child: "has_chain ?E ?ck (fst ?r)" "cache_all (has_chain ?E) (snd ?r)"
      using "3.IH"(2) [OF refl known "3.prems"(1)] by simp_all
    have "down_edge ks children p ?ck"
      using True "3.prems"(2) by (simp add: down_edge_def)
    then have "has_chain ?E p (1 + fst ?r)"
      using child(1) by (auto simp: has_chain_Suc)
    then have "has_chain ?E p (if 1 + fst ?r > best then 1 + fst ?r else best)"
      using "3.prems"(3) by simp
    from "3.IH"(3) [OF refl known refl child(2) _ this] "3.prems"(2) True show ?thesis
      by (simp add: cpl_children.simps Let_def)
  qed
qed

lemma cpl_complete:
  "\<forall>k. \<not> (down_edge ks children)\<^sup>+\<^sup>+ k k \<Longrightarrow> cache_all (chain_bound (down_edge ks children)) c \<Longrightarrow>
   above (down_edge ks children) stk key \<Longrightarrow>
   chain_bound (down_edge ks children) key (fst (cplOf ks children key stk c))
   \<and> cache_all (chain_bound (down_edge ks children)) (snd (cplOf ks children key stk c))"
  "\<forall>k. \<not> (down_edge ks children)\<^sup>+\<^sup>+ k k \<Longrightarrow> cache_all (chain_bound (down_edge ks children)) c \<Longrightarrow>
   \<forall>d \<in> set cs. toLowerCase d \<in> set ks \<longrightarrow> above (down_edge ks children) stk (toLowerCase d) \<Longrightarrow>
   best \<le> fst (cpl_children ks children cs best stk c)
   \<and> (\<forall>d \<in> set cs. toLowerCase d \<in> set ks \<longrightarrow> (\<exists>w. chain_bound (down_edge ks children) (toLowerCase d) w
         \<and> Suc w \<le> fst (cpl_children ks children cs best stk c)))
   \<and> cache_all (chain_bound (down_edge ks children)) (snd (cpl_children ks children cs best stk c))"
proof (induction ks children key stk c and ks children cs best stk c
    rule: cplOf_cpl_children.induct)
  case (1 ks children key stk c)
  let ?E = "down_edge ks children"
  show ?case
  proof (cases "map_of c key")
    case None
    have False: "key \<notin> stk" using above_notin [OF "1.prems"(3)] "1.prems"(1) by blast
    let ?r = "cpl_children ks children (children key) 0 (insert key stk) c"
    have "\<forall>d \<in> set (children key). toLowerCase d \<in> set ks
        \<longrightarrow> above ?E (insert key stk) (toLowerCase d)"
      using above_child [OF "1.prems"(3) down_edge_child] by blast
    from "1.IH" [OF None False "1.prems"(1,2) this]
    have kids: "\<forall>d \<in> set (children key). toLowerCase d \<in> set ks
        \<longrightarrow> (\<exists>w. chain_bound ?E (toLowerCase d) w \<and> Suc w \<le> fst ?r)"
      "cache_all (chain_bound ?E) (snd ?r)"
      by blast+
    then have "chain_bound ?E key (fst ?r)"
      by (intro chain_bound_node) (auto simp: down_edge_def)
    with kids(2) None False show ?thesis by (simp add: cplOf.simps Let_def)
  next
    case (Some v)
    with "1.prems"(2) show ?thesis by (auto simp: cplOf.simps dest: cache_allD)
  qed
next
  case (2 ks children best stk c)
  then show ?case by simp
next
  case (3 ks children childId cs best stk c)
  let ?ck = "toLowerCase childId" and ?E = "down_edge ks children"
  let ?r = "cplOf ks children ?ck stk c"
  show ?case
  proof (cases "?ck \<in> set ks")
    case False
    with "3.IH"(1) [OF refl False "3.prems"(1,2)] "3.prems"(3) show ?thesis
      by (simp add: cpl_children.simps Let_def)
  next
    case True
    then have known: "\<not> ?ck \<notin> set ks" by simp
    have child: "chain_bound ?E ?ck (fst ?r)" "cache_all (chain_bound ?E) (snd ?r)"
      using "3.IH"(2) [OF refl known "3.prems"(1,2)] "3.prems"(3) True by simp_all
    define v where "v = fst (cpl_children ks children cs
        (if 1 + fst ?r > best then 1 + fst ?r else best) stk (snd ?r))"
    from "3.IH"(3) [OF refl known refl "3.prems"(1) child(2)] "3.prems"(3)
    have rest: "(if 1 + fst ?r > best then 1 + fst ?r else best) \<le> v"
      "\<forall>d \<in> set cs. toLowerCase d \<in> set ks \<longrightarrow> (\<exists>w. chain_bound ?E (toLowerCase d) w \<and> Suc w \<le> v)"
      "cache_all (chain_bound ?E) (snd (cpl_children ks children cs
        (if 1 + fst ?r > best then 1 + fst ?r else best) stk (snd ?r)))"
      by (simp_all add: v_def)
    from rest(1) have "best \<le> v" "Suc (fst ?r) \<le> v" by (simp_all split: if_splits)
    with child(1) rest(2,3) True show ?thesis
      by (auto simp: cpl_children.simps Let_def v_def)
  qed
qed

end
