(* ===== verification/EffectiveProps.thy ===== *)
theory EffectiveProps
  imports EffectiveFacts DependencyProps
begin

text \<open>
  The properties of the effective priorities and of the dispatch order, on the graph a build
  returns.
\<close>

section \<open>Downstream is the reverse of the dependency edges\<close>

lemma set_reverse_keys:
  "set (reverse_get (reverse_keys ns r) k) =
     set (reverse_get r k) \<union> {nkey n |n. n \<in> set ns \<and> k \<in> toLowerCase ` set (dependencies n)}"
  by (induction ns r rule: reverse_keys.induct) (auto simp: set_reverse_node)

lemma down_edge_dep_edge:
  assumes "wf_graph g"
  shows "down_edge (map_keys (nodes g)) (children_of g) a b \<longleftrightarrow> dep_edge g b a"
proof -
  have "set (reverse_get (reverse_keys (map snd (nodes g)) []) a)
      = nkey ` {n \<in> snd ` set (nodes g). a \<in> toLowerCase ` set (dependencies n)}"
    by (simp add: set_reverse_keys setcompr_eq_image)
  then have "toLowerCase ` set (reverse_get (reverse_keys (map snd (nodes g)) []) a)
      = nkey ` {n \<in> snd ` set (nodes g). a \<in> toLowerCase ` set (dependencies n)}"
    by (simp add: image_image)
  then have "b \<in> toLowerCase ` set (reverse_get (reverse_keys (map snd (nodes g)) []) a)
      \<longleftrightarrow> (\<exists>n \<in> snd ` set (nodes g). b = nkey n \<and> a \<in> toLowerCase ` set (dependencies n))"
    by (simp only: image_iff mem_Collect_eq) blast
  then have "down_edge (map_keys (nodes g)) (children_of g) a b
      \<longleftrightarrow> b \<in> set (map_keys (nodes g))
        \<and> (\<exists>n \<in> snd ` set (nodes g). b = nkey n \<and> a \<in> toLowerCase ` set (dependencies n))"
    unfolding down_edge_def children_of_def Let_def by blast
  also have "\<dots> \<longleftrightarrow> (\<exists>n. map_of (nodes g) b = Some n \<and> a \<in> toLowerCase ` set (dependencies n))"
  proof
    assume "b \<in> set (map_keys (nodes g))
      \<and> (\<exists>n \<in> snd ` set (nodes g). b = nkey n \<and> a \<in> toLowerCase ` set (dependencies n))"
    then obtain n where n: "n \<in> snd ` set (nodes g)" "b = nkey n" "a \<in> toLowerCase ` set (dependencies n)"
      by blast
    with wf_graph_node [OF assms, of n]
    show "\<exists>n. map_of (nodes g) b = Some n \<and> a \<in> toLowerCase ` set (dependencies n)"
      by blast
  next
    assume "\<exists>n. map_of (nodes g) b = Some n \<and> a \<in> toLowerCase ` set (dependencies n)"
    then obtain n where n: "map_of (nodes g) b = Some n" "a \<in> toLowerCase ` set (dependencies n)"
      by blast
    from wf_graph_key [OF assms n(1)] map_of_Some_keys [OF n(1)] map_of_SomeD [OF n(1)] n(2)
    show "b \<in> set (map_keys (nodes g))
      \<and> (\<exists>n \<in> snd ` set (nodes g). b = nkey n \<and> a \<in> toLowerCase ` set (dependencies n))"
      by (intro conjI bexI [of _ n]) (simp_all add: rev_image_eqI)
  qed
  also have "\<dots> \<longleftrightarrow> dep_edge g b a"
    by (cases "map_of (nodes g) b") (simp_all add: key_edge_def node_deps_def)
  finally show ?thesis .
qed

lemma down_edge_eq:
  "wf_graph g \<Longrightarrow> down_edge (map_keys (nodes g)) (children_of g) = (dep_edge g)\<inverse>\<inverse>"
  using down_edge_dep_edge by (intro ext) simp

section \<open>The record loop\<close>

definition record_good :: "resolver \<Rightarrow> DependencyGraph \<Rightarrow> string \<Rightarrow> EffectivePriorityRecord \<Rightarrow> bool" where
  "record_good rs g k r \<longleftrightarrow>
     (let E = down_edge (map_keys (nodes g)) (children_of g) in
      erBase r = base_of rs g k \<and> attained E (base_of rs g) k (erEffective r) \<and> has_chain E k (erCpl r)
      \<and> ((\<forall>k. \<not> E\<^sup>+\<^sup>+ k k) \<longrightarrow> covers E (base_of rs g) k (erEffective r) \<and> chain_bound E k (erCpl r)))"

definition caches_good :: "resolver \<Rightarrow> DependencyGraph \<Rightarrow> cache \<Rightarrow> cache \<Rightarrow> bool" where
  "caches_good rs g effC cplC \<longleftrightarrow>
     (let E = down_edge (map_keys (nodes g)) (children_of g) in
      cache_all (attained E (base_of rs g)) effC \<and> cache_all (has_chain E) cplC
      \<and> ((\<forall>k. \<not> E\<^sup>+\<^sup>+ k k) \<longrightarrow> cache_all (covers E (base_of rs g)) effC \<and> cache_all (chain_bound E) cplC))"

lemma priority_step:
  assumes "caches_good rs g effC cplC"
  shows "caches_good rs g
      (snd (effectiveOf (map_keys (nodes g)) (children_of g) (base_of rs g) k {} effC))
      (snd (cplOf (map_keys (nodes g)) (children_of g) k {} cplC))"
    and "record_good rs g k \<lparr>erId = i, erBase = base_of rs g k,
      erEffective = fst (effectiveOf (map_keys (nodes g)) (children_of g) (base_of rs g) k {} effC),
      erCpl = fst (cplOf (map_keys (nodes g)) (children_of g) k {} cplC), erModified = m\<rparr>"
  using assms
    effective_sound(1) [of "map_keys (nodes g)" "children_of g" "base_of rs g" effC k "{}"]
    cpl_sound(1) [of "map_keys (nodes g)" "children_of g" cplC k "{}"]
    effective_complete(1) [of "map_keys (nodes g)" "children_of g" "base_of rs g" effC "{}" k]
    cpl_complete(1) [of "map_keys (nodes g)" "children_of g" cplC "{}" k]
  unfolding caches_good_def record_good_def Let_def by simp_all

lemma priority_records_get:
  "caches_good rs g effC cplC \<Longrightarrow> distinct (map fst es) \<Longrightarrow>
   (\<forall>n. (k, n) \<in> set es \<longrightarrow> (\<exists>r. map_of (priority_records rs g es effC cplC out) k = Some r
      \<and> record_good rs g k r \<and> erId r = nodeId n \<and> erModified r = lastModified n))
   \<and> (k \<notin> fst ` set es \<longrightarrow> map_of (priority_records rs g es effC cplC out) k = map_of out k)"
proof (induction rs g es effC cplC out rule: priority_records.induct)
  case (2 rs g key n es effC cplC out)
  let ?eff = "effectiveOf (map_keys (nodes g)) (children_of g) (base_of rs g) key {} effC"
  let ?cpl = "cplOf (map_keys (nodes g)) (children_of g) key {} cplC"
  note step = priority_step [OF "2.prems"(1), where k = key]
  have dist: "distinct (map fst es)" "key \<notin> fst ` set es" using "2.prems"(2) by simp_all
  note IH = "2.IH" [OF refl refl refl step(1) dist(1)]
  show ?case
  proof (cases "k = key")
    case True
    with IH dist(2) step(2) "2.prems"(2) show ?thesis
      by (simp add: Let_def) (metis fst_conv image_eqI)
  next
    case False
    with IH show ?thesis by (simp add: Let_def)
  qed
qed simp

lemma record_of_node:
  assumes "wf_graph g" and "map_of (nodes g) k = Some n"
  obtains r where "map_of (computeEffectivePriorities rs g) k = Some r" "record_good rs g k r"
    "erId r = nodeId n" "erModified r = lastModified n"
proof -
  have "caches_good rs g [] []" by (simp add: caches_good_def Let_def)
  moreover have "distinct (map fst (nodes g))"
    using assms(1) by (simp add: wf_graph_def map_keys_def)
  ultimately show thesis
    using that priority_records_get [of rs g "[]" "[]" "nodes g" k "[]"] map_of_SomeD [OF assms(2)]
    by (auto simp: computeEffectivePriorities_def)
qed

section \<open>Effective priority\<close>

lemma base_of_node: "map_of (nodes g) k = Some n \<Longrightarrow> base_of rs g k = priorityWeightFor rs n"
  by (simp add: base_of_def)

lemma down_known:
  "(down_edge ks children)\<^sup>*\<^sup>* k y \<Longrightarrow> k \<in> set ks \<Longrightarrow> y \<in> set ks"
  by (induction rule: rtranclp_induct) (auto simp: down_edge_def)

lemma down_reach:
  "wf_graph g \<Longrightarrow> (down_edge (map_keys (nodes g)) (children_of g))\<^sup>*\<^sup>* k y \<longleftrightarrow> (dep_edge g)\<^sup>*\<^sup>* y k"
  by (simp add: down_edge_eq rtranclp_conversep)

lemma relpowp_flip:
  fixes S R :: "'a \<Rightarrow> 'a \<Rightarrow> bool"
  assumes "\<And>x y. S x y \<longleftrightarrow> R y x"
  shows "(S ^^ n) a b \<longleftrightarrow> (R ^^ n) b a"
proof (induction n arbitrary: a)
  case (Suc n)
  have "(S ^^ Suc n) a b \<longleftrightarrow> (\<exists>x. S a x \<and> (S ^^ n) x b)"
    by (meson relpowp_Suc_D2 relpowp_Suc_I2)
  also have "\<dots> \<longleftrightarrow> (\<exists>x. (R ^^ n) b x \<and> R x a)"
    unfolding assms Suc.IH by blast
  also have "\<dots> \<longleftrightarrow> (R ^^ Suc n) b a"
    by (simp add: OO_def)
  finally show ?case .
qed auto

lemma attained_node:
  assumes "wf_graph g" and "map_of (nodes g) k = Some n"
    and "attained (down_edge (map_keys (nodes g)) (children_of g)) (base_of rs g) k v"
  shows "priorityWeightFor rs n \<le> v \<and> (\<exists>y m. (dep_edge g)\<^sup>*\<^sup>* y k \<and> map_of (nodes g) y = Some m
    \<and> v = priorityWeightFor rs m)"
proof -
  from assms(3) obtain y where y: "(down_edge (map_keys (nodes g)) (children_of g))\<^sup>*\<^sup>* k y"
    "v = base_of rs g y" "base_of rs g k \<le> v"
    by (auto simp: attained_def)
  then obtain m where "map_of (nodes g) y = Some m"
    using down_known map_of_Some_keys [OF assms(2)] keys_map_of_Some by metis
  then show ?thesis
    using y assms(1,2) by (auto simp: down_reach base_of_node)
qed

text \<open>On every graph, cyclic ones included, the effective priority of a task is at least its own
  weight and is the weight of the task itself or of a task downstream of it: a boost is a maximum,
  never a sum.\<close>

theorem effective_priority_attained:
  assumes "map_of (nodes (buildDependencyGraph ts cs)) k = Some n"
  shows "\<exists>r. map_of (computeEffectivePriorities rs (buildDependencyGraph ts cs)) k = Some r
    \<and> erId r = nodeId n \<and> erBase r = priorityWeightFor rs n \<and> erBase r \<le> erEffective r
    \<and> (\<exists>y m. (dep_edge (buildDependencyGraph ts cs))\<^sup>*\<^sup>* y k
         \<and> map_of (nodes (buildDependencyGraph ts cs)) y = Some m
         \<and> erEffective r = priorityWeightFor rs m)"
proof -
  note wf = wf_buildDependencyGraph [of ts cs]
  obtain r where r: "map_of (computeEffectivePriorities rs (buildDependencyGraph ts cs)) k = Some r"
    "record_good rs (buildDependencyGraph ts cs) k r" "erId r = nodeId n"
    using record_of_node [OF wf assms] by metis
  from r(2) have "erBase r = priorityWeightFor rs n"
    "attained (down_edge (map_keys (nodes (buildDependencyGraph ts cs)))
       (children_of (buildDependencyGraph ts cs))) (base_of rs (buildDependencyGraph ts cs)) k (erEffective r)"
    using assms by (simp_all add: record_good_def Let_def base_of_node)
  with attained_node [OF wf assms this(2)] r show ?thesis by metis
qed

theorem effective_priority_attained_witness:
  "\<exists>r. map_of (computeEffectivePriorities None (buildDependencyGraph [task_a, task_d] [task_b])) ''b'' = Some r
     \<and> erBase r \<le> erEffective r"
proof -
  have "map_of (nodes (buildDependencyGraph [task_a, task_d] [task_b])) ''b'' = Some task_b"
    by code_simp
  from effective_priority_attained [OF this, of None] show ?thesis by blast
qed

text \<open>C20. On an acyclic graph the effective priority of a task is the maximum weight over the task
  and everything downstream of it, and its critical path length is the length of the longest
  chain of tasks that wait for it.\<close>

theorem effective_priority_exact:
  assumes "map_of (nodes (buildDependencyGraph ts cs)) k = Some n"
    and "\<forall>x. \<not> (dep_edge (buildDependencyGraph ts cs))\<^sup>+\<^sup>+ x x"
  shows "\<exists>r. map_of (computeEffectivePriorities rs (buildDependencyGraph ts cs)) k = Some r
    \<and> (\<forall>y m. (dep_edge (buildDependencyGraph ts cs))\<^sup>*\<^sup>* y k
         \<longrightarrow> map_of (nodes (buildDependencyGraph ts cs)) y = Some m
         \<longrightarrow> priorityWeightFor rs m \<le> erEffective r)
    \<and> (\<exists>y m. (dep_edge (buildDependencyGraph ts cs))\<^sup>*\<^sup>* y k
         \<and> map_of (nodes (buildDependencyGraph ts cs)) y = Some m
         \<and> priorityWeightFor rs m = erEffective r)
    \<and> (\<exists>y. (dep_edge (buildDependencyGraph ts cs) ^^ erCpl r) y k)
    \<and> (\<forall>c y. (dep_edge (buildDependencyGraph ts cs) ^^ c) y k \<longrightarrow> c \<le> erCpl r)"
proof -
  let ?g = "buildDependencyGraph ts cs"
  let ?E = "down_edge (map_keys (nodes ?g)) (children_of ?g)"
  note wf = wf_buildDependencyGraph [of ts cs]
  have acyc: "\<forall>k. \<not> ?E\<^sup>+\<^sup>+ k k"
    using assms(2) by (simp add: down_edge_eq [OF wf] tranclp_converse)
  have pow: "(?E ^^ c) a b \<longleftrightarrow> (dep_edge ?g ^^ c) b a" for c a b
    by (rule relpowp_flip) (rule down_edge_dep_edge [OF wf])
  obtain r where r: "map_of (computeEffectivePriorities rs ?g) k = Some r" "record_good rs ?g k r"
    using record_of_node [OF wf assms(1)] by metis
  with acyc have good: "attained ?E (base_of rs ?g) k (erEffective r)" "has_chain ?E k (erCpl r)"
    "covers ?E (base_of rs ?g) k (erEffective r)" "chain_bound ?E k (erCpl r)"
    by (simp_all add: record_good_def Let_def)
  have "priorityWeightFor rs m \<le> erEffective r"
    if "(dep_edge ?g)\<^sup>*\<^sup>* y k" "map_of (nodes ?g) y = Some m" for y m
    using good(3) that base_of_node [OF that(2)] by (auto simp: covers_def down_reach [OF wf])
  moreover have "\<exists>y m. (dep_edge ?g)\<^sup>*\<^sup>* y k \<and> map_of (nodes ?g) y = Some m
      \<and> priorityWeightFor rs m = erEffective r"
    using attained_node [OF wf assms(1) good(1)] by metis
  moreover have "\<exists>y. (dep_edge ?g ^^ erCpl r) y k"
    using good(2) by (simp add: has_chain_def pow)
  moreover have "\<forall>c y. (dep_edge ?g ^^ c) y k \<longrightarrow> c \<le> erCpl r"
    using good(4) by (auto simp: chain_bound_def has_chain_def pow)
  ultimately show ?thesis using r(1) by blast
qed

lemma acyclic_empty:
  assumes "\<And>x y. R x y \<Longrightarrow> f y < (f x :: nat)"
  shows "\<not> R\<^sup>+\<^sup>+ x x"
proof -
  have "R\<^sup>+\<^sup>+ x y \<Longrightarrow> f y < f x" for x y
    by (induction rule: tranclp_induct) (use assms in \<open>auto intro: less_trans\<close>)
  then show ?thesis by blast
qed

abbreviation urgent_d :: DependencyNode where
  "urgent_d \<equiv> sample_node ''D'' Open ''To Do'' [''a'']\<lparr>priority := ''Critical''\<rparr>"

lemma sample_nodes:
  "nodes (buildDependencyGraph [task_a, urgent_d] [task_b])
    = [(''a'', task_a), (''d'', urgent_d), (''b'', task_b)]"
  by code_simp

theorem effective_priority_exact_witness:
  "\<exists>r. map_of (computeEffectivePriorities None (buildDependencyGraph [task_a, urgent_d] [task_b])) ''b''
      = Some r \<and> 4 \<le> erEffective r"
proof -
  let ?g = "buildDependencyGraph [task_a, urgent_d] [task_b]"
  let ?rank = "\<lambda>k. if k = ''d'' then 2 else if k = ''a'' then 1 else (0 :: nat)"
  have deps: "toLowerCase ` set (node_deps ?g x)
      = (if x = ''a'' then {''b''} else if x = ''d'' then {''a''} else {})" for x
  proof -
    have "toLowerCase ''b'' = ''b''" "toLowerCase ''a'' = ''a''" by code_simp+
    then show ?thesis by (simp add: node_deps_def sample_nodes)
  qed
  have edge: "dep_edge ?g x y \<longleftrightarrow> y \<in> (if x = ''a'' then {''b''} else if x = ''d'' then {''a''} else {})" for x y
    unfolding key_edge_def deps ..
  have rank: "?rank y < ?rank x" if "dep_edge ?g x y" for x y
    using that unfolding edge by (auto split: if_splits)
  have "\<forall>x. \<not> (dep_edge ?g)\<^sup>+\<^sup>+ x x"
    by (intro allI acyclic_empty [where f = ?rank] rank)
  moreover have "map_of (nodes ?g) ''b'' = Some task_b" by code_simp
  ultimately obtain r where r: "map_of (computeEffectivePriorities None ?g) ''b'' = Some r"
      "\<forall>y m. (dep_edge ?g)\<^sup>*\<^sup>* y ''b'' \<longrightarrow> map_of (nodes ?g) y = Some m
           \<longrightarrow> priorityWeightFor None m \<le> erEffective r"
    using effective_priority_exact [of "[task_a, urgent_d]" "[task_b]" "''b''" task_b None] by blast
  have "dep_edge ?g ''d'' ''a''" "dep_edge ?g ''a'' ''b''" unfolding edge by simp_all
  then have "(dep_edge ?g)\<^sup>*\<^sup>* ''d'' ''b''" by simp
  moreover have "map_of (nodes ?g) ''d'' = Some urgent_d" by code_simp
  ultimately have "priorityWeightFor None urgent_d \<le> erEffective r" using r(2) by blast
  moreover have "priorityWeightFor None urgent_d = 4" by code_simp
  ultimately show ?thesis using r(1) by simp
qed

text \<open>The claim that adding a dependency edge never lowers an effective priority fails when the
  edge closes a cycle: the search caches the value it computes while the other task of the cycle
  is still on its stack. Task B loses the critical weight of C, which still waits for it.\<close>

abbreviation cyc_a :: DependencyNode where
  "cyc_a \<equiv> sample_node ''a'' Open ''To Do'' [''b'']"

abbreviation cyc_b :: "string list \<Rightarrow> DependencyNode" where
  "cyc_b deps \<equiv> sample_node ''b'' Open ''To Do'' deps"

abbreviation cyc_c :: DependencyNode where
  "cyc_c \<equiv> sample_node ''c'' Open ''To Do'' [''a'']\<lparr>priority := ''critical''\<rparr>"

theorem effective_priority_not_monotone:
  "map_option erEffective (map_of (computeEffectivePriorities None
       (buildDependencyGraph [cyc_a, cyc_b [], cyc_c] [])) ''b'') = Some 4
   \<and> map_option erEffective (map_of (computeEffectivePriorities None
       (buildDependencyGraph [cyc_a, cyc_b [''a''], cyc_c] [])) ''b'') = Some 2"
  by (intro conjI; code_simp)

section \<open>Dispatch order\<close>

text \<open>What the sort needs of the two collations: total preorders, and the plain one tells distinct
  time stamps apart.\<close>

lemma dispatch_comparator:
  assumes "comparator lcd" and "comparator lc" and "\<And>x y. lcd x y \<le> 0 \<Longrightarrow> lcd y x \<le> 0 \<Longrightarrow> x = y"
  shows "comparator (\<lambda>a b. dispatch_cmp lcd lc (f a) (f b))"
proof
  fix a b
  show "dispatch_cmp lcd lc (f a) (f b) \<le> 0 \<or> dispatch_cmp lcd lc (f b) (f a) \<le> 0"
    using comparator.cmp_total [OF assms(1)] comparator.cmp_total [OF assms(2)]
    by (cases "f a"; cases "f b") (auto simp: dispatch_cmp_def)
next
  fix a b c
  assume "dispatch_cmp lcd lc (f a) (f b) \<le> 0" "dispatch_cmp lcd lc (f b) (f c) \<le> 0"
  then show "dispatch_cmp lcd lc (f a) (f c) \<le> 0"
    using comparator.cmp_trans [OF assms(1)] comparator.cmp_trans [OF assms(2)] assms(3)
    by (cases "f a"; cases "f b"; cases "f c") (auto simp: dispatch_cmp_def split: if_splits)
qed

lemma char_code_inj: "char_code a = char_code b \<longleftrightarrow> a = b"
  by (simp add: char_code_def)

lemma str_less_linear: "s = t \<or> str_less s t \<or> str_less t s"
proof (induction s t rule: str_less.induct)
  case (3 a s b t)
  then show ?case using char_code_inj [of a b] by (cases "char_code a" "char_code b" rule: linorder_cases) auto
qed (auto simp: neq_Nil_conv, metis list.exhaust str_less.simps(2))

lemma str_less_trans: "str_less s t \<Longrightarrow> str_less t u \<Longrightarrow> str_less s u"
proof (induction s t arbitrary: u rule: str_less.induct)
  case (2 b t)
  then show ?case by (cases u) auto
next
  case (3 a s b t)
  then show ?case by (cases u) auto
qed simp

lemma str_less_irrefl [simp]: "\<not> str_less s s"
  by (induction s) auto

interpretation code_unit: comparator code_unit_order
proof
  fix x y z
  show "code_unit_order x y \<le> 0 \<or> code_unit_order y x \<le> 0"
    using str_less_linear [of x y] by (auto simp: code_unit_order_def)
  assume "code_unit_order x y \<le> 0" "code_unit_order y z \<le> 0"
  then show "code_unit_order x z \<le> 0"
    using str_less_trans [of x y z] by (auto simp: code_unit_order_def split: if_splits)
qed

lemma code_unit_antisym: "code_unit_order x y \<le> 0 \<Longrightarrow> code_unit_order y x \<le> 0 \<Longrightarrow> x = y"
  using str_less_trans [of x y x] by (auto simp: code_unit_order_def split: if_splits)

interpretation dispatch: comparator "compareForDispatch code_unit_order code_unit_order"
  unfolding compareForDispatch_def
  by (rule dispatch_comparator [OF code_unit.comparator_axioms code_unit.comparator_axioms])
    (rule code_unit_antisym)

lemma dispatch_cmp_le:
  "dispatch_cmp lcd lc (ea, ca, ma, ia) (eb, cb, mb, ib) \<le> 0 \<longleftrightarrow>
     eb < ea \<or> (eb = ea \<and> (cb < ca \<or> (cb = ca \<and>
       (if ma \<noteq> mb then lcd mb ma \<le> 0 else lc ia ib \<le> 0))))"
  by (auto simp: dispatch_cmp_def)

text \<open>With composition off the frontier keeps its order. With composition on the dispatcher
  gets the same entries, sorted by effective priority, then by critical path length, then newest
  first, then by id, for any collations that are total preorders and tell time stamps apart.\<close>

theorem sortFrontier_correct:
  assumes "comparator lcd" and "comparator lc" and "\<And>x y. lcd x y \<le> 0 \<Longrightarrow> lcd y x \<le> 0 \<Longrightarrow> x = y"
  shows "(\<not> composition_on env opts \<longrightarrow>
       map rfEntry (sortFrontierByEffectivePriority lcd lc env g fr opts) = fr)
    \<and> mset (map rfEntry (sortFrontierByEffectivePriority lcd lc env g fr opts)) = mset fr
    \<and> (composition_on env opts \<longrightarrow>
       sorted_wrt (\<lambda>a b. rfEffective b < rfEffective a \<or> (rfEffective b = rfEffective a
           \<and> (rfCpl b < rfCpl a \<or> (rfCpl b = rfCpl a
               \<and> (if rfModified a \<noteq> rfModified b then lcd (rfModified b) (rfModified a) \<le> 0
                  else lc (feId (rfEntry a)) (feId (rfEntry b)) \<le> 0)))))
         (sortFrontierByEffectivePriority lcd lc env g fr opts))"
proof -
  let ?ranked = "map (rank_entry (computeEffectivePriorities (priorityResolver opts) g)) fr"
  have entry: "rfEntry (rank_entry recs e) = e" for recs e
    by (simp add: rank_entry_def split: option.split)
  have ids: "map rfEntry ?ranked = fr" by (simp add: entry map_idI)
  have "sorted_wrt (\<lambda>a b. compareForDispatch lcd lc a b \<le> 0) (sort_by (compareForDispatch lcd lc) ?ranked)"
    unfolding compareForDispatch_def
    by (rule comparator.sorted_sort [OF dispatch_comparator [OF assms]])
  moreover have "mset (map rfEntry (sort_by (compareForDispatch lcd lc) ?ranked)) = mset fr"
    by (metis ids mset_map mset_sort_by)
  ultimately show ?thesis
    using ids
    by (simp add: sortFrontierByEffectivePriority_def Let_def compareForDispatch_def ranked_fields_def
        dispatch_cmp_le)
qed

abbreviation force_opts :: SortFrontierOpts where
  "force_opts \<equiv> \<lparr>priorityResolver = None, forceComposition = True, forceBaseline = False\<rparr>"

abbreviation backlog_queue :: DependencyGraph where
  "backlog_queue \<equiv> buildDependencyGraph
     [sample_node ''p'' Open ''To Do'' [], sample_node ''q'' Open ''To Do'' [],
      sample_node ''r'' Open ''To Do'' [''q'']\<lparr>priority := ''critical''\<rparr>] []"

theorem sortFrontier_correct_witness:
  "map (\<lambda>a. feId (rfEntry a)) (sortFrontierByEffectivePriority code_unit_order code_unit_order False
       backlog_queue (frontier code_unit_order backlog_queue) force_opts) = [''q'', ''p'']
   \<and> mset (map rfEntry (sortFrontierByEffectivePriority code_unit_order code_unit_order False
       backlog_queue (frontier code_unit_order backlog_queue) force_opts))
     = mset (frontier code_unit_order backlog_queue)"
proof
  show "map (\<lambda>a. feId (rfEntry a)) (sortFrontierByEffectivePriority code_unit_order code_unit_order False
       backlog_queue (frontier code_unit_order backlog_queue) force_opts) = [''q'', ''p'']"
    by code_simp
  show "mset (map rfEntry (sortFrontierByEffectivePriority code_unit_order code_unit_order False
       backlog_queue (frontier code_unit_order backlog_queue) force_opts))
     = mset (frontier code_unit_order backlog_queue)"
    using sortFrontier_correct [OF code_unit.comparator_axioms code_unit.comparator_axioms
        code_unit_antisym, of False force_opts backlog_queue "frontier code_unit_order backlog_queue"]
    by blast
qed

end
