(* ===== verification/Workflow.thy ===== *)
theory Workflow
  imports Cycles
begin

text \<open>
  Workflow documents, \<open>pipeline-cli/src/workflow/graph.ts\<close>, \<open>validate.ts\<close> and the
  preparation half of \<open>engine.ts\<close>: the built-in execute graph, edge normalisation, the
  semantic rules, the run order, the anchor check and the refusals. Parameters: the JSON-schema
  errors (Ajv) and what the expression evaluator says of a \<open>when\<close> (\<open>when_lang\<close>).
\<close>

section \<open>Documents\<close>

datatype NodeKind = StepNode | AnchorNode | AgentNode | FanoutNode | HumanNode

datatype Sample = SampleNum int | SampleText string

record EngineNode =
  kind :: NodeKind
  impl :: "string option"
  role :: "string option"
  gatingFlag :: "bool option"
  sample :: "Sample option"
  expect :: "string option"

record EngineEdge =
  eFrom :: string
  eTo :: string
  eWhen :: "string option"
  eLoop :: "nat option"

datatype RawEdge = EdgeText string | EdgeObj EngineEdge

record RawDoc =
  docName :: string
  docNodes :: "(string, EngineNode) jsmap"
  docEdges :: "RawEdge list"
  docAnchors :: "string list"

section \<open>The built-in execute graph\<close>

text \<open>The step metadata is imported by the source from its step modules; a step node carries the
  id only.\<close>

definition step_node :: "string \<Rightarrow> EngineNode" where
  "step_node i = \<lparr>kind = StepNode, impl = Some i, role = None, gatingFlag = None,
     sample = None, expect = None\<rparr>"

fun chain_edges :: "string list \<Rightarrow> EngineEdge list" where
  "chain_edges (a # b # ids) =
     \<lparr>eFrom = a, eTo = b, eWhen = None, eLoop = None\<rparr> # chain_edges (b # ids)"
| "chain_edges _ = []"

definition buildExecuteGraph :: "nat \<Rightarrow> RawDoc" where
  "buildExecuteGraph maxIterations = \<lparr>docName = ''execute-task'',
     docNodes = [(''upkeep'', step_node ''parent-upkeep''), (''validate'', step_node ''validate-task''),
       (''branch'', step_node ''compute-branch''), (''worktree'', step_node ''setup-worktree''),
       (''flip'', step_node ''flip-status''), (''prompt'', step_node ''build-dev-prompt''),
       (''develop'', \<lparr>kind = AgentNode, impl = None, role = Some ''developer'', gatingFlag = None,
          sample = None, expect = None\<rparr>),
       (''parse'', step_node ''parse-dev-return''), (''plan'', step_node ''build-review-prompts''),
       (''review'', \<lparr>kind = FanoutNode, impl = None, role = None, gatingFlag = None,
          sample = None, expect = Some ''all''\<rparr>),
       (''aggregate'', step_node ''aggregate-verdicts''), (''iterate'', step_node ''iterate-review''),
       (''finalize'', step_node ''finalize-task''), (''ship'', step_node ''push-and-pr''),
       (''siblings'', step_node ''sibling-prs''), (''cleanup'', step_node ''cleanup-task'')],
     docEdges = map EdgeObj
       (chain_edges [''upkeep'', ''validate'', ''branch'', ''worktree'', ''flip'', ''prompt'',
            ''develop'', ''parse'']
        @ chain_edges [''parse'', ''plan'', ''review'', ''aggregate'']
        @ [\<lparr>eFrom = ''aggregate'', eTo = ''iterate'',
              eWhen = Some ''decision == CHANGES_REQUESTED'', eLoop = None\<rparr>,
           \<lparr>eFrom = ''iterate'', eTo = ''develop'', eWhen = None, eLoop = Some maxIterations\<rparr>,
           \<lparr>eFrom = ''aggregate'', eTo = ''finalize'',
              eWhen = Some ''decision == APPROVED'', eLoop = None\<rparr>]
        @ chain_edges [''finalize'', ''ship'', ''siblings'', ''cleanup'']),
     docAnchors = [''aggregate'']\<rparr>"

section \<open>Edge normalisation\<close>

text \<open>The characters \<open>[A-Za-z0-9_-]\<close>. A run of them that swallows the \<open>-\<close> of the
  arrow gives it back, as the regular expression backtracks.\<close>

definition id_char :: "char \<Rightarrow> bool" where
  "id_char c = (let n = char_code c in (65 \<le> n \<and> n \<le> 90) \<or> (97 \<le> n \<and> n \<le> 122)
     \<or> (48 \<le> n \<and> n \<le> 57) \<or> n = 95 \<or> n = 45)"

definition split_arrow :: "string \<Rightarrow> (string \<times> string) option" where
  "split_arrow s =
     (let w = takeWhile id_char s; rest = dropWhile id_char s in
      if w \<noteq> [] \<and> last w = CHR ''-'' \<and> take 1 rest = ''>'' then
        (if butlast w = [] then None else Some (butlast w, drop 1 rest))
      else (let r = dropWhile is_space rest in
        if w \<noteq> [] \<and> take 2 r = ''->'' then Some (w, drop 2 r) else None))"

definition normalizeEdge :: "RawEdge \<Rightarrow> EngineEdge option" where
  "normalizeEdge e = (case e of
     EdgeObj x \<Rightarrow> Some x
   | EdgeText s \<Rightarrow> (case split_arrow (dropWhile is_space s) of
       None \<Rightarrow> None
     | Some (f, r) \<Rightarrow> (let r' = dropWhile is_space r; t = takeWhile id_char r' in
         if t \<noteq> [] \<and> dropWhile is_space (dropWhile id_char r') = []
         then Some \<lparr>eFrom = f, eTo = t, eWhen = None, eLoop = None\<rparr> else None)))"

definition doc_edges :: "RawDoc \<Rightarrow> EngineEdge list" where
  "doc_edges doc = List.map_filter normalizeEdge (docEdges doc)"

definition nonLoop :: "EngineEdge list \<Rightarrow> EngineEdge list" where
  "nonLoop edges = filter (\<lambda>e. eLoop e = None) edges"

section \<open>Semantic validation\<close>

text \<open>\<open>ancestors\<close>: a node is marked when it is pushed.\<close>

function ancestors_loop :: "EngineEdge list \<Rightarrow> string list \<Rightarrow> string list \<Rightarrow> string list" where
  "ancestors_loop edges [] seen = seen"
| "ancestors_loop edges (cur # stack) seen =
     (let new = fold (\<lambda>e acc. if eTo e = cur \<and> eFrom e \<notin> set seen \<and> eFrom e \<notin> set acc
                             then acc @ [eFrom e] else acc) edges []
      in ancestors_loop edges (rev new @ stack) (seen @ new))"
  by pat_completeness auto

lemma fold_new_aux:
  "set (fold (\<lambda>e acc. if P e \<and> f e \<notin> S \<and> f e \<notin> set acc then acc @ [f e] else acc) es acc)
     = set acc \<union> {f e |e. e \<in> set es \<and> P e \<and> f e \<notin> S}
   \<and> (distinct acc \<longrightarrow> distinct (fold (\<lambda>e acc. if P e \<and> f e \<notin> S \<and> f e \<notin> set acc
        then acc @ [f e] else acc) es acc))"
  by (induction es arbitrary: acc) auto

lemma card_new_less:
  "finite U \<Longrightarrow> new \<noteq> [] \<Longrightarrow> set new \<subseteq> U - S \<Longrightarrow> card (U - (S \<union> set new)) < card (U - S)"
  by (intro psubset_card_mono) (auto simp: neq_Nil_conv)

termination ancestors_loop
proof (relation "measures [\<lambda>(edges, st, seen). card (eFrom ` set edges - set seen),
    \<lambda>(edges, st, seen). length st]", goal_cases)
  case (2 edges cur stack seen new)
  have new: "set new = {eFrom e |e. e \<in> set edges \<and> eTo e = cur \<and> eFrom e \<notin> set seen}"
    using 2 fold_new_aux [of "\<lambda>e. eTo e = cur" eFrom "set seen" edges "[]"] by simp
  show ?case
  proof (cases "new = []")
    case False
    have "set new \<subseteq> eFrom ` set edges - set seen" unfolding new by auto
    from card_new_less [OF _ False this] show ?thesis by simp
  qed simp
qed simp

definition ancestors :: "string \<Rightarrow> EngineEdge list \<Rightarrow> string list" where
  "ancestors i edges = ancestors_loop edges [i] [i]"

text \<open>\<open>hasCycle\<close> colours nodes 0, 1, 2; \<open>visit\<close> is recursive, so it has a depth bound, and
  \<open>None\<close> is running out of it.\<close>

type_synonym colours = "string \<Rightarrow> nat"

fun scan_edges :: "(string \<Rightarrow> colours \<Rightarrow> (bool \<times> colours) option) \<Rightarrow> string \<Rightarrow>
    EngineEdge list \<Rightarrow> colours \<Rightarrow> (bool \<times> colours) option" where
  "scan_edges visit n [] st = Some (False, st(n := 2))"
| "scan_edges visit n (e # es) st =
     (if eFrom e \<noteq> n then scan_edges visit n es st
      else if st (eTo e) = 1 then Some (True, st)
      else if st (eTo e) = 0 then
        (case visit (eTo e) st of
           None \<Rightarrow> None
         | Some (True, st') \<Rightarrow> Some (True, st')
         | Some (False, st') \<Rightarrow> scan_edges visit n es st')
      else scan_edges visit n es st)"

fun visit :: "nat \<Rightarrow> EngineEdge list \<Rightarrow> string \<Rightarrow> colours \<Rightarrow> (bool \<times> colours) option" where
  "visit 0 edges n st = None"
| "visit (Suc f) edges n st = scan_edges (visit f edges) n edges (st(n := 1))"

fun has_cycle_loop :: "nat \<Rightarrow> EngineEdge list \<Rightarrow> string list \<Rightarrow> colours \<Rightarrow> bool option" where
  "has_cycle_loop f edges [] st = Some False"
| "has_cycle_loop f edges (n # ns) st =
     (if st n = 0 then
        (case visit f edges n st of
           None \<Rightarrow> None
         | Some (True, st') \<Rightarrow> Some True
         | Some (False, st') \<Rightarrow> has_cycle_loop f edges ns st')
      else has_cycle_loop f edges ns st)"

definition hasCycle :: "string list \<Rightarrow> EngineEdge list \<Rightarrow> bool option" where
  "hasCycle ids edges = has_cycle_loop (length ids + length edges) edges ids (\<lambda>_. 0)"

datatype WorkflowError =
    EdgeEndpoint string string string
  | AnchorUnknown string
  | AnchorImplAgent string string
  | UndeclaredLoop
  | WhenSyntax string string string
  | WhenIdentifier string string string
  | SchemaError string

record when_lang =
  whenError :: "string \<Rightarrow> string option"
  whenIdentifiers :: "string \<Rightarrow> string list"
  outputFields :: "string \<Rightarrow> string list"

definition endpoint_errors :: "RawDoc \<Rightarrow> WorkflowError list" where
  "endpoint_errors doc = concat (map (\<lambda>e. map (EdgeEndpoint (eFrom e) (eTo e))
     (filter (\<lambda>n. n \<notin> set (map_keys (docNodes doc))) [eFrom e, eTo e])) (doc_edges doc))"

definition anchor_errors :: "RawDoc \<Rightarrow> WorkflowError list" where
  "anchor_errors doc = map AnchorUnknown
     (filter (\<lambda>a. a \<notin> set (map_keys (docNodes doc))) (docAnchors doc))"

definition agent_roles :: "RawDoc \<Rightarrow> string option list" where
  "agent_roles doc = map role (filter (\<lambda>n. kind n = AgentNode) (map snd (docNodes doc)))"

definition anchor_impl_errors :: "RawDoc \<Rightarrow> WorkflowError list" where
  "anchor_impl_errors doc = concat (map (\<lambda>(i, n). case impl n of
       Some m \<Rightarrow> if kind n = AnchorNode \<and> m \<noteq> [] \<and> Some m \<in> set (agent_roles doc)
                 then [AnchorImplAgent i m] else []
     | None \<Rightarrow> []) (docNodes doc))"

definition declared_names :: "when_lang \<Rightarrow> RawDoc \<Rightarrow> EngineEdge \<Rightarrow> string list" where
  "declared_names L doc e = concat (map (\<lambda>u. case map_of (docNodes doc) u of
       None \<Rightarrow> []
     | Some n \<Rightarrow> u # (case impl n of
           Some m \<Rightarrow> if kind n = StepNode \<and> m \<noteq> [] then outputFields L m else []
         | None \<Rightarrow> [])) (ancestors (eFrom e) (doc_edges doc)))"

definition when_errors :: "when_lang \<Rightarrow> RawDoc \<Rightarrow> EngineEdge \<Rightarrow> WorkflowError list" where
  "when_errors L doc e = (case eWhen e of
     None \<Rightarrow> []
   | Some w \<Rightarrow> (case whenError L w of
       Some m \<Rightarrow> [WhenSyntax (eFrom e) (eTo e) m]
     | None \<Rightarrow> map (WhenIdentifier (eFrom e) (eTo e))
         (filter (\<lambda>i. takeWhile (\<lambda>c. c \<noteq> CHR ''.'') i \<notin> set (declared_names L doc e))
            (whenIdentifiers L w))))"

definition semanticErrors :: "when_lang \<Rightarrow> RawDoc \<Rightarrow> WorkflowError list" where
  "semanticErrors L doc = endpoint_errors doc @ anchor_errors doc @ anchor_impl_errors doc
     @ (if hasCycle (map_keys (docNodes doc)) (nonLoop (doc_edges doc)) = Some False
        then [] else [UndeclaredLoop])
     @ concat (map (when_errors L doc) (doc_edges doc))"

definition validateWorkflowDocument ::
  "(RawDoc \<Rightarrow> string list) \<Rightarrow> when_lang \<Rightarrow> RawDoc \<Rightarrow> WorkflowError list" where
  "validateWorkflowDocument schema L doc =
     (if schema doc \<noteq> [] then map SchemaError (schema doc) else semanticErrors L doc)"

section \<open>Run order\<close>

type_synonym degrees = "(string, int) jsmap"

definition degree :: "degrees \<Rightarrow> string \<Rightarrow> int" where
  "degree d k = (case map_of d k of Some n \<Rightarrow> n | None \<Rightarrow> 0)"

definition indegrees :: "string list \<Rightarrow> EngineEdge list \<Rightarrow> degrees" where
  "indegrees ids edges = fold (\<lambda>e d. map_set (eTo e) (degree d (eTo e) + 1) d) edges
     (map (\<lambda>i. (i, 0)) ids)"

fun kahn_edges :: "string \<Rightarrow> EngineEdge list \<Rightarrow> degrees \<Rightarrow> string list \<Rightarrow> degrees \<times> string list" where
  "kahn_edges i [] d queue = (d, queue)"
| "kahn_edges i (e # es) d queue =
     (if eFrom e \<noteq> i then kahn_edges i es d queue
      else (let left = degree d (eTo e) - 1
            in kahn_edges i es (map_set (eTo e) left d) (if left = 0 then queue @ [eTo e] else queue)))"

text \<open>A node enters the queue when its count reaches 0; counts only fall, so the loop ends. The
  bound is the number of ids and edges.\<close>

fun kahn_loop :: "nat \<Rightarrow> EngineEdge list \<Rightarrow> degrees \<Rightarrow> string list \<Rightarrow> string list \<Rightarrow> string list option" where
  "kahn_loop f edges d [] order = Some order"
| "kahn_loop 0 edges d (i # queue) order = None"
| "kahn_loop (Suc f) edges d (i # queue) order =
     (let r = kahn_edges i edges d queue in kahn_loop f edges (fst r) (snd r) (order @ [i]))"

definition kahnOrder :: "string list \<Rightarrow> EngineEdge list \<Rightarrow> string list option" where
  "kahnOrder ids edges = (let d = indegrees ids edges in
     kahn_loop (length ids + length edges) edges d (filter (\<lambda>i. degree d i = 0) ids) [])"

definition workflow_dep_node :: "EngineEdge list \<Rightarrow> string \<Rightarrow> DependencyNode" where
  "workflow_dep_node edges i = \<lparr>nodeId = i, status = Open, fileLocation = Open,
     frontmatterStatus = [], priority = [], title = [],
     dependencies = map eFrom (filter (\<lambda>e. eTo e = i) edges), externalDependencies = [],
     lastModified = [], filePath = [], parentTaskId = []\<rparr>"

definition cyclesViaDependencyGraph :: "string list \<Rightarrow> EngineEdge list \<Rightarrow> string list list" where
  "cyclesViaDependencyGraph ids edges = vrCycles (validate
     \<lparr>nodes = fold (\<lambda>i m. map_set (toLowerCase i) (workflow_dep_node edges i) m) ids [],
      openIds = [], completedIds = []\<rparr>)"

section \<open>Anchors and loop bodies\<close>

function anchor_free :: "string \<Rightarrow> EngineEdge list \<Rightarrow> string set \<Rightarrow> string list \<Rightarrow> string set \<Rightarrow> bool" where
  "anchor_free target edges anchors [] seen = False"
| "anchor_free target edges anchors (cur # stack) seen =
     (if cur \<in> seen then anchor_free target edges anchors stack seen
      else if cur \<in> anchors then anchor_free target edges anchors stack (insert cur seen)
      else if cur = target then True
      else anchor_free target edges anchors
             (rev (map eTo (filter (\<lambda>e. eFrom e = cur) edges)) @ stack) (insert cur seen))"
  by pat_completeness auto
termination
proof (relation "measures [\<lambda>(t, edges, a, st, seen). card (eFrom ` set edges - seen),
    \<lambda>(t, edges, a, st, seen). length st]", goal_cases)
  case (3 target edges anchors cur stack seen)
  have "card (eFrom ` set edges - insert cur seen) \<le> card (eFrom ` set edges - seen)"
    by (intro card_mono) auto
  then show ?case by auto
next
  case (4 target edges anchors cur stack seen)
  show ?case
  proof (cases "cur \<in> eFrom ` set edges")
    case True
    then have "eFrom ` set edges - insert cur seen \<subset> eFrom ` set edges - seen" using 4 by auto
    from psubset_card_mono [OF _ this] show ?thesis by simp
  next
    case False
    then have "eFrom ` set edges - insert cur seen = eFrom ` set edges - seen"
      "filter (\<lambda>e. eFrom e = cur) edges = []" by (auto simp: filter_empty_conv)
    then show ?thesis by simp
  qed
qed auto

definition reachesWithoutAnchor ::
  "string list \<Rightarrow> string \<Rightarrow> EngineEdge list \<Rightarrow> string set \<Rightarrow> bool" where
  "reachesWithoutAnchor start target edges anchors = anchor_free target edges anchors (rev start) {}"

definition reverse_edge :: "EngineEdge \<Rightarrow> EngineEdge" where
  "reverse_edge e = e\<lparr>eFrom := eTo e, eTo := eFrom e\<rparr>"

text \<open>\<open>reach\<close> follows edges forward; it is \<open>ancestors\<close> on the reversed edges.\<close>

definition reach_from :: "string \<Rightarrow> EngineEdge list \<Rightarrow> string list" where
  "reach_from i edges = ancestors_loop (map reverse_edge edges) [i] [i]"

type_synonym bodies = "(string, string list) jsmap"

definition add_body :: "string list \<Rightarrow> bodies \<Rightarrow> bodies" where
  "add_body body bs = map (\<lambda>(n, b). if n \<in> set body then (n, fold set_add body b) else (n, b)) bs"

definition computeLoopBodies ::
  "string list \<Rightarrow> EngineEdge list \<Rightarrow> EngineEdge list \<Rightarrow> bodies" where
  "computeLoopBodies ids all forward =
     fold (\<lambda>l. add_body (filter (\<lambda>n. n \<in> set (reach_from (eFrom l) (map reverse_edge forward)))
                 (reach_from (eTo l) forward)))
       (filter (\<lambda>e. eLoop e \<noteq> None) all) (map (\<lambda>i. (i, [])) ids)"

section \<open>Preparation\<close>

datatype WorkflowOrigin = FromBase string string | Builtin string | Worktree string

datatype Refusal =
    NotFromBase
  | InvalidDocument "WorkflowError list"
  | UndeclaredCycle
  | ShipWithoutAnchor string
  | NoShipNode
  | UnknownImpl string string
  | UnsupportedExpect string

record PreparedWorkflow =
  wfName :: string
  wfNodes :: "(string, EngineNode) jsmap"
  wfEdges :: "EngineEdge list"
  wfOrder :: "string list"
  wfAnchors :: "string set"
  wfOrigin :: WorkflowOrigin
  wfPath :: string
  wfSha :: string
  wfBaseSha :: string
  wfBodies :: bodies

record PrepareOptions =
  poOrigin :: WorkflowOrigin
  knownImpls :: "string set"
  poPath :: string
  poSha :: string

fun node_refusal :: "string set \<Rightarrow> (string, EngineNode) jsmap \<Rightarrow> Refusal option" where
  "node_refusal known [] = None"
| "node_refusal known ((i, n) # ns) =
     (case (if kind n = StepNode \<or> kind n = AnchorNode then impl n else None) of
        Some m \<Rightarrow> if m \<noteq> [] \<and> m \<notin> known then Some (UnknownImpl i m) else node_refusal known ns
      | None \<Rightarrow>
          (if kind n = FanoutNode \<and> (case expect n of Some x \<Rightarrow> x | None \<Rightarrow> ''all'') \<noteq> ''all''
           then Some (UnsupportedExpect i) else node_refusal known ns))"

definition doc_anchors :: "RawDoc \<Rightarrow> string set" where
  "doc_anchors doc = set (docAnchors doc) \<union>
     set (map fst (filter (\<lambda>(i, n). kind n = AnchorNode) (docNodes doc)))"

definition ship_id :: "RawDoc \<Rightarrow> string option" where
  "ship_id doc = map_option fst
     (find (\<lambda>(i, n). i = ''ship'' \<or> impl n = Some ''push-and-pr'') (docNodes doc))"

definition doc_roots :: "RawDoc \<Rightarrow> string list" where
  "doc_roots doc = filter (\<lambda>i. \<not> list_ex (\<lambda>e. eTo e = i) (nonLoop (doc_edges doc)))
     (map_keys (docNodes doc))"

definition base_sha :: "WorkflowOrigin \<Rightarrow> string" where
  "base_sha w = (case w of FromBase s _ \<Rightarrow> s | Builtin s \<Rightarrow> s | Worktree _ \<Rightarrow> [])"

definition prepareWorkflow :: "(RawDoc \<Rightarrow> string list) \<Rightarrow> when_lang \<Rightarrow> PrepareOptions \<Rightarrow>
    RawDoc \<Rightarrow> Refusal + PreparedWorkflow" where
  "prepareWorkflow schema L opts doc =
     (case poOrigin opts of
        Worktree _ \<Rightarrow> Inl NotFromBase
      | _ \<Rightarrow>
     (let errs = validateWorkflowDocument schema L doc in
      if errs \<noteq> [] then Inl (if UndeclaredLoop \<in> set errs then UndeclaredCycle else InvalidDocument errs)
      else (let ids = map_keys (docNodes doc); edges = doc_edges doc; forward = nonLoop edges;
                order = kahnOrder ids forward in
        if cyclesViaDependencyGraph ids forward \<noteq> []
           \<or> map_option length order \<noteq> Some (length ids) then Inl UndeclaredCycle
        else case node_refusal (knownImpls opts) (docNodes doc) of
            Some r \<Rightarrow> Inl r
          | None \<Rightarrow> (case ship_id doc of
              None \<Rightarrow> Inl NoShipNode
            | Some ship \<Rightarrow>
                if reachesWithoutAnchor (doc_roots doc) ship forward (doc_anchors doc)
                then Inl (ShipWithoutAnchor ship)
                else Inr \<lparr>wfName = docName doc, wfNodes = docNodes doc, wfEdges = edges,
                      wfOrder = the order, wfAnchors = doc_anchors doc, wfOrigin = poOrigin opts,
                      wfPath = poPath opts, wfSha = poSha opts, wfBaseSha = base_sha (poOrigin opts),
                      wfBodies = computeLoopBodies ids edges forward\<rparr>))))"

end
