(* ===== verification/WorkflowEngine.thy ===== *)
theory WorkflowEngine
  imports Workflow "HOL-Library.Monad_Syntax"
begin

text \<open>
  The running half of \<open>pipeline-cli/src/workflow/engine.ts\<close>: the persisted run state, the
  record replay, readiness, and the driver that runs steps until it needs the model. The host
  (\<open>EngineHost\<close>) is a record of functions over an abstract host state \<open>'h\<close>, which also
  holds the host's own scratch entries; \<open>'i\<close> is the instruction type. \<open>ev\<close> is the expression
  evaluator. A node id that is not in the document would make the code throw; the validator
  excludes it.
\<close>

section \<open>Run state\<close>

datatype Val = VText string | VBool bool | VNum int | VObj "(string \<times> Val) list"

type_synonym outputs = "(string, Val) jsmap"

datatype RecordStatus = RecOk | Covered | Skipped | Spawned | Reset

record NodeRecord =
  recSeq :: nat
  recNode :: string
  recEpoch :: nat
  recStatus :: RecordStatus
  recAt :: string
  recDetail :: "string option"
  recOutput :: "outputs option"
  recGating :: "bool option"

datatype SampleSource = FromPr | FromTask

record LedgerEntry =
  leAt :: string
  leTask :: string
  leNode :: string
  leRole :: string
  leSkipped :: bool
  leSampleKey :: "(SampleSource \<times> int) option"
  leApproved :: "bool option"
  leFindings :: "(string \<times> int) list option"
  leSummary :: "string option"

record WorkflowRunState =
  rsName :: string
  rsPath :: string
  rsSha :: string
  rsBaseSha :: string
  rsFromBase :: bool
  epoch :: nat
  records :: "NodeRecord list"
  ledger :: "LedgerEntry list"
  loops :: "(string, nat) jsmap"
  capExitSeen :: "string set"

definition newRunState :: "PreparedWorkflow \<Rightarrow> WorkflowRunState" where
  "newRunState W = \<lparr>rsName = wfName W, rsPath = wfPath W, rsSha = wfSha W,
     rsBaseSha = wfBaseSha W,
     rsFromBase = (case wfOrigin W of FromBase _ _ \<Rightarrow> True | _ \<Rightarrow> False), epoch = 0, records = [],
     ledger = [], loops = [], capExitSeen = {}\<rparr>"

section \<open>Host contract\<close>

datatype 'i StepOutcome =
    StepOk "outputs option" "string option" "string list"
  | StepInvalidate "string list" "string option"
  | StepHalt 'i

record ShadowSpawn =
  ssNode :: string
  ssRole :: string

datatype 'i SpawnOutcome =
    SpawnDo 'i
  | SpawnNone "outputs option" "string option"
  | SpawnHalt 'i

record ShadowResult =
  srNode :: string
  srRole :: string
  srApproved :: "bool option"
  srFindings :: "(string \<times> int) list option"
  srSummary :: "string option"

datatype 'i ResultOutcome =
    ResultOk "outputs option" "ShadowResult list"
  | Respawn 'i "ShadowResult list"
  | ResultInvalidate "string list" "string option"
  | ResultHalt 'i

record ('h, 'i) EngineHost =
  hostNow :: "'h \<Rightarrow> string"
  hostTaskId :: "'h \<Rightarrow> string"
  hostSampleKey :: "'h \<Rightarrow> SampleSource \<times> int"
  hostRunStep :: "string \<Rightarrow> EngineNode \<Rightarrow> WorkflowRunState \<Rightarrow> 'h \<Rightarrow> 'i StepOutcome \<times> 'h"
  hostSpawn :: "string \<Rightarrow> EngineNode option \<Rightarrow> ShadowSpawn list \<Rightarrow> WorkflowRunState \<Rightarrow> 'h
    \<Rightarrow> 'i SpawnOutcome \<times> 'h"
  hostOnResult :: "string option \<Rightarrow> EngineNode option \<Rightarrow> string \<Rightarrow> ShadowSpawn list \<Rightarrow>
    WorkflowRunState \<Rightarrow> 'h \<Rightarrow> 'i ResultOutcome \<times> 'h"
  hostLoopExhausted :: "WorkflowRunState \<Rightarrow> 'h \<Rightarrow> 'h"
  hostAppendLedger :: "LedgerEntry \<Rightarrow> 'h \<Rightarrow> 'h"
  hostPersist :: "WorkflowRunState \<Rightarrow> 'h \<Rightarrow> 'h"

type_synonym evaluator = "string \<Rightarrow> outputs \<Rightarrow> bool"

section \<open>Record replay\<close>

definition done_status :: "RecordStatus \<Rightarrow> bool" where
  "done_status s = (s = RecOk \<or> s = Covered \<or> s = Skipped)"

definition parse_digits :: "string \<Rightarrow> nat" where
  "parse_digits ds = fold (\<lambda>c n. 10 * n + (char_code c - 48)) ds 0"

definition is_digit :: "char \<Rightarrow> bool" where
  "is_digit c = (48 \<le> char_code c \<and> char_code c \<le> 57)"

definition sampleDivisor :: "Sample option \<Rightarrow> int" where
  "sampleDivisor s = (case s of
     None \<Rightarrow> 1
   | Some (SampleNum n) \<Rightarrow> n
   | Some (SampleText t) \<Rightarrow>
       (let ds = drop 2 t in
        if take 2 t = ''1/'' \<and> ds \<noteq> [] \<and> hd ds \<noteq> CHR ''0'' \<and> list_all is_digit ds
        then int (parse_digits ds) else 1))"

definition latest :: "string \<Rightarrow> bool \<Rightarrow> WorkflowRunState \<Rightarrow> NodeRecord option" where
  "latest n epochOnly rs = find (\<lambda>r. recNode r = n \<and> \<not> (epochOnly \<and> recEpoch r \<noteq> epoch rs))
     (rev (records rs))"

definition inLoop :: "PreparedWorkflow \<Rightarrow> string \<Rightarrow> bool" where
  "inLoop W n = (case map_of (wfBodies W) n of None \<Rightarrow> False | Some b \<Rightarrow> 0 < length b)"

definition isDone :: "PreparedWorkflow \<Rightarrow> WorkflowRunState \<Rightarrow> string \<Rightarrow> bool" where
  "isDone W rs n = (case latest n (inLoop W n) rs of None \<Rightarrow> False | Some r \<Rightarrow> done_status (recStatus r))"

definition add_record :: "string \<Rightarrow> string \<Rightarrow> RecordStatus \<Rightarrow> string option \<Rightarrow> outputs option \<Rightarrow>
    bool option \<Rightarrow> WorkflowRunState \<Rightarrow> WorkflowRunState" where
  "add_record now n st detail output gat rs = rs\<lparr>records := records rs @
     [\<lparr>recSeq = length (records rs) + 1, recNode = n, recEpoch = epoch rs, recStatus = st,
       recAt = now, recDetail = detail, recOutput = output, recGating = gat\<rparr>]\<rparr>"

definition is_spawned :: "WorkflowRunState \<Rightarrow> string \<Rightarrow> bool" where
  "is_spawned rs n = (case latest n False rs of None \<Rightarrow> False | Some r \<Rightarrow> recStatus r = Spawned)"

definition pending :: "PreparedWorkflow \<Rightarrow> WorkflowRunState \<Rightarrow> string list" where
  "pending W rs = filter (is_spawned rs) (wfOrder W)"

definition enum_constants :: outputs where
  "enum_constants = [(''APPROVED'', VText ''APPROVED''), (''CHANGES_REQUESTED'', VText ''CHANGES_REQUESTED'')]"

definition when_context :: "PreparedWorkflow \<Rightarrow> WorkflowRunState \<Rightarrow> outputs" where
  "when_context W rs = fold (\<lambda>i ctx. case latest i (inLoop W i) rs of
       None \<Rightarrow> ctx
     | Some r \<Rightarrow> (case recOutput r of
         None \<Rightarrow> ctx
       | Some out \<Rightarrow> if done_status (recStatus r)
           then map_set i (VObj out) (fold (\<lambda>(k, v) c. map_set k v c) out ctx) else ctx))
     (wfOrder W) enum_constants"

definition whenHolds :: "evaluator \<Rightarrow> PreparedWorkflow \<Rightarrow> WorkflowRunState \<Rightarrow> EngineEdge \<Rightarrow> bool" where
  "whenHolds ev W rs e = (case eWhen e of None \<Rightarrow> True | Some w \<Rightarrow> ev w (when_context W rs))"

definition non_gating_node :: "EngineNode \<Rightarrow> bool" where
  "non_gating_node n = (kind n = AgentNode \<and> gatingFlag n = Some False)"

definition gating :: "PreparedWorkflow \<Rightarrow> string \<Rightarrow> bool" where
  "gating W i = (case map_of (wfNodes W) i of None \<Rightarrow> True | Some n \<Rightarrow> \<not> non_gating_node n)"

section \<open>Readiness\<close>

definition inbound :: "PreparedWorkflow \<Rightarrow> string \<Rightarrow> EngineEdge list" where
  "inbound W n = filter (\<lambda>e. eLoop e = None \<and> eTo e = n \<and> gating W (eFrom e)) (wfEdges W)"

definition loop_key :: "EngineEdge \<Rightarrow> string" where
  "loop_key e = eFrom e @ ''->'' @ eTo e"

definition loop_count :: "WorkflowRunState \<Rightarrow> EngineEdge \<Rightarrow> nat" where
  "loop_count rs e = (case map_of (loops rs) (loop_key e) of Some n \<Rightarrow> n | None \<Rightarrow> 0)"

definition loopFull :: "WorkflowRunState \<Rightarrow> EngineEdge \<Rightarrow> bool" where
  "loopFull rs e = ((case eLoop e of Some m \<Rightarrow> m | None \<Rightarrow> 1) \<le> loop_count rs e + 1)"

definition leadsIntoSpentLoop :: "PreparedWorkflow \<Rightarrow> WorkflowRunState \<Rightarrow> EngineEdge \<Rightarrow> bool" where
  "leadsIntoSpentLoop W rs e =
     list_ex (\<lambda>l. eLoop l \<noteq> None \<and> eFrom l = eTo e \<and> loopFull rs l) (wfEdges W)"

definition computeCapExits :: "evaluator \<Rightarrow> PreparedWorkflow \<Rightarrow> WorkflowRunState \<Rightarrow> string list" where
  "computeCapExits ev W rs = filter (\<lambda>i. isDone W rs i
     \<and> list_ex (\<lambda>e. leadsIntoSpentLoop W rs e \<and> whenHolds ev W rs e)
         (filter (\<lambda>e. eLoop e = None \<and> eFrom e = i) (wfEdges W))) (wfOrder W)"

definition edgeSatisfied ::
  "evaluator \<Rightarrow> PreparedWorkflow \<Rightarrow> WorkflowRunState \<Rightarrow> string list \<Rightarrow> EngineEdge \<Rightarrow> bool" where
  "edgeSatisfied ev W rs capExit e =
     (if \<not> isDone W rs (eFrom e) \<or> leadsIntoSpentLoop W rs e then False
      else whenHolds ev W rs e \<or> eFrom e \<in> set capExit)"

definition ready_nodes ::
  "evaluator \<Rightarrow> PreparedWorkflow \<Rightarrow> WorkflowRunState \<Rightarrow> string list \<Rightarrow> string list" where
  "ready_nodes ev W rs capExit = filter (\<lambda>i. \<not> (isDone W rs i \<or> is_spawned rs i)
     \<and> list_all (edgeSatisfied ev W rs capExit) (inbound W i)) (wfOrder W)"

definition nextReady :: "evaluator \<Rightarrow> PreparedWorkflow \<Rightarrow> WorkflowRunState \<Rightarrow> string list \<times> string list" where
  "nextReady ev W rs = (let capExit = computeCapExits ev W rs in (ready_nodes ev W rs capExit, capExit))"

section \<open>State changes of the driver\<close>

record 'h engine_state =
  esRun :: WorkflowRunState
  esHost :: 'h

definition es_add :: "('h, 'i) EngineHost \<Rightarrow> string \<Rightarrow> RecordStatus \<Rightarrow> string option \<Rightarrow>
    outputs option \<Rightarrow> bool option \<Rightarrow> 'h engine_state \<Rightarrow> 'h engine_state" where
  "es_add H n st detail output gat s =
     s\<lparr>esRun := add_record (hostNow H (esHost s)) n st detail output gat (esRun s)\<rparr>"

definition es_ledger :: "('h, 'i) EngineHost \<Rightarrow> LedgerEntry \<Rightarrow> 'h engine_state \<Rightarrow> 'h engine_state" where
  "es_ledger H e s = s\<lparr>esRun := (esRun s)\<lparr>ledger := ledger (esRun s) @ [e]\<rparr>,
     esHost := hostAppendLedger H e (esHost s)\<rparr>"

definition es_persist :: "('h, 'i) EngineHost \<Rightarrow> 'h engine_state \<Rightarrow> 'h engine_state" where
  "es_persist H s = s\<lparr>esHost := hostPersist H (esRun s) (esHost s)\<rparr>"

text \<open>\<open>x ? { x } : {}\<close> drops an empty string.\<close>

definition non_empty :: "string option \<Rightarrow> string option" where
  "non_empty x = (if x = Some [] then None else x)"

definition reset_nodes ::
  "('h, 'i) EngineHost \<Rightarrow> string list \<Rightarrow> string option \<Rightarrow> 'h engine_state \<Rightarrow> 'h engine_state" where
  "reset_nodes H ns detail s = fold (\<lambda>n. es_add H n Reset
     (non_empty detail) None None) ns s"

definition close_shadow :: "('h, 'i) EngineHost \<Rightarrow> ShadowResult list \<Rightarrow> string \<Rightarrow>
    'h engine_state \<Rightarrow> 'h engine_state" where
  "close_shadow H results i s =
     (let s1 = es_add H i RecOk (Some ''non-gating: output excluded from every join'') None (Some False) s
      in case find (\<lambda>r. srNode r = i) results of
           None \<Rightarrow> s1
         | Some r \<Rightarrow> es_ledger H \<lparr>leAt = hostNow H (esHost s1), leTask = hostTaskId H (esHost s1),
             leNode = i, leRole = srRole r, leSkipped = False, leSampleKey = None,
             leApproved = srApproved r, leFindings = srFindings r,
             leSummary = non_empty (srSummary r)\<rparr> s1)"

definition closeShadows :: "('h, 'i) EngineHost \<Rightarrow> PreparedWorkflow \<Rightarrow> ShadowResult list \<Rightarrow>
    'h engine_state \<Rightarrow> 'h engine_state" where
  "closeShadows H W results s =
     fold (close_shadow H results) (filter (\<lambda>p. \<not> gating W p) (pending W (esRun s))) s"

definition shadow_spawn :: "PreparedWorkflow \<Rightarrow> string \<Rightarrow> ShadowSpawn" where
  "shadow_spawn W i = \<lparr>ssNode = i, ssRole =
     (case map_of (wfNodes W) i of None \<Rightarrow> i | Some n \<Rightarrow> (case role n of Some r \<Rightarrow> r | None \<Rightarrow> i))\<rparr>"

definition sample_detail :: "int \<Rightarrow> SampleSource \<times> int \<Rightarrow> string" where
  "sample_detail divisor key = ''sample 1/'' @ int_text divisor @ '': ''
     @ (case fst key of FromPr \<Rightarrow> ''pr'' | FromTask \<Rightarrow> ''task'') @ '' '' @ int_text (snd key)
     @ '' % '' @ int_text divisor @ '' != 0''"

fun takeShadows :: "('h, 'i) EngineHost \<Rightarrow> PreparedWorkflow \<Rightarrow> string list \<Rightarrow>
    'h engine_state \<Rightarrow> ShadowSpawn list \<times> 'h engine_state" where
  "takeShadows H W [] s = ([], s)"
| "takeShadows H W (i # ids) s =
     (if gating W i then takeShadows H W ids s
      else (let divisor = sampleDivisor (case map_of (wfNodes W) i of None \<Rightarrow> None | Some n \<Rightarrow> sample n);
                key = hostSampleKey H (esHost s) in
        if 1 < divisor \<and> snd key mod divisor \<noteq> 0
        then (let s1 = es_add H i Skipped (Some (sample_detail divisor key)) None (Some False) s
              in takeShadows H W ids (es_ledger H \<lparr>leAt = hostNow H (esHost s1),
                   leTask = hostTaskId H (esHost s1), leNode = i,
                   leRole = ssRole (shadow_spawn W i), leSkipped = True, leSampleKey = Some key,
                   leApproved = None, leFindings = None, leSummary = None\<rparr> s1))
        else (let r = takeShadows H W ids s in (shadow_spawn W i # fst r, snd r))))"

definition cover :: "('h, 'i) EngineHost \<Rightarrow> PreparedWorkflow \<Rightarrow> string \<Rightarrow> string list \<Rightarrow>
    'h engine_state \<Rightarrow> 'h engine_state" where
  "cover H W by impls s =
     (if impls = [] then s
      else fold (\<lambda>i s. let m = (case map_of (wfNodes W) i of None \<Rightarrow> None | Some n \<Rightarrow> impl n) in
          if ((m \<noteq> None \<and> m \<noteq> Some [] \<and> the m \<in> set impls) \<or> i \<in> set impls) \<and> \<not> isDone W (esRun s) i
          then es_add H i Covered (Some (''covered by '' @ by)) None None s else s) (wfOrder W) s)"

definition fire_loop :: "evaluator \<Rightarrow> PreparedWorkflow \<Rightarrow> EngineEdge \<Rightarrow> WorkflowRunState \<Rightarrow> WorkflowRunState" where
  "fire_loop ev W e rs =
     (if loopFull rs e \<or> \<not> whenHolds ev W rs e then rs
      else rs\<lparr>epoch := epoch rs + 1, loops := map_set (loop_key e) (loop_count rs e + 1) (loops rs)\<rparr>)"

definition fireLoops :: "evaluator \<Rightarrow> PreparedWorkflow \<Rightarrow> string \<Rightarrow> 'h engine_state \<Rightarrow> 'h engine_state" where
  "fireLoops ev W n s = s\<lparr>esRun := fold (fire_loop ev W)
     (filter (\<lambda>e. eLoop e \<noteq> None \<and> eFrom e = n) (wfEdges W)) (esRun s)\<rparr>"

fun note_cap_exits :: "('h, 'i) EngineHost \<Rightarrow> string list \<Rightarrow> 'h engine_state \<Rightarrow> 'h engine_state" where
  "note_cap_exits H [] s = s"
| "note_cap_exits H (i # ids) s =
     (if i \<in> capExitSeen (esRun s) then note_cap_exits H ids s
      else (let s1 = s\<lparr>esRun := (esRun s)\<lparr>capExitSeen := insert i (capExitSeen (esRun s))\<rparr>\<rparr>
            in note_cap_exits H ids (s1\<lparr>esHost := hostLoopExhausted H (esRun s1) (esHost s1)\<rparr>)))"

section \<open>The driver\<close>

text \<open>One call answers with an instruction, with \<open>Finished\<close> (null), or throws. \<open>Restart\<close> is
  \<open>afterSpawn\<close> calling \<open>advance\<close> again, which starts a fresh guard count.\<close>

datatype 'i engine_result = Instr 'i | Finished | HumanUnsupported string | NoProgress

datatype ('h, 'i) loop_result = Answer "'i engine_result" "'h engine_state" | Restart "'h engine_state"

definition afterSpawn :: "('h, 'i) EngineHost \<Rightarrow> 'i SpawnOutcome \<Rightarrow> string option \<Rightarrow>
    ShadowSpawn list \<Rightarrow> 'h engine_state \<Rightarrow> ('h, 'i) loop_result" where
  "afterSpawn H out nid shadows s =
     (case out of
        SpawnHalt i \<Rightarrow> Answer (Instr i) s
      | SpawnNone output detail \<Rightarrow>
          (let s1 = (case nid of None \<Rightarrow> s
             | Some n \<Rightarrow> es_add H n RecOk (Some (case detail of Some d \<Rightarrow> d | None \<Rightarrow> ''nothing to spawn'')) output None s)
           in Restart (fold (\<lambda>x. es_add H (ssNode x) Skipped (Some ''nothing spawned'') None (Some False)) shadows s1))
      | SpawnDo i \<Rightarrow>
          (let s1 = (case nid of None \<Rightarrow> s | Some n \<Rightarrow> es_add H n Spawned None None None s);
               s2 = fold (\<lambda>x. es_add H (ssNode x) Spawned None None (Some False)) shadows s1
           in Answer (Instr i) (es_persist H s2)))"

text \<open>One pass of the loop body: \<open>Inl\<close> leaves the loop, \<open>Inr\<close> continues it.\<close>

definition drive_step :: "evaluator \<Rightarrow> ('h, 'i) EngineHost \<Rightarrow> PreparedWorkflow \<Rightarrow>
    'h engine_state \<Rightarrow> ('h, 'i) loop_result + 'h engine_state" where
  "drive_step ev H W s =
     (let r = nextReady ev W (esRun s); ready = fst r; s1 = note_cap_exits H (snd r) s in
      if ready = [] then Inl (Answer Finished s1)
      else (let t = takeShadows H W ready s1; shadows = fst t; s2 = snd t in
        case find (gating W) ready of
          None \<Rightarrow>
            if shadows = [] then Inr s2
            else (let o1 = hostSpawn H [] None shadows (esRun s2) (esHost s2)
                  in Inl (afterSpawn H (fst o1) None shadows (s2\<lparr>esHost := snd o1\<rparr>)))
        | Some nxt \<Rightarrow>
            (case map_of (wfNodes W) nxt of
               None \<Rightarrow> Inl (Answer NoProgress s2)
             | Some n \<Rightarrow>
                 if kind n = AgentNode \<or> kind n = FanoutNode then
                   (let o1 = hostSpawn H nxt (Some n) shadows (esRun s2) (esHost s2)
                    in Inl (afterSpawn H (fst o1) (Some nxt) shadows (s2\<lparr>esHost := snd o1\<rparr>)))
                 else if kind n = HumanNode then Inl (Answer (HumanUnsupported nxt) s2)
                 else (let o1 = hostRunStep H nxt n (esRun s2) (esHost s2);
                           s3 = s2\<lparr>esHost := snd o1\<rparr> in
                   case fst o1 of
                     StepHalt i \<Rightarrow> Inl (Answer (Instr i) s3)
                   | StepInvalidate ns detail \<Rightarrow> Inr (es_persist H (reset_nodes H ns detail s3))
                   | StepOk output detail covers \<Rightarrow>
                       Inr (fireLoops ev W nxt (cover H W nxt covers
                         (es_add H nxt RecOk (non_empty detail) output None s3)))))))"

fun advance_loop :: "nat \<Rightarrow> evaluator \<Rightarrow> ('h, 'i) EngineHost \<Rightarrow> PreparedWorkflow \<Rightarrow>
    'h engine_state \<Rightarrow> ('h, 'i) loop_result" where
  "advance_loop 0 ev H W s = Answer NoProgress s"
| "advance_loop (Suc guard) ev H W s = (case drive_step ev H W s of
     Inl r \<Rightarrow> r | Inr s' \<Rightarrow> advance_loop guard ev H W s')"

partial_function (option) advance :: "evaluator \<Rightarrow> ('h, 'i) EngineHost \<Rightarrow> PreparedWorkflow \<Rightarrow>
    'h engine_state \<Rightarrow> ('i engine_result \<times> 'h engine_state) option" where
  "advance ev H W s = (case advance_loop 500 ev H W s of
     Answer r s' \<Rightarrow> Some (r, s') | Restart s' \<Rightarrow> advance ev H W s')"

definition resume :: "evaluator \<Rightarrow> ('h, 'i) EngineHost \<Rightarrow> PreparedWorkflow \<Rightarrow> string \<Rightarrow>
    'h engine_state \<Rightarrow> ('i engine_result \<times> 'h engine_state) option" where
  "resume ev H W resultText s =
     (let pend = pending W (esRun s); gid = find (gating W) pend;
          shadows = map (shadow_spawn W) (filter (\<lambda>i. \<not> gating W i) pend);
          node = (case gid of None \<Rightarrow> None | Some i \<Rightarrow> map_of (wfNodes W) i);
          o1 = hostOnResult H gid node resultText shadows (esRun s) (esHost s);
          s1 = s\<lparr>esHost := snd o1\<rparr> in
      case fst o1 of
        ResultHalt i \<Rightarrow> Some (Instr i, s1)
      | Respawn i sh \<Rightarrow> Some (Instr i,
          es_persist H (if sh \<noteq> [] then closeShadows H W sh s1 else s1))
      | ResultInvalidate ns detail \<Rightarrow> advance ev H W (reset_nodes H ns detail (closeShadows H W [] s1))
      | ResultOk output sh \<Rightarrow>
          (let s2 = closeShadows H W sh s1
           in advance ev H W (case gid of None \<Rightarrow> s2
             | Some i \<Rightarrow> es_add H i RecOk None output None s2)))"

end
