(* ===== verification/WorkflowFacts.thy ===== *)
theory WorkflowFacts
  imports Workflow CycleFacts
begin

text \<open>
  What the preparation computes: Kahn's order is a topological order and is complete exactly on
  acyclic edges, the anchor search finds exactly the anchor-free paths, and the bounds on the
  recursive searches are never reached.
\<close>

section \<open>Counting edges\<close>

definition edge_rel :: "EngineEdge list \<Rightarrow> string \<Rightarrow> string \<Rightarrow> bool" where
  "edge_rel edges a b \<longleftrightarrow> (\<exists>e \<in> set edges. eFrom e = a \<and> eTo e = b)"

definition cnt :: "(string \<Rightarrow> bool) \<Rightarrow> EngineEdge list \<Rightarrow> string \<Rightarrow> nat" where
  "cnt P es v = length (filter (\<lambda>e. eTo e = v \<and> P (eFrom e)) es)"

lemma cnt_Nil [simp]: "cnt P [] v = 0"
  by (simp add: cnt_def)

lemma cnt_Cons [simp]: "cnt P (e # es) v = (if eTo e = v \<and> P (eFrom e) then 1 else 0) + cnt P es v"
  by (simp add: cnt_def)

lemma cnt_0_iff: "cnt P es v = 0 \<longleftrightarrow> (\<forall>e \<in> set es. eTo e = v \<longrightarrow> \<not> P (eFrom e))"
  by (auto simp: cnt_def filter_empty_conv)

lemma cnt_split: "\<not> P i \<or> True \<Longrightarrow> P i \<Longrightarrow>
  cnt P es v = cnt (\<lambda>x. P x \<and> x \<noteq> i) es v + cnt (\<lambda>x. x = i) es v"
  by (induction es) auto

lemma degree_set [simp]: "degree (map_set k n d) v = (if v = k then n else degree d v)"
  by (simp add: degree_def)

lemma degree_fold: "degree (fold (\<lambda>e d. map_set (eTo e) (degree d (eTo e) + 1) d) es d) v
    = degree d v + int (cnt (\<lambda>_. True) es v)"
  by (induction es arbitrary: d) auto

lemma degree_init: "degree (map (\<lambda>i. (i, 0)) ids) v = 0"
  by (induction ids) (auto simp: degree_def)

lemma degree_indegrees: "degree (indegrees ids edges) v = int (cnt (\<lambda>_. True) edges v)"
  by (simp add: indegrees_def degree_fold degree_init)

section \<open>One round of Kahn's loop\<close>

lemma kahn_edges_degree:
  "degree (fst (kahn_edges i es d q)) v = degree d v - int (cnt (\<lambda>x. x = i) es v)"
  by (induction i es d q rule: kahn_edges.induct) (auto simp: Let_def)

lemma kahn_edges_queue:
  assumes "\<forall>v. int (cnt (\<lambda>x. x = i) es v) \<le> degree d v"
  shows "\<exists>new. snd (kahn_edges i es d q) = q @ new \<and> distinct new
    \<and> set new = {v. 0 < cnt (\<lambda>x. x = i) es v \<and> degree d v = int (cnt (\<lambda>x. x = i) es v)}"
  using assms
proof (induction i es d q rule: kahn_edges.induct)
  case (2 i e es d q)
  show ?case
  proof (cases "eFrom e = i")
    case False
    have "\<forall>v. int (cnt (\<lambda>x. x = i) es v) \<le> degree d v" using "2.prems" False by simp
    from "2.IH"(1) [OF False this] False show ?thesis by simp
  next
    case True
    let ?left = "degree d (eTo e) - 1"
    let ?d = "map_set (eTo e) ?left d"
    have le: "int (cnt (\<lambda>x. x = i) es v) \<le> degree ?d v" for v
      using "2.prems" [rule_format, of v] True by (auto split: if_splits)
    have not: "\<not> eFrom e \<noteq> i" using True by simp
    obtain new where new: "snd (kahn_edges i es ?d (if ?left = 0 then q @ [eTo e] else q))
        = (if ?left = 0 then q @ [eTo e] else q) @ new" "distinct new"
      "set new = {v. 0 < cnt (\<lambda>x. x = i) es v \<and> degree ?d v = int (cnt (\<lambda>x. x = i) es v)}"
      using "2.IH"(2) [OF not refl] le by blast
    have new_iff: "v \<in> set new \<longleftrightarrow> 0 < cnt (\<lambda>x. x = i) es v
        \<and> (if v = eTo e then ?left else degree d v) = int (cnt (\<lambda>x. x = i) es v)" for v
      by (simp add: new(3))
    have all_iff: "v \<in> set ((if ?left = 0 then [eTo e] else []) @ new)
        \<longleftrightarrow> 0 < cnt (\<lambda>x. x = i) (e # es) v \<and> degree d v = int (cnt (\<lambda>x. x = i) (e # es) v)" for v
    proof (cases "v = eTo e")
      case True
      then show ?thesis using \<open>eFrom e = i\<close> le [of v] by (auto simp: new_iff)
    next
      case False
      then show ?thesis using \<open>eFrom e = i\<close> by (simp add: new_iff)
    qed
    have "distinct ((if ?left = 0 then [eTo e] else []) @ new)"
      using new(2) le [of "eTo e"] by (simp add: new_iff)
    with all_iff new(1) \<open>eFrom e = i\<close> show ?thesis
      by (intro exI [of _ "(if ?left = 0 then [eTo e] else []) @ new"])
        (simp add: Let_def set_eq_iff del: cnt_Cons)
  qed
qed simp

text \<open>The invariant: a node is queued or listed exactly when all its sources are listed.\<close>

definition kahn_inv :: "string list \<Rightarrow> EngineEdge list \<Rightarrow> degrees \<Rightarrow> string list \<Rightarrow> string list \<Rightarrow> bool" where
  "kahn_inv ids edges d queue order \<longleftrightarrow>
     distinct (order @ queue) \<and> set (order @ queue) \<subseteq> set ids
     \<and> (\<forall>v. degree d v = int (cnt (\<lambda>x. x \<notin> set order) edges v))
     \<and> (\<forall>v \<in> set ids. cnt (\<lambda>x. x \<notin> set order) edges v = 0 \<longleftrightarrow> v \<in> set (order @ queue))
     \<and> (\<forall>j < length order. \<forall>e \<in> set edges. eTo e = order ! j \<longrightarrow> eFrom e \<in> set (take j order))"

lemma kahn_inv_init:
  assumes "distinct ids"
  shows "kahn_inv ids edges (indegrees ids edges) (filter (\<lambda>i. degree (indegrees ids edges) i = 0) ids) []"
  using assms by (auto simp: kahn_inv_def degree_indegrees)

lemma kahn_inv_step:
  assumes inv: "kahn_inv ids edges d (i # queue) order" and known: "eTo ` set edges \<subseteq> set ids"
  shows "kahn_inv ids edges (fst (kahn_edges i edges d queue)) (snd (kahn_edges i edges d queue)) (order @ [i])"
proof -
  have i: "i \<notin> set order" "i \<in> set ids" using inv by (auto simp: kahn_inv_def)
  define here where "here v = cnt (\<lambda>x. x = i) edges v" for v
  define rest where "rest v = cnt (\<lambda>x. x \<notin> set (order @ [i])) edges v" for v
  have split: "cnt (\<lambda>x. x \<notin> set order) edges v = rest v + here v" for v
    using cnt_split [of "\<lambda>x. x \<notin> set order" i edges v] i(1) by (simp add: rest_def here_def conj_commute)
  have deg: "degree d v = int (rest v + here v)" for v
    using inv by (simp add: kahn_inv_def split)
  obtain new where new: "snd (kahn_edges i edges d queue) = queue @ new" "distinct new"
    "set new = {v. 0 < here v \<and> degree d v = int (here v)}"
    using kahn_edges_queue [of i edges d queue] deg by (auto simp: here_def)
  then have new_iff: "v \<in> set new \<longleftrightarrow> 0 < here v \<and> rest v = 0" for v
    by (auto simp: deg)
  have zero: "rest v + here v = 0 \<longleftrightarrow> v \<in> set (order @ i # queue)" if "v \<in> set ids" for v
    using inv that by (simp add: kahn_inv_def split)
  have new_ids: "set new \<subseteq> set ids"
    using known by (auto simp: new_iff here_def cnt_def filter_empty_conv subset_iff)
  have fresh: "v \<notin> set (order @ i # queue)" if "v \<in> set new" for v
    using zero [OF subsetD [OF new_ids that]] that by (simp add: new_iff)
  have zero': "rest v = 0 \<longleftrightarrow> v \<in> set ((order @ [i]) @ queue @ new)" if "v \<in> set ids" for v
    using zero [OF that] new_iff [of v] by auto
  have src: "eFrom e \<in> set order" if "e \<in> set edges" "eTo e = i" for e
    using zero [OF i(2)] that by (auto simp: split [symmetric] cnt_0_iff)
  show ?thesis
    unfolding kahn_inv_def new(1)
  proof (intro conjI)
    show "distinct ((order @ [i]) @ queue @ new)"
      using inv new(2) fresh by (auto simp: kahn_inv_def)
    show "set ((order @ [i]) @ queue @ new) \<subseteq> set ids"
      using inv new_ids by (auto simp: kahn_inv_def)
    show "\<forall>v. degree (fst (kahn_edges i edges d queue)) v
        = int (cnt (\<lambda>x. x \<notin> set (order @ [i])) edges v)"
    proof
      fix v
      have "degree (fst (kahn_edges i edges d queue)) v = int (rest v)"
        by (simp add: kahn_edges_degree deg here_def)
      then show "degree (fst (kahn_edges i edges d queue)) v
          = int (cnt (\<lambda>x. x \<notin> set (order @ [i])) edges v)"
        by (simp only: rest_def)
    qed
    show "\<forall>v \<in> set ids. cnt (\<lambda>x. x \<notin> set (order @ [i])) edges v = 0
        \<longleftrightarrow> v \<in> set ((order @ [i]) @ queue @ new)"
      using zero' by (simp add: rest_def)
    show "\<forall>j < length (order @ [i]). \<forall>e \<in> set edges. eTo e = (order @ [i]) ! j
        \<longrightarrow> eFrom e \<in> set (take j (order @ [i]))"
      using inv src by (auto simp: kahn_inv_def nth_append less_Suc_eq)
  qed
qed

lemma kahn_loop_total:
  "eTo ` set edges \<subseteq> set ids \<Longrightarrow> kahn_inv ids edges d queue order \<Longrightarrow> length ids \<le> f + length order \<Longrightarrow>
   \<exists>d' order'. kahn_loop f edges d queue order = Some order' \<and> kahn_inv ids edges d' [] order'"
proof (induction f edges d queue order rule: kahn_loop.induct)
  case (1 f edges d order)
  then show ?case by auto
next
  case (2 edges d i queue order)
  have "distinct (order @ i # queue)" "set (order @ i # queue) \<subseteq> set ids"
    using "2.prems"(2) unfolding kahn_inv_def by blast+
  then have "length (order @ i # queue) \<le> card (set ids)"
    by (metis List.finite_set card_mono distinct_card)
  then show ?case using "2.prems"(3) card_length [of ids] by simp
next
  case (3 f edges d i queue order)
  have "length ids \<le> f + length (order @ [i])" using "3.prems"(3) by simp
  from "3.IH" [OF refl "3.prems"(1) kahn_inv_step [OF "3.prems"(2,1)] this]
  show ?case by (simp add: Let_def)
qed

lemma edge_rel_trancl_known:
  "(edge_rel edges)\<^sup>+\<^sup>+ a b \<Longrightarrow> eFrom ` set edges \<subseteq> K \<Longrightarrow> eTo ` set edges \<subseteq> K \<Longrightarrow> a \<in> K \<and> b \<in> K"
  by (induction rule: tranclp_induct) (auto simp: edge_rel_def)

text \<open>A complete order excludes cycles; an incomplete one leaves a set without a source.\<close>

lemma ordered_acyclic:
  assumes "distinct order" and "eFrom ` set edges \<subseteq> set order" "eTo ` set edges \<subseteq> set order"
    and "\<forall>j < length order. \<forall>e \<in> set edges. eTo e = order ! j \<longrightarrow> eFrom e \<in> set (take j order)"
  shows "\<not> (edge_rel edges)\<^sup>+\<^sup>+ x x"
proof
  define D where "D k = map eFrom (filter (\<lambda>e. eTo e = k) edges)" for k
  have "deps_first (set order) D order"
    using assms(4) by (auto simp: deps_first_def D_def)
  from deps_first_acyclic [OF this refl]
  have acyc: "\<not> (known_edge (set order) D)\<^sup>+\<^sup>+ k k" for k by (simp add: acyclic_deps_def)
  have step: "known_edge (set order) D b a" if "edge_rel edges a b" for a b
    using that assms(2,3) by (auto simp: known_edge_def edge_rel_def D_def)
  assume "(edge_rel edges)\<^sup>+\<^sup>+ x x"
  then have "(known_edge (set order) D)\<^sup>+\<^sup>+ y x" if "y = x" for y
    using that
  proof -
    have "(edge_rel edges)\<^sup>+\<^sup>+ a b \<Longrightarrow> (known_edge (set order) D)\<^sup>+\<^sup>+ b a" for a b
      by (induction rule: tranclp_induct) (auto dest: step intro: tranclp_into_tranclp2)
    with \<open>(edge_rel edges)\<^sup>+\<^sup>+ x x\<close> that show ?thesis by blast
  qed
  with acyc show False by blast
qed

lemma no_source_cycle:
  assumes "finite S" and "S \<noteq> {}" and "\<forall>v \<in> S. \<exists>u \<in> S. R u v"
  shows "\<exists>x. R\<^sup>+\<^sup>+ x x"
proof (rule ccontr)
  assume "\<nexists>x. R\<^sup>+\<^sup>+ x x"
  let ?r = "{(u, v). u \<in> S \<and> v \<in> S \<and> R u v}"
  have "(a, b) \<in> ?r\<^sup>+ \<Longrightarrow> R\<^sup>+\<^sup>+ a b" for a b
    by (induction rule: trancl_induct) (auto intro: tranclp.trancl_into_trancl)
  with \<open>\<nexists>x. R\<^sup>+\<^sup>+ x x\<close> have "acyclic ?r" by (auto simp: acyclic_def)
  moreover have "finite ?r" by (rule finite_subset [of _ "S \<times> S"]) (auto simp: assms(1))
  ultimately have "wf ?r" by (simp add: finite_acyclic_wf)
  moreover obtain s where "s \<in> S" using assms(2) by blast
  ultimately obtain v where v: "v \<in> S" "\<And>u. (u, v) \<in> ?r \<Longrightarrow> u \<notin> S"
    by (rule wfE_min) blast
  from assms(3) v(1) obtain u where "u \<in> S" "R u v" by blast
  with v show False by blast
qed

lemma kahnOrder_spec:
  assumes "distinct ids" and "eFrom ` set edges \<subseteq> set ids" and "eTo ` set edges \<subseteq> set ids"
  shows "\<exists>order. kahnOrder ids edges = Some order \<and> distinct order \<and> set order \<subseteq> set ids
    \<and> (\<forall>j < length order. \<forall>e \<in> set edges. eTo e = order ! j \<longrightarrow> eFrom e \<in> set (take j order))
    \<and> (length order = length ids \<longleftrightarrow> (\<forall>x. \<not> (edge_rel edges)\<^sup>+\<^sup>+ x x))"
proof -
  obtain d order where run: "kahnOrder ids edges = Some order" and inv: "kahn_inv ids edges d [] order"
    using kahn_loop_total [OF assms(3) kahn_inv_init [OF assms(1)], of "length ids + length edges"]
    by (auto simp: kahnOrder_def Let_def)
  from inv have ord: "distinct order" "set order \<subseteq> set ids"
    "\<forall>j < length order. \<forall>e \<in> set edges. eTo e = order ! j \<longrightarrow> eFrom e \<in> set (take j order)"
    "\<forall>v \<in> set ids. cnt (\<lambda>x. x \<notin> set order) edges v = 0 \<longleftrightarrow> v \<in> set order"
    by (simp_all add: kahn_inv_def)
  have "length order = length ids \<longleftrightarrow> (\<forall>x. \<not> (edge_rel edges)\<^sup>+\<^sup>+ x x)"
  proof
    assume "length order = length ids"
    then have "set order = set ids"
      using ord(1,2) assms(1) by (metis List.finite_set card_subset_eq distinct_card)
    then show "\<forall>x. \<not> (edge_rel edges)\<^sup>+\<^sup>+ x x"
      using ordered_acyclic [OF ord(1) _ _ ord(3)] assms(2,3) by simp
  next
    assume acyc: "\<forall>x. \<not> (edge_rel edges)\<^sup>+\<^sup>+ x x"
    have "set ids - set order = {}"
    proof (rule ccontr)
      assume "set ids - set order \<noteq> {}"
      moreover have "\<exists>u \<in> set ids - set order. edge_rel edges u v" if "v \<in> set ids - set order" for v
        using that ord(4) assms(2) by (force simp: cnt_0_iff edge_rel_def)
      ultimately show False
        using no_source_cycle [of "set ids - set order" "edge_rel edges"] acyc by blast
    qed
    with ord(2) have "set order = set ids" by blast
    then show "length order = length ids" using ord(1) assms(1) by (metis distinct_card)
  qed
  with run ord show ?thesis by blast
qed

section \<open>Anchor-free paths\<close>

definition free_edge :: "EngineEdge list \<Rightarrow> string set \<Rightarrow> string \<Rightarrow> string \<Rightarrow> bool" where
  "free_edge edges anchors a b \<longleftrightarrow> edge_rel edges a b \<and> a \<notin> anchors \<and> b \<notin> anchors"

definition free_path :: "EngineEdge list \<Rightarrow> string set \<Rightarrow> string \<Rightarrow> string \<Rightarrow> bool" where
  "free_path edges anchors a b \<longleftrightarrow> a \<notin> anchors \<and> b \<notin> anchors \<and> (free_edge edges anchors)\<^sup>*\<^sup>* a b"

lemma free_path_step:
  "edge_rel edges a b \<Longrightarrow> a \<notin> anchors \<Longrightarrow> free_path edges anchors b c \<Longrightarrow> free_path edges anchors a c"
  unfolding free_path_def free_edge_def by (auto intro: converse_rtranclp_into_rtranclp)

lemma anchor_free_sound:
  "anchor_free target edges anchors stack seen \<Longrightarrow> \<exists>s \<in> set stack. free_path edges anchors s target"
proof (induction target edges anchors stack seen rule: anchor_free.induct)
  case (2 target edges anchors cur stack seen)
  show ?case
  proof (cases "cur \<in> seen \<or> cur \<in> anchors")
    case True
    with 2 show ?thesis by (auto split: if_splits)
  next
    case False
    then have out: "\<not> cur \<in> seen" "cur \<notin> anchors" by auto
    show ?thesis
    proof (cases "cur = target")
      case True
      with out show ?thesis by (auto simp: free_path_def)
    next
      case ne: False
      from "2.IH"(3) [OF out ne] "2.prems" out ne
      obtain s where "s \<in> set stack \<or> edge_rel edges cur s" "free_path edges anchors s target"
        by (auto simp: edge_rel_def)
      then show ?thesis using free_path_step [OF _ out(2)] by auto
    qed
  qed
qed simp

lemma anchor_free_complete:
  "\<not> anchor_free target edges anchors stack seen \<Longrightarrow>
   \<forall>x \<in> seen - anchors. x \<noteq> target \<and> {y. edge_rel edges x y} \<subseteq> seen \<union> set stack \<Longrightarrow>
   \<exists>F. seen \<union> set stack \<subseteq> F \<and> (\<forall>x \<in> F - anchors. x \<noteq> target \<and> {y. edge_rel edges x y} \<subseteq> F)"
proof (induction target edges anchors stack seen rule: anchor_free.induct)
  case (1 target edges anchors seen)
  then show ?case by (intro exI [of _ seen]) auto
next
  case (2 target edges anchors cur stack seen)
  consider "cur \<in> seen" | "cur \<notin> seen" "cur \<in> anchors" | "cur \<notin> seen" "cur \<notin> anchors" by blast
  then show ?case
  proof cases
    case 1
    have "\<forall>x \<in> seen - anchors. x \<noteq> target \<and> {y. edge_rel edges x y} \<subseteq> seen \<union> set stack"
      using "2.prems"(2) 1 by auto
    from "2.IH"(1) [OF 1 _ this] "2.prems"(1) 1 show ?thesis by (simp add: insert_absorb)
  next
    case 2
    have "\<forall>x \<in> insert cur seen - anchors. x \<noteq> target
        \<and> {y. edge_rel edges x y} \<subseteq> insert cur seen \<union> set stack"
      using "2.prems"(2) 2 by auto
    from "2.IH"(2) [OF 2 _ this] "2.prems"(1) 2 show ?thesis by simp
  next
    case 3
    then have ne: "cur \<noteq> target" using "2.prems"(1) by auto
    let ?st = "rev (map eTo (filter (\<lambda>e. eFrom e = cur) edges)) @ stack"
    have succ: "set ?st = {y. edge_rel edges cur y} \<union> set stack" by (auto simp: edge_rel_def)
    have "\<forall>x \<in> insert cur seen - anchors. x \<noteq> target
        \<and> {y. edge_rel edges x y} \<subseteq> insert cur seen \<union> set ?st"
      unfolding succ using "2.prems"(2) ne by auto
    from "2.IH"(3) [OF 3 ne _ this] "2.prems"(1) 3 ne
    obtain F where "insert cur seen \<union> set ?st \<subseteq> F"
      "\<forall>x \<in> F - anchors. x \<noteq> target \<and> {y. edge_rel edges x y} \<subseteq> F" by auto
    then show ?thesis unfolding succ by (intro exI [of _ F]) auto
  qed
qed

lemma reachesWithoutAnchor_iff:
  "reachesWithoutAnchor start target edges anchors \<longleftrightarrow>
     (\<exists>s \<in> set start. free_path edges anchors s target)"
proof
  assume "reachesWithoutAnchor start target edges anchors"
  then show "\<exists>s \<in> set start. free_path edges anchors s target"
    using anchor_free_sound by (fastforce simp: reachesWithoutAnchor_def)
next
  assume "\<exists>s \<in> set start. free_path edges anchors s target"
  then obtain s where s: "s \<in> set start" "s \<notin> anchors" "target \<notin> anchors"
    "(free_edge edges anchors)\<^sup>*\<^sup>* s target" by (auto simp: free_path_def)
  show "reachesWithoutAnchor start target edges anchors"
  proof (rule ccontr)
    assume "\<not> reachesWithoutAnchor start target edges anchors"
    then obtain F where F: "set start \<subseteq> F"
      "\<forall>x \<in> F - anchors. x \<noteq> target \<and> {y. edge_rel edges x y} \<subseteq> F"
      using anchor_free_complete [of target edges anchors "rev start" "{}"]
      by (auto simp: reachesWithoutAnchor_def)
    from s(4,1) F have "target \<in> F"
      by (induction rule: rtranclp_induct) (auto simp: free_edge_def)
    with F(2) s(3) show False by blast
  qed
qed

section \<open>The bound of the cycle check\<close>

definition white :: "string set \<Rightarrow> colours \<Rightarrow> string set" where
  "white U st = {n \<in> U. st n = 0}"

lemma scan_total:
  assumes "\<And>m st. m \<in> U \<Longrightarrow> st m = 0 \<Longrightarrow> card (white U st) \<le> f \<Longrightarrow>
      \<exists>b st'. v m st = Some (b, st') \<and> white U st' \<subseteq> white U st"
    and "finite U"
  shows "eTo ` set es \<subseteq> U \<Longrightarrow> card (white U st) \<le> f \<Longrightarrow>
    \<exists>b st'. scan_edges v n es st = Some (b, st') \<and> white U st' \<subseteq> white U st"
proof (induction es arbitrary: st)
  case Nil
  then show ?case by (auto simp: white_def)
next
  case (Cons e es)
  show ?case
  proof (cases "eFrom e = n \<and> st (eTo e) = 0")
    case False
    then show ?thesis using Cons by auto
  next
    case True
    with assms(1) [of "eTo e" st] Cons.prems
    obtain b st' where r: "v (eTo e) st = Some (b, st')" "white U st' \<subseteq> white U st" by auto
    have "card (white U st') \<le> f"
      using card_mono [OF _ r(2)] assms(2) Cons.prems(2) by (simp add: white_def)
    show ?thesis
    proof (cases b)
      case True
      with r \<open>eFrom e = n \<and> st (eTo e) = 0\<close> show ?thesis
        by (intro exI [of _ True] exI [of _ st']) simp
    next
      case False
      have "eTo ` set es \<subseteq> U" using Cons.prems(1) by simp
      from Cons.IH [OF this \<open>card (white U st') \<le> f\<close>]
      obtain b2 st2 where "scan_edges v n es st' = Some (b2, st2)" "white U st2 \<subseteq> white U st'"
        by blast
      moreover have "scan_edges v n (e # es) st = scan_edges v n es st'"
        using r(1) False \<open>eFrom e = n \<and> st (eTo e) = 0\<close> by simp
      ultimately show ?thesis using r(2) by (auto simp del: scan_edges.simps)
    qed
  qed
qed

lemma visit_total:
  assumes "finite U" and "eTo ` set edges \<subseteq> U"
  shows "n \<in> U \<Longrightarrow> st n = 0 \<Longrightarrow> card (white U st) \<le> f \<Longrightarrow>
    \<exists>b st'. visit f edges n st = Some (b, st') \<and> white U st' \<subseteq> white U st"
proof (induction f arbitrary: n st)
  case 0
  then have "white U st = {}" using assms(1) by (simp add: white_def)
  with 0 show ?case by (auto simp: white_def)
next
  case (Suc f)
  have "white U (st(n := 1)) = white U st - {n}" by (auto simp: white_def)
  moreover have "n \<in> white U st" using Suc.prems by (simp add: white_def)
  ultimately have "card (white U (st(n := 1))) \<le> f"
    using Suc.prems(3) assms(1) by (simp add: white_def)
  from scan_total [of U f "visit f edges", OF Suc.IH assms(1) assms(2) this] obtain b st' where
    "scan_edges (visit f edges) n edges (st(n := 1)) = Some (b, st')" "white U st' \<subseteq> white U (st(n := 1))"
    by blast
  moreover have "white U (st(n := 1)) \<subseteq> white U st" by (auto simp: white_def)
  ultimately show ?case by auto
qed

lemma has_cycle_loop_total:
  assumes "finite U" and "eTo ` set edges \<subseteq> U" and "card U \<le> f"
  shows "set ns \<subseteq> U \<Longrightarrow> has_cycle_loop f edges ns st \<noteq> None"
proof (induction ns arbitrary: st)
  case (Cons n ns)
  have "card (white U st) \<le> f"
    using assms by (metis (lifting) card_mono le_trans mem_Collect_eq subsetI white_def)
  with visit_total [OF assms(1,2), of n st f] Cons show ?case
    by (fastforce split: option.splits bool.splits)
qed simp

lemma hasCycle_total: "hasCycle ids edges \<noteq> None"
proof -
  have "card (set ids \<union> eTo ` set edges) \<le> length ids + length edges"
    by (metis add_mono card_Un_le card_length length_map list.set_map order_trans)
  from has_cycle_loop_total [OF _ _ this, of edges ids] show ?thesis
    by (simp add: hasCycle_def)
qed

end
