(* ===== verification/WorkflowRuns.thy ===== *)
theory WorkflowRuns
  imports WorkflowEngine WorkflowFacts
begin

text \<open>
  Invariants of workflow runs. \<open>run_invariant\<close> is the contract between an invariant and the
  driver: what it must survive is one record of each kind and one loop edge firing; that every
  call of \<open>advance\<close> and \<open>resume\<close> keeps it is proved once, for any host.
\<close>

section \<open>Monotone facts about records\<close>

definition was_done :: "WorkflowRunState \<Rightarrow> string \<Rightarrow> bool" where
  "was_done rs n \<longleftrightarrow> (\<exists>q \<in> set (records rs). recNode q = n \<and> done_status (recStatus q))"

definition was_spawned :: "WorkflowRunState \<Rightarrow> string \<Rightarrow> bool" where
  "was_spawned rs n \<longleftrightarrow> (\<exists>q \<in> set (records rs). recNode q = n \<and> recStatus q = Spawned)"

definition sources_done :: "PreparedWorkflow \<Rightarrow> WorkflowRunState \<Rightarrow> string \<Rightarrow> bool" where
  "sources_done W rs n \<longleftrightarrow> (\<forall>e \<in> set (inbound W n). was_done rs (eFrom e))"

definition grows :: "WorkflowRunState \<Rightarrow> WorkflowRunState \<Rightarrow> bool" where
  "grows rs rs' \<longleftrightarrow> set (records rs) \<subseteq> set (records rs')"

lemma grows_refl [simp]: "grows rs rs"
  by (simp add: grows_def)

lemma grows_trans: "grows a b \<Longrightarrow> grows b c \<Longrightarrow> grows a c"
  by (auto simp: grows_def)

lemma grows_was: "grows a b \<Longrightarrow> was_spawned a n \<Longrightarrow> was_spawned b n"
  "grows a b \<Longrightarrow> sources_done W a n \<Longrightarrow> sources_done W b n"
  "grows a b \<Longrightarrow> was_done a n \<Longrightarrow> was_done b n"
  by (fastforce simp: grows_def was_spawned_def sources_done_def was_done_def)+

lemma grows_add [simp]: "grows rs (add_record now n st d out g rs)"
  by (auto simp: grows_def add_record_def)

lemma latest_mem: "latest n ep rs = Some r \<Longrightarrow> r \<in> set (records rs) \<and> recNode r = n"
  unfolding latest_def find_Some_iff by (metis (lifting) length_rev nth_mem set_rev)

lemma isDone_was_done: "isDone W rs n \<Longrightarrow> was_done rs n"
  using latest_mem by (fastforce simp: isDone_def was_done_def split: option.splits)

lemma is_spawned_was: "is_spawned rs n \<Longrightarrow> was_spawned rs n"
  using latest_mem by (fastforce simp: is_spawned_def was_spawned_def split: option.splits)

lemma ready_sources:
  "n \<in> set (fst (nextReady ev W rs)) \<Longrightarrow> sources_done W rs n"
  by (auto simp: nextReady_def Let_def ready_nodes_def sources_done_def list_all_iff edgeSatisfied_def
      intro: isDone_was_done split: if_splits)

section \<open>Invariants the driver keeps\<close>

locale run_invariant =
  fixes W :: PreparedWorkflow
    and I :: "WorkflowRunState \<Rightarrow> bool"
  assumes I_cong: "I rs \<Longrightarrow> records rs' = records rs \<Longrightarrow> epoch rs' = epoch rs \<Longrightarrow> loops rs' = loops rs \<Longrightarrow> I rs'"
    and I_reset: "I rs \<Longrightarrow> I (add_record now n Reset d out g rs)"
    and I_cover: "I rs \<Longrightarrow> was_done rs by \<Longrightarrow> I (add_record now n Covered (Some (''covered by '' @ by)) out g rs)"
    and I_ready: "I rs \<Longrightarrow> sources_done W rs n \<Longrightarrow> I (add_record now n st d out g rs)"
    and I_pending: "I rs \<Longrightarrow> was_spawned rs n \<Longrightarrow> I (add_record now n st d out g rs)"
    and I_fire: "I rs \<Longrightarrow> e \<in> set (wfEdges W) \<Longrightarrow> eLoop e \<noteq> None \<Longrightarrow> I (fire_loop ev W e rs)"
begin

definition OK :: "'h engine_state \<Rightarrow> 'h engine_state \<Rightarrow> bool" where
  "OK s s' \<longleftrightarrow> (I (esRun s) \<longrightarrow> I (esRun s')) \<and> grows (esRun s) (esRun s')"

lemma OK_refl [simp]: "OK s s"
  by (simp add: OK_def)

lemma OK_trans [trans]: "OK a b \<Longrightarrow> OK b c \<Longrightarrow> OK a c"
  using grows_trans by (auto simp: OK_def)

lemma OK_host: "esRun s' = esRun s \<Longrightarrow> OK s s'"
  by (simp add: OK_def)

lemma OK_ledger: "OK s (es_ledger H e s)"
  by (auto simp: OK_def es_ledger_def grows_def intro: I_cong)

lemma OK_persist: "OK s (es_persist H s)"
  by (simp add: OK_def es_persist_def)

lemma OK_add_reset: "OK s (es_add H n Reset d out g s)"
  using I_reset by (simp add: OK_def es_add_def)

lemma OK_add_cover: "was_done (esRun s) by \<Longrightarrow> OK s (es_add H n Covered (Some (''covered by '' @ by)) out g s)"
  using I_cover by (simp add: OK_def es_add_def)

lemma OK_add_ready: "sources_done W (esRun s) n \<Longrightarrow> OK s (es_add H n st d out g s)"
  using I_ready by (simp add: OK_def es_add_def)

lemma OK_add_pending: "was_spawned (esRun s) n \<Longrightarrow> OK s (es_add H n st d out g s)"
  using I_pending by (simp add: OK_def es_add_def)

lemma OK_fold:
  "(\<And>x t. x \<in> set xs \<Longrightarrow> OK s t \<Longrightarrow> OK t (f x t)) \<Longrightarrow> OK s (fold f xs s)"
proof -
  assume step: "\<And>x t. x \<in> set xs \<Longrightarrow> OK s t \<Longrightarrow> OK t (f x t)"
  have "set ys \<subseteq> set xs \<Longrightarrow> OK s t \<Longrightarrow> OK s (fold f ys t)" for ys t
  proof (induction ys arbitrary: t)
    case (Cons y ys)
    then have "OK t (f y t)" by (intro step) auto
    with Cons.prems(2) have "OK s (f y t)" by (rule OK_trans)
    with Cons show ?case by simp
  qed simp
  then show ?thesis by simp
qed

lemma OK_sources: "OK s t \<Longrightarrow> sources_done W (esRun s) n \<Longrightarrow> sources_done W (esRun t) n"
  by (auto simp: OK_def intro: grows_was)

lemma OK_done: "OK s t \<Longrightarrow> was_done (esRun s) n \<Longrightarrow> was_done (esRun t) n"
  by (auto simp: OK_def intro: grows_was)

lemma OK_spawned: "OK s t \<Longrightarrow> was_spawned (esRun s) n \<Longrightarrow> was_spawned (esRun t) n"
  by (auto simp: OK_def intro: grows_was)

lemma OK_reset: "OK s (reset_nodes H ns d s)"
  unfolding reset_nodes_def by (intro OK_fold OK_add_reset)

lemma OK_close_shadow: "was_spawned (esRun s) i \<Longrightarrow> OK s (close_shadow H results i s)"
  unfolding close_shadow_def Let_def
  by (auto split: option.split intro: OK_add_pending OK_trans [OF OK_add_pending OK_ledger])

lemma OK_closeShadows: "OK s (closeShadows H W results s)"
  unfolding closeShadows_def
proof (rule OK_fold)
  fix i t assume i: "i \<in> set (filter (\<lambda>p. \<not> gating W p) (pending W (esRun s)))" and t: "OK s t"
  from i have "was_spawned (esRun s) i" by (auto simp: pending_def is_spawned_was)
  then show "OK t (close_shadow H results i t)"
    by (intro OK_close_shadow OK_spawned [OF t])
qed

lemma OK_takeShadows:
  "(\<forall>i \<in> set ids. sources_done W (esRun s) i) \<Longrightarrow> OK s (snd (takeShadows H W ids s))"
proof (induction ids arbitrary: s)
  case (Cons i ids)
  have keep: "OK s t \<Longrightarrow> OK s (snd (takeShadows H W ids t))" for t
    using Cons.IH [of t] Cons.prems OK_sources [of s t] OK_trans by simp blast
  have "OK s (es_ledger H e (es_add H i Skipped d None (Some False) s))" for d e
    using Cons.prems by (intro OK_trans [OF OK_add_ready OK_ledger]) simp
  then show ?case using keep by (simp add: Let_def)
qed simp

lemma takeShadows_nodes: "ssNode ` set (fst (takeShadows H W ids s)) \<subseteq> set ids"
  by (induction ids arbitrary: s) (auto simp: Let_def shadow_spawn_def)

lemma OK_note: "OK s (note_cap_exits H ids s)"
proof (induction ids arbitrary: s)
  case (Cons i ids)
  let ?t = "s\<lparr>esRun := (esRun s)\<lparr>capExitSeen := insert i (capExitSeen (esRun s))\<rparr>\<rparr>"
  have "OK s (?t\<lparr>esHost := h\<rparr>)" for h
    by (auto simp: OK_def grows_def intro: I_cong)
  with Cons show ?case by (auto simp: Let_def intro: OK_trans)
qed simp

lemma note_records: "records (esRun (note_cap_exits H ids s)) = records (esRun s)"
  by (induction ids arbitrary: s) (simp_all add: Let_def)

lemma OK_cover: "was_done (esRun s) by \<Longrightarrow> OK s (cover H W by impls s)"
  unfolding cover_def by (auto intro!: OK_fold OK_add_cover simp: Let_def intro: OK_done simp del: append_Cons append.simps)

lemma done_added: "was_done (esRun (es_add H n RecOk d out g s)) n"
  by (simp add: was_done_def es_add_def add_record_def done_status_def)

lemma OK_fireLoops: "OK s (fireLoops ev W n s)"
proof -
  have "set es \<subseteq> {e \<in> set (wfEdges W). eLoop e \<noteq> None} \<Longrightarrow>
      (I rs \<longrightarrow> I (fold (fire_loop ev W) es rs)) \<and> grows rs (fold (fire_loop ev W) es rs)" for es rs
  proof (induction es arbitrary: rs)
    case (Cons e es)
    have "grows rs (fire_loop ev W e rs)" by (simp add: fire_loop_def grows_def)
    with Cons I_fire [of rs e ev] show ?case by (auto intro: grows_trans)
  qed simp
  from this [of "filter (\<lambda>e. eLoop e \<noteq> None \<and> eFrom e = n) (wfEdges W)" "esRun s"]
  show ?thesis by (auto simp: OK_def fireLoops_def)
qed

definition loop_state :: "('h, 'i) loop_result \<Rightarrow> 'h engine_state" where
  "loop_state r = (case r of Answer x s \<Rightarrow> s | Restart s \<Rightarrow> s)"

lemma loop_state_simps [simp]: "loop_state (Answer x s) = s" "loop_state (Restart s) = s"
  by (simp_all add: loop_state_def)

lemma OK_shadow_records:
  "(\<forall>x \<in> set shadows. sources_done W (esRun s) (ssNode x)) \<Longrightarrow>
   OK s (fold (\<lambda>x. es_add H (ssNode x) st d None (Some False)) shadows s)"
  by (rule OK_fold) (auto intro!: OK_add_ready intro: OK_sources)

lemma OK_afterSpawn:
  assumes nid: "\<forall>n. nid = Some n \<longrightarrow> sources_done W (esRun s) n"
    and sh: "\<forall>x \<in> set shadows. sources_done W (esRun s) (ssNode x)"
  shows "OK s (loop_state (afterSpawn H out nid shadows s))"
proof -
  have first: "OK s (case nid of None \<Rightarrow> s | Some n \<Rightarrow> es_add H n st d o2 None s)" for st d o2
    using nid by (auto split: option.split intro: OK_add_ready)
  have shadows: "OK t (fold (\<lambda>x. es_add H (ssNode x) st d None (Some False)) shadows t)" if "OK s t" for t st d
    using sh OK_sources [OF that] by (intro OK_shadow_records) blast
  note both = OK_trans [OF first shadows [OF first]]
  show ?thesis
    using both OK_trans [OF both OK_persist]
    by (cases out) (simp_all add: afterSpawn_def Let_def)
qed

definition step_state :: "('h, 'i) loop_result + 'h engine_state \<Rightarrow> 'h engine_state" where
  "step_state r = (case r of Inl x \<Rightarrow> loop_state x | Inr s \<Rightarrow> s)"

lemma step_state_simps [simp]: "step_state (Inl x) = loop_state x" "step_state (Inr s) = s"
  by (simp_all add: step_state_def)

lemma OK_drive_step: "OK s (step_state (drive_step ev H W s))"
proof -
  define ready where "ready = fst (nextReady ev W (esRun s))"
  define s1 where "s1 = note_cap_exits H (snd (nextReady ev W (esRun s))) s"
  define shadows where "shadows = fst (takeShadows H W ready s1)"
  define s2 where "s2 = snd (takeShadows H W ready s1)"
  have r0: "sources_done W (esRun s) i" if "i \<in> set ready" for i
    using that ready_sources by (simp add: ready_def)
  have ok1: "OK s s1" unfolding s1_def by (rule OK_note)
  have "OK s1 s2" unfolding s2_def
    by (rule OK_takeShadows) (use r0 OK_sources [OF ok1] in blast)
  with ok1 have ok2: "OK s s2" by (rule OK_trans)
  have r2: "sources_done W (esRun s2) i" if "i \<in> set ready" for i
    using r0 [OF that] OK_sources [OF ok2] by blast
  have sh: "\<forall>x \<in> set shadows. sources_done W (esRun s2) (ssNode x)"
    using takeShadows_nodes [of H ready s1] r2 by (auto simp: shadows_def)
  have host: "OK s (s2\<lparr>esHost := h\<rparr>)" for h
    using OK_trans [OF ok2 OK_host] by simp
  have spawn: "OK s (loop_state (afterSpawn H out nid shadows (s2\<lparr>esHost := h\<rparr>)))"
    if "\<forall>n. nid = Some n \<longrightarrow> n \<in> set ready" for out nid h
    using that r2 sh by (intro OK_trans [OF host OK_afterSpawn]) auto
  have step: "drive_step ev H W s =
     (if ready = [] then Inl (Answer Finished s1)
      else case find (gating W) ready of
          None \<Rightarrow>
            if shadows = [] then Inr s2
            else (let o1 = hostSpawn H [] None shadows (esRun s2) (esHost s2)
                  in Inl (afterSpawn H (fst o1) None shadows (s2\<lparr>esHost := snd o1\<rparr>)))
        | Some nxt \<Rightarrow>
            (case map_of (wfNodes W) nxt of
               None \<Rightarrow> Inl (Answer NoProgress s2)
             | Some n \<Rightarrow>
                 if kind n = AgentNode \<or> kind n = FanoutNode then
                   (let o1 = hostSpawn H nxt (Some n) shadows (esRun s2) (esHost s2)
                    in Inl (afterSpawn H (fst o1) (Some nxt) shadows (s2\<lparr>esHost := snd o1\<rparr>)))
                 else if kind n = HumanNode then Inl (Answer (HumanUnsupported nxt) s2)
                 else (let o1 = hostRunStep H nxt n (esRun s2) (esHost s2);
                           s3 = s2\<lparr>esHost := snd o1\<rparr> in
                   case fst o1 of
                     StepHalt i \<Rightarrow> Inl (Answer (Instr i) s3)
                   | StepInvalidate ns detail \<Rightarrow> Inr (es_persist H (reset_nodes H ns detail s3))
                   | StepOk output detail covers \<Rightarrow>
                       Inr (fireLoops ev W nxt (cover H W nxt covers
                         (es_add H nxt RecOk (non_empty detail) output None s3))))))"
    unfolding drive_step_def Let_def ready_def s1_def s2_def shadows_def ..
  show ?thesis
  proof (cases "find (gating W) ready")
    case None
    then show ?thesis
      using ok1 ok2 spawn [of None] by (simp add: step Let_def)
  next
    case (Some nxt)
    then have mem: "nxt \<in> set ready" by (auto simp: find_Some_iff)
    have add: "OK s (es_add H nxt RecOk d out None (s2\<lparr>esHost := h\<rparr>))" for d out h
      using r2 [OF mem] by (intro OK_trans [OF host OK_add_ready]) simp
    have agent: "OK s (loop_state (afterSpawn H out (Some nxt) shadows (s2\<lparr>esHost := h\<rparr>)))" for out h
      using spawn [of "Some nxt"] mem by simp
    show ?thesis
      using Some ok1 ok2 host agent
        OK_trans [OF OK_trans [OF add OK_cover [where H = H, OF done_added]] OK_fireLoops]
        OK_trans [OF OK_trans [OF host OK_reset [where H = H]] OK_persist [where H = H]]
      by (simp add: step Let_def split: option.split StepOutcome.split)
  qed
qed

lemma OK_advance_loop: "OK s (loop_state (advance_loop f ev H W s))"
proof (induction f arbitrary: s)
  case (Suc f)
  from OK_drive_step [of s ev H] Suc show ?case
    by (cases "drive_step ev H W s") (auto intro: OK_trans)
qed simp

lemma OK_advance_any:
  assumes "advance ev H W' s = Some y"
  shows "W' = W \<longrightarrow> OK s (snd y)"
proof (rule advance.raw_induct [OF _ assms, of "\<lambda>ev H W' s y. W' = W \<longrightarrow> OK s (snd y)"])
  fix adv :: "evaluator \<Rightarrow> ('b, 'a) EngineHost \<Rightarrow> PreparedWorkflow \<Rightarrow> 'b engine_state \<Rightarrow>
    ('a engine_result \<times> 'b engine_state) option"
  fix ev H W' s y
  assume IH: "\<And>ev H W' s y. adv ev H W' s = Some y \<Longrightarrow> W' = W \<longrightarrow> OK s (snd y)"
    and body: "(case advance_loop 500 ev H W' s of
      Answer r s' \<Rightarrow> Some (r, s') | Restart s' \<Rightarrow> adv ev H W' s') = Some y"
  show "W' = W \<longrightarrow> OK s (snd y)"
  proof
    assume same: "W' = W"
    show "OK s (snd y)"
    proof (cases "advance_loop 500 ev H W s")
      case (Answer r s')
      with OK_advance_loop [of s 500 ev H] body same show ?thesis by auto
    next
      case (Restart s')
      with IH [of ev H W s' y] body same have "OK s' (snd y)" by simp
      moreover have "OK s s'" using OK_advance_loop [of s 500 ev H] Restart by simp
      ultimately show ?thesis by (rule OK_trans [rotated])
    qed
  qed
qed

lemma OK_advance: "advance ev H W s = Some (r, s') \<Longrightarrow> OK s s'"
  using OK_advance_any by fastforce

lemma OK_resume:
  assumes "resume ev H W txt s = Some (r, s')"
  shows "OK s s'"
proof -
  define gid where "gid = find (gating W) (pending W (esRun s))"
  define o1 where "o1 = hostOnResult H gid (case gid of None \<Rightarrow> None | Some i \<Rightarrow> map_of (wfNodes W) i)
      txt (map (shadow_spawn W) (filter (\<lambda>i. \<not> gating W i) (pending W (esRun s)))) (esRun s) (esHost s)"
  define s1 where "s1 = s\<lparr>esHost := snd o1\<rparr>"
  have ok1: "OK s s1" by (simp add: s1_def OK_host)
  have res: "resume ev H W txt s = (case fst o1 of
        ResultHalt i \<Rightarrow> Some (Instr i, s1)
      | Respawn i sh \<Rightarrow> Some (Instr i, es_persist H (if sh \<noteq> [] then closeShadows H W sh s1 else s1))
      | ResultInvalidate ns detail \<Rightarrow> advance ev H W (reset_nodes H ns detail (closeShadows H W [] s1))
      | ResultOk outp sh \<Rightarrow> (let s2 = closeShadows H W sh s1
           in advance ev H W (case gid of None \<Rightarrow> s2 | Some i \<Rightarrow> es_add H i RecOk None outp None s2)))"
    unfolding resume_def Let_def gid_def o1_def s1_def ..
  have close: "OK s (closeShadows H W sh s1)" for sh
    using OK_trans [OF ok1 OK_closeShadows] .
  have gid_ok: "OK s (case gid of None \<Rightarrow> closeShadows H W sh s1
      | Some i \<Rightarrow> es_add H i RecOk None outp None (closeShadows H W sh s1))" for sh outp
  proof (cases gid)
    case (Some i)
    then have "was_spawned (esRun s) i"
      by (auto simp: gid_def find_Some_iff pending_def is_spawned_was dest!: nth_mem)
    with OK_spawned [OF close] have "was_spawned (esRun (closeShadows H W sh s1)) i" .
    from OK_trans [OF close OK_add_pending [OF this]] Some show ?thesis by simp
  qed (simp add: close)
  show ?thesis
  proof (cases "fst o1")
    case (ResultOk outp sh)
    with res assms have "advance ev H W (case gid of None \<Rightarrow> closeShadows H W sh s1
        | Some i \<Rightarrow> es_add H i RecOk None outp None (closeShadows H W sh s1)) = Some (r, s')"
      by (simp add: Let_def)
    from OK_trans [OF gid_ok OK_advance [OF this]] show ?thesis .
  next
    case (Respawn i sh)
    with res assms close ok1 OK_trans [OF _ OK_persist] show ?thesis by auto
  next
    case (ResultInvalidate ns detail)
    with res assms
    have "advance ev H W (reset_nodes H ns detail (closeShadows H W [] s1)) = Some (r, s')" by simp
    from OK_trans [OF OK_trans [OF close OK_reset] OK_advance [OF this]] show ?thesis .
  next
    case (ResultHalt i)
    with res assms ok1 show ?thesis by simp
  qed
qed

end

end
