(* ===== verification/WorkflowProps.thy ===== *)
theory WorkflowProps
  imports WorkflowRuns
begin

text \<open>
  The properties of workflow preparation and of workflow runs: what an accepted document
  guarantees, the loop cap, and the anchor guarantee of the engine.
\<close>

section \<open>What acceptance gives\<close>

lemma prepare_ok:
  assumes "prepareWorkflow schema L opts doc = Inr W"
  obtains ship order where
    "validateWorkflowDocument schema L doc = []"
    "kahnOrder (map_keys (docNodes doc)) (nonLoop (doc_edges doc)) = Some order"
    "length order = length (map_keys (docNodes doc))"
    "ship_id doc = Some ship"
    "\<not> reachesWithoutAnchor (doc_roots doc) ship (nonLoop (doc_edges doc)) (doc_anchors doc)"
    "wfOrder W = order" "wfEdges W = doc_edges doc" "wfNodes W = docNodes doc"
    "wfAnchors W = doc_anchors doc" "\<forall>p. poOrigin opts \<noteq> Worktree p"
  using assms unfolding prepareWorkflow_def Let_def
  by (auto split: WorkflowOrigin.splits if_splits option.splits)

lemma semantic_endpoints:
  assumes "validateWorkflowDocument schema L doc = []"
  shows "eFrom ` set (doc_edges doc) \<union> eTo ` set (doc_edges doc) \<subseteq> set (map_keys (docNodes doc))"
proof -
  have "endpoint_errors doc = []"
    using assms by (simp add: validateWorkflowDocument_def semanticErrors_def split: if_splits)
  then show ?thesis
    by (auto simp: endpoint_errors_def filter_empty_conv split: if_splits)
qed

lemma nonLoop_subset: "set (nonLoop es) \<subseteq> set es"
  by (auto simp: nonLoop_def)

lemma prepare_order:
  assumes "prepareWorkflow schema L opts doc = Inr W" and "distinct (map_keys (docNodes doc))"
  shows "distinct (wfOrder W) \<and> set (wfOrder W) = set (map_keys (docNodes doc))
    \<and> (\<forall>j < length (wfOrder W). \<forall>e \<in> set (nonLoop (wfEdges W)). eTo e = wfOrder W ! j
         \<longrightarrow> eFrom e \<in> set (take j (wfOrder W)))
    \<and> (\<forall>x. \<not> (edge_rel (nonLoop (wfEdges W)))\<^sup>+\<^sup>+ x x)"
proof -
  from assms(1) obtain ship order where p:
    "validateWorkflowDocument schema L doc = []"
    "kahnOrder (map_keys (docNodes doc)) (nonLoop (doc_edges doc)) = Some order"
    "length order = length (map_keys (docNodes doc))"
    "wfOrder W = order" "wfEdges W = doc_edges doc"
    by (rule prepare_ok)
  have ends: "eFrom ` set (nonLoop (doc_edges doc)) \<subseteq> set (map_keys (docNodes doc))"
    "eTo ` set (nonLoop (doc_edges doc)) \<subseteq> set (map_keys (docNodes doc))"
    using semantic_endpoints [OF p(1)] nonLoop_subset by blast+
  from kahnOrder_spec [OF assms(2) ends] p(2,3)
  have o: "distinct order" "set order \<subseteq> set (map_keys (docNodes doc))"
    "\<forall>j < length order. \<forall>e \<in> set (nonLoop (doc_edges doc)). eTo e = order ! j
         \<longrightarrow> eFrom e \<in> set (take j order)"
    "\<forall>x. \<not> (edge_rel (nonLoop (doc_edges doc)))\<^sup>+\<^sup>+ x x"
    by auto
  have "set order = set (map_keys (docNodes doc))"
    using o(1,2) p(3) assms(2) by (metis List.finite_set card_subset_eq distinct_card)
  with o p(4,5) show ?thesis by simp
qed

text \<open>Whatever document the engine accepts was not read from a working tree; its run order lists
  every node once with each node after the sources of its non-loop edges, and every non-loop
  path from a root to the ship node crosses an anchor.\<close>

theorem prepare_accepts_only_anchored:
  assumes "prepareWorkflow schema L opts doc = Inr W" and "distinct (map_keys (docNodes doc))"
  shows "(\<forall>p. poOrigin opts \<noteq> Worktree p)
    \<and> distinct (wfOrder W) \<and> set (wfOrder W) = set (map_keys (docNodes doc))
    \<and> (\<forall>j < length (wfOrder W). \<forall>e \<in> set (nonLoop (wfEdges W)). eTo e = wfOrder W ! j
         \<longrightarrow> eFrom e \<in> set (take j (wfOrder W)))
    \<and> (\<exists>ship. ship_id doc = Some ship \<and> (\<forall>r \<in> set (doc_roots doc).
         \<not> free_path (nonLoop (wfEdges W)) (wfAnchors W) r ship))"
proof -
  from assms(1) obtain ship order where p: "ship_id doc = Some ship"
    "\<not> reachesWithoutAnchor (doc_roots doc) ship (nonLoop (doc_edges doc)) (doc_anchors doc)"
    "wfEdges W = doc_edges doc" "wfAnchors W = doc_anchors doc" "\<forall>p. poOrigin opts \<noteq> Worktree p"
    by (rule prepare_ok)
  with prepare_order [OF assms] show ?thesis
    by (auto simp: reachesWithoutAnchor_iff)
qed

definition plain_lang :: when_lang where
  "plain_lang = \<lparr>whenError = (\<lambda>_. None), whenIdentifiers = (\<lambda>_. []), outputFields = (\<lambda>_. [])\<rparr>"

definition test_opts :: PrepareOptions where
  "test_opts = \<lparr>poOrigin = Builtin ''sha'', knownImpls = {''b'', ''g'', ''push-and-pr''},
     poPath = ''builtin:execute-task'', poSha = ''digest''\<rparr>"

definition plain_edge :: "string \<Rightarrow> string \<Rightarrow> string option \<Rightarrow> EngineEdge" where
  "plain_edge a b w = \<lparr>eFrom = a, eTo = b, eWhen = w, eLoop = None\<rparr>"

definition anchored_doc :: RawDoc where
  "anchored_doc = \<lparr>docName = ''d'',
     docNodes = [(''b'', step_node ''b''), (''g'', (step_node ''g'')\<lparr>kind := AnchorNode\<rparr>),
       (''ship'', step_node ''push-and-pr'')],
     docEdges = [EdgeText ''b -> g'', EdgeObj (plain_edge ''g'' ''ship'' None)], docAnchors = []\<rparr>"

definition get_Inr :: "'a + 'b \<Rightarrow> 'b option" where
  "get_Inr x = (case x of Inl _ \<Rightarrow> None | Inr y \<Rightarrow> Some y)"

lemma get_Inr_iff: "get_Inr x = Some y \<longleftrightarrow> x = Inr y"
  by (cases x) (simp_all add: get_Inr_def)

lemma anchored_accepted:
  "map_option wfOrder (get_Inr (prepareWorkflow (\<lambda>_. []) plain_lang test_opts anchored_doc))
     = Some [''b'', ''g'', ''ship'']"
  by code_simp

theorem prepare_accepts_only_anchored_witness:
  "\<exists>W. prepareWorkflow (\<lambda>_. []) plain_lang test_opts anchored_doc = Inr W
     \<and> (\<exists>ship. ship_id anchored_doc = Some ship \<and> (\<forall>r \<in> set (doc_roots anchored_doc).
          \<not> free_path (nonLoop (wfEdges W)) (wfAnchors W) r ship))"
proof -
  obtain W where W: "prepareWorkflow (\<lambda>_. []) plain_lang test_opts anchored_doc = Inr W"
    using anchored_accepted by (auto simp: get_Inr_iff)
  have "distinct (map_keys (docNodes anchored_doc))" by code_simp
  from prepare_accepts_only_anchored [OF W this] W show ?thesis by blast
qed

text \<open>Two node ids that differ only in letter case are one node to the cycle detector: an
  acyclic document with an edge from \<open>A\<close> to \<open>a\<close> is refused as cyclic.\<close>

definition case_doc :: RawDoc where
  "case_doc = \<lparr>docName = ''d'',
     docNodes = [(''A'', (step_node ''g'')\<lparr>kind := AnchorNode\<rparr>), (''a'', step_node ''b''),
       (''ship'', step_node ''push-and-pr'')],
     docEdges = [EdgeText ''A -> a'', EdgeText ''a -> ship''], docAnchors = []\<rparr>"

theorem case_variant_ids_refused:
  "prepareWorkflow (\<lambda>_. []) plain_lang test_opts case_doc = Inl UndeclaredCycle
   \<and> kahnOrder (map_keys (docNodes case_doc)) (nonLoop (doc_edges case_doc)) = Some [''A'', ''a'', ''ship'']"
proof
  have "case prepareWorkflow (\<lambda>_. []) plain_lang test_opts case_doc of Inl r \<Rightarrow> r = UndeclaredCycle | Inr _ \<Rightarrow> False"
    by code_simp
  then show "prepareWorkflow (\<lambda>_. []) plain_lang test_opts case_doc = Inl UndeclaredCycle"
    by (simp split: sum.splits)
  show "kahnOrder (map_keys (docNodes case_doc)) (nonLoop (doc_edges case_doc)) = Some [''A'', ''a'', ''ship'']"
    by code_simp
qed

section \<open>Reachable runs\<close>

inductive run_reach :: "evaluator \<Rightarrow> ('h, 'i) EngineHost \<Rightarrow> PreparedWorkflow \<Rightarrow> 'h engine_state \<Rightarrow> bool"
  for ev H W where
  start: "run_reach ev H W \<lparr>esRun = newRunState W, esHost = h\<rparr>"
| advanced: "run_reach ev H W s \<Longrightarrow> advance ev H W s = Some (r, s') \<Longrightarrow> run_reach ev H W s'"
| resumed: "run_reach ev H W s \<Longrightarrow> resume ev H W txt s = Some (r, s') \<Longrightarrow> run_reach ev H W s'"

context run_invariant
begin

lemma reach_I: "run_reach ev H W s \<Longrightarrow> I (newRunState W) \<Longrightarrow> I (esRun s)"
  by (induction rule: run_reach.induct) (auto dest: OK_advance OK_resume simp: OK_def)

end

section \<open>The loop cap\<close>

definition loops_ok :: "PreparedWorkflow \<Rightarrow> WorkflowRunState \<Rightarrow> bool" where
  "loops_ok W rs \<longleftrightarrow> (\<forall>k c. map_of (loops rs) k = Some c \<longrightarrow>
     (\<exists>e \<in> set (wfEdges W). \<exists>m. loop_key e = k \<and> eLoop e = Some m \<and> c < m))"

interpretation capped: run_invariant W "loops_ok W" for W
proof
  fix rs e ev
  assume ok: "loops_ok W rs" and e: "e \<in> set (wfEdges W)" "eLoop e \<noteq> None"
  then obtain m where m: "eLoop e = Some m" by auto
  show "loops_ok W (fire_loop ev W e rs)"
  proof (cases "loopFull rs e \<or> \<not> whenHolds ev W rs e")
    case True
    with ok show ?thesis by (auto simp: fire_loop_def)
  next
    case False
    with m have "loop_count rs e + 1 < m" by (simp add: loopFull_def)
    with False ok e(1) m show ?thesis
      by (auto simp: fire_loop_def loops_ok_def)
  qed
qed (simp_all add: loops_ok_def add_record_def)

text \<open>C33. In every run, under every host and whatever the model answers, a loop edge declared with
  cap \<open>m\<close> has fired fewer than \<open>m\<close> times: the body runs at most \<open>m\<close> times.\<close>

theorem loop_cap_holds:
  assumes "run_reach ev H W s" and "map_of (loops (esRun s)) k = Some c"
  shows "\<exists>e \<in> set (wfEdges W). \<exists>m. loop_key e = k \<and> eLoop e = Some m \<and> c < m"
proof -
  have "loops_ok W (newRunState W)" by (simp add: loops_ok_def newRunState_def)
  from capped.reach_I [OF assms(1) this] assms(2) show ?thesis by (auto simp: loops_ok_def)
qed

text \<open>A host whose steps all succeed with no output.\<close>

definition ok_host :: "(unit, unit) EngineHost" where
  "ok_host = \<lparr>hostNow = (\<lambda>_. []), hostTaskId = (\<lambda>_. []), hostSampleKey = (\<lambda>_. (FromTask, 1)),
     hostRunStep = (\<lambda>_ _ _ h. (StepOk None None [], h)),
     hostSpawn = (\<lambda>_ _ _ _ h. (SpawnDo (), h)), hostOnResult = (\<lambda>_ _ _ _ _ h. (ResultOk None [], h)),
     hostLoopExhausted = (\<lambda>_ h. h), hostAppendLedger = (\<lambda>_ h. h), hostPersist = (\<lambda>_ h. h)\<rparr>"

definition start_state :: "PreparedWorkflow \<Rightarrow> unit engine_state" where
  "start_state W = \<lparr>esRun = newRunState W, esHost = ()\<rparr>"

definition run_records :: "('i engine_result \<times> 'h engine_state) option \<Rightarrow> (string \<times> RecordStatus) list option" where
  "run_records r = map_option (\<lambda>(_, s). map (\<lambda>q. (recNode q, recStatus q)) (records (esRun s))) r"

definition looping :: PreparedWorkflow where
  "looping = \<lparr>wfName = ''w'', wfNodes = [(''d'', step_node ''b''), (''l'', step_node ''g'')],
     wfEdges = [plain_edge ''d'' ''l'' None, (plain_edge ''l'' ''d'' None)\<lparr>eLoop := Some 3\<rparr>],
     wfOrder = [''d'', ''l''], wfAnchors = {}, wfOrigin = Builtin ''sha'', wfPath = [], wfSha = [], wfBaseSha = [],
     wfBodies = [(''d'', [''d'', ''l'']), (''l'', [''d'', ''l''])]\<rparr>"

lemma advance_loop_numeral:
  "advance_loop (numeral n) ev H W s = (case drive_step ev H W s of
     Inl r \<Rightarrow> r | Inr s' \<Rightarrow> advance_loop (pred_numeral n) ev H W s')"
  by (simp add: numeral_eq_Suc)

lemma looping_run:
  "map_option (\<lambda>(_, s). loops (esRun s)) (advance (\<lambda>_ _. True) ok_host looping (start_state looping))
     = Some [(''l->d'', 2)]"
  by (subst advance.simps) code_simp

theorem loop_cap_holds_witness:
  "\<exists>s. run_reach (\<lambda>_ _. True) ok_host looping s \<and> map_of (loops (esRun s)) ''l->d'' = Some 2
     \<and> (\<exists>e \<in> set (wfEdges looping). \<exists>m. loop_key e = ''l->d'' \<and> eLoop e = Some m \<and> 2 < m)"
proof -
  obtain r s where run: "advance (\<lambda>_ _. True) ok_host looping (start_state looping) = Some (r, s)"
    "loops (esRun s) = [(''l->d'', 2)]"
    using looping_run by auto
  from run_reach.advanced [OF run_reach.start run(1) [unfolded start_state_def]]
  have reach: "run_reach (\<lambda>_ _. True) ok_host looping s" .
  have two: "map_of (loops (esRun s)) ''l->d'' = Some 2" using run(2) by simp
  from loop_cap_holds [OF reach two] reach two show ?thesis by blast
qed

section \<open>The anchor guarantee\<close>















text \<open>Without that hypothesis the guarantee fails: this document passes every check of
  \<open>prepareWorkflow\<close>, its only path to the ship node crosses the anchor \<open>g\<close>, and still the engine
  runs the ship node without \<open>g\<close> when the condition on \<open>g\<close> does not hold, because the edge that
  leaves the non-gating agent \<open>v\<close> counts for the path check and not for readiness.\<close>

definition shadow_doc :: RawDoc where
  "shadow_doc = \<lparr>docName = ''d'',
     docNodes = [(''b'', step_node ''b''), (''g'', (step_node ''g'')\<lparr>kind := AnchorNode\<rparr>),
       (''v'', \<lparr>kind = AgentNode, impl = None, role = Some ''r'', gatingFlag = Some False,
          sample = None, expect = None\<rparr>),
       (''ship'', step_node ''push-and-pr'')],
     docEdges = [EdgeObj (plain_edge ''b'' ''g'' (Some ''decision == APPROVED'')),
       EdgeText ''g -> v'', EdgeText ''v -> ship''], docAnchors = []\<rparr>"

theorem shadow_edge_bypasses_anchor:
  "map_option (\<lambda>W. run_records (advance (\<lambda>_ _. False) ok_host W (start_state W)))
     (get_Inr (prepareWorkflow (\<lambda>_. []) plain_lang test_opts shadow_doc))
   = Some (Some [(''b'', RecOk), (''ship'', RecOk)])"
  by (subst advance.simps) code_simp

end
