(* ===== verification/Orchestration.thy ===== *)
theory Orchestration
  imports Prelude
begin

text \<open>
  Multi-agent orchestration, \<open>reference/src/agents/orchestration.ts\<close> and \<open>executor.ts\<close>: the
  plan builders, the execution loop, handoff validation. The task function and the authorization
  hook are callbacks and therefore parameters. The ready steps of a round run concurrently: their
  synchronous parts run in plan order, their completions in the order \<open>sched\<close> gives
  (any permutation).
\<close>

section \<open>Plans\<close>

record HandoffContract =
  schemaRef :: "string option"
  requiredFields :: "string list option"

record Handoff =
  target :: string
  contract :: "HandoffContract option"

record AgentRole =
  agentName :: string
  handoffs :: "Handoff list"

datatype OrchestrationPattern = SequentialP | ParallelP | HybridP | HierarchicalP | SwarmP

record OrchestrationStep =
  agent :: string
  dependsOn :: "string list option"

record OrchestrationPlan =
  pattern :: OrchestrationPattern
  steps :: "OrchestrationStep list"

fun sequential_steps :: "string option \<Rightarrow> AgentRole list \<Rightarrow> OrchestrationStep list" where
  "sequential_steps prev [] = []"
| "sequential_steps prev (a # as) =
     \<lparr>agent = agentName a, dependsOn = map_option (\<lambda>p. [p]) prev\<rparr>
     # sequential_steps (Some (agentName a)) as"

definition sequential :: "AgentRole list \<Rightarrow> OrchestrationPlan" where
  "sequential agents = \<lparr>pattern = SequentialP, steps = sequential_steps None agents\<rparr>"

definition parallel :: "AgentRole list \<Rightarrow> OrchestrationPlan" where
  "parallel agents = \<lparr>pattern = ParallelP,
     steps = map (\<lambda>a. \<lparr>agent = agentName a, dependsOn = None\<rparr>) agents\<rparr>"

definition fan_steps :: "AgentRole \<Rightarrow> AgentRole list \<Rightarrow> OrchestrationStep list" where
  "fan_steps lead others = \<lparr>agent = agentName lead, dependsOn = None\<rparr>
     # map (\<lambda>s. \<lparr>agent = agentName s, dependsOn = Some [agentName lead]\<rparr>) others"

definition hybrid :: "AgentRole \<Rightarrow> AgentRole list \<Rightarrow> OrchestrationPlan" where
  "hybrid dispatcher specialists = \<lparr>pattern = HybridP, steps = fan_steps dispatcher specialists\<rparr>"

definition hierarchical :: "AgentRole \<Rightarrow> AgentRole list \<Rightarrow> OrchestrationPlan" where
  "hierarchical manager workers = \<lparr>pattern = HierarchicalP, steps = fan_steps manager workers\<rparr>"

definition swarm_deps :: "AgentRole list \<Rightarrow> AgentRole \<Rightarrow> string list" where
  "swarm_deps agents a = map agentName
     (filter (\<lambda>other. list_ex (\<lambda>h. target h = agentName a) (handoffs other)) agents)"

definition swarm :: "AgentRole list \<Rightarrow> OrchestrationPlan" where
  "swarm agents = \<lparr>pattern = SwarmP, steps = map (\<lambda>a. \<lparr>agent = agentName a,
     dependsOn = (if swarm_deps agents a = [] then None else Some (swarm_deps agents a))\<rparr>) agents\<rparr>"

section \<open>Execution\<close>

datatype AgentExecutionState = Pending | Running | Completed | Failed

datatype ExecError =
    DependencyFailed
  | AgentNotFound string
  | AuthorizationDenied string
  | TaskThrew string

record 'o StepResult =
  srAgent :: string
  srState :: AgentExecutionState
  srOutput :: "'o option"
  srError :: "ExecError option"

datatype 'o TaskInput = NoInput | OneInput "'o option" | ManyInputs "(string, 'o option) jsmap"

record AuthorizationContext =
  acAgent :: string
  acAction :: string
  acTarget :: string

record AuthorizationResult =
  allowed :: bool
  reason :: string

record AuditRecord =
  arActor :: string
  arResource :: string
  arAllowed :: bool
  arReason :: "string option"

record 'o ExecutionOptions =
  agentMap :: "(string, AgentRole) jsmap"
  taskFn :: "AgentRole \<Rightarrow> 'o TaskInput \<Rightarrow> string + 'o"
  authorize :: "(AuthorizationContext \<Rightarrow> AuthorizationResult) option"
  auditing :: bool
  sched :: "OrchestrationStep list \<Rightarrow> OrchestrationStep list"

record 'o exec_state =
  results :: "(string, 'o StepResult) jsmap"
  completed :: "string set"
  failed :: "string set"
  audit :: "AuditRecord list"

definition step_deps :: "OrchestrationStep \<Rightarrow> string list" where
  "step_deps s = (case dependsOn s of None \<Rightarrow> [] | Some ds \<Rightarrow> ds)"

definition init_results :: "OrchestrationStep list \<Rightarrow> (string, 'o StepResult) jsmap" where
  "init_results ss = fold (\<lambda>s m. map_set (agent s)
     \<lparr>srAgent = agent s, srState = Pending, srOutput = None, srError = None\<rparr> m) ss []"

definition is_pending :: "'o exec_state \<Rightarrow> OrchestrationStep \<Rightarrow> bool" where
  "is_pending st s = (case map_of (results st) (agent s) of
     None \<Rightarrow> False | Some r \<Rightarrow> srState r = Pending)"

definition ready_steps :: "OrchestrationPlan \<Rightarrow> 'o exec_state \<Rightarrow> OrchestrationStep list" where
  "ready_steps plan st = filter (\<lambda>s. if \<not> is_pending st s then False
     else if list_ex (\<lambda>d. d \<in> failed st) (step_deps s) then False
     else list_all (\<lambda>d. d \<in> completed st) (step_deps s)) (steps plan)"

definition blocked_steps :: "OrchestrationPlan \<Rightarrow> 'o exec_state \<Rightarrow> OrchestrationStep list" where
  "blocked_steps plan st = filter (\<lambda>s. if \<not> is_pending st s then False
     else list_ex (\<lambda>d. d \<in> failed st) (step_deps s)) (steps plan)"

definition fail_step :: "ExecError \<Rightarrow> string \<Rightarrow> 'o exec_state \<Rightarrow> 'o exec_state" where
  "fail_step e a st = st\<lparr>results := map_set a
       \<lparr>srAgent = a, srState = Failed, srOutput = None, srError = Some e\<rparr> (results st),
     failed := insert a (failed st)\<rparr>"

definition complete_step :: "'o \<Rightarrow> string \<Rightarrow> 'o exec_state \<Rightarrow> 'o exec_state" where
  "complete_step v a st = st\<lparr>results := map_set a
       \<lparr>srAgent = a, srState = Completed, srOutput = Some v, srError = None\<rparr> (results st),
     completed := insert a (completed st)\<rparr>"

definition mark_running :: "string \<Rightarrow> 'o exec_state \<Rightarrow> 'o exec_state" where
  "mark_running a st = st\<lparr>results := map_set a
       \<lparr>srAgent = a, srState = Running, srOutput = None, srError = None\<rparr> (results st)\<rparr>"

definition output_of :: "'o exec_state \<Rightarrow> string \<Rightarrow> 'o option" where
  "output_of st d = (case map_of (results st) d of None \<Rightarrow> None | Some r \<Rightarrow> srOutput r)"

definition gather_input :: "'o exec_state \<Rightarrow> string list \<Rightarrow> 'o TaskInput" where
  "gather_input st deps =
     (if length deps = 1 then OneInput (output_of st (hd deps))
      else if length deps > 1
      then ManyInputs (fold (\<lambda>d m. map_set d (output_of st d) m) deps []) else NoInput)"

definition pattern_name :: "OrchestrationPattern \<Rightarrow> string" where
  "pattern_name p = (case p of SequentialP \<Rightarrow> ''sequential'' | ParallelP \<Rightarrow> ''parallel''
     | HybridP \<Rightarrow> ''hybrid'' | HierarchicalP \<Rightarrow> ''hierarchical'' | SwarmP \<Rightarrow> ''swarm'')"

definition step_resource :: "OrchestrationPlan \<Rightarrow> string \<Rightarrow> string" where
  "step_resource plan a = ''plan/'' @ pattern_name (pattern plan) @ ''/'' @ a"

definition add_audit :: "'o ExecutionOptions \<Rightarrow> AuditRecord \<Rightarrow> 'o exec_state \<Rightarrow> 'o exec_state" where
  "add_audit opts r st = (if auditing opts then st\<lparr>audit := audit st @ [r]\<rparr> else st)"

text \<open>What a started step will do: fail at once, or call the task with an input.\<close>

datatype 'o started = StartFailed | StartTask AgentRole "'o TaskInput"

definition start_step :: "'o ExecutionOptions \<Rightarrow> OrchestrationPlan \<Rightarrow> OrchestrationStep \<Rightarrow>
    'o exec_state \<Rightarrow> 'o started \<times> 'o exec_state" where
  "start_step opts plan s st =
     (case map_of (agentMap opts) (agent s) of
        None \<Rightarrow> (StartFailed, fail_step (AgentNotFound (agent s)) (agent s) st)
      | Some ar \<Rightarrow>
          (let input = gather_input st (step_deps s) in
           case authorize opts of
             None \<Rightarrow> (StartTask ar input, st)
           | Some auth \<Rightarrow>
               (let v = auth \<lparr>acAgent = agent s, acAction = ''execute'',
                             acTarget = step_resource plan (agent s)\<rparr>
                in if allowed v then (StartTask ar input, st)
                   else (StartFailed, add_audit opts \<lparr>arActor = agent s,
                          arResource = step_resource plan (agent s), arAllowed = False,
                          arReason = Some (reason v)\<rparr>
                        (fail_step (AuthorizationDenied (reason v)) (agent s) st)))))"

fun start_steps :: "'o ExecutionOptions \<Rightarrow> OrchestrationPlan \<Rightarrow> OrchestrationStep list \<Rightarrow>
    'o exec_state \<Rightarrow> (OrchestrationStep \<times> 'o started) list \<times> 'o exec_state" where
  "start_steps opts plan [] st = ([], st)"
| "start_steps opts plan (s # ss) st =
     (let r = start_step opts plan s st; rs = start_steps opts plan ss (snd r)
      in ((s, fst r) # fst rs, snd rs))"

definition finish_step :: "'o ExecutionOptions \<Rightarrow> OrchestrationPlan \<Rightarrow>
    (OrchestrationStep \<times> 'o started) list \<Rightarrow> OrchestrationStep \<Rightarrow> 'o exec_state \<Rightarrow> 'o exec_state" where
  "finish_step opts plan started s st =
     (case map_of started s of
        Some (StartTask ar input) \<Rightarrow>
          (case taskFn opts ar input of
             Inr v \<Rightarrow> add_audit opts \<lparr>arActor = agent s, arResource = step_resource plan (agent s),
                 arAllowed = True, arReason = None\<rparr> (complete_step v (agent s) st)
           | Inl err \<Rightarrow> fail_step (TaskThrew err) (agent s) st)
      | _ \<Rightarrow> st)"

definition run_ready :: "'o ExecutionOptions \<Rightarrow> OrchestrationPlan \<Rightarrow> OrchestrationStep list \<Rightarrow>
    'o exec_state \<Rightarrow> 'o exec_state" where
  "run_ready opts plan ready st =
     (let st1 = fold (\<lambda>s. mark_running (agent s)) ready st;
          r = start_steps opts plan ready st1
      in fold (finish_step opts plan (fst r)) (sched opts ready) (snd r))"

text \<open>The bound is the number of rounds; each round takes at least one step out of the pending ones.\<close>

fun exec_loop :: "nat \<Rightarrow> 'o ExecutionOptions \<Rightarrow> OrchestrationPlan \<Rightarrow> 'o exec_state \<Rightarrow> 'o exec_state option" where
  "exec_loop fuel opts plan st =
     (if \<not> card (completed st) + card (failed st) < length (steps plan) then Some st
      else (let ready = ready_steps plan st; blocked = blocked_steps plan st;
                st1 = fold (\<lambda>s. fail_step DependencyFailed (agent s)) blocked st in
        if ready = [] \<and> blocked = [] then Some st1
        else case fuel of
            0 \<Rightarrow> None
          | Suc f \<Rightarrow> if ready = [] then exec_loop f opts plan st1
                     else exec_loop f opts plan (run_ready opts plan ready st1)))"

declare exec_loop.simps [simp del]

record 'o OrchestrationResult =
  stepResults :: "'o StepResult list"
  success :: bool
  auditTrail :: "AuditRecord list"

definition executeOrchestration ::
  "'o ExecutionOptions \<Rightarrow> OrchestrationPlan \<Rightarrow> 'o OrchestrationResult option" where
  "executeOrchestration opts plan =
     map_option (\<lambda>st. \<lparr>stepResults = List.map_filter (\<lambda>s. map_of (results st) (agent s)) (steps plan),
                      success = (failed st = {}), auditTrail = audit st\<rparr>)
       (exec_loop (length (steps plan)) opts plan
         \<lparr>results = init_results (steps plan), completed = {}, failed = {}, audit = []\<rparr>)"

section \<open>Handoff validation\<close>

text \<open>JSON values and the part of a JSON schema the structural validator reads.\<close>

datatype json = JNull | JBool bool | JNum int | JFrac | JStr string | JArr "json list"
  | JObj "(string \<times> json) list"

datatype schema = Schema (schType: "string option") (schRequired: "string list option")
  (schProps: "(string \<times> schema) list option")

definition json_type :: "json \<Rightarrow> string" where
  "json_type v = (case v of JNull \<Rightarrow> ''object'' | JBool _ \<Rightarrow> ''boolean'' | JNum _ \<Rightarrow> ''number''
     | JFrac \<Rightarrow> ''number'' | JStr _ \<Rightarrow> ''string'' | JArr _ \<Rightarrow> ''array'' | JObj _ \<Rightarrow> ''object'')"

definition is_integer :: "json \<Rightarrow> bool" where
  "is_integer v = (case v of JNum _ \<Rightarrow> True | _ \<Rightarrow> False)"

definition root_path :: "string \<Rightarrow> string" where
  "root_path p = (if p = [] then ''/'' else p)"

definition type_errors :: "string option \<Rightarrow> json \<Rightarrow> string \<Rightarrow> (string \<times> string) list" where
  "type_errors ty v path = (case ty of
     None \<Rightarrow> []
   | Some t \<Rightarrow>
       if t = [] then []
       else if t = ''integer'' then
         (if \<not> is_integer v then [(root_path path, ''Expected integer, got '' @ json_type v)] else [])
       else if json_type v \<noteq> t
       then [(root_path path, ''Expected '' @ t @ '', got '' @ json_type v)] else [])"

definition quoted :: "string \<Rightarrow> string" where
  "quoted s = CHR 0x22 # s @ [CHR 0x22]"

fun simpleSchemaValidate :: "schema \<Rightarrow> json \<Rightarrow> string \<Rightarrow> (string \<times> string) list" where
  "simpleSchemaValidate (Schema ty req props) v path =
     (if v = JNull then [(root_path path, ''Value is null or undefined'')]
      else type_errors ty v path
        @ (case (req, v) of
             (Some fs, JObj kvs) \<Rightarrow> map (\<lambda>f. (path @ ''/'' @ f, ''Missing required field '' @ quoted f))
                 (filter (\<lambda>f. map_of kvs f = None) fs)
           | _ \<Rightarrow> [])
        @ (case props of
             None \<Rightarrow> []
           | Some ps \<Rightarrow> (case v of
               JObj kvs \<Rightarrow> concat (map (\<lambda>(k, s). case map_of kvs k of
                   None \<Rightarrow> [] | Some w \<Rightarrow> simpleSchemaValidate s w (path @ ''/'' @ k)) ps)
             | _ \<Rightarrow> [])))"

datatype HandoffError =
    NoDeclaration string string
  | MissingFields "string list"
  | SchemaFailed "(string \<times> string) list"

definition validateHandoffContract ::
  "Handoff \<Rightarrow> json \<Rightarrow> (string \<Rightarrow> schema option) option \<Rightarrow> HandoffError option" where
  "validateHandoffContract h payload resolver =
     (case (contract h, resolver) of
        (Some c, Some res) \<Rightarrow> (case schemaRef c of
            None \<Rightarrow> None
          | Some ref \<Rightarrow> if ref = [] then None else (case res ref of
              None \<Rightarrow> None
            | Some sch \<Rightarrow> (let errs = simpleSchemaValidate sch payload []
                in if errs \<noteq> [] then Some (SchemaFailed errs) else None)))
      | _ \<Rightarrow> None)"

definition payload_has :: "json \<Rightarrow> string \<Rightarrow> bool" where
  "payload_has v f = (case v of JObj kvs \<Rightarrow> map_of kvs f \<noteq> None | _ \<Rightarrow> False)"

definition validateHandoff :: "AgentRole \<Rightarrow> AgentRole \<Rightarrow> json \<Rightarrow>
    (string \<Rightarrow> schema option) option \<Rightarrow> HandoffError option" where
  "validateHandoff src dst payload resolver =
     (case find (\<lambda>h. target h = agentName dst) (handoffs src) of
        None \<Rightarrow> Some (NoDeclaration (agentName src) (agentName dst))
      | Some h \<Rightarrow>
          (let missing = (case contract h of
               Some c \<Rightarrow> (case requiredFields c of
                   Some fs \<Rightarrow> filter (\<lambda>f. \<not> payload_has payload f) fs | None \<Rightarrow> [])
             | None \<Rightarrow> [])
           in if missing \<noteq> [] then Some (MissingFields missing)
              else validateHandoffContract h payload resolver))"

end
