(* ===== verification/OrchestrationFacts.thy ===== *)
theory OrchestrationFacts
  imports Orchestration
begin

text \<open>
  What one round of the execution loop does, independently of the completion order, and the
  invariant of the loop.
\<close>

section \<open>One round\<close>

definition step_outcome :: "'o ExecutionOptions \<Rightarrow> OrchestrationPlan \<Rightarrow> 'o exec_state \<Rightarrow>
    OrchestrationStep \<Rightarrow> ExecError + 'o" where
  "step_outcome opts plan st s =
     (case map_of (agentMap opts) (agent s) of
        None \<Rightarrow> Inl (AgentNotFound (agent s))
      | Some ar \<Rightarrow>
          (case (case authorize opts of None \<Rightarrow> None
             | Some auth \<Rightarrow> (let v = auth \<lparr>acAgent = agent s, acAction = ''execute'',
                   acTarget = step_resource plan (agent s)\<rparr>
                 in if allowed v then None else Some (reason v))) of
             Some why \<Rightarrow> Inl (AuthorizationDenied why)
           | None \<Rightarrow> (case taskFn opts ar (gather_input st (step_deps s)) of
               Inl e \<Rightarrow> Inl (TaskThrew e) | Inr v \<Rightarrow> Inr v)))"

definition outcome_result :: "string \<Rightarrow> ExecError + 'o \<Rightarrow> 'o StepResult" where
  "outcome_result a x = (case x of
     Inl e \<Rightarrow> \<lparr>srAgent = a, srState = Failed, srOutput = None, srError = Some e\<rparr>
   | Inr v \<Rightarrow> \<lparr>srAgent = a, srState = Completed, srOutput = Some v, srError = None\<rparr>)"

definition settle :: "string \<Rightarrow> ExecError + 'o \<Rightarrow> 'o exec_state \<Rightarrow> 'o exec_state" where
  "settle a x st = (case x of Inl e \<Rightarrow> fail_step e a st | Inr v \<Rightarrow> complete_step v a st)"

text \<open>What the loop reads of a state: everything but the audit records.\<close>

type_synonym 'o view = "(string \<rightharpoonup> 'o StepResult) \<times> string set \<times> string set"

definition view :: "'o exec_state \<Rightarrow> 'o view" where
  "view st = (map_of (results st), completed st, failed st)"

lemma view_eq: "view st = view st' \<longleftrightarrow> map_of (results st) = map_of (results st')
    \<and> completed st = completed st' \<and> failed st = failed st'"
  by (auto simp: view_def)

lemma add_audit_simps [simp]:
  "results (add_audit opts r st) = results st" "completed (add_audit opts r st) = completed st"
  "failed (add_audit opts r st) = failed st"
  by (simp_all add: add_audit_def)

lemma settle_results: "map_of (results (settle a x st)) = (map_of (results st))(a \<mapsto> outcome_result a x)"
  by (cases x) (simp_all add: settle_def fail_step_def complete_step_def outcome_result_def)

lemma settle_sets: "completed (settle a x st) = (if isl x then completed st else insert a (completed st))"
  "failed (settle a x st) = (if isl x then insert a (failed st) else failed st)"
  by (cases x; simp add: settle_def fail_step_def complete_step_def)+

definition settled_by :: "(OrchestrationStep \<Rightarrow> ExecError + 'o) \<Rightarrow> OrchestrationStep list \<Rightarrow>
    'o exec_state \<Rightarrow> 'o exec_state \<Rightarrow> bool" where
  "settled_by f ss st st' \<longleftrightarrow>
     (\<forall>a. map_of (results st') a = (case find (\<lambda>s. agent s = a) ss of
        None \<Rightarrow> map_of (results st) a | Some s \<Rightarrow> Some (outcome_result a (f s))))
     \<and> completed st' = completed st \<union> agent ` {s \<in> set ss. \<not> isl (f s)}
     \<and> failed st' = failed st \<union> agent ` {s \<in> set ss. isl (f s)}"

lemma find_agent: "distinct (map agent ss) \<Longrightarrow> s \<in> set ss \<Longrightarrow> find (\<lambda>x. agent x = agent s) ss = Some s"
  by (induction ss) auto

lemma find_agent_None: "find (\<lambda>x. agent x = a) ss = None \<longleftrightarrow> a \<notin> agent ` set ss"
  by (auto simp: find_None_iff)

lemma find_agent_perm:
  assumes "distinct (map agent ss)" and "mset ts = mset ss"
  shows "find (\<lambda>s. agent s = a) ts = find (\<lambda>s. agent s = a) ss"
proof -
  have same: "set ts = set ss" "distinct (map agent ts)"
    using assms by (metis mset_eq_setD, metis mset_map mset_eq_imp_distinct_iff)
  show ?thesis
  proof (cases "find (\<lambda>s. agent s = a) ss")
    case None
    then show ?thesis using same(1) by (metis find_agent_None)
  next
    case (Some s)
    then have "s \<in> set ss" "agent s = a" by (auto simp: find_Some_iff)
    with find_agent [OF same(2), of s] same(1) Some show ?thesis by simp
  qed
qed

lemma fold_settle:
  assumes "distinct (map agent ss)"
  shows "settled_by f ss st (fold (\<lambda>s. settle (agent s) (f s)) ss st)"
  using assms
proof (induction ss arbitrary: st)
  case (Cons s ss)
  let ?st = "settle (agent s) (f s) st"
  from Cons have IH: "settled_by f ss ?st (fold (\<lambda>s. settle (agent s) (f s)) ss ?st)" by simp
  have "find (\<lambda>x. agent x = agent s) ss = None"
    using Cons.prems by (simp add: find_agent_None)
  with IH show ?case
    unfolding settled_by_def
    by (auto simp: settle_results settle_sets outcome_result_def split: option.splits)
qed (simp add: settled_by_def)

lemma settled_by_view:
  "settled_by f ss st st' \<Longrightarrow> view st' = (\<lambda>a. case find (\<lambda>s. agent s = a) ss of
      None \<Rightarrow> map_of (results st) a | Some s \<Rightarrow> Some (outcome_result a (f s)),
     completed st \<union> agent ` {s \<in> set ss. \<not> isl (f s)}, failed st \<union> agent ` {s \<in> set ss. isl (f s)})"
  by (auto simp: settled_by_def view_def)

lemma settled_by_compose:
  assumes "settled_by f xs s0 s1" and "settled_by f ys s1 s2" and "set zs = set xs \<union> set ys"
    and "distinct (map agent zs)"
  shows "settled_by f zs s0 s2"
proof -
  have inj: "s = t" if "s \<in> set zs" "t \<in> set zs" "agent s = agent t" for s t
    using assms(4) that by (simp add: distinct_map inj_on_def)
  have pick: "find (\<lambda>s. agent s = a) ws = (if \<exists>s \<in> set ws. agent s = a then
      Some (THE s. s \<in> set zs \<and> agent s = a) else None)" if "set ws \<subseteq> set zs" for ws a
  proof (cases "find (\<lambda>s. agent s = a) ws")
    case None
    then show ?thesis by (auto simp: find_None_iff)
  next
    case (Some s)
    then have s: "s \<in> set ws" "agent s = a" by (auto simp: find_Some_iff)
    then have "(THE s. s \<in> set zs \<and> agent s = a) = s"
      using that inj by (intro the_equality) auto
    with s Some show ?thesis by auto
  qed
  have sub: "set xs \<subseteq> set zs" "set ys \<subseteq> set zs" "set zs \<subseteq> set zs" using assms(3) by auto
  show ?thesis
    using assms(1,2)
    unfolding settled_by_def pick [OF sub(1)] pick [OF sub(2)] pick [OF sub(3)]
    by (auto simp: assms(3))
qed

lemma settled_by_start:
  assumes "settled_by f zs s1 s2" and "completed s1 = completed s0" and "failed s1 = failed s0"
    and "\<forall>a. a \<notin> agent ` set zs \<longrightarrow> map_of (results s1) a = map_of (results s0) a"
  shows "settled_by f zs s0 s2"
  using assms unfolding settled_by_def by (auto simp: find_agent_None [symmetric] split: option.splits)

lemma view_settle: "view st = view st' \<Longrightarrow> view (settle a x st) = view (settle a x st')"
  by (simp add: view_eq settle_results settle_sets)

lemma view_fold_settle:
  "view st = view st' \<Longrightarrow> view (fold (\<lambda>s. settle (agent s) (f s)) ss st) = view (fold (\<lambda>s. settle (agent s) (f s)) ss st')"
proof (induction ss arbitrary: st st')
  case (Cons s ss)
  from Cons.IH [OF view_settle [OF Cons.prems]] show ?case by simp
qed simp

definition early :: "'o ExecutionOptions \<Rightarrow> OrchestrationPlan \<Rightarrow> OrchestrationStep \<Rightarrow> ExecError option" where
  "early opts plan s = (case map_of (agentMap opts) (agent s) of
     None \<Rightarrow> Some (AgentNotFound (agent s))
   | Some ar \<Rightarrow> (case authorize opts of None \<Rightarrow> None
       | Some auth \<Rightarrow> (let v = auth \<lparr>acAgent = agent s, acAction = ''execute'',
             acTarget = step_resource plan (agent s)\<rparr>
           in if allowed v then None else Some (AuthorizationDenied (reason v)))))"

lemma start_step_early:
  "early opts plan s = Some e \<Longrightarrow> fst (start_step opts plan s st) = StartFailed
     \<and> view (snd (start_step opts plan s st)) = view (settle (agent s) (step_outcome opts plan st0 s) st)
     \<and> isl (step_outcome opts plan st0 s)"
  by (auto simp: early_def start_step_def step_outcome_def Let_def settle_def view_eq split: option.splits if_splits)

lemma start_step_task:
  assumes "early opts plan s = None"
  obtains ar where "start_step opts plan s st = (StartTask ar (gather_input st (step_deps s)), st)"
    "step_outcome opts plan st0 s = (case taskFn opts ar (gather_input st0 (step_deps s)) of
       Inl e \<Rightarrow> Inl (TaskThrew e) | Inr v \<Rightarrow> Inr v)"
proof -
  obtain ar where ar: "map_of (agentMap opts) (agent s) = Some ar"
    using assms by (cases "map_of (agentMap opts) (agent s)") (simp_all add: early_def)
  have ok: "\<forall>auth. authorize opts = Some auth \<longrightarrow> allowed (auth \<lparr>acAgent = agent s,
      acAction = ''execute'', acTarget = step_resource plan (agent s)\<rparr>)"
    using assms ar by (simp add: early_def Let_def split: if_splits option.splits)
  show thesis
  proof (rule that)
    show "start_step opts plan s st = (StartTask ar (gather_input st (step_deps s)), st)"
      using ar ok by (cases "authorize opts") (simp_all add: start_step_def Let_def)
    show "step_outcome opts plan st0 s = (case taskFn opts ar (gather_input st0 (step_deps s)) of
       Inl e \<Rightarrow> Inl (TaskThrew e) | Inr v \<Rightarrow> Inr v)"
      using ar ok by (cases "authorize opts") (simp_all add: step_outcome_def Let_def)
  qed
qed

text \<open>Two states agree outside a set of agents.\<close>

definition agree :: "string set \<Rightarrow> 'o exec_state \<Rightarrow> 'o exec_state \<Rightarrow> bool" where
  "agree A st st' \<longleftrightarrow> (\<forall>a. a \<notin> A \<longrightarrow> map_of (results st) a = map_of (results st') a)"

lemma gather_agree: "agree A st st' \<Longrightarrow> set ds \<inter> A = {} \<Longrightarrow> gather_input st ds = gather_input st' ds"
proof -
  assume ag: "agree A st st'" and ds: "set ds \<inter> A = {}"
  have out: "output_of st d = output_of st' d" if "d \<in> set ds" for d
    using ag ds that by (auto simp: agree_def output_of_def)
  have "fold (\<lambda>d m. map_set d (output_of st d) m) ds [] = fold (\<lambda>d m. map_set d (output_of st' d) m) ds []"
    by (rule fold_cong) (use out in auto)
  moreover have "ds \<noteq> [] \<Longrightarrow> output_of st (hd ds) = output_of st' (hd ds)" using out by simp
  moreover have "length ds = 1 \<Longrightarrow> ds \<noteq> []" by auto
  ultimately show ?thesis unfolding gather_input_def by presburger
qed

lemma agree_settle: "agree A st0 st \<Longrightarrow> a \<in> A \<Longrightarrow> view st' = view (settle a x st) \<Longrightarrow> agree A st0 st'"
  by (auto simp: agree_def view_eq settle_results)

lemma start_steps_effect:
  assumes "\<forall>s \<in> set ss. set (step_deps s) \<inter> A = {} \<and> agent s \<in> A" and "agree A st0 st"
  shows "view (snd (start_steps opts plan ss st)) = view (fold (\<lambda>s. settle (agent s) (step_outcome opts plan st0 s))
      (filter (\<lambda>s. early opts plan s \<noteq> None) ss) st)"
    and "\<forall>s \<in> set ss. early opts plan s \<noteq> None \<longrightarrow> (s, StartFailed) \<in> set (fst (start_steps opts plan ss st))"
    and "\<forall>s \<in> set ss. early opts plan s = None \<longrightarrow> (\<exists>ar. (s, StartTask ar (gather_input st0 (step_deps s)))
        \<in> set (fst (start_steps opts plan ss st))
      \<and> step_outcome opts plan st0 s = (case taskFn opts ar (gather_input st0 (step_deps s)) of
          Inl e \<Rightarrow> Inl (TaskThrew e) | Inr v \<Rightarrow> Inr v))"
    and "map fst (fst (start_steps opts plan ss st)) = ss"
  using assms
proof (induction ss arbitrary: st)
  case (Cons s ss)
  {
    case 1
    show ?case
    proof (cases "early opts plan s")
      case None
      then obtain ar where "start_step opts plan s st = (StartTask ar (gather_input st (step_deps s)), st)"
        by (rule start_step_task)
      with 1 Cons.IH(1) [of st] None show ?thesis by (simp add: Let_def)
    next
      case (Some e)
      note eff = start_step_early [OF Some, of st st0]
      have "agree A st0 (snd (start_step opts plan s st))"
        using agree_settle 1 eff by auto
      with 1 Cons.IH(1) [of "snd (start_step opts plan s st)"] Some
        view_fold_settle [OF conjunct1 [OF conjunct2 [OF eff]], of "step_outcome opts plan st0"]
      show ?thesis by (simp add: Let_def)
    qed
  next
    case 2
    have "agree A st0 (snd (start_step opts plan s st))"
    proof (cases "early opts plan s")
      case None
      then obtain ar where "start_step opts plan s st = (StartTask ar (gather_input st (step_deps s)), st)"
        by (rule start_step_task)
      with 2 show ?thesis by simp
    next
      case (Some e)
      from start_step_early [OF Some, of st st0] agree_settle 2 show ?thesis by auto
    qed
    with 2 Cons.IH(2) [of "snd (start_step opts plan s st)"] start_step_early [of opts plan s _ st st0]
    show ?case by (auto simp: Let_def)
  next
    case 3
    have ag: "agree A st0 (snd (start_step opts plan s st))"
    proof (cases "early opts plan s")
      case None
      then obtain ar where "start_step opts plan s st = (StartTask ar (gather_input st (step_deps s)), st)"
        by (rule start_step_task)
      with 3 show ?thesis by simp
    next
      case (Some e)
      from start_step_early [OF Some, of st st0] agree_settle 3 show ?thesis by auto
    qed
    have "early opts plan s = None \<Longrightarrow> \<exists>ar. fst (start_step opts plan s st) = StartTask ar (gather_input st0 (step_deps s))
      \<and> step_outcome opts plan st0 s = (case taskFn opts ar (gather_input st0 (step_deps s)) of
          Inl e \<Rightarrow> Inl (TaskThrew e) | Inr v \<Rightarrow> Inr v)"
      using start_step_task [of opts plan s st st0] gather_agree [of A st0 st "step_deps s"] 3
      by (metis fst_conv list.set_intros(1))
    with ag 3 Cons.IH(3) [of "snd (start_step opts plan s st)"] show ?case
      by (fastforce simp: Let_def)
  next
    case 4
    show ?case
    proof (cases "early opts plan s")
      case None
      then obtain ar where "start_step opts plan s st = (StartTask ar (gather_input st (step_deps s)), st)"
        by (rule start_step_task)
      with 4 Cons.IH(4) [of st] show ?thesis by (simp add: Let_def)
    next
      case (Some e)
      from start_step_early [OF Some, of st st0] agree_settle 4
      have "agree A st0 (snd (start_step opts plan s st))" by auto
      with 4 Cons.IH(4) [of "snd (start_step opts plan s st)"] show ?thesis by (simp add: Let_def)
    qed
  }
qed simp_all

text \<open>Completing the started steps, in any order.\<close>

lemma finish_step_effect:
  assumes "map_of started s = Some (StartTask ar i)"
    and "x = (case taskFn opts ar i of Inl e \<Rightarrow> Inl (TaskThrew e) | Inr v \<Rightarrow> Inr v)"
  shows "view (finish_step opts plan started s st) = view (settle (agent s) x st)"
  using assms by (auto simp: finish_step_def settle_def view_eq split: sum.splits)

lemma finish_fold_effect:
  assumes "\<forall>s \<in> set ts. early opts plan s \<noteq> None \<longrightarrow> map_of started s = Some StartFailed"
    and "\<forall>s \<in> set ts. early opts plan s = None \<longrightarrow> (\<exists>ar i. map_of started s = Some (StartTask ar i)
      \<and> f s = (case taskFn opts ar i of Inl e \<Rightarrow> Inl (TaskThrew e) | Inr v \<Rightarrow> Inr v))"
  shows "view (fold (finish_step opts plan started) ts st)
    = view (fold (\<lambda>s. settle (agent s) (f s)) (filter (\<lambda>s. early opts plan s = None) ts) st)"
  using assms
proof (induction ts arbitrary: st)
  case (Cons s ts)
  show ?case
  proof (cases "early opts plan s")
    case None
    with Cons.prems(2) obtain ar i where
      "map_of started s = Some (StartTask ar i)"
      "f s = (case taskFn opts ar i of Inl e \<Rightarrow> Inl (TaskThrew e) | Inr v \<Rightarrow> Inr v)" by auto
    from finish_step_effect [OF this] have v: "view (finish_step opts plan started s st) = view (settle (agent s) (f s) st)" .
    from Cons have "view (fold (finish_step opts plan started) ts (finish_step opts plan started s st))
      = view (fold (\<lambda>s. settle (agent s) (f s)) (filter (\<lambda>s. early opts plan s = None) ts)
          (finish_step opts plan started s st))" by simp
    with view_fold_settle [OF v] None show ?thesis by simp
  next
    case (Some e)
    with Cons.prems(1) have "finish_step opts plan started s st = st" by (simp add: finish_step_def)
    with Cons Some show ?thesis by simp
  qed
qed simp

lemma mark_effect:
  "completed (fold (\<lambda>s. mark_running (agent s)) ss st) = completed st"
  "failed (fold (\<lambda>s. mark_running (agent s)) ss st) = failed st"
  "a \<notin> agent ` set ss \<Longrightarrow> map_of (results (fold (\<lambda>s. mark_running (agent s)) ss st)) a = map_of (results st) a"
  by (induction ss arbitrary: st) (auto simp: mark_running_def)

lemma settled_by_cong: "view s2 = view s2' \<Longrightarrow> settled_by f ss s1 s2 \<Longrightarrow> settled_by f ss s1 s2'"
  by (simp add: settled_by_def view_eq)

lemma run_ready_settles:
  assumes dist: "distinct (map agent ready)" and perm: "mset (sched opts ready) = mset ready"
    and deps: "\<forall>s \<in> set ready. set (step_deps s) \<inter> agent ` set ready = {}"
  shows "settled_by (step_outcome opts plan st) ready st (run_ready opts plan ready st)"
proof -
  let ?f = "step_outcome opts plan st" and ?A = "agent ` set ready"
  let ?E = "\<lambda>s. early opts plan s"
  define m where "m = fold (\<lambda>s. mark_running (agent s)) ready st"
  define started where "started = fst (start_steps opts plan ready m)"
  define s1 where "s1 = snd (start_steps opts plan ready m)"
  have ag: "agree ?A st m" unfolding agree_def m_def using mark_effect(3) by metis
  have pre: "\<forall>s \<in> set ready. set (step_deps s) \<inter> ?A = {} \<and> agent s \<in> ?A" using deps by blast
  note eff = start_steps_effect [OF pre ag, of opts plan, folded started_def s1_def]
  have keys: "distinct (map fst started)" unfolding eff(4) using dist by (simp add: distinct_map)
  have look: "map_of started s = Some x" if "(s, x) \<in> set started" for s x
    using that keys by simp
  have same: "set (sched opts ready) = set ready" using perm by (metis mset_eq_setD)
  have dist2: "distinct (map agent (sched opts ready))"
    using dist perm by (metis mset_map mset_eq_imp_distinct_iff)
  have fin: "view (fold (finish_step opts plan started) (sched opts ready) s1)
      = view (fold (\<lambda>s. settle (agent s) (?f s)) (filter (\<lambda>s. ?E s = None) (sched opts ready)) s1)"
    by (rule finish_fold_effect) (use eff(2,3) look same in blast)+
  have a: "settled_by ?f (filter (\<lambda>s. ?E s \<noteq> None) ready) m s1"
    by (rule settled_by_cong [OF eff(1) [symmetric]], rule fold_settle)
      (use dist in \<open>simp add: distinct_map_filter\<close>)
  have b: "settled_by ?f (filter (\<lambda>s. ?E s = None) (sched opts ready)) s1
      (fold (finish_step opts plan started) (sched opts ready) s1)"
    by (rule settled_by_cong [OF fin [symmetric]], rule fold_settle)
      (use dist2 in \<open>simp add: distinct_map_filter\<close>)
  have "settled_by ?f ready m (fold (finish_step opts plan started) (sched opts ready) s1)"
    by (rule settled_by_compose [OF a b _ dist]) (use same in auto)
  then have "settled_by ?f ready st (fold (finish_step opts plan started) (sched opts ready) s1)"
    by (rule settled_by_start) (simp_all add: m_def mark_effect)
  then show ?thesis by (simp add: run_ready_def Let_def m_def started_def s1_def)
qed

lemma settle_failed: "settle a (Inl e) = fail_step e a"
  by (intro ext) (simp add: settle_def)

lemma fail_all_settles:
  "distinct (map agent ss) \<Longrightarrow>
   settled_by (\<lambda>_. Inl DependencyFailed) ss st (fold (\<lambda>s. fail_step DependencyFailed (agent s)) ss st)"
  using fold_settle [of ss "\<lambda>_. Inl DependencyFailed" st] by (simp add: settle_failed)

section \<open>The loop\<close>

text \<open>Between rounds every step is pending, completed or failed, a completed step has its
  dependencies completed, and a failed one has a failed dependency or ran.\<close>

definition exec_inv :: "OrchestrationPlan \<Rightarrow> 'o exec_state \<Rightarrow> bool" where
  "exec_inv plan st \<longleftrightarrow>
     (\<forall>s \<in> set (steps plan). \<exists>r. map_of (results st) (agent s) = Some r
        \<and> srState r = (if agent s \<in> completed st then Completed
                       else if agent s \<in> failed st then Failed else Pending))
     \<and> completed st \<inter> failed st = {} \<and> completed st \<union> failed st \<subseteq> agent ` set (steps plan)
     \<and> (\<forall>s \<in> set (steps plan). agent s \<in> completed st \<longrightarrow> set (step_deps s) \<subseteq> completed st)
     \<and> (\<forall>s \<in> set (steps plan). agent s \<in> failed st \<longrightarrow>
          set (step_deps s) \<inter> failed st \<noteq> {} \<or> set (step_deps s) \<subseteq> completed st)"

lemma fold_init_results:
  "map_of (fold (\<lambda>s m. map_set (agent s)
     \<lparr>srAgent = agent s, srState = Pending, srOutput = None, srError = None\<rparr> m) ss m) a
   = (if a \<in> agent ` set ss
      then Some \<lparr>srAgent = a, srState = Pending, srOutput = None, srError = None\<rparr> else map_of m a)"
  by (induction ss arbitrary: m) auto

lemma init_results_of:
  "map_of (init_results ss) a = (if a \<in> agent ` set ss
     then Some \<lparr>srAgent = a, srState = Pending, srOutput = None, srError = None\<rparr> else None)"
  by (simp only: init_results_def fold_init_results map_of.simps)

lemma exec_inv_init:
  "exec_inv plan \<lparr>results = init_results (steps plan), completed = {}, failed = {}, audit = a\<rparr>"
  by (simp add: exec_inv_def init_results_of)

lemma exec_inv_result:
  assumes "exec_inv plan st" and "s \<in> set (steps plan)"
  obtains r where "map_of (results st) (agent s) = Some r"
    "srState r = (if agent s \<in> completed st then Completed
                  else if agent s \<in> failed st then Failed else Pending)"
  using assms unfolding exec_inv_def by metis

lemma is_pending_iff:
  assumes "exec_inv plan st" and "s \<in> set (steps plan)"
  shows "is_pending st s \<longleftrightarrow> agent s \<notin> completed st \<and> agent s \<notin> failed st"
  by (rule exec_inv_result [OF assms]) (simp add: is_pending_def)

text \<open>A round as a whole: the blocked steps fail, the ready ones are settled by their outcomes.\<close>

definition round :: "'o ExecutionOptions \<Rightarrow> OrchestrationPlan \<Rightarrow> 'o exec_state \<Rightarrow> 'o exec_state" where
  "round opts plan st =
     (let st1 = fold (\<lambda>s. fail_step DependencyFailed (agent s)) (blocked_steps plan st) st
      in if ready_steps plan st = [] then st1 else run_ready opts plan (ready_steps plan st) st1)"

lemma exec_loop_round:
  "exec_loop fuel opts plan st =
     (if \<not> card (completed st) + card (failed st) < length (steps plan) then Some st
      else if ready_steps plan st = [] \<and> blocked_steps plan st = [] then Some st
      else case fuel of 0 \<Rightarrow> None | Suc f \<Rightarrow> exec_loop f opts plan (round opts plan st))"
  by (subst exec_loop.simps) (simp add: round_def Let_def split: nat.split)

lemma round_settles:
  assumes dist: "distinct (map agent (steps plan))" and perm: "\<And>ss. mset (sched opts ss) = mset ss"
    and inv: "exec_inv plan st"
  defines "st1 \<equiv> fold (\<lambda>s. fail_step DependencyFailed (agent s)) (blocked_steps plan st) st"
  shows "settled_by (\<lambda>_. Inl DependencyFailed) (blocked_steps plan st) st st1"
    and "settled_by (step_outcome opts plan st1) (ready_steps plan st) st1 (round opts plan st)"
proof -
  have d: "distinct (map agent (blocked_steps plan st))" "distinct (map agent (ready_steps plan st))"
    using dist by (simp_all add: blocked_steps_def ready_steps_def distinct_map_filter)
  show "settled_by (\<lambda>_. Inl DependencyFailed) (blocked_steps plan st) st st1"
    unfolding st1_def by (rule fail_all_settles [OF d(1)])
  have "set (step_deps s) \<inter> agent ` set (ready_steps plan st) = {}" if "s \<in> set (ready_steps plan st)" for s
  proof -
    have "set (step_deps s) \<subseteq> completed st"
      using that by (auto simp: ready_steps_def list_all_iff split: if_splits)
    moreover have "agent t \<notin> completed st" if "t \<in> set (ready_steps plan st)" for t
      using that is_pending_iff [OF inv, of t] by (auto simp: ready_steps_def split: if_splits)
    ultimately show ?thesis by blast
  qed
  then have "settled_by (step_outcome opts plan st1) (ready_steps plan st) st1
      (run_ready opts plan (ready_steps plan st) st1)"
    by (intro run_ready_settles d(2) perm) blast
  moreover have "ready_steps plan st = [] \<Longrightarrow> settled_by (step_outcome opts plan st1) [] st1 st1"
    by (simp add: settled_by_def)
  ultimately show "settled_by (step_outcome opts plan st1) (ready_steps plan st) st1 (round opts plan st)"
    by (auto simp: round_def st1_def Let_def)
qed

text \<open>The whole round settles the blocked and the ready steps, each by an outcome that depends only
  on the state before the round.\<close>

definition round_outcome :: "'o ExecutionOptions \<Rightarrow> OrchestrationPlan \<Rightarrow> 'o exec_state \<Rightarrow>
    OrchestrationStep \<Rightarrow> ExecError + 'o" where
  "round_outcome opts plan st s =
     (if s \<in> set (blocked_steps plan st) then Inl DependencyFailed else step_outcome opts plan st s)"

lemma settled_by_fcong:
  assumes "\<And>s. s \<in> set ss \<Longrightarrow> f s = g s" and "settled_by f ss st st'"
  shows "settled_by g ss st st'"
proof -
  have found: "find P ss = Some s \<Longrightarrow> s \<in> set ss" for P s by (auto simp: find_Some_iff)
  have "(case find P ss of None \<Rightarrow> x | Some s \<Rightarrow> Some (outcome_result a (f s)))
      = (case find P ss of None \<Rightarrow> x | Some s \<Rightarrow> Some (outcome_result a (g s)))" for P x a
    using found assms(1) by (auto split: option.split)
  moreover have "{s \<in> set ss. isl (f s)} = {s \<in> set ss. isl (g s)}"
    "{s \<in> set ss. \<not> isl (f s)} = {s \<in> set ss. \<not> isl (g s)}"
    using assms(1) by auto
  ultimately show ?thesis using assms(2) by (simp add: settled_by_def)
qed

lemma ready_steps_iff:
  "s \<in> set (ready_steps plan st) \<longleftrightarrow> s \<in> set (steps plan) \<and> is_pending st s
     \<and> set (step_deps s) \<inter> failed st = {} \<and> set (step_deps s) \<subseteq> completed st"
  by (auto simp: ready_steps_def list_ex_iff list_all_iff)

lemma blocked_steps_iff:
  "s \<in> set (blocked_steps plan st) \<longleftrightarrow> s \<in> set (steps plan) \<and> is_pending st s
     \<and> set (step_deps s) \<inter> failed st \<noteq> {}"
  by (auto simp: blocked_steps_def list_ex_iff)

lemma step_outcome_agree:
  assumes "agree A st st'" and "set (step_deps s) \<inter> A = {}"
  shows "step_outcome opts plan st s = step_outcome opts plan st' s"
  unfolding step_outcome_def gather_agree [OF assms] ..

lemma round_distinct:
  assumes "distinct (map agent (steps plan))"
  shows "distinct (map agent (blocked_steps plan st @ ready_steps plan st))"
proof -
  have inj: "inj_on agent (set (steps plan))" and d: "distinct (steps plan)"
    using assms by (simp_all add: distinct_map)
  have "set (blocked_steps plan st @ ready_steps plan st) \<subseteq> set (steps plan)"
    by (auto simp: ready_steps_iff blocked_steps_iff)
  moreover have "distinct (blocked_steps plan st)" "distinct (ready_steps plan st)"
    using d by (simp_all add: blocked_steps_def ready_steps_def)
  moreover have "set (blocked_steps plan st) \<inter> set (ready_steps plan st) = {}"
    by (auto simp: ready_steps_iff blocked_steps_iff)
  ultimately show ?thesis
    unfolding distinct_map using inj_on_subset [OF inj] by (simp add: distinct_append)
qed

lemma round_settled:
  assumes dist: "distinct (map agent (steps plan))" and perm: "\<And>ss. mset (sched opts ss) = mset ss"
    and inv: "exec_inv plan st"
  shows "settled_by (round_outcome opts plan st) (blocked_steps plan st @ ready_steps plan st) st
      (round opts plan st)"
proof -
  let ?st1 = "fold (\<lambda>s. fail_step DependencyFailed (agent s)) (blocked_steps plan st) st"
  note settles = round_settles [OF dist perm inv]
  have ag: "agree (agent ` set (blocked_steps plan st)) st ?st1"
    using settles(1) unfolding settled_by_def agree_def by (simp add: find_agent_None [symmetric])
  have disj: "set (blocked_steps plan st) \<inter> set (ready_steps plan st) = {}"
    by (auto simp: ready_steps_iff blocked_steps_iff)
  have same: "step_outcome opts plan ?st1 s = round_outcome opts plan st s"
    if s: "s \<in> set (ready_steps plan st)" for s
  proof -
    have "set (step_deps s) \<subseteq> completed st" using s by (simp add: ready_steps_iff)
    moreover have "agent t \<notin> completed st" if "t \<in> set (blocked_steps plan st)" for t
      using that is_pending_iff [OF inv, of t] by (simp add: blocked_steps_iff)
    ultimately have "set (step_deps s) \<inter> agent ` set (blocked_steps plan st) = {}" by blast
    from step_outcome_agree [OF ag this] show ?thesis using disj s by (auto simp: round_outcome_def)
  qed
  have a: "settled_by (round_outcome opts plan st) (blocked_steps plan st) st ?st1"
    by (rule settled_by_fcong [OF _ settles(1)]) (simp add: round_outcome_def)
  have b: "settled_by (round_outcome opts plan st) (ready_steps plan st) ?st1 (round opts plan st)"
    by (rule settled_by_fcong [OF same settles(2)])
  show ?thesis by (rule settled_by_compose [OF a b _ round_distinct [OF dist]]) simp
qed

lemma round_sets:
  assumes "settled_by f zs st st'"
  shows "a \<in> completed st' \<longleftrightarrow> a \<in> completed st \<or> (\<exists>s \<in> set zs. agent s = a \<and> \<not> isl (f s))"
    and "a \<in> failed st' \<longleftrightarrow> a \<in> failed st \<or> (\<exists>s \<in> set zs. agent s = a \<and> isl (f s))"
  using assms by (auto simp: settled_by_def)

lemma settled_result:
  assumes "settled_by f zs st st'"
  shows "a \<notin> agent ` set zs \<Longrightarrow> map_of (results st') a = map_of (results st) a"
    and "distinct (map agent zs) \<Longrightarrow> s \<in> set zs \<Longrightarrow>
      map_of (results st') (agent s) = Some (outcome_result (agent s) (f s))"
  using assms by (auto simp: settled_by_def find_agent_None [symmetric] find_agent)

lemma outcome_state: "srState (outcome_result a x) = (if isl x then Failed else Completed)"
  by (cases x) (simp_all add: outcome_result_def)

section \<open>The invariant is kept and the loop ends\<close>

lemma round_member:
  assumes dist: "distinct (map agent (steps plan))" and s: "s \<in> set (steps plan)"
  shows "agent s \<in> agent ` set (blocked_steps plan st @ ready_steps plan st)
    \<longleftrightarrow> s \<in> set (blocked_steps plan st @ ready_steps plan st)"
proof -
  have "t \<in> set (blocked_steps plan st @ ready_steps plan st) \<Longrightarrow> agent t = agent s \<Longrightarrow> t = s" for t
    using dist s by (auto simp: distinct_map ready_steps_iff blocked_steps_iff dest: inj_onD)
  then show ?thesis by (fastforce simp only: image_iff)
qed

lemma round_sets_at:
  assumes dist: "distinct (map agent (steps plan))" and s: "s \<in> set (steps plan)"
    and set: "settled_by f (blocked_steps plan st @ ready_steps plan st) st st'"
  shows "agent s \<in> completed st' \<longleftrightarrow> agent s \<in> completed st
      \<or> s \<in> set (blocked_steps plan st @ ready_steps plan st) \<and> \<not> isl (f s)"
    and "agent s \<in> failed st' \<longleftrightarrow> agent s \<in> failed st
      \<or> s \<in> set (blocked_steps plan st @ ready_steps plan st) \<and> isl (f s)"
proof -
  have inj: "t \<in> set (blocked_steps plan st @ ready_steps plan st) \<Longrightarrow> agent t = agent s \<Longrightarrow> t = s" for t
    using dist s by (auto simp: distinct_map ready_steps_iff blocked_steps_iff dest: inj_onD)
  show "agent s \<in> completed st' \<longleftrightarrow> agent s \<in> completed st
      \<or> s \<in> set (blocked_steps plan st @ ready_steps plan st) \<and> \<not> isl (f s)"
    "agent s \<in> failed st' \<longleftrightarrow> agent s \<in> failed st
      \<or> s \<in> set (blocked_steps plan st @ ready_steps plan st) \<and> isl (f s)"
    unfolding round_sets [OF set] using inj by blast+
qed

lemma round_inv:
  assumes dist: "distinct (map agent (steps plan))" and perm: "\<And>ss. mset (sched opts ss) = mset ss"
    and inv: "exec_inv plan st"
  shows "exec_inv plan (round opts plan st)"
proof -
  let ?zs = "blocked_steps plan st @ ready_steps plan st" and ?f = "round_outcome opts plan st"
  note set = round_settled [OF dist perm inv]
  note at = round_sets_at [OF dist _ set]
  have pend: "agent s \<notin> completed st \<and> agent s \<notin> failed st" if "s \<in> set ?zs" for s
    using that is_pending_iff [OF inv] by (auto simp: ready_steps_iff blocked_steps_iff)
  have sub: "set ?zs \<subseteq> set (steps plan)" by (auto simp: ready_steps_iff blocked_steps_iff)
  have deps: "set (step_deps s) \<subseteq> completed st" if "s \<in> set ?zs" "\<not> isl (?f s)" for s
    using that by (auto simp: round_outcome_def ready_steps_iff split: if_splits)
  have grow: "completed st \<subseteq> completed (round opts plan st)" "failed st \<subseteq> failed (round opts plan st)"
    using set by (auto simp: settled_by_def)
  have 1: "\<exists>r. map_of (results (round opts plan st)) (agent s) = Some r
        \<and> srState r = (if agent s \<in> completed (round opts plan st) then Completed
                       else if agent s \<in> failed (round opts plan st) then Failed else Pending)"
    if s: "s \<in> set (steps plan)" for s
  proof (cases "s \<in> set ?zs")
    case True
    from settled_result(2) [OF set round_distinct [OF dist] True] pend [OF True] True at [OF s] show ?thesis
      by (simp add: outcome_state)
  next
    case False
    with round_member [OF dist s]
    have "map_of (results (round opts plan st)) (agent s) = map_of (results st) (agent s)"
      using settled_result(1) [OF set] by blast
    with exec_inv_result [OF inv s] False at [OF s] show ?thesis by metis
  qed
  have sub': "completed (round opts plan st) \<union> failed (round opts plan st) \<subseteq> agent ` set (steps plan)"
  proof -
    have img: "agent ` {s \<in> set ?zs. Q s} \<subseteq> agent ` set (steps plan)" for Q using sub by auto
    have old: "completed st \<subseteq> agent ` set (steps plan)" "failed st \<subseteq> agent ` set (steps plan)"
      using inv by (simp_all add: exec_inv_def)
    have new: "completed (round opts plan st) = completed st \<union> agent ` {s \<in> set ?zs. \<not> isl (?f s)}"
      "failed (round opts plan st) = failed st \<union> agent ` {s \<in> set ?zs. isl (?f s)}"
      using set by (simp_all only: settled_by_def)
    show ?thesis unfolding new using img old by (intro Un_least)
  qed
  have both: "\<not> (agent s \<in> completed (round opts plan st) \<and> agent s \<in> failed (round opts plan st))"
    if s: "s \<in> set (steps plan)" for s
    using at [OF s] pend [of s] inv unfolding exec_inv_def by blast
  have 2: "completed (round opts plan st) \<inter> failed (round opts plan st) = {}"
    using both sub' by blast
  have 3: "set (step_deps s) \<subseteq> completed (round opts plan st)"
    if s: "s \<in> set (steps plan)" "agent s \<in> completed (round opts plan st)" for s
    using at(1) [OF s(1)] s deps [of s] inv grow unfolding exec_inv_def by blast
  have 4: "set (step_deps s) \<inter> failed (round opts plan st) \<noteq> {}
      \<or> set (step_deps s) \<subseteq> completed (round opts plan st)"
    if s: "s \<in> set (steps plan)" "agent s \<in> failed (round opts plan st)" for s
  proof (cases "agent s \<in> failed st")
    case True
    with inv s(1) grow show ?thesis unfolding exec_inv_def by blast
  next
    case False
    with at(2) [OF s(1)] s(2) have "s \<in> set ?zs" by blast
    with grow show ?thesis by (auto simp: ready_steps_iff blocked_steps_iff)
  qed
  show ?thesis unfolding exec_inv_def using 1 2 3 4 sub' by blast
qed

end
