(* ===== verification/OrchestrationLoop.thy ===== *)
theory OrchestrationLoop
  imports OrchestrationFacts
begin

text \<open>
  The execution loop as a whole: it ends within the fuel the model gives it, its final state is a
  fixpoint of the dependency rules, and it does not depend on the order in which the tasks of a
  round complete.
\<close>

section \<open>Progress and the end of the loop\<close>

lemma exec_inv_finite: "exec_inv plan st \<Longrightarrow> finite (completed st) \<and> finite (failed st)"
  unfolding exec_inv_def by (meson List.finite_set Un_subset_iff finite_imageI finite_subset)

lemma exec_inv_card:
  "exec_inv plan st \<Longrightarrow> card (completed st) + card (failed st) = card (completed st \<union> failed st)"
  using exec_inv_finite [of plan st] by (simp add: exec_inv_def card_Un_disjoint)

definition stuck :: "OrchestrationPlan \<Rightarrow> 'o exec_state \<Rightarrow> bool" where
  "stuck plan st \<longleftrightarrow> ready_steps plan st = [] \<and> blocked_steps plan st = []"

lemma full_stuck:
  assumes "distinct (map agent (steps plan))" and inv: "exec_inv plan st"
    and full: "\<not> card (completed st) + card (failed st) < length (steps plan)"
  shows "stuck plan st"
proof -
  have "card (agent ` set (steps plan)) = length (steps plan)"
    using assms(1) by (metis distinct_card length_map list.set_map)
  with full exec_inv_card [OF inv] have "card (agent ` set (steps plan)) \<le> card (completed st \<union> failed st)"
    by simp
  moreover have "completed st \<union> failed st \<subseteq> agent ` set (steps plan)"
    using inv by (simp add: exec_inv_def)
  ultimately have all: "completed st \<union> failed st = agent ` set (steps plan)"
    by (simp add: card_seteq)
  have "\<not> is_pending st s" if "s \<in> set (steps plan)" for s
    using is_pending_iff [OF inv that] all that by blast
  then have "s \<notin> set (ready_steps plan st)" "s \<notin> set (blocked_steps plan st)" for s
    by (auto simp: ready_steps_iff blocked_steps_iff)
  then show ?thesis unfolding stuck_def by (metis list.set_intros(1) neq_Nil_conv)
qed

lemma round_progress:
  assumes dist: "distinct (map agent (steps plan))" and perm: "\<And>ss. mset (sched opts ss) = mset ss"
    and inv: "exec_inv plan st" and ns: "\<not> stuck plan st"
  shows "card (completed st) + card (failed st)
    < card (completed (round opts plan st)) + card (failed (round opts plan st))"
proof -
  note set = round_settled [OF dist perm inv] and inv' = round_inv [OF dist perm inv]
  obtain s where s: "s \<in> set (blocked_steps plan st @ ready_steps plan st)"
    using ns unfolding stuck_def by (metis append_is_Nil_conv last_in_set)
  then have "s \<in> set (steps plan)" "is_pending st s" by (auto simp: ready_steps_iff blocked_steps_iff)
  then have old: "agent s \<notin> completed st \<union> failed st" using is_pending_iff [OF inv] by blast
  have new: "agent s \<in> completed (round opts plan st) \<union> failed (round opts plan st)"
    using round_sets [OF set, of "agent s"] s by blast
  have "completed st \<union> failed st \<subseteq> completed (round opts plan st) \<union> failed (round opts plan st)"
    using set by (auto simp: settled_by_def)
  with old new have "completed st \<union> failed st \<subset> completed (round opts plan st) \<union> failed (round opts plan st)"
    by blast
  then show ?thesis
    unfolding exec_inv_card [OF inv] exec_inv_card [OF inv']
    using exec_inv_finite [OF inv'] by (simp add: psubset_card_mono)
qed

lemma exec_loop_ends:
  assumes dist: "distinct (map agent (steps plan))" and perm: "\<And>ss. mset (sched opts ss) = mset ss"
    and pres: "\<And>st. exec_inv plan st \<Longrightarrow> Q st \<Longrightarrow> Q (round opts plan st)"
  shows "exec_inv plan st \<Longrightarrow> Q st \<Longrightarrow> length (steps plan) \<le> fuel + (card (completed st) + card (failed st)) \<Longrightarrow>
    \<exists>st'. exec_loop fuel opts plan st = Some st' \<and> exec_inv plan st' \<and> stuck plan st' \<and> Q st'"
proof (induction fuel arbitrary: st)
  case 0
  from full_stuck [OF dist "0.prems"(1)] "0.prems" show ?case by (subst exec_loop_round) auto
next
  case (Suc fuel)
  show ?case
  proof (cases "stuck plan st")
    case True
    with Suc.prems show ?thesis by (subst exec_loop_round) (auto simp: stuck_def)
  next
    case False
    from round_progress [OF dist perm Suc.prems(1) False] Suc.prems(3)
    have fuel: "length (steps plan) \<le> fuel + (card (completed (round opts plan st)) + card (failed (round opts plan st)))"
      by simp
    have "card (completed st) + card (failed st) < length (steps plan)"
      using full_stuck [OF dist Suc.prems(1)] False by blast
    with False have "exec_loop (Suc fuel) opts plan st = exec_loop fuel opts plan (round opts plan st)"
      by (subst exec_loop_round) (auto simp: stuck_def)
    with Suc.IH [OF round_inv [OF dist perm Suc.prems(1)] pres [OF Suc.prems(1,2)] fuel] show ?thesis by simp
  qed
qed

section \<open>The results are a fixpoint\<close>

text \<open>What a settled step's result is, read off the results of its dependencies.\<close>

definition settled_outcome :: "'o ExecutionOptions \<Rightarrow> OrchestrationPlan \<Rightarrow> 'o exec_state \<Rightarrow>
    OrchestrationStep \<Rightarrow> ExecError + 'o" where
  "settled_outcome opts plan st s =
     (if set (step_deps s) \<inter> failed st \<noteq> {} then Inl DependencyFailed else step_outcome opts plan st s)"

definition results_settled :: "'o ExecutionOptions \<Rightarrow> OrchestrationPlan \<Rightarrow> 'o exec_state \<Rightarrow> bool" where
  "results_settled opts plan st \<longleftrightarrow> (\<forall>s \<in> set (steps plan).
     map_of (results st) (agent s) = Some (if agent s \<in> completed st \<union> failed st
       then outcome_result (agent s) (settled_outcome opts plan st s)
       else \<lparr>srAgent = agent s, srState = Pending, srOutput = None, srError = None\<rparr>))"

lemma settled_outcome_round:
  assumes dist: "distinct (map agent (steps plan))" and perm: "\<And>ss. mset (sched opts ss) = mset ss"
    and inv: "exec_inv plan st" and s: "s \<in> set (steps plan)"
    and deps: "set (step_deps s) \<inter> failed st \<noteq> {} \<or> set (step_deps s) \<subseteq> completed st"
  shows "settled_outcome opts plan (round opts plan st) s = settled_outcome opts plan st s"
proof (cases "set (step_deps s) \<inter> failed st = {}")
  case False
  moreover have "failed st \<subseteq> failed (round opts plan st)"
    using round_settled [OF dist perm inv] by (auto simp: settled_by_def)
  ultimately show ?thesis unfolding settled_outcome_def by auto
next
  case True
  with deps have sub: "set (step_deps s) \<subseteq> completed st" by blast
  note set = round_settled [OF dist perm inv]
  have "completed st \<subseteq> completed (round opts plan st)" using set by (auto simp: settled_by_def)
  with sub round_inv [OF dist perm inv] have no: "set (step_deps s) \<inter> failed (round opts plan st) = {}"
    unfolding exec_inv_def by blast
  let ?zs = "blocked_steps plan st @ ready_steps plan st"
  have "agree (agent ` set ?zs) (round opts plan st) st"
    using settled_result(1) [OF set] by (simp add: agree_def)
  moreover have "set (step_deps s) \<inter> agent ` set ?zs = {}"
  proof -
    have "agent t \<notin> completed st" if "t \<in> set ?zs" for t
      using that is_pending_iff [OF inv, of t] by (auto simp: ready_steps_iff blocked_steps_iff)
    with sub show ?thesis by blast
  qed
  ultimately show ?thesis
    using True no step_outcome_agree [of "agent ` set ?zs" "round opts plan st" st s]
    by (simp add: settled_outcome_def)
qed

lemma round_results_settled:
  assumes dist: "distinct (map agent (steps plan))" and perm: "\<And>ss. mset (sched opts ss) = mset ss"
    and inv: "exec_inv plan st" and old: "results_settled opts plan st"
  shows "results_settled opts plan (round opts plan st)"
  unfolding results_settled_def
proof
  fix s assume s: "s \<in> set (steps plan)"
  let ?zs = "blocked_steps plan st @ ready_steps plan st" and ?st = "round opts plan st"
  note set = round_settled [OF dist perm inv]
  note at = round_sets_at [OF dist s set] and same = settled_outcome_round [OF dist perm inv s]
  show "map_of (results ?st) (agent s) = Some (if agent s \<in> completed ?st \<union> failed ?st
       then outcome_result (agent s) (settled_outcome opts plan ?st s)
       else \<lparr>srAgent = agent s, srState = Pending, srOutput = None, srError = None\<rparr>)"
  proof (cases "s \<in> set ?zs")
    case True
    have deps: "set (step_deps s) \<inter> failed st \<noteq> {} \<or> set (step_deps s) \<subseteq> completed st"
      using True by (auto simp: ready_steps_iff blocked_steps_iff)
    have "round_outcome opts plan st s = settled_outcome opts plan st s"
      using True by (auto simp: round_outcome_def settled_outcome_def ready_steps_iff blocked_steps_iff)
    with settled_result(2) [OF set round_distinct [OF dist] True] same [OF deps]
    have "map_of (results ?st) (agent s) = Some (outcome_result (agent s) (settled_outcome opts plan ?st s))"
      by simp
    moreover have "agent s \<in> completed ?st \<union> failed ?st" using at True by blast
    ultimately show ?thesis by simp
  next
    case False
    with round_member [OF dist s] have res: "map_of (results ?st) (agent s) = map_of (results st) (agent s)"
      using settled_result(1) [OF set] by blast
    have in_iff: "agent s \<in> completed ?st \<union> failed ?st \<longleftrightarrow> agent s \<in> completed st \<union> failed st"
      using at False by blast
    have deps: "set (step_deps s) \<inter> failed st \<noteq> {} \<or> set (step_deps s) \<subseteq> completed st"
      if "agent s \<in> completed st \<union> failed st"
      using that inv s unfolding exec_inv_def by blast
    show ?thesis
    proof (cases "agent s \<in> completed st \<union> failed st")
      case True
      from old s True res in_iff same [OF deps [OF True]] show ?thesis
        unfolding results_settled_def by simp
    next
      case no: False
      from old s no res in_iff show ?thesis unfolding results_settled_def by simp
    qed
  qed
qed

end
