(* ===== verification/OrchestrationProps.thy ===== *)
theory OrchestrationProps
  imports OrchestrationLoop
begin

text \<open>
  What \<open>executeOrchestration\<close> promises: it returns, the reported results are determined by the
  dependency rules alone, and the plans of the builders leave no step pending.
\<close>

section \<open>The reported results\<close>

lemma exec_loop_final:
  assumes dist: "distinct (map agent (steps plan))" and perm: "\<And>ss. mset (sched opts ss) = mset ss"
  obtains st where "exec_loop (length (steps plan)) opts plan
      \<lparr>results = init_results (steps plan), completed = {}, failed = {}, audit = []\<rparr> = Some st"
    "exec_inv plan st" "stuck plan st" "results_settled opts plan st"
proof -
  let ?init = "\<lparr>results = init_results (steps plan), completed = {}, failed = {}, audit = []\<rparr>"
  have "results_settled opts plan ?init"
    by (simp add: results_settled_def init_results_of)
  moreover have "results_settled opts plan st \<and> exec_inv plan st \<Longrightarrow> results_settled opts plan (round opts plan st)" for st
    using round_results_settled [OF dist perm] by blast
  ultimately have "\<exists>st'. exec_loop (length (steps plan)) opts plan ?init = Some st' \<and> exec_inv plan st' \<and> stuck plan st'
      \<and> results_settled opts plan st'"
    by (intro exec_loop_ends [OF dist perm]) (simp_all add: exec_inv_init)
  then show thesis using that by blast
qed

text \<open>The specification of one result, read off the list of all results.\<close>

definition state_in :: "'o StepResult list \<Rightarrow> string \<Rightarrow> AgentExecutionState option" where
  "state_in rs d = map_option srState (find (\<lambda>r. srAgent r = d) rs)"

definition outputs_in :: "'o StepResult list \<Rightarrow> 'o exec_state" where
  "outputs_in rs = \<lparr>results = map (\<lambda>r. (srAgent r, r)) rs, completed = {}, failed = {}, audit = []\<rparr>"

definition spec_result :: "'o ExecutionOptions \<Rightarrow> OrchestrationPlan \<Rightarrow> 'o StepResult list \<Rightarrow>
    OrchestrationStep \<Rightarrow> 'o StepResult" where
  "spec_result opts plan rs s =
     (if list_ex (\<lambda>d. state_in rs d = Some Failed) (step_deps s)
      then outcome_result (agent s) (Inl DependencyFailed)
      else if list_all (\<lambda>d. state_in rs d = Some Completed) (step_deps s)
      then outcome_result (agent s) (step_outcome opts plan (outputs_in rs) s)
      else \<lparr>srAgent = agent s, srState = Pending, srOutput = None, srError = None\<rparr>)"

definition final_results :: "OrchestrationPlan \<Rightarrow> 'o exec_state \<Rightarrow> 'o StepResult list" where
  "final_results plan st = List.map_filter (\<lambda>s. map_of (results st) (agent s)) (steps plan)"

lemma outcome_agent [simp]: "srAgent (outcome_result a x) = a"
  by (cases x) (simp_all add: outcome_result_def)

lemma map_filter_total: "(\<And>x. x \<in> set xs \<Longrightarrow> f x = Some (g x)) \<Longrightarrow> List.map_filter f xs = map g xs"
  by (induction xs) (simp_all add: List.map_filter_def)

definition result_at :: "'o exec_state \<Rightarrow> OrchestrationStep \<Rightarrow> 'o StepResult" where
  "result_at st s = the (map_of (results st) (agent s))"

lemma final_results_map:
  assumes "results_settled opts plan st"
  shows "final_results plan st = map (result_at st) (steps plan)"
    and "s \<in> set (steps plan) \<Longrightarrow> map_of (results st) (agent s) = Some (result_at st s)"
    and "s \<in> set (steps plan) \<Longrightarrow> srAgent (result_at st s) = agent s"
  using assms unfolding final_results_def results_settled_def result_at_def
  by (auto intro!: map_filter_total)

lemma find_result:
  assumes "results_settled opts plan st" and "distinct (map agent (steps plan))"
  shows "find (\<lambda>r. srAgent r = a) (final_results plan st)
    = (if a \<in> agent ` set (steps plan) then map_of (results st) a else None)"
proof -
  have "find (\<lambda>r. srAgent r = a) (map (result_at st) ss) = map_option (result_at st) (find (\<lambda>s. agent s = a) ss)"
    if "set ss \<subseteq> set (steps plan)" for ss
    using that by (induction ss) (simp_all add: final_results_map(3) [OF assms(1)])
  then have *: "find (\<lambda>r. srAgent r = a) (final_results plan st)
      = map_option (result_at st) (find (\<lambda>s. agent s = a) (steps plan))"
    by (simp add: final_results_map(1) [OF assms(1)])
  show ?thesis
  proof (cases "a \<in> agent ` set (steps plan)")
    case True
    then obtain s where "s \<in> set (steps plan)" "a = agent s" by blast
    with * find_agent [OF assms(2), of s] final_results_map(2) [OF assms(1), of s] show ?thesis by simp
  next
    case False
    then have "find (\<lambda>s. agent s = a) (steps plan) = None" by (simp add: find_agent_None)
    with * False show ?thesis by simp
  qed
qed

lemma state_in_final:
  assumes inv: "exec_inv plan st" and set: "results_settled opts plan st"
    and dist: "distinct (map agent (steps plan))"
  shows "state_in (final_results plan st) d = Some Completed \<longleftrightarrow> d \<in> completed st"
    and "state_in (final_results plan st) d = Some Failed \<longleftrightarrow> d \<in> failed st"
proof -
  have sub: "completed st \<subseteq> agent ` set (steps plan)" "failed st \<subseteq> agent ` set (steps plan)"
    "completed st \<inter> failed st = {}" using inv by (simp_all add: exec_inv_def)
  have "(state_in (final_results plan st) d = Some Completed \<longleftrightarrow> d \<in> completed st)
    \<and> (state_in (final_results plan st) d = Some Failed \<longleftrightarrow> d \<in> failed st)"
  proof (cases "d \<in> agent ` set (steps plan)")
    case True
    then obtain s where s: "s \<in> set (steps plan)" "d = agent s" by blast
    from exec_inv_result [OF inv s(1)] obtain r where r: "map_of (results st) (agent s) = Some r"
      "srState r = (if agent s \<in> completed st then Completed
                  else if agent s \<in> failed st then Failed else Pending)" .
    show ?thesis using sub(3) s r True unfolding state_in_def find_result [OF set dist] by auto
  next
    case False
    then show ?thesis using sub by (auto simp: state_in_def find_result [OF set dist])
  qed
  then show "state_in (final_results plan st) d = Some Completed \<longleftrightarrow> d \<in> completed st"
    "state_in (final_results plan st) d = Some Failed \<longleftrightarrow> d \<in> failed st" by blast+
qed

lemma map_of_results: "map_of (map (\<lambda>r. (srAgent r, r)) rs) a = find (\<lambda>r. srAgent r = a) rs"
  by (induction rs) auto

lemma outputs_agree:
  assumes "results_settled opts plan st" and "distinct (map agent (steps plan))"
  shows "agree (- (agent ` set (steps plan))) (outputs_in (final_results plan st)) st"
  by (simp add: agree_def outputs_in_def map_of_results find_result [OF assms])

lemma final_is_spec:
  assumes inv: "exec_inv plan st" and set: "results_settled opts plan st" and stuck: "stuck plan st"
    and dist: "distinct (map agent (steps plan))" and s: "s \<in> set (steps plan)"
  shows "result_at st s = spec_result opts plan (final_results plan st) s"
proof -
  let ?rs = "final_results plan st"
  have res: "result_at st s = (if agent s \<in> completed st \<union> failed st
       then outcome_result (agent s) (settled_outcome opts plan st s)
       else \<lparr>srAgent = agent s, srState = Pending, srOutput = None, srError = None\<rparr>)"
    using set s by (simp add: results_settled_def result_at_def)
  have spec: "spec_result opts plan ?rs s =
      (if set (step_deps s) \<inter> failed st \<noteq> {} then outcome_result (agent s) (Inl DependencyFailed)
       else if set (step_deps s) \<subseteq> completed st
       then outcome_result (agent s) (step_outcome opts plan (outputs_in ?rs) s)
       else \<lparr>srAgent = agent s, srState = Pending, srOutput = None, srError = None\<rparr>)"
    unfolding spec_result_def state_in_final [OF inv set dist] by (auto simp: list_ex_iff list_all_iff)
  have out: "step_outcome opts plan (outputs_in ?rs) s = step_outcome opts plan st s"
    if "set (step_deps s) \<subseteq> completed st"
  proof (rule step_outcome_agree [OF outputs_agree [OF set dist]])
    show "set (step_deps s) \<inter> - (agent ` set (steps plan)) = {}"
      using that inv unfolding exec_inv_def by blast
  qed
  have not_stuck: "set (step_deps s) \<inter> failed st = {} \<and> \<not> set (step_deps s) \<subseteq> completed st"
    if "agent s \<notin> completed st \<union> failed st"
  proof -
    have "is_pending st s" using is_pending_iff [OF inv s] that by blast
    moreover have "s \<notin> set (ready_steps plan st)" "s \<notin> set (blocked_steps plan st)"
      using stuck by (simp_all add: stuck_def)
    ultimately show ?thesis using s by (auto simp: ready_steps_iff blocked_steps_iff)
  qed
  show ?thesis
  proof (cases "agent s \<in> completed st \<union> failed st")
    case True
    with inv s have "set (step_deps s) \<inter> failed st \<noteq> {} \<or> set (step_deps s) \<subseteq> completed st"
      unfolding exec_inv_def by blast
    with True out show ?thesis unfolding res spec settled_outcome_def by auto
  next
    case False
    with not_stuck [OF False] show ?thesis unfolding res spec by auto
  qed
qed

lemma success_iff:
  assumes inv: "exec_inv plan st" and set: "results_settled opts plan st"
    and dist: "distinct (map agent (steps plan))"
  shows "failed st = {} \<longleftrightarrow> (\<forall>x \<in> set (final_results plan st). srState x \<noteq> Failed)"
proof -
  have state: "srState (result_at st s) = Failed \<longleftrightarrow> agent s \<in> failed st" if s: "s \<in> set (steps plan)" for s
    using exec_inv_result [OF inv s] final_results_map(2) [OF set s] inv unfolding exec_inv_def
    by (metis AgentExecutionState.distinct disjoint_iff option.inject)
  have "failed st \<subseteq> agent ` set (steps plan)" using inv by (simp add: exec_inv_def)
  with state show ?thesis unfolding final_results_map(1) [OF set] by auto
qed

lemma execute_final:
  assumes "exec_loop (length (steps plan)) opts plan
      \<lparr>results = init_results (steps plan), completed = {}, failed = {}, audit = []\<rparr> = Some st"
  shows "executeOrchestration opts plan
    = Some \<lparr>stepResults = final_results plan st, success = (failed st = {}), auditTrail = audit st\<rparr>"
  using assms by (simp add: executeOrchestration_def final_results_def)

lemma execute_results:
  assumes "distinct (map agent (steps plan))" and "\<And>ss. mset (sched opts ss) = mset ss"
  shows "\<exists>r. executeOrchestration opts plan = Some r
    \<and> stepResults r = map (spec_result opts plan (stepResults r)) (steps plan)
    \<and> (success r \<longleftrightarrow> (\<forall>x \<in> set (stepResults r). srState x \<noteq> Failed))"
proof -
  obtain st where run: "exec_loop (length (steps plan)) opts plan
      \<lparr>results = init_results (steps plan), completed = {}, failed = {}, audit = []\<rparr> = Some st"
    and inv: "exec_inv plan st" and stuck: "stuck plan st" and set: "results_settled opts plan st"
    by (rule exec_loop_final [OF assms])
  have "final_results plan st = map (spec_result opts plan (final_results plan st)) (steps plan)"
    using final_is_spec [OF inv set stuck assms(1)]
    by (subst final_results_map(1) [OF set]) simp
  with success_iff [OF inv set assms(1)] show ?thesis
    by (simp add: execute_final [OF run])
qed

text \<open>C8. An orchestration with distinct agents and any completion order returns, and every reported
  result is determined by the results of its dependencies: failed with the dependency error when
  one failed, the outcome of its own lookup, authorization and task on the outputs of its
  dependencies when all completed, pending otherwise; it succeeds when no step failed.\<close>

theorem orchestration_results:
  assumes "distinct (map agent (steps plan))" and "\<And>ss. mset (sched opts ss) = mset ss"
  shows "\<exists>r. executeOrchestration opts plan = Some r
    \<and> stepResults r = map (spec_result opts plan (stepResults r)) (steps plan)
    \<and> (success r \<longleftrightarrow> (\<forall>x \<in> set (stepResults r). srState x \<noteq> Failed))"
  by (rule execute_results [OF assms])

definition demo_role :: "string \<Rightarrow> string list \<Rightarrow> AgentRole" where
  "demo_role n ts = \<lparr>agentName = n, handoffs = map (\<lambda>t. \<lparr>target = t, contract = None\<rparr>) ts\<rparr>"

definition demo_opts :: "AgentRole list \<Rightarrow> string ExecutionOptions" where
  "demo_opts roles = \<lparr>agentMap = map (\<lambda>r. (agentName r, r)) roles,
     taskFn = (\<lambda>r i. if agentName r = ''bad'' then Inl ''boom'' else Inr (agentName r)),
     authorize = None, auditing = True, sched = rev\<rparr>"

theorem orchestration_results_witness:
  "\<exists>r. executeOrchestration (demo_opts [demo_role ''a'' [], demo_role ''bad'' []])
      (sequential [demo_role ''bad'' [], demo_role ''a'' []]) = Some r
    \<and> stepResults r = map (spec_result (demo_opts [demo_role ''a'' [], demo_role ''bad'' []])
        (sequential [demo_role ''bad'' [], demo_role ''a'' []]) (stepResults r))
        (steps (sequential [demo_role ''bad'' [], demo_role ''a'' []]))
    \<and> (success r \<longleftrightarrow> (\<forall>x \<in> set (stepResults r). srState x \<noteq> Failed))"
  by (rule orchestration_results) (code_simp, simp add: demo_opts_def)

section \<open>Completion order\<close>

lemma view_pending: "view st = view st' \<Longrightarrow> is_pending st = is_pending st'"
  by (simp add: fun_eq_iff is_pending_def view_eq)

lemma view_steps:
  assumes "view st = view st'"
  shows "ready_steps plan st = ready_steps plan st'" "blocked_steps plan st = blocked_steps plan st'"
  using assms view_pending [OF assms] by (simp_all add: ready_steps_def blocked_steps_def view_eq)

lemma view_inv:
  assumes "view st = view st'" and inv: "exec_inv plan st"
  shows "exec_inv plan st'"
proof -
  have e: "map_of (results st') = map_of (results st)" "completed st' = completed st" "failed st' = failed st"
    using assms(1) by (simp_all add: view_eq)
  show ?thesis using inv unfolding exec_inv_def e .
qed

lemma view_outcome:
  assumes v: "view st = view st'"
  shows "round_outcome opts plan st s = round_outcome (opts\<lparr>sched := sc\<rparr>) plan st' s"
proof -
  have "agree {} st st'" using v by (simp add: agree_def view_eq)
  then have "step_outcome opts plan st s = step_outcome opts plan st' s"
    by (rule step_outcome_agree) simp
  also have "\<dots> = step_outcome (opts\<lparr>sched := sc\<rparr>) plan st' s"
    by (simp add: step_outcome_def cong: option.case_cong)
  finally show ?thesis using view_steps(2) [OF v] by (simp add: round_outcome_def)
qed

lemma round_view:
  assumes dist: "distinct (map agent (steps plan))" and perm: "\<And>ss. mset (sched opts ss) = mset ss"
    and perm': "\<And>ss. mset (sc ss) = mset ss" and inv: "exec_inv plan st" and v: "view st = view st'"
  shows "view (round opts plan st) = view (round (opts\<lparr>sched := sc\<rparr>) plan st')"
proof -
  have "settled_by (round_outcome opts plan st) (blocked_steps plan st @ ready_steps plan st) st'
     (round (opts\<lparr>sched := sc\<rparr>) plan st')"
    unfolding view_steps [OF v]
    by (rule settled_by_fcong [OF view_outcome [OF v, of opts plan _ sc, symmetric]])
      (rule round_settled, use dist perm' view_inv [OF v inv] in simp_all)
  note new = settled_by_view [OF this] and old = settled_by_view [OF round_settled [OF dist perm inv]]
  have e: "map_of (results st') = map_of (results st)" "completed st' = completed st" "failed st' = failed st"
    using v by (simp_all add: view_eq)
  show ?thesis unfolding new old e ..
qed

lemma exec_loop_view:
  assumes dist: "distinct (map agent (steps plan))" and perm: "\<And>ss. mset (sched opts ss) = mset ss"
    and perm': "\<And>ss. mset (sc ss) = mset ss"
  shows "exec_inv plan st \<Longrightarrow> view st = view st' \<Longrightarrow>
    map_option view (exec_loop fuel opts plan st) = map_option view (exec_loop fuel (opts\<lparr>sched := sc\<rparr>) plan st')"
proof (induction fuel arbitrary: st st')
  case 0
  have "completed st' = completed st" "failed st' = failed st" using 0 by (simp_all add: view_eq)
  with view_steps [OF 0(2), of plan] 0 show ?case
    by (subst (1 2) exec_loop_round) simp
next
  case (Suc fuel)
  have "completed st' = completed st" "failed st' = failed st" using Suc.prems by (simp_all add: view_eq)
  with Suc.IH [OF round_inv [OF dist perm Suc.prems(1)] round_view [OF dist perm perm' Suc.prems]]
    view_steps [OF Suc.prems(2), of plan] Suc.prems show ?case
    by (subst (1 2) exec_loop_round) simp
qed

text \<open>C35. The reported results and the verdict of an orchestration do not depend on the order in
  which the concurrently running tasks of a round complete.\<close>

theorem orchestration_schedule_independent:
  assumes "distinct (map agent (steps plan))" and "\<And>ss. mset (sched opts ss) = mset ss"
    and "\<And>ss. mset (sc ss) = mset ss"
  shows "map_option (\<lambda>r. (stepResults r, success r)) (executeOrchestration opts plan)
    = map_option (\<lambda>r. (stepResults r, success r)) (executeOrchestration (opts\<lparr>sched := sc\<rparr>) plan)"
proof -
  let ?init = "\<lparr>results = init_results (steps plan), completed = {}, failed = {}, audit = []\<rparr>"
  let ?n = "length (steps plan)"
  have *: "map_option (\<lambda>r. (stepResults r, success r)) (executeOrchestration opts plan)
    = map_option (\<lambda>v. (List.map_filter (\<lambda>s. fst v (agent s)) (steps plan), snd (snd v) = {}))
        (map_option view (exec_loop ?n opts plan ?init))" for opts
    by (simp add: executeOrchestration_def option.map_comp o_def view_def)
  from exec_loop_view [where st = ?init and st' = ?init and fuel = ?n, OF assms exec_inv_init refl]
  show ?thesis unfolding * by simp
qed

theorem orchestration_schedule_independent_witness:
  "map_option (\<lambda>r. (stepResults r, success r)) (executeOrchestration
      (demo_opts [demo_role ''a'' [], demo_role ''b'' []]) (parallel [demo_role ''a'' [], demo_role ''b'' []]))
   = map_option (\<lambda>r. (stepResults r, success r)) (executeOrchestration
      ((demo_opts [demo_role ''a'' [], demo_role ''b'' []])\<lparr>sched := \<lambda>ss. ss\<rparr>)
      (parallel [demo_role ''a'' [], demo_role ''b'' []]))"
  by (rule orchestration_schedule_independent) (code_simp, simp_all add: demo_opts_def)

section \<open>The plans of the builders\<close>

fun listed_before :: "string set \<Rightarrow> OrchestrationStep list \<Rightarrow> bool" where
  "listed_before seen [] = True"
| "listed_before seen (s # ss) =
     (set (step_deps s) \<subseteq> seen \<and> listed_before (insert (agent s) seen) ss)"

lemma listed_settles:
  assumes inv: "exec_inv plan st" and stuck: "stuck plan st"
  shows "listed_before seen ss \<Longrightarrow> set ss \<subseteq> set (steps plan) \<Longrightarrow> seen \<subseteq> completed st \<union> failed st \<Longrightarrow>
    agent ` set ss \<subseteq> completed st \<union> failed st"
proof (induction ss arbitrary: seen)
  case (Cons s ss)
  have s: "s \<in> set (steps plan)" and deps: "set (step_deps s) \<subseteq> completed st \<union> failed st"
    using Cons.prems by auto
  have "\<not> is_pending st s"
    using stuck s deps ready_steps_iff [of s plan st] blocked_steps_iff [of s plan st]
    unfolding stuck_def by auto
  then have "agent s \<in> completed st \<union> failed st" using is_pending_iff [OF inv s] by blast
  with Cons.IH [of "insert (agent s) seen"] Cons.prems show ?case by auto
qed simp

lemma listed_sequential: "set_option prev \<subseteq> seen \<Longrightarrow> listed_before seen (sequential_steps prev as)"
  by (induction as arbitrary: prev seen) (auto simp: step_deps_def split: option.splits)

lemma listed_constant:
  "\<forall>s \<in> set ss. set (step_deps s) \<subseteq> seen \<Longrightarrow> listed_before seen ss"
proof (induction ss arbitrary: seen)
  case (Cons s ss)
  then have "\<forall>t \<in> set ss. set (step_deps t) \<subseteq> insert (agent s) seen" by auto
  with Cons show ?case by simp
qed simp

lemma agents_sequential: "map agent (sequential_steps prev as) = map agentName as"
  by (induction as arbitrary: prev) simp_all

lemma builders_listed:
  "listed_before {} (steps (sequential as))" "listed_before {} (steps (parallel as))"
  "listed_before {} (steps (hybrid lead as))" "listed_before {} (steps (hierarchical lead as))"
proof -
  show "listed_before {} (steps (sequential as))" by (simp add: sequential_def listed_sequential)
  show "listed_before {} (steps (parallel as))"
    by (simp add: parallel_def) (rule listed_constant, simp add: step_deps_def)
  have "listed_before {} (fan_steps lead as)"
    by (simp add: fan_steps_def step_deps_def) (rule listed_constant, simp add: step_deps_def)
  then show "listed_before {} (steps (hybrid lead as))" "listed_before {} (steps (hierarchical lead as))"
    by (simp_all add: hybrid_def hierarchical_def)
qed

lemma builders_agents:
  "map agent (steps (sequential as)) = map agentName as"
  "map agent (steps (parallel as)) = map agentName as"
  "map agent (steps (hybrid lead as)) = agentName lead # map agentName as"
  "map agent (steps (hierarchical lead as)) = agentName lead # map agentName as"
  by (simp only: sequential_def OrchestrationPlan.select_convs agents_sequential, simp add: parallel_def,
      simp add: hybrid_def fan_steps_def, simp add: hierarchical_def fan_steps_def)

lemma listed_all_settled:
  assumes dist: "distinct (map agent (steps plan))" and perm: "\<And>ss. mset (sched opts ss) = mset ss"
    and listed: "listed_before {} (steps plan)"
  shows "\<exists>r. executeOrchestration opts plan = Some r
    \<and> map srAgent (stepResults r) = map agent (steps plan)
    \<and> (\<forall>x \<in> set (stepResults r). srState x = Completed \<or> srState x = Failed)
    \<and> (success r \<longleftrightarrow> (\<forall>x \<in> set (stepResults r). srState x = Completed))"
proof -
  obtain st where run: "exec_loop (length (steps plan)) opts plan
      \<lparr>results = init_results (steps plan), completed = {}, failed = {}, audit = []\<rparr> = Some st"
    and inv: "exec_inv plan st" and stuck: "stuck plan st" and set: "results_settled opts plan st"
    by (rule exec_loop_final [OF dist perm])
  have all: "agent ` set (steps plan) \<subseteq> completed st \<union> failed st"
    by (rule listed_settles [OF inv stuck listed]) simp_all
  have st: "srState (result_at st s) = Completed \<or> srState (result_at st s) = Failed"
    if s: "s \<in> set (steps plan)" for s
  proof -
    obtain r where "map_of (results st) (agent s) = Some r"
      "srState r = (if agent s \<in> completed st then Completed
                  else if agent s \<in> failed st then Failed else Pending)"
      by (rule exec_inv_result [OF inv s])
    moreover have "agent s \<in> completed st \<or> agent s \<in> failed st" using all s by blast
    ultimately show ?thesis using final_results_map(2) [OF set s] by auto
  qed
  have "map srAgent (final_results plan st) = map agent (steps plan)"
    using final_results_map(3) [OF set] by (simp add: final_results_map(1) [OF set])
  moreover have each: "\<forall>x \<in> set (final_results plan st). srState x = Completed \<or> srState x = Failed"
    using st by (simp add: final_results_map(1) [OF set])
  moreover have "(failed st = {}) = (\<forall>x \<in> set (final_results plan st). srState x = Completed)"
    unfolding success_iff [OF inv set dist] using each by (metis AgentExecutionState.distinct(11))
  ultimately show ?thesis by (simp add: execute_final [OF run])
qed


text \<open>C36. A sequential, parallel, hybrid or hierarchical plan over agents with distinct names always
  runs to the end: every step is reported completed or failed, in plan order, and the run succeeds
  exactly when every step completed.\<close>

theorem builder_plans_settle:
  assumes "distinct (map agentName (lead # as))" and "\<And>ss. mset (sched opts ss) = mset ss"
    and "plan \<in> {sequential as, parallel as, hybrid lead as, hierarchical lead as}"
  shows "\<exists>r. executeOrchestration opts plan = Some r
    \<and> map srAgent (stepResults r) = map agent (steps plan)
    \<and> (\<forall>x \<in> set (stepResults r). srState x = Completed \<or> srState x = Failed)
    \<and> (success r \<longleftrightarrow> (\<forall>x \<in> set (stepResults r). srState x = Completed))"
proof (rule listed_all_settled [OF _ assms(2)])
  show "distinct (map agent (steps plan))" using assms(1,3) by (auto simp only: builders_agents insert_iff empty_iff list.map distinct.simps)
  show "listed_before {} (steps plan)" using assms(3) builders_listed by blast
qed

theorem builder_plans_settle_witness:
  "\<exists>r. executeOrchestration (demo_opts [demo_role ''a'' [], demo_role ''b'' []])
      (hybrid (demo_role ''a'' []) [demo_role ''b'' []]) = Some r
    \<and> map srAgent (stepResults r) = map agent (steps (hybrid (demo_role ''a'' []) [demo_role ''b'' []]))
    \<and> (\<forall>x \<in> set (stepResults r). srState x = Completed \<or> srState x = Failed)
    \<and> (success r \<longleftrightarrow> (\<forall>x \<in> set (stepResults r). srState x = Completed))"
  by (rule builder_plans_settle [where lead = "demo_role ''a'' []" and as = "[demo_role ''b'' []]"])
    (code_simp, simp_all add: demo_opts_def)

text \<open>Two agents that hand off to each other make a swarm plan whose steps wait for one another:
  no task runs, every step is reported pending, and the orchestration still reports success.\<close>

theorem mutual_swarm_succeeds_without_running:
  "map_option (\<lambda>r. (map srState (stepResults r), success r, auditTrail r))
     (executeOrchestration (demo_opts [demo_role ''a'' [''b''], demo_role ''b'' [''a'']])
       (swarm [demo_role ''a'' [''b''], demo_role ''b'' [''a'']]))
   = Some ([Pending, Pending], True, [])"
  by code_simp

section \<open>Handoffs\<close>

lemma find_target_iff:
  "find P xs = Some x \<Longrightarrow> x \<in> set xs \<and> P x"
  by (auto simp: find_Some_iff)

definition contract_fields :: "Handoff \<Rightarrow> string list" where
  "contract_fields h = (case contract h of None \<Rightarrow> []
     | Some c \<Rightarrow> (case requiredFields c of None \<Rightarrow> [] | Some fs \<Rightarrow> fs))"

definition contract_schema :: "Handoff \<Rightarrow> (string \<Rightarrow> schema option) option \<Rightarrow> schema option" where
  "contract_schema h resolver = (case contract h of None \<Rightarrow> None
     | Some c \<Rightarrow> (case schemaRef c of None \<Rightarrow> None
         | Some ref \<Rightarrow> if ref = [] then None else Option.bind resolver (\<lambda>res. res ref)))"

lemma validateHandoffContract_schema:
  "validateHandoffContract h payload resolver = (case contract_schema h resolver of None \<Rightarrow> None
     | Some sch \<Rightarrow> if simpleSchemaValidate sch payload [] = [] then None
                   else Some (SchemaFailed (simpleSchemaValidate sch payload [])))"
  by (auto simp: validateHandoffContract_def contract_schema_def Let_def split: option.splits)

text \<open>A handoff is accepted exactly when the source declares the target and, for the first such
  declaration, the payload has every required field and passes the schema the contract names,
  when a resolver knows it.\<close>

theorem handoff_accepted_iff:
  "validateHandoff src dst payload resolver = None \<longleftrightarrow>
     (\<exists>h. find (\<lambda>h. target h = agentName dst) (handoffs src) = Some h
        \<and> (\<forall>f \<in> set (contract_fields h). payload_has payload f)
        \<and> (case contract_schema h resolver of None \<Rightarrow> True
            | Some sch \<Rightarrow> simpleSchemaValidate sch payload [] = []))"
proof (cases "find (\<lambda>h. target h = agentName dst) (handoffs src)")
  case None
  then show ?thesis by (simp add: validateHandoff_def)
next
  case (Some h)
  have missing: "(case contract h of None \<Rightarrow> []
      | Some c \<Rightarrow> (case requiredFields c of None \<Rightarrow> [] | Some fs \<Rightarrow> filter (\<lambda>f. \<not> payload_has payload f) fs))
     = filter (\<lambda>f. \<not> payload_has payload f) (contract_fields h)"
    by (simp add: contract_fields_def split: option.split)
  show ?thesis
    unfolding validateHandoff_def Some validateHandoffContract_schema
    by (auto simp: missing filter_empty_conv Let_def split: option.splits if_splits)
qed

end
