(* ===== verification/Json.thy ===== *)
theory Json
  imports Prelude
begin

text \<open>
  JavaScript values as the audit log serialises them: \<open>canonicalize\<close>
  (\<open>reference/src/audit/canonical.ts\<close>), the built-in \<open>JSON.stringify\<close> and \<open>JSON.parse\<close>. Numbers are
  integers (printed without exponent, so below 10 to the 21) or non-finite; the characters of a
  string are code units below 256.
\<close>

section \<open>Values\<close>

datatype jsval =
    VNull
  | VUndef
  | VBool bool
  | VInt int
  | VNonFinite
  | VStr string
  | VArr "jsval list"
  | VObj "(string \<times> jsval) list"
  | VOther  \<comment> \<open>a function or a symbol\<close>

section \<open>Writing\<close>

definition hex_digit :: "nat \<Rightarrow> char" where
  "hex_digit n = (if n < 10 then char_of (48 + n) else char_of (87 + n))"

definition esc_char :: "char \<Rightarrow> string" where
  "esc_char c =
     (if c = CHR 0x22 then [CHR 0x5C, CHR 0x22]
      else if c = CHR 0x5C then [CHR 0x5C, CHR 0x5C]
      else if c = CHR 0x08 then [CHR 0x5C, CHR ''b'']
      else if c = CHR 0x0C then [CHR 0x5C, CHR ''f'']
      else if c = CHR 0x0A then [CHR 0x5C, CHR ''n'']
      else if c = CHR 0x0D then [CHR 0x5C, CHR ''r'']
      else if c = CHR 0x09 then [CHR 0x5C, CHR ''t'']
      else if char_code c < 32 then [CHR 0x5C, CHR ''u'', CHR ''0'', CHR ''0'',
          hex_digit (char_code c div 16), hex_digit (char_code c mod 16)]
      else [c])"

definition quote :: "string \<Rightarrow> string" where
  "quote s = CHR 0x22 # concat (map esc_char s) @ [CHR 0x22]"

text \<open>The default sort order of strings: by code units.\<close>

definition code_unit_cmp :: "string \<Rightarrow> string \<Rightarrow> int" where
  "code_unit_cmp s t = (if s = t then 0 else if str_less s t then - 1 else 1)"

definition key_cmp :: "string \<times> 'v \<Rightarrow> string \<times> 'v \<Rightarrow> int" where
  "key_cmp a b = code_unit_cmp (fst a) (fst b)"

definition bool_text :: "bool \<Rightarrow> string" where
  "bool_text b = (if b then ''true'' else ''false'')"

definition bracket :: "string list \<Rightarrow> string" where
  "bracket ts = ''['' @ join '','' ts @ '']''"

definition brace :: "string list \<Rightarrow> string" where
  "brace ts = ''{'' @ join '','' ts @ ''}''"

definition member :: "string \<Rightarrow> string \<Rightarrow> string" where
  "member k t = quote k @ '':'' @ t"

definition defined :: "string \<times> jsval \<Rightarrow> bool" where
  "defined p = (snd p \<noteq> VUndef)"

lemma size_snd_mem [termination_simp]:
  "p \<in> set kvs \<Longrightarrow> size (snd p) < Suc (size_list (size_prod (\<lambda>x. 0) size) kvs)"
  by (induction kvs) auto

text \<open>\<open>None\<close> is the exception for a non-finite number or a value of another type.\<close>

fun canonicalize :: "jsval \<Rightarrow> string option" where
  "canonicalize VNull = Some ''null''"
| "canonicalize (VBool b) = Some (bool_text b)"
| "canonicalize VNonFinite = None"
| "canonicalize (VInt i) = Some (int_text i)"
| "canonicalize (VStr s) = Some (quote s)"
| "canonicalize (VArr vs) =
     map_option bracket (those (map (\<lambda>v. if v = VUndef then Some ''null'' else canonicalize v) vs))"
| "canonicalize (VObj kvs) =
     map_option brace (those (map (\<lambda>p. map_option (member (fst p)) (canonicalize (snd p)))
       (sort_by key_cmp (filter defined kvs))))"
| "canonicalize VUndef = None"
| "canonicalize VOther = None"

text \<open>\<open>JSON.stringify\<close>: \<open>None\<close> is its result \<open>undefined\<close>; it keeps the order of the members.\<close>

fun jsonStringify :: "jsval \<Rightarrow> string option" where
  "jsonStringify VNull = Some ''null''"
| "jsonStringify (VBool b) = Some (bool_text b)"
| "jsonStringify VNonFinite = Some ''null''"
| "jsonStringify (VInt i) = Some (int_text i)"
| "jsonStringify (VStr s) = Some (quote s)"
| "jsonStringify (VArr vs) =
     Some (bracket (map (\<lambda>v. case jsonStringify v of None \<Rightarrow> ''null'' | Some t \<Rightarrow> t) vs))"
| "jsonStringify (VObj kvs) =
     Some (brace (concat (map (\<lambda>p. case jsonStringify (snd p) of
         None \<Rightarrow> [] | Some t \<Rightarrow> [member (fst p) t]) kvs)))"
| "jsonStringify VUndef = None"
| "jsonStringify VOther = None"

section \<open>Reading\<close>

definition is_digit :: "char \<Rightarrow> bool" where
  "is_digit c = (48 \<le> char_code c \<and> char_code c \<le> 57)"

definition is_ws :: "char \<Rightarrow> bool" where
  "is_ws c = (c = CHR 0x20 \<or> c = CHR 0x09 \<or> c = CHR 0x0A \<or> c = CHR 0x0D)"

definition skip_ws :: "string \<Rightarrow> string" where
  "skip_ws s = dropWhile is_ws s"

definition unhex :: "char \<Rightarrow> nat option" where
  "unhex c = (if is_digit c then Some (char_code c - 48)
     else if 97 \<le> char_code c \<and> char_code c \<le> 102 then Some (char_code c - 87)
     else if 65 \<le> char_code c \<and> char_code c \<le> 70 then Some (char_code c - 55) else None)"

definition unesc :: "char \<Rightarrow> char option" where
  "unesc e = (if e = CHR 0x22 then Some (CHR 0x22) else if e = CHR 0x5C then Some (CHR 0x5C)
     else if e = CHR ''/'' then Some (CHR ''/'') else if e = CHR ''b'' then Some (CHR 0x08)
     else if e = CHR ''f'' then Some (CHR 0x0C) else if e = CHR ''n'' then Some (CHR 0x0A)
     else if e = CHR ''r'' then Some (CHR 0x0D) else if e = CHR ''t'' then Some (CHR 0x09) else None)"

definition unesc_hex :: "char \<Rightarrow> char \<Rightarrow> char \<Rightarrow> char \<Rightarrow> char option" where
  "unesc_hex a b c d = (if a = CHR ''0'' \<and> b = CHR ''0''
     then (case (unhex c, unhex d) of (Some x, Some y) \<Rightarrow> Some (char_of (16 * x + y)) | _ \<Rightarrow> None)
     else None)"

text \<open>The rest of a string literal, after the opening quote.\<close>

fun parse_str :: "string \<Rightarrow> (string \<times> string) option" where
  "parse_str [] = None"
| "parse_str (c # cs) =
     (if c = CHR 0x22 then Some ([], cs)
      else if c = CHR 0x5C then
        (case cs of
           [] \<Rightarrow> None
         | e # cs1 \<Rightarrow>
             if e = CHR ''u'' then
               (case cs1 of
                  h1 # h2 # h3 # h4 # cs2 \<Rightarrow>
                    (case unesc_hex h1 h2 h3 h4 of
                       None \<Rightarrow> None
                     | Some x \<Rightarrow> map_option (apfst (Cons x)) (parse_str cs2))
                | _ \<Rightarrow> None)
             else (case unesc e of
                 None \<Rightarrow> None
               | Some x \<Rightarrow> map_option (apfst (Cons x)) (parse_str cs1)))
      else if char_code c < 32 then None
      else map_option (apfst (Cons c)) (parse_str cs))"

declare parse_str.simps [simp del]

definition nat_value :: "string \<Rightarrow> nat" where
  "nat_value ds = fold (\<lambda>d n. 10 * n + (char_code d - 48)) ds 0"

definition parse_nat :: "string \<Rightarrow> (nat \<times> string) option" where
  "parse_nat s = (let ds = takeWhile is_digit s in
     if ds = [] \<or> (hd ds = CHR ''0'' \<and> length ds > 1) then None
     else Some (nat_value ds, dropWhile is_digit s))"

definition parse_int :: "string \<Rightarrow> (jsval \<times> string) option" where
  "parse_int s = (case s of
     [] \<Rightarrow> None
   | c # cs \<Rightarrow> if c = CHR ''-'' then map_option (apfst (\<lambda>n. VInt (- int n))) (parse_nat cs)
               else map_option (apfst (\<lambda>n. VInt (int n))) (parse_nat s))"

definition strip_prefix :: "string \<Rightarrow> string \<Rightarrow> string option" where
  "strip_prefix p s = (if take (length p) s = p then Some (drop (length p) s) else None)"

definition parse_word :: "string \<Rightarrow> jsval \<Rightarrow> string \<Rightarrow> (jsval \<times> string) option" where
  "parse_word w v s = map_option (Pair v) (strip_prefix w s)"

text \<open>The parser descends with a bound on its calls; the length of the text is always enough.
  After an element or member comes a comma and another one, or the closing bracket.\<close>

fun parse_val :: "nat \<Rightarrow> string \<Rightarrow> (jsval \<times> string) option"
  and parse_elems :: "nat \<Rightarrow> string \<Rightarrow> (jsval list \<times> string) option"
  and parse_members :: "nat \<Rightarrow> string \<Rightarrow> ((string \<times> jsval) list \<times> string) option" where
  "parse_val 0 s = None"
| "parse_val (Suc n) s =
     (case skip_ws s of
        [] \<Rightarrow> None
      | c # cs \<Rightarrow>
          if c = CHR ''n'' then parse_word ''null'' VNull (c # cs)
          else if c = CHR ''t'' then parse_word ''true'' (VBool True) (c # cs)
          else if c = CHR ''f'' then parse_word ''false'' (VBool False) (c # cs)
          else if c = CHR 0x22 then map_option (apfst VStr) (parse_str cs)
          else if c = CHR ''['' then
            (if take 1 (skip_ws cs) = '']'' then Some (VArr [], tl (skip_ws cs))
             else map_option (apfst VArr) (parse_elems n cs))
          else if c = CHR ''{'' then
            (if take 1 (skip_ws cs) = ''}'' then Some (VObj [], tl (skip_ws cs))
             else map_option (apfst (\<lambda>kvs. VObj (fold (\<lambda>(k, v) m. map_set k v m) kvs [])))
                    (parse_members n cs))
          else parse_int (c # cs))"
| "parse_elems 0 s = None"
| "parse_elems (Suc n) s =
     (case parse_val n s of
        None \<Rightarrow> None
      | Some (v, r) \<Rightarrow>
          (case skip_ws r of
             [] \<Rightarrow> None
           | c # cs \<Rightarrow> if c = CHR '','' then map_option (apfst (Cons v)) (parse_elems n cs)
                       else if c = CHR '']'' then Some ([v], cs) else None))"
| "parse_members 0 s = None"
| "parse_members (Suc n) s =
     (case skip_ws s of
        [] \<Rightarrow> None
      | q # qs \<Rightarrow>
          if q \<noteq> CHR 0x22 then None
          else (case parse_str qs of
              None \<Rightarrow> None
            | Some (k, r1) \<Rightarrow>
                (case skip_ws r1 of
                   [] \<Rightarrow> None
                 | c1 # cs1 \<Rightarrow>
                     if c1 \<noteq> CHR '':'' then None
                     else (case parse_val n cs1 of
                         None \<Rightarrow> None
                       | Some (v, r) \<Rightarrow>
                           (case skip_ws r of
                              [] \<Rightarrow> None
                            | c # cs \<Rightarrow>
                                if c = CHR '','' then map_option (apfst (Cons (k, v))) (parse_members n cs)
                                else if c = CHR ''}'' then Some ([(k, v)], cs) else None)))))"

definition jsonParse :: "string \<Rightarrow> jsval option" where
  "jsonParse s = (case parse_val (Suc (length s)) s of
     Some (v, r) \<Rightarrow> if skip_ws r = [] then Some v else None
   | None \<Rightarrow> None)"

end
