(* ===== verification/AuditLog.thy ===== *)
theory AuditLog
  imports Json
begin

text \<open>
  The audit log, \<open>reference/src/audit/\<close>: the hash-chained logger, the in-memory and the JSONL file
  sink, the signed logger. SHA-256 and HMAC are parameters (functions from text to text); the clock
  readings are inputs of each call.
\<close>

section \<open>Entries\<close>

datatype Decision = Allowed | Denied | Overridden

definition decision_text :: "Decision \<Rightarrow> string" where
  "decision_text d = (case d of Allowed \<Rightarrow> ''allowed'' | Denied \<Rightarrow> ''denied'' | Overridden \<Rightarrow> ''overridden'')"

record AuditEntry =
  aeSchema :: "string option"
  aeId :: string
  aeTimestamp :: string
  aeActor :: string
  aeAction :: string
  aeResource :: string
  aePolicy :: "string option"
  aeDecision :: Decision
  aeDetails :: "(string \<times> jsval) list option"
  aeHash :: "string option"
  aePrev :: "string option"

record PartialEntry =
  peTimestamp :: "string option"
  peActor :: string
  peAction :: string
  peResource :: string
  pePolicy :: "string option"
  peDecision :: Decision
  peDetails :: "(string \<times> jsval) list option"

record AuditFilter =
  fActor :: "string option"
  fAction :: "string option"
  fResource :: "string option"
  fDecision :: "Decision option"
  fFrom :: "string option"
  fTo :: "string option"

definition AUDIT_SCHEMA_VERSION :: string where
  "AUDIT_SCHEMA_VERSION = ''2''"

text \<open>An optional filter field counts when it is given and not empty.\<close>

definition given :: "string option \<Rightarrow> (string \<Rightarrow> bool) \<Rightarrow> bool" where
  "given f test = (case f of None \<Rightarrow> False | Some s \<Rightarrow> s \<noteq> [] \<and> test s)"

definition matchesFilter :: "AuditEntry \<Rightarrow> AuditFilter \<Rightarrow> bool" where
  "matchesFilter e f =
     (if given (fActor f) (\<lambda>s. aeActor e \<noteq> s) then False
      else if given (fAction f) (\<lambda>s. aeAction e \<noteq> s) then False
      else if given (fResource f) (\<lambda>s. aeResource e \<noteq> s) then False
      else if (case fDecision f of None \<Rightarrow> False | Some d \<Rightarrow> aeDecision e \<noteq> d) then False
      else if given (fFrom f) (\<lambda>s. str_less (aeTimestamp e) s) then False
      else if given (fTo f) (\<lambda>s. str_less s (aeTimestamp e)) then False
      else True)"

section \<open>The hash chain\<close>

definition opt_str :: "string option \<Rightarrow> jsval" where
  "opt_str x = (case x of None \<Rightarrow> VUndef | Some s \<Rightarrow> VStr s)"

definition opt_obj :: "(string \<times> jsval) list option \<Rightarrow> jsval" where
  "opt_obj x = (case x of None \<Rightarrow> VUndef | Some kvs \<Rightarrow> VObj kvs)"

definition canonical_fields :: "AuditEntry \<Rightarrow> string option \<Rightarrow> jsval" where
  "canonical_fields e prev = VObj
     [(''schemaVersion'', VStr AUDIT_SCHEMA_VERSION), (''id'', VStr (aeId e)),
      (''timestamp'', VStr (aeTimestamp e)), (''actor'', VStr (aeActor e)),
      (''action'', VStr (aeAction e)), (''resource'', VStr (aeResource e)),
      (''policy'', opt_str (aePolicy e)), (''decision'', VStr (decision_text (aeDecision e))),
      (''details'', opt_obj (aeDetails e)), (''previousHash'', opt_str prev)]"

definition legacy_fields :: "AuditEntry \<Rightarrow> string option \<Rightarrow> jsval" where
  "legacy_fields e prev = VObj
     [(''id'', VStr (aeId e)), (''timestamp'', VStr (aeTimestamp e)), (''actor'', VStr (aeActor e)),
      (''action'', VStr (aeAction e)), (''resource'', VStr (aeResource e)),
      (''policy'', opt_str (aePolicy e)), (''decision'', VStr (decision_text (aeDecision e))),
      (''details'', opt_obj (aeDetails e)),
      (''previousHash'', case prev of None \<Rightarrow> VNull | Some p \<Rightarrow> VStr p)]"

definition entry_payload :: "AuditEntry \<Rightarrow> string option \<Rightarrow> string option" where
  "entry_payload e prev =
     (if aeSchema e = Some AUDIT_SCHEMA_VERSION then canonicalize (canonical_fields e prev)
      else jsonStringify (legacy_fields e prev))"

definition computeEntryHash ::
  "(string \<Rightarrow> string) \<Rightarrow> AuditEntry \<Rightarrow> string option \<Rightarrow> string option" where
  "computeEntryHash sha e prev = map_option sha (entry_payload e prev)"

section \<open>The logger\<close>

record AuditState =
  auditLog :: "AuditEntry list"
  counter :: nat
  sinkFile :: "string option"

definition createAuditLog :: "string option \<Rightarrow> AuditState" where
  "createAuditLog file = \<lparr>auditLog = [], counter = 0, sinkFile = file\<rparr>"

definition last_hash :: "AuditEntry list \<Rightarrow> string option" where
  "last_hash es = (if es = [] then None else aeHash (last es))"

text \<open>The clock: the milliseconds \<open>Date.now()\<close> gives and the current time as an ISO text.\<close>

type_synonym clock = "nat \<times> string"

definition generateId :: "clock \<Rightarrow> nat \<Rightarrow> string" where
  "generateId clk n = ''audit-'' @ nat_text (fst clk) @ ''-'' @ nat_text n"

definition entry_json :: "AuditEntry \<Rightarrow> jsval" where
  "entry_json e = VObj
     [(''schemaVersion'', opt_str (aeSchema e)), (''id'', VStr (aeId e)),
      (''timestamp'', VStr (aeTimestamp e)), (''actor'', VStr (aeActor e)),
      (''action'', VStr (aeAction e)), (''resource'', VStr (aeResource e)),
      (''policy'', opt_str (aePolicy e)), (''decision'', VStr (decision_text (aeDecision e))),
      (''details'', opt_obj (aeDetails e)), (''previousHash'', opt_str (aePrev e)),
      (''hash'', opt_str (aeHash e))]"

text \<open>The file sink appends one line of JSON text per entry.\<close>

definition file_write :: "AuditEntry \<Rightarrow> string \<Rightarrow> string" where
  "file_write e content = (case jsonStringify (entry_json e) of
     None \<Rightarrow> content @ ''undefined'' @ [CHR 0x0A] | Some t \<Rightarrow> content @ t @ [CHR 0x0A])"

definition base_entry :: "clock \<Rightarrow> PartialEntry \<Rightarrow> AuditState \<Rightarrow> AuditEntry" where
  "base_entry clk p st =
     \<lparr>aeSchema = Some AUDIT_SCHEMA_VERSION, aeId = generateId clk (Suc (counter st)),
      aeTimestamp = (case peTimestamp p of None \<Rightarrow> snd clk | Some t \<Rightarrow> t), aeActor = peActor p,
      aeAction = peAction p, aeResource = peResource p, aePolicy = pePolicy p,
      aeDecision = peDecision p, aeDetails = peDetails p, aeHash = None,
      aePrev = last_hash (auditLog st)\<rparr>"

text \<open>Recording: \<open>None\<close> is the exception of the serializer, after the counter has moved on.\<close>

definition record_entry ::
  "(string \<Rightarrow> string) \<Rightarrow> clock \<Rightarrow> PartialEntry \<Rightarrow> AuditState \<Rightarrow> AuditEntry option \<times> AuditState" where
  "record_entry sha clk p st =
     (let base = base_entry clk p st; st1 = st\<lparr>counter := Suc (counter st)\<rparr> in
      case computeEntryHash sha base (last_hash (auditLog st)) of
        None \<Rightarrow> (None, st1)
      | Some h \<Rightarrow>
          (let e = base\<lparr>aeHash := Some h\<rparr> in
           (Some e, st1\<lparr>auditLog := auditLog st @ [e],
              sinkFile := map_option (file_write e) (sinkFile st)\<rparr>)))"

definition query :: "AuditFilter \<Rightarrow> AuditState \<Rightarrow> AuditEntry list" where
  "query f st = filter (\<lambda>e. matchesFilter e f) (auditLog st)"

datatype IntegrityResult = Valid | BrokenAt nat

text \<open>The verification loop from index \<open>i\<close> on, the previous entry's hash in hand; \<open>None\<close> when the
  serializer throws.\<close>

fun verify_chain ::
  "(string \<Rightarrow> string) \<Rightarrow> nat \<Rightarrow> string option \<Rightarrow> AuditEntry list \<Rightarrow> IntegrityResult option" where
  "verify_chain sha i prev [] = Some Valid"
| "verify_chain sha i prev (e # es) =
     (if aePrev e \<noteq> prev then Some (BrokenAt i)
      else (case computeEntryHash sha e prev of
          None \<Rightarrow> None
        | Some h \<Rightarrow> if aeHash e \<noteq> Some h then Some (BrokenAt i)
                    else verify_chain sha (Suc i) (aeHash e) es))"

definition verifyIntegrity :: "(string \<Rightarrow> string) \<Rightarrow> AuditEntry list \<Rightarrow> IntegrityResult option" where
  "verifyIntegrity sha es = verify_chain sha 0 None es"

section \<open>The file\<close>

fun split_lines :: "string \<Rightarrow> string list" where
  "split_lines [] = [[]]"
| "split_lines (c # cs) = (if c = CHR 0x0A then [] # split_lines cs
     else (case split_lines cs of [] \<Rightarrow> [[c]] | l # ls \<Rightarrow> (c # l) # ls))"

definition str_field :: "(string \<times> jsval) list \<Rightarrow> string \<Rightarrow> string option" where
  "str_field kvs k = (case map_of kvs k of Some (VStr s) \<Rightarrow> Some s | _ \<Rightarrow> None)"

definition opt_field :: "(string \<times> jsval) list \<Rightarrow> string \<Rightarrow> string option option" where
  "opt_field kvs k = (case map_of kvs k of None \<Rightarrow> Some None | Some (VStr s) \<Rightarrow> Some (Some s) | _ \<Rightarrow> None)"

definition obj_field :: "(string \<times> jsval) list \<Rightarrow> string \<Rightarrow> (string \<times> jsval) list option option" where
  "obj_field kvs k = (case map_of kvs k of None \<Rightarrow> Some None | Some (VObj o1) \<Rightarrow> Some (Some o1) | _ \<Rightarrow> None)"

definition parse_decision :: "string \<Rightarrow> Decision option" where
  "parse_decision s = (if s = ''allowed'' then Some Allowed else if s = ''denied'' then Some Denied
     else if s = ''overridden'' then Some Overridden else None)"

text \<open>The cast of a parsed line to an entry; \<open>None\<close> when its fields do not have the declared types.\<close>

definition entry_of_json :: "jsval \<Rightarrow> AuditEntry option" where
  "entry_of_json v = (case v of
     VObj kvs \<Rightarrow>
       (case (opt_field kvs ''schemaVersion'', str_field kvs ''id'', str_field kvs ''timestamp'') of
          (Some sv, Some i, Some ts) \<Rightarrow>
            (case (str_field kvs ''actor'', str_field kvs ''action'', str_field kvs ''resource'') of
               (Some ac, Some an, Some re) \<Rightarrow>
                 (case (opt_field kvs ''policy'', Option.bind (str_field kvs ''decision'') parse_decision,
                        obj_field kvs ''details'') of
                    (Some po, Some de, Some dt) \<Rightarrow>
                      (case (opt_field kvs ''hash'', opt_field kvs ''previousHash'') of
                         (Some h, Some ph) \<Rightarrow> Some \<lparr>aeSchema = sv, aeId = i, aeTimestamp = ts,
                            aeActor = ac, aeAction = an, aeResource = re, aePolicy = po,
                            aeDecision = de, aeDetails = dt, aeHash = h, aePrev = ph\<rparr>
                       | _ \<Rightarrow> None)
                  | _ \<Rightarrow> None)
             | _ \<Rightarrow> None)
        | _ \<Rightarrow> None)
   | _ \<Rightarrow> None)"

definition loadEntriesFromFile :: "string option \<Rightarrow> AuditEntry list option" where
  "loadEntriesFromFile file = (case file of
     None \<Rightarrow> Some []
   | Some content \<Rightarrow> those (map (\<lambda>l. Option.bind (jsonParse l) entry_of_json)
       (filter (\<lambda>l. l \<noteq> []) (split_lines (trim content)))))"

definition verifyFileIntegrity :: "(string \<Rightarrow> string) \<Rightarrow> string option \<Rightarrow> IntegrityResult option" where
  "verifyFileIntegrity sha file = Option.bind (loadEntriesFromFile file) (verifyIntegrity sha)"

section \<open>The in-memory sink\<close>

record MemorySink =
  msEntries :: "AuditEntry list"
  msClosed :: bool

definition createInMemoryAuditSink :: MemorySink where
  "createInMemoryAuditSink = \<lparr>msEntries = [], msClosed = False\<rparr>"

definition sink_write :: "AuditEntry \<Rightarrow> MemorySink \<Rightarrow> MemorySink option" where
  "sink_write e s = (if msClosed s then None else Some (s\<lparr>msEntries := msEntries s @ [e]\<rparr>))"

definition sink_query :: "AuditFilter \<Rightarrow> MemorySink \<Rightarrow> AuditEntry list option" where
  "sink_query f s = (if msClosed s then None else Some (filter (\<lambda>e. matchesFilter e f) (msEntries s)))"

definition sink_rotate :: "MemorySink \<Rightarrow> MemorySink" where
  "sink_rotate s = s\<lparr>msEntries := []\<rparr>"

definition sink_close :: "MemorySink \<Rightarrow> MemorySink" where
  "sink_close s = s\<lparr>msClosed := True\<rparr>"

definition getEntries :: "MemorySink \<Rightarrow> AuditEntry list" where
  "getEntries s = msEntries s"

definition getEntryCount :: "MemorySink \<Rightarrow> nat" where
  "getEntryCount s = length (msEntries s)"

section \<open>The signed logger\<close>

record SigningKey =
  skId :: string
  skSecret :: string
  skAlgorithm :: "string option"

record SignedEntry =
  seEntry :: AuditEntry
  seSignature :: string
  seKeyId :: string

record SignedLog =
  slInner :: AuditState
  slKey :: SigningKey
  slEntries :: "SignedEntry list"
  slHistory :: "(string, SigningKey) jsmap"

type_synonym hmac = "string \<Rightarrow> string \<Rightarrow> string \<Rightarrow> string"

definition signature_fields :: "AuditEntry \<Rightarrow> jsval" where
  "signature_fields e = VObj
     [(''id'', VStr (aeId e)), (''timestamp'', VStr (aeTimestamp e)), (''actor'', VStr (aeActor e)),
      (''action'', VStr (aeAction e)), (''resource'', VStr (aeResource e)),
      (''hash'', opt_str (aeHash e)), (''previousHash'', opt_str (aePrev e))]"

definition signEntry :: "hmac \<Rightarrow> AuditEntry \<Rightarrow> SigningKey \<Rightarrow> string" where
  "signEntry hm e k =
     (let algo = (case skAlgorithm k of None \<Rightarrow> ''sha256'' | Some a \<Rightarrow> a);
          payload = (case jsonStringify (signature_fields e) of None \<Rightarrow> [] | Some t \<Rightarrow> t)
      in hm algo (skSecret k) payload)"

definition verifySignature :: "hmac \<Rightarrow> SignedEntry \<Rightarrow> SigningKey \<Rightarrow> bool" where
  "verifySignature hm s k = (signEntry hm (seEntry s) k = seSignature s)"

definition createSignedAuditLog :: "SigningKey \<Rightarrow> string option \<Rightarrow> SignedLog" where
  "createSignedAuditLog k file = \<lparr>slInner = createAuditLog file, slKey = k, slEntries = [],
     slHistory = [(skId k, k)]\<rparr>"

definition signed_record ::
  "(string \<Rightarrow> string) \<Rightarrow> hmac \<Rightarrow> clock \<Rightarrow> PartialEntry \<Rightarrow> SignedLog \<Rightarrow> SignedEntry option \<times> SignedLog" where
  "signed_record sha hm clk p sl =
     (let r = record_entry sha clk p (slInner sl); sl1 = sl\<lparr>slInner := snd r\<rparr> in
      case fst r of
        None \<Rightarrow> (None, sl1)
      | Some e \<Rightarrow>
          (let s = \<lparr>seEntry = e, seSignature = signEntry hm e (slKey sl), seKeyId = skId (slKey sl)\<rparr>
           in (Some s, sl1\<lparr>slEntries := slEntries sl @ [s]\<rparr>)))"

definition signature_ok :: "hmac \<Rightarrow> (string, SigningKey) jsmap \<Rightarrow> SignedEntry \<Rightarrow> bool" where
  "signature_ok hm keys s = (case map_of keys (seKeyId s) of
     None \<Rightarrow> False | Some k \<Rightarrow> verifySignature hm s k)"

fun first_invalid :: "hmac \<Rightarrow> (string, SigningKey) jsmap \<Rightarrow> nat \<Rightarrow> SignedEntry list \<Rightarrow> nat option" where
  "first_invalid hm keys i [] = None"
| "first_invalid hm keys i (s # ss) =
     (if \<not> signature_ok hm keys s then Some i else first_invalid hm keys (Suc i) ss)"

record SignedIntegrityResult =
  sirChain :: IntegrityResult
  sirSignaturesValid :: bool
  sirInvalidAt :: "nat option"

definition signed_verifyIntegrity ::
  "(string \<Rightarrow> string) \<Rightarrow> hmac \<Rightarrow> SignedLog \<Rightarrow> SignedIntegrityResult option" where
  "signed_verifyIntegrity sha hm sl =
     (case verifyIntegrity sha (auditLog (slInner sl)) of
        None \<Rightarrow> None
      | Some c \<Rightarrow> (let bad = first_invalid hm (slHistory sl) 0 (slEntries sl)
          in Some \<lparr>sirChain = c, sirSignaturesValid = (bad = None), sirInvalidAt = bad\<rparr>))"

definition rotateKey :: "SigningKey \<Rightarrow> SignedLog \<Rightarrow> SignedLog" where
  "rotateKey k sl = sl\<lparr>slKey := k, slHistory := map_set (skId k) k (slHistory sl)\<rparr>"

end
