(* ===== verification/JsonFacts.thy ===== *)
theory JsonFacts
  imports Json
begin

text \<open>
  \<open>canonicalize\<close> and \<open>JSON.stringify\<close> as a normal form followed by one printer, and the parser
  inverting that printer.
\<close>

section \<open>Normal forms and the printer\<close>

fun canon :: "jsval \<Rightarrow> jsval option" where
  "canon VNull = Some VNull"
| "canon (VBool b) = Some (VBool b)"
| "canon VNonFinite = None"
| "canon (VInt i) = Some (VInt i)"
| "canon (VStr s) = Some (VStr s)"
| "canon (VArr vs) =
     map_option VArr (those (map (\<lambda>v. if v = VUndef then Some VNull else canon v) vs))"
| "canon (VObj kvs) =
     map_option VObj (those (map (\<lambda>p. map_option (Pair (fst p)) (canon (snd p)))
       (sort_by key_cmp (filter defined kvs))))"
| "canon VUndef = None"
| "canon VOther = None"

fun stripped :: "jsval \<Rightarrow> jsval option" where
  "stripped VNull = Some VNull"
| "stripped (VBool b) = Some (VBool b)"
| "stripped VNonFinite = Some VNull"
| "stripped (VInt i) = Some (VInt i)"
| "stripped (VStr s) = Some (VStr s)"
| "stripped (VArr vs) = Some (VArr (map (\<lambda>v. case stripped v of None \<Rightarrow> VNull | Some w \<Rightarrow> w) vs))"
| "stripped (VObj kvs) = Some (VObj (concat (map (\<lambda>p. case stripped (snd p) of
       None \<Rightarrow> [] | Some w \<Rightarrow> [(fst p, w)]) kvs)))"
| "stripped VUndef = None"
| "stripped VOther = None"

fun json_text :: "jsval \<Rightarrow> string" where
  "json_text VNull = ''null''"
| "json_text (VBool b) = bool_text b"
| "json_text VNonFinite = ''null''"
| "json_text (VInt i) = int_text i"
| "json_text (VStr s) = quote s"
| "json_text (VArr vs) = bracket (map json_text vs)"
| "json_text (VObj kvs) = brace (map (\<lambda>p. member (fst p) (json_text (snd p))) kvs)"
| "json_text VUndef = ''null''"
| "json_text VOther = ''null''"

fun is_json :: "jsval \<Rightarrow> bool" where
  "is_json VNull = True"
| "is_json (VBool b) = True"
| "is_json VNonFinite = False"
| "is_json (VInt i) = True"
| "is_json (VStr s) = True"
| "is_json (VArr vs) = list_all is_json vs"
| "is_json (VObj kvs) = (distinct (map fst kvs) \<and> list_all (\<lambda>p. is_json (snd p)) kvs)"
| "is_json VUndef = False"
| "is_json VOther = False"

text \<open>An object has each key once.\<close>

fun js_ok :: "jsval \<Rightarrow> bool" where
  "js_ok (VArr vs) = list_all js_ok vs"
| "js_ok (VObj kvs) = (distinct (map fst kvs) \<and> list_all (\<lambda>p. js_ok (snd p)) kvs)"
| "js_ok VNull = True"
| "js_ok VUndef = True"
| "js_ok (VBool b) = True"
| "js_ok (VInt i) = True"
| "js_ok VNonFinite = True"
| "js_ok (VStr s) = True"
| "js_ok VOther = True"

lemma those_map_option: "those (map (\<lambda>x. map_option f (g x)) xs) = map_option (map f) (those (map g xs))"
proof (induction xs)
  case (Cons x xs)
  then show ?case by (cases "g x") (simp_all add: option.map_comp comp_def)
qed simp

lemma those_eq_Some: "those (map g xs) = Some ys \<Longrightarrow> length ys = length xs \<and> (\<forall>i < length xs. g (xs ! i) = Some (ys ! i))"
proof (induction xs arbitrary: ys)
  case (Cons x xs)
  then obtain y ys' where "g x = Some y" "those (map g xs) = Some ys'" "ys = y # ys'"
    by (auto split: option.splits)
  with Cons.IH [of ys'] show ?case by (auto simp: nth_Cons split: nat.splits)
qed simp

theorem canonicalize_text: "canonicalize v = map_option json_text (canon v)"
proof (induction v rule: canonicalize.induct)
  case (6 vs)
  have "map (\<lambda>v. if v = VUndef then Some ''null'' else canonicalize v) vs
    = map (\<lambda>v. map_option json_text (if v = VUndef then Some VNull else canon v)) vs"
    using 6 by simp
  then show ?case
    by (simp only: canonicalize.simps canon.simps those_map_option option.map_comp)
      (simp add: comp_def)
next
  case (7 kvs)
  let ?ps = "sort_by key_cmp (filter defined kvs)"
  have eq: "map (\<lambda>p. map_option (member (fst p)) (canonicalize (snd p))) ?ps
    = map (\<lambda>p. map_option (\<lambda>p. member (fst p) (json_text (snd p)))
        (map_option (Pair (fst p)) (canon (snd p)))) ?ps"
    using 7 by (simp add: option.map_comp comp_def)
  show ?case
    unfolding canonicalize.simps canon.simps eq those_map_option by (simp add: option.map_comp comp_def)
qed simp_all

theorem stringify_text: "jsonStringify v = map_option json_text (stripped v)"
proof (induction v rule: jsonStringify.induct)
  case (6 vs)
  have "map (\<lambda>v. case jsonStringify v of None \<Rightarrow> ''null'' | Some t \<Rightarrow> t) vs
    = map (\<lambda>v. json_text (case stripped v of None \<Rightarrow> VNull | Some w \<Rightarrow> w)) vs"
    using 6 by (simp split: option.split)
  then show ?case
    by (simp only: jsonStringify.simps stripped.simps option.map json_text.simps map_map comp_def)
next
  case (7 kvs)
  have "map (\<lambda>p. case jsonStringify (snd p) of None \<Rightarrow> [] | Some t \<Rightarrow> [member (fst p) t]) kvs
    = map (\<lambda>p. map (\<lambda>p. member (fst p) (json_text (snd p))) (case stripped (snd p) of
       None \<Rightarrow> [] | Some w \<Rightarrow> [(fst p, w)])) kvs"
    using 7 by (simp split: option.split)
  then show ?case
    by (simp only: jsonStringify.simps stripped.simps option.map json_text.simps map_concat map_map comp_def)
qed simp_all

section \<open>Characters, strings and numbers read back\<close>

lemma char_code_of [simp]: "n < 256 \<Longrightarrow> char_code (char_of n) = n"
  by (simp add: char_code_def)

lemma char_of_code [simp]: "char_of (char_code c) = c"
  by (simp add: char_code_def)

lemma char_code_eq: "char_code c = char_code d \<longleftrightarrow> c = d"
  by (simp add: char_code_def)

lemma unhex_digit [simp]: "n < 16 \<Longrightarrow> unhex (hex_digit n) = Some n"
  by (auto simp: unhex_def hex_digit_def is_digit_def)

lemma parse_str_quote: "parse_str (CHR 0x22 # r) = Some ([], r)"
  by (simp add: parse_str.simps)

lemma unesc_hex_code: "char_code c < 32 \<Longrightarrow>
  unesc_hex (CHR ''0'') (CHR ''0'') (hex_digit (char_code c div 16)) (hex_digit (char_code c mod 16)) = Some c"
proof -
  assume "char_code c < 32"
  then have "char_code c div 16 < 16" by simp
  moreover have "16 * (char_code c div 16) + char_code c mod 16 = char_code c" by simp
  ultimately show ?thesis by (simp add: unesc_hex_def)
qed

lemma parse_str_esc: "parse_str (esc_char c @ r) = map_option (apfst (Cons c)) (parse_str r)"
proof (cases "c \<in> {CHR 0x22, CHR 0x5C, CHR 0x08, CHR 0x0C, CHR 0x0A, CHR 0x0D, CHR 0x09}")
  case True
  then show ?thesis
    by (elim insertE emptyE) (simp_all add: esc_char_def unesc_def parse_str.simps(2))
next
  case False
  then have ne: "c \<noteq> CHR 0x22" "c \<noteq> CHR 0x5C" "c \<noteq> CHR 0x08" "c \<noteq> CHR 0x0C" "c \<noteq> CHR 0x0A"
    "c \<noteq> CHR 0x0D" "c \<noteq> CHR 0x09" by auto
  show ?thesis
  proof (cases "char_code c < 32")
    case True
    with ne have "esc_char c = [CHR 0x5C, CHR ''u'', CHR ''0'', CHR ''0'',
          hex_digit (char_code c div 16), hex_digit (char_code c mod 16)]" by (simp add: esc_char_def)
    with unesc_hex_code [OF True] show ?thesis by (simp add: parse_str.simps(2))
  next
    case False
    with ne have "esc_char c = [c]" by (simp add: esc_char_def)
    with ne False show ?thesis by (simp add: parse_str.simps(2))
  qed
qed

lemma parse_str_back: "parse_str (concat (map esc_char s) @ CHR 0x22 # r) = Some (s, r)"
  by (induction s) (simp_all add: parse_str_quote parse_str_esc)

lemma digit_code: "d < 10 \<Longrightarrow> is_digit (char_of (48 + d)) \<and> char_code (char_of (48 + d)) = 48 + d"
  by (simp add: is_digit_def)

lemma nat_text_digits: "nat_text n \<noteq> [] \<and> list_all is_digit (nat_text n)"
proof (induction n rule: nat_text.induct)
  case (1 n)
  then show ?case
    by (subst (1 2) nat_text.simps) (auto simp: digit_code)
qed

lemma nat_value_snoc: "nat_value (ds @ [d]) = 10 * nat_value ds + (char_code d - 48)"
  by (simp add: nat_value_def)

lemma nat_value_text: "nat_value (nat_text n) = n"
proof (induction n rule: nat_text.induct)
  case (1 n)
  show ?case
  proof (cases "n < 10")
    case True
    then show ?thesis by (subst nat_text.simps) (simp add: nat_value_def)
  next
    case False
    with 1 digit_code [of "n mod 10"] show ?thesis
      by (subst nat_text.simps) (simp add: nat_value_snoc)
  qed
qed

lemma nat_text_lead: "0 < n \<Longrightarrow> hd (nat_text n) \<noteq> CHR ''0''"
proof (induction n rule: nat_text.induct)
  case (1 n)
  show ?case
  proof (cases "n < 10")
    case True
    have "char_code (char_of (48 + n)) = 48 + n" using True by simp
    moreover have "char_code (CHR ''0'') = 48" by (simp add: char_code_def)
    ultimately have "char_of (48 + n) \<noteq> CHR ''0''" using 1(2) by (metis add_cancel_right_right less_numeral_extra(3))
    with True show ?thesis by (subst nat_text.simps) simp
  next
    case False
    with 1 nat_text_digits [of "n div 10"] show ?thesis by (subst nat_text.simps) simp
  qed
qed

text \<open>What may follow a value.\<close>

definition delim :: "string \<Rightarrow> bool" where
  "delim r = (r = [] \<or> hd r = CHR '','' \<or> hd r = CHR '']'' \<or> hd r = CHR ''}'')"

lemma delim_props: "delim r \<Longrightarrow> takeWhile is_digit r = [] \<and> dropWhile is_digit r = r \<and> skip_ws r = r"
  by (cases r) (auto simp: delim_def is_digit_def char_code_def skip_ws_def is_ws_def)

lemma parse_nat_back: "delim r \<Longrightarrow> parse_nat (nat_text n @ r) = Some (n, r)"
proof -
  assume r: "delim r"
  have all: "\<forall>c \<in> set (nat_text n). is_digit c" using nat_text_digits [of n] by (simp add: list_all_iff)
  then have "takeWhile is_digit (nat_text n @ r) = nat_text n" "dropWhile is_digit (nat_text n @ r) = r"
    using delim_props [OF r] by (simp_all add: takeWhile_append2 dropWhile_append2)
  moreover have "hd (nat_text n) = CHR ''0'' \<Longrightarrow> length (nat_text n) = 1"
    using nat_text_lead [of n] by (cases "n = 0") (simp_all add: nat_text.simps)
  ultimately show ?thesis
    using nat_text_digits [of n] by (auto simp: parse_nat_def Let_def nat_value_text)
qed

lemma parse_int_back: "delim r \<Longrightarrow> parse_int (int_text i @ r) = Some (VInt i, r)"
proof -
  assume r: "delim r"
  show ?thesis
  proof (cases "i < 0")
    case True
    with parse_nat_back [OF r] show ?thesis by (simp add: int_text_def parse_int_def)
  next
    case False
    obtain d ds where ds: "nat_text (nat i) = d # ds" "is_digit d"
      using nat_text_digits [of "nat i"] by (cases "nat_text (nat i)") auto
    then have "d \<noteq> CHR ''-''" by (auto simp: is_digit_def char_code_def)
    with False ds parse_nat_back [OF r, of "nat i"] show ?thesis by (simp add: int_text_def parse_int_def)
  qed
qed

section \<open>The parser inverts the printer\<close>

text \<open>The first character of a value's text selects the parser's branch.\<close>

definition starts :: "string \<Rightarrow> bool" where
  "starts t = (t \<noteq> [] \<and> \<not> is_ws (hd t) \<and> hd t \<noteq> CHR '']'' \<and> hd t \<noteq> CHR ''}'')"

definition plain_char :: "char \<Rightarrow> bool" where
  "plain_char c = (c \<noteq> CHR ''n'' \<and> c \<noteq> CHR ''t'' \<and> c \<noteq> CHR ''f'' \<and> c \<noteq> CHR 0x22 \<and> c \<noteq> CHR ''[''
     \<and> c \<noteq> CHR ''{'' \<and> c \<noteq> CHR '']'' \<and> c \<noteq> CHR ''}'' \<and> \<not> is_ws c)"

lemma digit_plain: "is_digit c \<Longrightarrow> plain_char c"
  by (auto simp: is_digit_def plain_char_def is_ws_def char_code_def)

lemma int_text_starts: obtains c cs where "int_text i = c # cs" "plain_char c"
proof (cases "i < 0")
  case True
  have "plain_char (CHR ''-'')" by (simp add: plain_char_def is_ws_def)
  with True that show ?thesis by (simp add: int_text_def)
next
  case False
  obtain d ds where "nat_text (nat i) = d # ds" "is_digit d"
    using nat_text_digits [of "nat i"] by (cases "nat_text (nat i)") auto
  with False that [of d ds] digit_plain show ?thesis by (simp add: int_text_def)
qed

lemma json_text_starts: "is_json v \<Longrightarrow> starts (json_text v)"
proof (cases v)
  case (VInt i)
  obtain c cs where "int_text i = c # cs" "plain_char c" by (rule int_text_starts)
  with VInt show ?thesis by (simp add: starts_def plain_char_def)
qed (auto simp: starts_def bool_text_def is_ws_def quote_def bracket_def brace_def)

lemma skip_ws_start: "starts t \<Longrightarrow> skip_ws (t @ r) = t @ r"
  by (cases t) (simp_all add: starts_def skip_ws_def)

lemma skip_ws_char: "\<not> is_ws c \<Longrightarrow> skip_ws (c # r) = c # r"
  by (simp add: skip_ws_def)

definition parses :: "jsval \<Rightarrow> bool" where
  "parses v \<longleftrightarrow> (\<forall>n r. length (json_text v) < n \<longrightarrow> delim r \<longrightarrow> parse_val n (json_text v @ r) = Some (v, r))"

lemma parses_atoms: "parses VNull" "parses (VBool b)" "parses (VStr s)" "parses (VInt i)"
proof -
  show "parses VNull"
    by (auto simp: parses_def skip_ws_char is_ws_def parse_word_def strip_prefix_def gr0_conv_Suc dest!: gr_implies_not0 not0_implies_Suc)
  show "parses (VBool b)"
    by (cases b) (auto simp: parses_def bool_text_def skip_ws_char is_ws_def parse_word_def strip_prefix_def dest!: gr_implies_not0 not0_implies_Suc)
  show "parses (VStr s)"
    by (auto simp: parses_def quote_def skip_ws_char is_ws_def parse_str_back dest!: gr_implies_not0 not0_implies_Suc)
  show "parses (VInt i)"
    unfolding parses_def
  proof (intro allI impI)
    fix n r assume n: "length (json_text (VInt i)) < n" and r: "delim r"
    then obtain m where m: "n = Suc m" by (cases n) auto
    obtain c cs where c: "int_text i = c # cs" "plain_char c" by (rule int_text_starts)
    then have "\<not> is_ws c" by (simp add: plain_char_def)
    with c parse_int_back [OF r, of i] show "parse_val n (json_text (VInt i) @ r) = Some (VInt i, r)"
      by (simp add: m skip_ws_char plain_char_def)
  qed
qed

lemma parse_elems_back:
  "vs \<noteq> [] \<Longrightarrow> \<forall>v \<in> set vs. is_json v \<and> parses v \<Longrightarrow> Suc (length (join '','' (map json_text vs))) < n \<Longrightarrow>
   parse_elems n (join '','' (map json_text vs) @ CHR '']'' # r) = Some (vs, r)"
proof (induction vs arbitrary: n)
  case (Cons v vs)
  from Cons.prems(3) obtain m where m: "n = Suc m" by (cases n) auto
  show ?case
  proof (cases vs)
    case Nil
    then have "parse_val m (json_text v @ CHR '']'' # r) = Some (v, CHR '']'' # r)"
      using Cons.prems m by (simp add: parses_def delim_def)
    with Nil m show ?thesis by (simp add: skip_ws_char is_ws_def)
  next
    case more: (Cons w ws)
    let ?rest = "join '','' (map json_text vs) @ CHR '']'' # r"
    have shape: "join '','' (map json_text (v # vs)) @ CHR '']'' # r = json_text v @ CHR '','' # ?rest"
      using more by simp
    have len: "Suc (length (json_text v)) + length (join '','' (map json_text vs)) = length (join '','' (map json_text (v # vs)))"
      using more by simp
    have "parse_val m (json_text v @ CHR '','' # ?rest) = Some (v, CHR '','' # ?rest)"
      using Cons.prems len m by (simp add: parses_def delim_def)
    moreover have "parse_elems m ?rest = Some (vs, r)"
      by (rule Cons.IH) (use more Cons.prems len m in auto)
    ultimately show ?thesis unfolding shape m by (simp add: skip_ws_char is_ws_def)
  qed
qed simp

definition member_text :: "string \<times> jsval \<Rightarrow> string" where
  "member_text p = member (fst p) (json_text (snd p))"

lemma member_shape: "member_text (k, v) @ r = CHR 0x22 # concat (map esc_char k) @ CHR 0x22 # CHR '':'' # json_text v @ r"
  by (simp add: member_text_def member_def quote_def)

lemma parse_members_step:
  assumes "parse_val m (json_text v @ c # r) = Some (v, c # r)" and "\<not> is_ws c"
  shows "parse_members (Suc m) (member_text (k, v) @ c # r) =
    (if c = CHR '','' then map_option (apfst (Cons (k, v))) (parse_members m r)
     else if c = CHR ''}'' then Some ([(k, v)], r) else None)"
proof -
  have a: "skip_ws (member_text (k, v) @ c # r) = member_text (k, v) @ c # r"
    by (simp add: member_shape skip_ws_char is_ws_def)
  have b: "skip_ws (CHR '':'' # json_text v @ c # r) = CHR '':'' # json_text v @ c # r"
    by (simp add: skip_ws_char is_ws_def)
  show ?thesis
    unfolding parse_members.simps a unfolding member_shape
    by (simp add: parse_str_back b assms skip_ws_char)
qed

lemma parse_members_back:
  "kvs \<noteq> [] \<Longrightarrow> \<forall>p \<in> set kvs. parses (snd p) \<Longrightarrow> Suc (length (join '','' (map member_text kvs))) < n \<Longrightarrow>
   parse_members n (join '','' (map member_text kvs) @ CHR ''}'' # r) = Some (kvs, r)"
proof (induction kvs arbitrary: n)
  case (Cons p kvs)
  obtain k v where p: "p = (k, v)" by (cases p)
  from Cons.prems(3) obtain m where m: "n = Suc m" by (cases n) auto
  have len_v: "length (json_text v) < length (member_text (k, v))"
    by (simp add: member_text_def member_def quote_def)
  show ?case
  proof (cases kvs)
    case Nil
    then have "parse_val m (json_text v @ CHR ''}'' # r) = Some (v, CHR ''}'' # r)"
      using Cons.prems m p len_v by (simp add: parses_def delim_def)
    from parse_members_step [OF this, of k] Nil m p show ?thesis by (simp add: is_ws_def)
  next
    case more: (Cons w ws)
    let ?rest = "join '','' (map member_text kvs) @ CHR ''}'' # r"
    have shape: "join '','' (map member_text (p # kvs)) @ CHR ''}'' # r = member_text (k, v) @ CHR '','' # ?rest"
      using more p by simp
    have len: "Suc (length (member_text (k, v))) + length (join '','' (map member_text kvs))
      = length (join '','' (map member_text (p # kvs)))"
      using more p by simp
    have val: "parse_val m (json_text v @ CHR '','' # ?rest) = Some (v, CHR '','' # ?rest)"
      using Cons.prems len len_v m p by (simp add: parses_def delim_def)
    have rest: "parse_members m ?rest = Some (kvs, r)"
      by (rule Cons.IH) (use more Cons.prems len m in auto)
    show ?thesis
      unfolding shape m by (subst parse_members_step [OF val]) (simp_all add: is_ws_def rest p)
  qed
qed simp

lemma fold_map_set_fresh:
  "distinct (map fst kvs) \<Longrightarrow> set (map fst kvs) \<inter> set (map fst m) = {} \<Longrightarrow>
   fold (\<lambda>(k, v) m. map_set k v m) kvs m = m @ kvs"
proof (induction kvs arbitrary: m)
  case (Cons p kvs)
  obtain k v where p: "p = (k, v)" by (cases p)
  have "k \<notin> fst ` set m" using Cons.prems p by auto
  then have "map_set k v m = m @ [(k, v)]"
    by (induction m) (auto simp: map_set_def)
  with Cons p show ?case by auto
qed simp

theorem json_text_parses: "is_json v \<Longrightarrow> parses v"
proof (induction v rule: is_json.induct)
  case (6 vs)
  show ?case
    unfolding parses_def
  proof (intro allI impI)
    fix n r assume n: "length (json_text (VArr vs)) < n" and r: "delim r"
    then obtain m where m: "n = Suc m" by (cases n) auto
    have len: "length (json_text (VArr vs)) = 2 + length (join '','' (map json_text vs))" by (simp add: bracket_def)
    show "parse_val n (json_text (VArr vs) @ r) = Some (VArr vs, r)"
    proof (cases "vs = []")
      case True
      then show ?thesis by (simp add: m bracket_def skip_ws_char is_ws_def)
    next
      case False
      then obtain w ws where vs: "vs = w # ws" by (cases vs) auto
      let ?j = "join '','' (map json_text vs)"
      have start: "starts ?j"
      proof -
        have "starts (json_text w)" using 6(2) vs json_text_starts by simp
        then show ?thesis using vs by (cases ws) (auto simp: starts_def)
      qed
      have "parse_elems m (?j @ CHR '']'' # r) = Some (vs, r)"
        by (rule parse_elems_back) (use False 6 n m len in \<open>auto simp: list_all_iff\<close>)
      moreover have "take 1 (skip_ws (?j @ CHR '']'' # r)) \<noteq> '']''"
        using start by (cases ?j) (simp_all add: skip_ws_start starts_def skip_ws_def)
      ultimately show ?thesis by (simp add: m bracket_def skip_ws_char is_ws_def)
    qed
  qed
next
  case (7 kvs)
  show ?case
    unfolding parses_def
  proof (intro allI impI)
    fix n r assume n: "length (json_text (VObj kvs)) < n" and r: "delim r"
    then obtain m where m: "n = Suc m" by (cases n) auto
    let ?j = "join '','' (map member_text kvs)"
    have body: "json_text (VObj kvs) = ''{'' @ ?j @ ''}''" by (simp add: brace_def member_text_def [abs_def])
    show "parse_val n (json_text (VObj kvs) @ r) = Some (VObj kvs, r)"
    proof (cases "kvs = []")
      case True
      then show ?thesis by (simp add: m brace_def skip_ws_char is_ws_def)
    next
      case False
      then obtain p ps where ps: "kvs = p # ps" by (cases kvs) auto
      then have "\<exists>cs. ?j = CHR 0x22 # cs"
        by (cases p; cases ps) (simp_all add: member_text_def member_def quote_def)
      then have "take 1 (skip_ws (?j @ CHR ''}'' # r)) \<noteq> ''}''" by (auto simp: skip_ws_char is_ws_def)
      moreover have "parse_members m (?j @ CHR ''}'' # r) = Some (kvs, r)"
        by (rule parse_members_back) (use False 7 n m body in \<open>auto simp: list_all_iff\<close>)
      moreover have "fold (\<lambda>(k, v) m. map_set k v m) kvs [] = kvs"
        using 7(2) fold_map_set_fresh [of kvs "[]"] by simp
      ultimately show ?thesis unfolding body by (simp add: m skip_ws_char is_ws_def)
    qed
  qed
qed (simp_all add: parses_atoms)

theorem jsonParse_text: "is_json v \<Longrightarrow> jsonParse (json_text v) = Some v"
  using json_text_parses [of v] by (simp add: parses_def jsonParse_def delim_def skip_ws_def del: parse_val.simps)

section \<open>Normal forms are JSON, and the texts determine them\<close>

lemma those_map_in: "those (map g xs) = Some ys \<Longrightarrow> y \<in> set ys \<Longrightarrow> \<exists>x \<in> set xs. g x = Some y"
proof (induction xs arbitrary: ys)
  case (Cons x xs)
  then obtain z ys' where "g x = Some z" "those (map g xs) = Some ys'" "ys = z # ys'"
    by (auto split: option.splits)
  with Cons.IH [of ys'] Cons.prems(2) show ?case by auto
qed simp

lemma those_map_keys:
  "those (map (\<lambda>p. map_option (Pair (fst p)) (g p)) xs) = Some ys \<Longrightarrow> map fst ys = map fst xs"
proof (induction xs arbitrary: ys)
  case (Cons x xs)
  then show ?case by (auto split: option.splits)
qed simp

lemma distinct_map_sorted: "distinct (map f xs) \<Longrightarrow> distinct (map f (sort_by cmp (filter P xs)))"
  by (simp add: distinct_map) (metis filter_is_subset inj_on_subset distinct_filter set_filter)

lemma canon_json: "js_ok v \<Longrightarrow> canon v = Some c \<Longrightarrow> is_json c"
proof (induction v arbitrary: c rule: canon.induct)
  case (6 vs)
  from 6(3) obtain cs where cs: "those (map (\<lambda>v. if v = VUndef then Some VNull else canon v) vs) = Some cs" "c = VArr cs"
    by auto
  have "is_json d" if "d \<in> set cs" for d
  proof -
    from those_map_in [OF cs(1) that] obtain v where v: "v \<in> set vs"
      "(if v = VUndef then Some VNull else canon v) = Some d" by blast
    with 6(1) [OF v(1)] 6(2) show ?thesis by (auto simp: list_all_iff split: if_splits)
  qed
  with cs show ?case by (simp add: list_all_iff)
next
  case (7 kvs)
  let ?ps = "sort_by key_cmp (filter defined kvs)"
  from 7(3) obtain cs where cs: "those (map (\<lambda>p. map_option (Pair (fst p)) (canon (snd p))) ?ps) = Some cs" "c = VObj cs"
    by auto
  have "distinct (map fst cs)"
    using 7(2) those_map_keys [OF cs(1)] distinct_map_sorted [of fst kvs] by simp
  moreover have "is_json (snd d)" if "d \<in> set cs" for d
  proof -
    from those_map_in [OF cs(1) that] obtain p where p: "p \<in> set ?ps" "map_option (Pair (fst p)) (canon (snd p)) = Some d"
      by blast
    then have "js_ok (snd p)" using 7(2) by (simp add: list_all_iff)
    with 7(1) [OF p(1)] p(2) show ?thesis by auto
  qed
  ultimately show ?case using cs(2) by (simp add: list_all_iff)
qed simp_all

lemma stripped_json: "js_ok v \<Longrightarrow> stripped v = Some c \<Longrightarrow> is_json c"
proof (induction v arbitrary: c rule: stripped.induct)
  case (6 vs)
  have "is_json (case stripped v of None \<Rightarrow> VNull | Some w \<Rightarrow> w)" if "v \<in> set vs" for v
    using 6(1) [OF that] 6(2) that by (simp add: list_all_iff split: option.split)
  with 6(3) show ?case by (auto simp: list_all_iff)
next
  case (7 kvs)
  let ?m = "\<lambda>p. case stripped (snd p) of None \<Rightarrow> [] | Some w \<Rightarrow> [(fst p, w)]"
  have "distinct (map fst (concat (map ?m ps))) \<and> set (map fst (concat (map ?m ps))) \<subseteq> set (map fst ps)"
    if "distinct (map fst ps)" for ps :: "(string \<times> jsval) list"
    using that by (induction ps) (auto split: option.splits)
  then have "distinct (map fst (concat (map ?m kvs)))" using 7(2) by simp
  moreover have each: "is_json (snd q)" if "q \<in> set (concat (map ?m kvs))" for q
  proof -
    from that obtain p where p: "p \<in> set kvs" "stripped (snd p) = Some (snd q)"
      by (auto split: option.splits)
    with 7(1) [OF p(1)] 7(2) show ?thesis by (simp add: list_all_iff)
  qed
  moreover have "list_all (\<lambda>q. is_json (snd q)) (concat (map ?m kvs))"
    unfolding list_all_iff using each by blast
  moreover have "c = VObj (concat (map ?m kvs))" using 7(3) by simp
  ultimately show ?case by (simp only: is_json.simps)
qed simp_all

text \<open>\<open>JSON.parse\<close> after \<open>canonicalize\<close> gives the canonical form back, so the text determines it.\<close>

theorem parse_canonicalize:
  assumes "js_ok v" and "canonicalize v = Some s"
  shows "jsonParse s = canon v"
proof -
  from assms(2) obtain c where c: "canon v = Some c" "s = json_text c"
    unfolding canonicalize_text by auto
  with canon_json [OF assms(1)] jsonParse_text show ?thesis by simp
qed

theorem canonicalize_inject:
  assumes "js_ok v" and "js_ok w" and "canonicalize v = Some s" and "canonicalize w = Some s"
  shows "canon v = canon w"
  using parse_canonicalize [OF assms(1,3)] parse_canonicalize [OF assms(2,4)] by simp

theorem parse_stringify:
  assumes "js_ok v" and "jsonStringify v = Some s"
  shows "jsonParse s = stripped v"
proof -
  from assms(2) obtain c where c: "stripped v = Some c" "s = json_text c"
    unfolding stringify_text by auto
  with stripped_json [OF assms(1)] jsonParse_text show ?thesis by simp
qed

end
