(* ===== verification/AuditFacts.thy ===== *)
theory AuditFacts
  imports AuditLog JsonFacts
begin

text \<open>
  Facts behind the audit log's properties: the key order is a comparator, the payload of an entry
  determines its content, the chain of a recorded log verifies, the file reads back.
\<close>

section \<open>The key order\<close>

lemma key_less_irrefl [simp]: "\<not> str_less s s"
  by (induction s) auto

lemma str_less_total: "s = t \<or> str_less s t \<or> str_less t s"
proof (induction s t rule: str_less.induct)
  case (3 a s b t)
  then show ?case using char_code_eq [of a b] by (auto dest: linorder_neqE_nat)
qed (auto intro: str_less.elims)

lemma key_less_trans: "str_less s t \<Longrightarrow> str_less t u \<Longrightarrow> str_less s u"
proof (induction s t arbitrary: u rule: str_less.induct)
  case (2 b t)
  then show ?case by (cases u) auto
next
  case (3 a s b t)
  then show ?case by (cases u) auto
qed simp

lemma code_unit_le: "code_unit_cmp s t \<le> 0 \<longleftrightarrow> s = t \<or> str_less s t"
  by (simp add: code_unit_cmp_def)

interpretation key_order: comparator key_cmp
proof
  show "key_cmp x y \<le> 0 \<or> key_cmp y x \<le> 0" for x y :: "string \<times> 'v"
    using str_less_total [of "fst x" "fst y"] by (auto simp: key_cmp_def code_unit_le)
  show "key_cmp x y \<le> 0 \<Longrightarrow> key_cmp y z \<le> 0 \<Longrightarrow> key_cmp x z \<le> 0" for x y z :: "string \<times> 'v"
    by (auto simp: key_cmp_def code_unit_le intro: key_less_trans)
qed

lemma key_cmp_antisym: "key_cmp a b \<le> 0 \<Longrightarrow> key_cmp b a \<le> 0 \<Longrightarrow> fst a = fst b"
  by (auto simp: key_cmp_def code_unit_le dest: key_less_trans)

lemma sorted_keys_unique:
  assumes "sorted_wrt (\<lambda>a b. key_cmp a b \<le> 0) xs" and "sorted_wrt (\<lambda>a b. key_cmp a b \<le> 0) ys"
    and "mset xs = mset ys" and "distinct (map fst xs)"
  shows "xs = ys"
  using assms
proof (induction xs arbitrary: ys)
  case (Cons x xs)
  then obtain y ys' where ys: "ys = y # ys'" by (cases ys) auto
  have same: "set (x # xs) = set ys" using Cons.prems(3) by (metis mset_eq_setD)
  have "x = y"
  proof (rule ccontr)
    assume ne: "x \<noteq> y"
    with same ys have "x \<in> set ys'" "y \<in> set xs" by auto
    with Cons.prems(1,2) ys have "key_cmp x y \<le> 0" "key_cmp y x \<le> 0" by auto
    from key_cmp_antisym [OF this] \<open>y \<in> set xs\<close> Cons.prems(4) show False by auto
  qed
  with Cons ys show ?case by auto
qed simp

lemma sort_keys_perm:
  assumes "mset kvs = mset kvs'" and "distinct (map fst kvs)"
  shows "sort_by key_cmp kvs = sort_by key_cmp kvs'"
proof (rule sorted_keys_unique)
  have "distinct (map fst (sort_by key_cmp kvs)) = distinct (map fst kvs)"
    by (metis mset_eq_imp_distinct_iff mset_map mset_sort_by)
  with assms(2) show "distinct (map fst (sort_by key_cmp kvs))" by simp
qed (simp_all add: key_order.sorted_sort assms(1))

lemma canonicalize_perm:
  assumes "mset kvs = mset kvs'" and "distinct (map fst kvs)"
  shows "canonicalize (VObj kvs) = canonicalize (VObj kvs')"
proof -
  have a: "mset (filter defined kvs) = mset (filter defined kvs')" using assms(1) by (simp add: mset_filter)
  have b: "distinct (map fst (filter defined kvs))" using assms(2) by (simp add: distinct_map_filter)
  show ?thesis unfolding canonicalize.simps sort_keys_perm [OF a b] ..
qed

section \<open>The members of a normal form\<close>

lemma map_of_sorted: "distinct (map fst kvs) \<Longrightarrow> map_of (sort_by key_cmp kvs) = map_of kvs"
  by (rule map_of_inject_set [THEN iffD2]) (metis mset_eq_imp_distinct_iff mset_map mset_sort_by, simp_all)

lemma map_of_those:
  "those (map (\<lambda>p. map_option (Pair (fst p)) (g (snd p))) xs) = Some ys \<Longrightarrow>
   map_of ys k = Option.bind (map_of xs k) g"
proof (induction xs arbitrary: ys)
  case (Cons x xs)
  then obtain y ys' where "g (snd x) = Some y" "ys = (fst x, y) # ys'"
    "those (map (\<lambda>p. map_option (Pair (fst p)) (g (snd p))) xs) = Some ys'"
    by (auto split: option.splits)
  with Cons.IH [of ys'] show ?case by (cases x) auto
qed simp

lemma canon_members:
  assumes "distinct (map fst kvs)" and "canon (VObj kvs) = Some c"
  obtains cs where "c = VObj cs" "\<And>k. map_of cs k = Option.bind (map_of (filter defined kvs) k) canon"
proof -
  from assms(2) obtain cs where cs: "c = VObj cs"
    "those (map (\<lambda>p. map_option (Pair (fst p)) (canon (snd p))) (sort_by key_cmp (filter defined kvs))) = Some cs"
    by auto
  have "map_of cs k = Option.bind (map_of (filter defined kvs) k) canon" for k
    using map_of_those [OF cs(2)] map_of_sorted [of "filter defined kvs"] assms(1)
    by (simp add: distinct_map_filter)
  with cs(1) that show thesis by blast
qed

lemma stripped_members:
  assumes "distinct (map fst kvs)"
  obtains cs where "stripped (VObj kvs) = Some (VObj cs)" "\<And>k. map_of cs k = Option.bind (map_of kvs k) stripped"
proof -
  let ?m = "\<lambda>p. case stripped (snd p) of None \<Rightarrow> [] | Some w \<Rightarrow> [(fst p, w)]"
  have "map_of (concat (map ?m kvs)) k = Option.bind (map_of kvs k) stripped" for k
    using assms
  proof (induction kvs)
    case (Cons p ps)
    have none: "map_of ps (fst p) = None" using Cons.prems by (simp add: map_of_eq_None_iff)
    show ?case
    proof (cases "stripped (snd p)")
      case None
      with Cons none show ?thesis by (cases p) auto
    next
      case (Some w)
      with Cons none show ?thesis by (cases p) auto
    qed
  qed simp
  with that show thesis by simp
qed

lemma filter_defined_bind:
  assumes "distinct (map fst kvs)" and "g VUndef = None"
  shows "Option.bind (map_of (filter defined kvs) k) g = Option.bind (map_of kvs k) g"
  using assms(1)
proof (induction kvs)
  case (Cons p ps)
  obtain a v where p: "p = (a, v)" by (cases p)
  show ?case
  proof (cases "k = a \<and> v = VUndef")
    case True
    with Cons.prems p have "map_of ps k = None" by (simp add: map_of_eq_None_iff)
    with Cons True p assms(2) show ?thesis by (simp add: defined_def)
  next
    case False
    with Cons p show ?thesis by (auto simp: defined_def)
  qed
qed simp

section \<open>The payload of an entry determines its content\<close>

abbreviation is_v2 :: "AuditEntry \<Rightarrow> bool" where
  "is_v2 e \<equiv> aeSchema e = Some AUDIT_SCHEMA_VERSION"

definition entry_ok :: "AuditEntry \<Rightarrow> bool" where
  "entry_ok e = js_ok (opt_obj (aeDetails e))"

definition normal_details :: "AuditEntry \<Rightarrow> jsval option" where
  "normal_details e = (if is_v2 e then canon (opt_obj (aeDetails e)) else stripped (opt_obj (aeDetails e)))"

definition same_content :: "AuditEntry \<Rightarrow> AuditEntry \<Rightarrow> bool" where
  "same_content e e' \<longleftrightarrow> is_v2 e = is_v2 e' \<and> aeId e = aeId e' \<and> aeTimestamp e = aeTimestamp e'
     \<and> aeActor e = aeActor e' \<and> aeAction e = aeAction e' \<and> aeResource e = aeResource e'
     \<and> aePolicy e = aePolicy e' \<and> aeDecision e = aeDecision e' \<and> normal_details e = normal_details e'"

lemma decision_text_inject [simp]: "decision_text d = decision_text d' \<longleftrightarrow> d = d'"
  by (cases d; cases d'; simp add: decision_text_def)

lemma canon_opt_str [simp]: "canon (opt_str x) = map_option VStr x" "stripped (opt_str x) = map_option VStr x"
  by (cases x; simp add: opt_str_def)+

definition payload_members :: "AuditEntry \<Rightarrow> string option \<Rightarrow> (string \<times> jsval) list \<Rightarrow> bool" where
  "payload_members e prev cs \<longleftrightarrow>
     map_of cs ''schemaVersion'' = (if is_v2 e then Some (VStr AUDIT_SCHEMA_VERSION) else None)
     \<and> map_of cs ''id'' = Some (VStr (aeId e)) \<and> map_of cs ''timestamp'' = Some (VStr (aeTimestamp e))
     \<and> map_of cs ''actor'' = Some (VStr (aeActor e)) \<and> map_of cs ''action'' = Some (VStr (aeAction e))
     \<and> map_of cs ''resource'' = Some (VStr (aeResource e)) \<and> map_of cs ''policy'' = map_option VStr (aePolicy e)
     \<and> map_of cs ''decision'' = Some (VStr (decision_text (aeDecision e)))
     \<and> map_of cs ''details'' = normal_details e
     \<and> map_of cs ''previousHash'' = (if is_v2 e then map_option VStr prev
         else Some (case prev of None \<Rightarrow> VNull | Some p \<Rightarrow> VStr p))"

lemma payload_parses:
  assumes ok: "entry_ok e" and pay: "entry_payload e prev = Some s"
  obtains cs where "jsonParse s = Some (VObj cs)" "payload_members e prev cs"
proof (cases "is_v2 e")
  case True
  obtain kvs where kvs: "canonical_fields e prev = VObj kvs" "distinct (map fst kvs)"
    by (simp add: canonical_fields_def)
  have s: "canonicalize (VObj kvs) = Some s" using pay True kvs by (simp add: entry_payload_def)
  have js: "js_ok (VObj kvs)"
    unfolding kvs(1) [symmetric] using ok by (simp add: canonical_fields_def entry_ok_def opt_str_def split: option.split)
  from s obtain c where c: "canon (VObj kvs) = Some c" unfolding canonicalize_text by auto
  obtain cs where cs: "c = VObj cs" "\<And>k. map_of cs k = Option.bind (map_of kvs k) canon"
    by (rule canon_members [OF kvs(2) c]) (simp add: filter_defined_bind [OF kvs(2)])
  have "payload_members e prev cs"
    unfolding payload_members_def cs(2) using kvs(1) True
    by (auto simp: canonical_fields_def normal_details_def)
  with parse_canonicalize [OF js s] c cs(1) that show thesis by simp
next
  case False
  obtain kvs where kvs: "legacy_fields e prev = VObj kvs" "distinct (map fst kvs)"
    by (simp add: legacy_fields_def)
  have s: "jsonStringify (VObj kvs) = Some s" using pay False kvs by (simp add: entry_payload_def)
  have js: "js_ok (VObj kvs)"
    unfolding kvs(1) [symmetric] using ok by (simp add: legacy_fields_def entry_ok_def opt_str_def split: option.split)
  obtain cs where cs: "stripped (VObj kvs) = Some (VObj cs)" "\<And>k. map_of cs k = Option.bind (map_of kvs k) stripped"
    using stripped_members [OF kvs(2)] by blast
  have "payload_members e prev cs"
    unfolding payload_members_def cs(2) using kvs(1) False
    by (auto simp: legacy_fields_def normal_details_def split: option.split)
  with parse_stringify [OF js s] cs(1) that show thesis by simp
qed

lemma payload_inject:
  assumes "entry_ok e" and "entry_ok e'" and "entry_payload e prev = Some s" and "entry_payload e' prev' = Some s"
  shows "same_content e e' \<and> prev = prev'"
proof -
  obtain cs where cs: "jsonParse s = Some (VObj cs)" "payload_members e prev cs"
    by (rule payload_parses [OF assms(1,3)])
  obtain cs' where cs': "jsonParse s = Some (VObj cs')" "payload_members e' prev' cs'"
    by (rule payload_parses [OF assms(2,4)])
  have m: "payload_members e' prev' cs" using cs(1) cs' by simp
  have v2: "is_v2 e \<longleftrightarrow> is_v2 e'" using cs(2) m unfolding payload_members_def by (metis option.distinct(1))
  have pol: "map_option VStr (aePolicy e) = map_option VStr (aePolicy e')"
    using cs(2) m unfolding payload_members_def by metis
  then have "aePolicy e = aePolicy e'" by (cases "aePolicy e"; cases "aePolicy e'") simp_all
  moreover have "prev = prev'"
    using cs(2) m v2 unfolding payload_members_def
    by (cases prev; cases prev'; cases "is_v2 e") simp_all
  ultimately show ?thesis
    using cs(2) m v2 unfolding payload_members_def same_content_def by simp
qed

end
