(* ===== verification/AuditProps.thy ===== *)
theory AuditProps
  imports AuditFacts
begin

text \<open>
  What the audit log promises: the canonical text determines the value, a recorded log and its file
  verify, a change that keeps the last hash needs a hash collision, signatures verify as long as key
  ids are not reused.
\<close>

section \<open>Canonical text\<close>

text \<open>C27. Parsing the canonical text of a value gives back its canonical form (undefined members
  dropped, members sorted by key), so two values with the same canonical text agree up to that.\<close>

theorem canonical_roundtrip:
  assumes "js_ok v" and "canonicalize v = Some s"
  shows "jsonParse s = canon v \<and> (\<forall>w. js_ok w \<longrightarrow> canonicalize w = Some s \<longrightarrow> canon w = canon v)"
  using parse_canonicalize [OF assms] canonicalize_inject [OF assms(1) _ assms(2)] by auto

definition demo_value :: jsval where
  "demo_value = VObj [(''b'', VInt (- 12)), (''x'', VUndef), (''a'', VArr [VStr ''q'', VNull])]"

theorem canonical_roundtrip_witness:
  "\<exists>s. canonicalize demo_value = Some s \<and> jsonParse s = canon demo_value
    \<and> (\<forall>w. js_ok w \<longrightarrow> canonicalize w = Some s \<longrightarrow> canon w = canon demo_value)"
proof -
  have "js_ok demo_value" by code_simp
  moreover have "canonicalize demo_value \<noteq> None" by code_simp
  then obtain s where "canonicalize demo_value = Some s" by auto
  ultimately show ?thesis using canonical_roundtrip [of demo_value s] by blast
qed

text \<open>The canonical text of an object does not depend on the order of its members.\<close>

theorem canonical_member_order:
  assumes "mset kvs = mset kvs'" and "distinct (map fst kvs)"
  shows "canonicalize (VObj kvs) = canonicalize (VObj kvs')"
  by (rule canonicalize_perm [OF assms])

theorem canonical_member_order_witness:
  "canonicalize (VObj [(''b'', VNull), (''a'', VInt 3)]) = canonicalize (VObj [(''a'', VInt 3), (''b'', VNull)])"
  by (rule canonical_member_order) simp_all

section \<open>The chain\<close>

lemma payload_hash [simp]: "entry_payload (e\<lparr>aeHash := h\<rparr>) prev = entry_payload e prev"
  by (simp add: entry_payload_def canonical_fields_def legacy_fields_def)

definition linked :: "(string \<Rightarrow> string) \<Rightarrow> string option \<Rightarrow> AuditEntry \<Rightarrow> bool" where
  "linked sha prev e \<longleftrightarrow> aePrev e = prev \<and> aeHash e \<noteq> None \<and> computeEntryHash sha e prev = aeHash e"

fun chained :: "(string \<Rightarrow> string) \<Rightarrow> string option \<Rightarrow> AuditEntry list \<Rightarrow> bool" where
  "chained sha prev [] = True"
| "chained sha prev (e # es) = (linked sha prev e \<and> chained sha (aeHash e) es)"

lemma verify_chained: "verify_chain sha i prev es = Some Valid \<longleftrightarrow> chained sha prev es"
  by (induction es arbitrary: i prev) (auto simp: linked_def split: option.split)

lemma chained_snoc:
  "chained sha prev (es @ [e]) \<longleftrightarrow> chained sha prev es \<and> linked sha (if es = [] then prev else aeHash (last es)) e"
  by (induction es arbitrary: prev) auto

lemma verify_iff: "verifyIntegrity sha es = Some Valid \<longleftrightarrow> chained sha None es"
  by (simp add: verifyIntegrity_def verify_chained)

lemma verify_snoc:
  "verifyIntegrity sha (es @ [e]) = Some Valid \<longleftrightarrow> verifyIntegrity sha es = Some Valid \<and> linked sha (last_hash es) e"
  by (simp add: verify_iff chained_snoc last_hash_def)

definition record_all :: "(string \<Rightarrow> string) \<Rightarrow> (clock \<times> PartialEntry) list \<Rightarrow> AuditState \<Rightarrow> AuditState" where
  "record_all sha ps st = fold (\<lambda>p st. snd (record_entry sha (fst p) (snd p) st)) ps st"

lemma record_cases:
  assumes "record_entry sha clk p st = r"
  obtains (Throws) "fst r = None" "auditLog (snd r) = auditLog st" "sinkFile (snd r) = sinkFile st"
    "computeEntryHash sha (base_entry clk p st) (last_hash (auditLog st)) = None"
  | (Appends) e where "fst r = Some e" "auditLog (snd r) = auditLog st @ [e]"
    "sinkFile (snd r) = map_option (file_write e) (sinkFile st)"
    "linked sha (last_hash (auditLog st)) e" "is_v2 e" "aeDetails e = peDetails p"
proof (cases "computeEntryHash sha (base_entry clk p st) (last_hash (auditLog st))")
  case None
  with assms Throws show thesis by (auto simp: record_entry_def Let_def)
next
  case (Some h)
  let ?e = "(base_entry clk p st)\<lparr>aeHash := Some h\<rparr>"
  have "r = (Some ?e, st\<lparr>counter := Suc (counter st), auditLog := auditLog st @ [?e],
      sinkFile := map_option (file_write ?e) (sinkFile st)\<rparr>)"
    using assms Some by (simp add: record_entry_def Let_def)
  moreover have "linked sha (last_hash (auditLog st)) ?e"
    using Some by (simp add: linked_def computeEntryHash_def) (simp add: base_entry_def)
  ultimately show thesis by (intro Appends [of ?e]) (simp_all add: base_entry_def)
qed

lemma record_all_verifies:
  "verifyIntegrity sha (auditLog st) = Some Valid \<Longrightarrow>
   verifyIntegrity sha (auditLog (record_all sha ps st)) = Some Valid"
proof (induction ps arbitrary: st)
  case (Cons p ps)
  obtain r where r: "record_entry sha (fst p) (snd p) st = r" by simp
  have "verifyIntegrity sha (auditLog (snd r)) = Some Valid"
    using r by (cases rule: record_cases) (use Cons.prems in \<open>simp_all add: verify_snoc\<close>)
  from Cons.IH [OF this] r show ?case by (simp add: record_all_def)
qed (simp add: record_all_def)

text \<open>A log built by recording verifies, whatever was recorded, whichever recordings threw, and
  whatever the hash function is.\<close>

theorem recorded_log_verifies:
  "verifyIntegrity sha (auditLog (record_all sha ps (createAuditLog file))) = Some Valid"
  by (rule record_all_verifies) (simp add: createAuditLog_def verifyIntegrity_def)

section \<open>Tampering\<close>

definition payloads :: "AuditEntry list \<Rightarrow> string set" where
  "payloads es = {s. \<exists>e \<in> set es. entry_payload e (aePrev e) = Some s}"

lemma linked_payload:
  assumes "linked sha prev e"
  obtains s where "entry_payload e prev = Some s" "aeHash e = Some (sha s)" "aePrev e = prev"
  using assms by (auto simp: linked_def computeEntryHash_def)

lemma last_hash_None: "verifyIntegrity sha es = Some Valid \<Longrightarrow> last_hash es = None \<longleftrightarrow> es = []"
  by (cases es rule: rev_cases) (auto simp: verify_snoc last_hash_def linked_def)

lemma payloads_snoc: "payloads (es @ [e]) = payloads es \<union> set_option (entry_payload e (aePrev e))"
  by (auto simp: payloads_def)

text \<open>C9. If two logs verify and end in the same hash, they have the same entries up to the canonical
  form of the details, or the two logs exhibit a collision of the hash function.\<close>

theorem tamper_needs_collision:
  assumes "verifyIntegrity sha es = Some Valid" and "verifyIntegrity sha es' = Some Valid"
    and "last_hash es = last_hash es'" and "list_all entry_ok es" and "list_all entry_ok es'"
  shows "list_all2 same_content es es'
    \<or> (\<exists>s \<in> payloads es. \<exists>s' \<in> payloads es'. s \<noteq> s' \<and> sha s = sha s')"
  using assms
proof (induction es arbitrary: es' rule: rev_induct)
  case Nil
  then have "es' = []" using last_hash_None by (metis last_hash_def)
  then show ?case by simp
next
  case (snoc e es)
  have "es' \<noteq> []" using snoc.prems(1-3) last_hash_None by (metis append_is_Nil_conv not_Cons_self2)
  then obtain f fs where es': "es' = fs @ [f]" by (cases es' rule: rev_cases) auto
  from snoc.prems(1) have 1: "verifyIntegrity sha es = Some Valid" "linked sha (last_hash es) e"
    by (simp_all add: verify_snoc)
  from snoc.prems(2) have 2: "verifyIntegrity sha fs = Some Valid" "linked sha (last_hash fs) f"
    by (simp_all add: verify_snoc es')
  obtain s where s: "entry_payload e (last_hash es) = Some s" "aeHash e = Some (sha s)" "aePrev e = last_hash es"
    by (rule linked_payload [OF 1(2)])
  obtain t where t: "entry_payload f (last_hash fs) = Some t" "aeHash f = Some (sha t)" "aePrev f = last_hash fs"
    by (rule linked_payload [OF 2(2)])
  have sha: "sha s = sha t" using snoc.prems(3) es' s(2) t(2) by (simp add: last_hash_def)
  have mem: "s \<in> payloads (es @ [e])" "t \<in> payloads es'"
    using s t unfolding es' payloads_snoc by simp_all
  show ?case
  proof (cases "s = t")
    case False
    with sha mem show ?thesis by blast
  next
    case True
    have "entry_ok e" "entry_ok f" using snoc.prems(4,5) es' by simp_all
    from payload_inject [OF this s(1)] t(1) True
    have same: "same_content e f" "last_hash es = last_hash fs" by simp_all
    have "list_all2 same_content es fs
      \<or> (\<exists>s \<in> payloads es. \<exists>s' \<in> payloads fs. s \<noteq> s' \<and> sha s = sha s')"
      using snoc.IH [OF 1(1) 2(1) same(2)] snoc.prems(4,5) es' by simp
    then show ?thesis
    proof
      assume "list_all2 same_content es fs"
      with same(1) show ?thesis unfolding es' by (simp add: list_all2_appendI)
    next
      assume "\<exists>s \<in> payloads es. \<exists>s' \<in> payloads fs. s \<noteq> s' \<and> sha s = sha s'"
      then show ?thesis unfolding es' payloads_snoc by blast
    qed
  qed
qed

definition demo_partial :: "string \<Rightarrow> PartialEntry" where
  "demo_partial a = \<lparr>peTimestamp = Some ''t0'', peActor = a, peAction = ''execute'', peResource = ''r'',
     pePolicy = None, peDecision = Allowed, peDetails = Some [(''n'', VInt 1)]\<rparr>"

definition demo_log :: AuditState where
  "demo_log = record_all (\<lambda>s. s) [((7, ''now''), demo_partial ''a''), ((8, ''now''), demo_partial ''b'')]
     (createAuditLog (Some []))"

theorem tamper_needs_collision_witness:
  "list_all2 same_content (auditLog demo_log) (auditLog demo_log)
    \<or> (\<exists>s \<in> payloads (auditLog demo_log). \<exists>s' \<in> payloads (auditLog demo_log). s \<noteq> s' \<and> id s = id s')"
proof -
  have v: "verifyIntegrity id (auditLog demo_log) = Some Valid"
    using recorded_log_verifies [of id] by (simp add: demo_log_def id_def)
  have "list_all entry_ok (auditLog demo_log)" by code_simp
  with tamper_needs_collision [OF v v refl] show ?thesis by blast
qed

end
