(* ===== verification/AuditFile.thy ===== *)
theory AuditFile
  imports AuditProps
begin

text \<open>
  The JSONL file of the audit log: what was written is what is read, up to the members JSON drops,
  and the file verifies. Then the signed log.
\<close>

section \<open>JSON text is one line\<close>

lemma hex_digit_line: "n < 16 \<Longrightarrow> hex_digit n \<noteq> CHR 0x0A"
proof
  assume "n < 16" "hex_digit n = CHR 0x0A"
  then have "unhex (CHR 0x0A) = Some n" by (metis unhex_digit)
  then show False by (simp add: unhex_def is_digit_def char_code_def)
qed

lemma esc_char_line: "CHR 0x0A \<notin> set (esc_char c)"
proof (cases "char_code c < 32")
  case True
  then have "char_code c div 16 < 16" by simp
  from hex_digit_line [OF this] hex_digit_line [of "char_code c mod 16"] show ?thesis
    by (auto simp: esc_char_def)
next
  case False
  then show ?thesis by (auto simp: esc_char_def)
qed

lemma quote_line: "CHR 0x0A \<notin> set (quote s)"
  by (simp add: quote_def esc_char_line)

lemma int_text_line: "CHR 0x0A \<notin> set (int_text i)"
proof -
  have "CHR 0x0A \<notin> set (nat_text n)" for n
    using nat_text_digits [of n] by (auto simp: list_all_iff is_digit_def char_code_def)
  then show ?thesis by (simp add: int_text_def)
qed

lemma join_line: "CHR 0x0A \<notin> set sep \<Longrightarrow> \<forall>t \<in> set ts. CHR 0x0A \<notin> set t \<Longrightarrow> CHR 0x0A \<notin> set (join sep ts)"
  by (induction sep ts rule: join.induct) auto

lemma json_text_line: "CHR 0x0A \<notin> set (json_text v)"
proof (induction v rule: json_text.induct)
  case (6 vs)
  then show ?case using join_line [of "'',''" "map json_text vs"] by (simp add: bracket_def)
next
  case (7 kvs)
  then have "\<forall>t \<in> set (map (\<lambda>p. member (fst p) (json_text (snd p))) kvs). CHR 0x0A \<notin> set t"
    by (auto simp: member_def quote_line)
  from join_line [OF _ this, of "'',''"] show ?case by (simp add: brace_def)
qed (simp_all add: bool_text_def quote_line int_text_line)

lemma split_line: "CHR 0x0A \<notin> set l \<Longrightarrow> split_lines l = [l]"
  by (induction l) auto

lemma split_lines_append: "CHR 0x0A \<notin> set l \<Longrightarrow> split_lines (l @ CHR 0x0A # r) = l # split_lines r"
  by (induction l) auto

text \<open>The body of the file: lines that start and end with braces.\<close>

definition line_ok :: "string \<Rightarrow> bool" where
  "line_ok l \<longleftrightarrow> CHR 0x0A \<notin> set l \<and> l \<noteq> [] \<and> \<not> is_space (hd l) \<and> \<not> is_space (last l)"

definition file_body :: "string list \<Rightarrow> string" where
  "file_body ls = concat (map (\<lambda>l. l @ [CHR 0x0A]) ls)"

lemma trim_body:
  assumes "ls \<noteq> []" and "\<forall>l \<in> set ls. line_ok l"
  shows "trim (file_body ls) = join [CHR 0x0A] ls"
proof -
  have body: "file_body ls = join [CHR 0x0A] ls @ [CHR 0x0A]"
    using assms(1) by (induction ls rule: list_nonempty_induct) (simp_all add: file_body_def neq_Nil_conv, auto)
  have first: "\<exists>c cs. join [CHR 0x0A] ls = c # cs \<and> \<not> is_space c"
    using assms by (cases ls; cases "tl ls") (auto simp: line_ok_def neq_Nil_conv)
  have last: "join [CHR 0x0A] ls \<noteq> [] \<and> \<not> is_space (last (join [CHR 0x0A] ls))"
    using assms
  proof (induction ls rule: list_nonempty_induct)
    case (cons x xs)
    then show ?case by (cases xs) auto
  qed (simp add: line_ok_def)
  have "is_space (CHR 0x0A)" by (simp add: is_space_def char_code_def)
  moreover have "rev (dropWhile is_space (rev (join [CHR 0x0A] ls))) = join [CHR 0x0A] ls"
    using last by (cases "join [CHR 0x0A] ls" rule: rev_cases) auto
  ultimately show ?thesis using first unfolding trim_def body by auto
qed

lemma split_joined:
  "ls \<noteq> [] \<Longrightarrow> \<forall>l \<in> set ls. line_ok l \<Longrightarrow> split_lines (join [CHR 0x0A] ls) = ls"
proof (induction ls rule: list_nonempty_induct)
  case (cons x xs)
  then show ?case by (cases xs) (auto simp: line_ok_def split_lines_append)
qed (simp add: line_ok_def split_line)

lemma load_body:
  assumes "\<forall>l \<in> set ls. line_ok l"
  shows "loadEntriesFromFile (Some (file_body ls)) = those (map (\<lambda>l. Option.bind (jsonParse l) entry_of_json) ls)"
proof (cases "ls = []")
  case True
  then show ?thesis by (simp add: loadEntriesFromFile_def file_body_def trim_def)
next
  case False
  have "filter (\<lambda>l. l \<noteq> []) ls = ls" using assms by (simp add: line_ok_def)
  with trim_body [OF False assms] split_joined [OF False assms] show ?thesis
    by (simp add: loadEntriesFromFile_def)
qed

section \<open>An entry read back\<close>

definition details_back :: "(string \<times> jsval) list option \<Rightarrow> (string \<times> jsval) list option" where
  "details_back d = (case d of None \<Rightarrow> None | Some kvs \<Rightarrow>
     (case stripped (VObj kvs) of Some (VObj cs) \<Rightarrow> Some cs | _ \<Rightarrow> None))"

definition reloaded :: "AuditEntry \<Rightarrow> AuditEntry" where
  "reloaded e = e\<lparr>aeDetails := details_back (aeDetails e)\<rparr>"

lemma stripped_opt_obj: "stripped (opt_obj d) = map_option VObj (details_back d)"
  by (cases d) (simp_all add: opt_obj_def details_back_def)

lemma parse_decision_text [simp]: "parse_decision (decision_text d) = Some d"
  by (cases d) (simp_all add: parse_decision_def decision_text_def)

lemma entry_reads_back:
  assumes "stripped (entry_json e) = Some w"
  shows "entry_of_json w = Some (reloaded e)"
proof -
  obtain kvs where kvs: "entry_json e = VObj kvs" "distinct (map fst kvs)" by (simp add: entry_json_def)
  obtain cs where cs: "stripped (VObj kvs) = Some (VObj cs)" "\<And>k. map_of cs k = Option.bind (map_of kvs k) stripped"
    using stripped_members [OF kvs(2)] by blast
  have w: "w = VObj cs" using assms kvs(1) cs(1) by simp
  have look: "map_of kvs = map_of [(''schemaVersion'', opt_str (aeSchema e)), (''id'', VStr (aeId e)),
      (''timestamp'', VStr (aeTimestamp e)), (''actor'', VStr (aeActor e)),
      (''action'', VStr (aeAction e)), (''resource'', VStr (aeResource e)),
      (''policy'', opt_str (aePolicy e)), (''decision'', VStr (decision_text (aeDecision e))),
      (''details'', opt_obj (aeDetails e)), (''previousHash'', opt_str (aePrev e)),
      (''hash'', opt_str (aeHash e))]"
    using kvs(1) by (simp add: entry_json_def)
  have s: "str_field cs ''id'' = Some (aeId e)" "str_field cs ''timestamp'' = Some (aeTimestamp e)"
    "str_field cs ''actor'' = Some (aeActor e)" "str_field cs ''action'' = Some (aeAction e)"
    "str_field cs ''resource'' = Some (aeResource e)" "str_field cs ''decision'' = Some (decision_text (aeDecision e))"
    by (simp_all add: str_field_def cs(2) look)
  have opt: "map_of cs k = map_option VStr x \<Longrightarrow> opt_field cs k = Some x" for k x
    by (cases x) (simp_all add: opt_field_def)
  have o: "opt_field cs ''schemaVersion'' = Some (aeSchema e)" "opt_field cs ''policy'' = Some (aePolicy e)"
    "opt_field cs ''hash'' = Some (aeHash e)" "opt_field cs ''previousHash'' = Some (aePrev e)"
    by (rule opt, simp add: cs(2) look)+
  have d: "obj_field cs ''details'' = Some (details_back (aeDetails e))"
    by (cases "details_back (aeDetails e)") (simp_all add: obj_field_def cs(2) look stripped_opt_obj)
  show ?thesis unfolding w by (simp add: entry_of_json_def s o d reloaded_def)
qed

section \<open>The canonical form survives the file\<close>

lemma insort_map:
  assumes "\<And>p. fst (h p) = fst p"
  shows "insort_by key_cmp (h x) (map h xs) = map h (insort_by key_cmp x xs)"
  by (induction xs) (simp_all add: key_cmp_def assms)

lemma sort_map:
  assumes "\<And>p. fst (h p) = fst p"
  shows "sort_by key_cmp (map h xs) = map h (sort_by key_cmp xs)"
  by (induction xs) (simp_all add: sort_by_def insort_map [OF assms])

lemma canon_obj_map:
  assumes fst: "\<And>p. fst (h p) = fst p"
    and same: "\<And>p. p \<in> set kvs \<Longrightarrow> defined (h p) = defined p \<and> (defined p \<longrightarrow> canon (snd (h p)) = canon (snd p))"
  shows "canon (VObj (map h kvs)) = canon (VObj kvs)"
proof -
  have "filter defined (map h kvs) = map h (filter defined kvs)"
    using same by (induction kvs) auto
  then have "sort_by key_cmp (filter defined (map h kvs)) = map h (sort_by key_cmp (filter defined kvs))"
    by (simp add: sort_map [OF fst])
  moreover have "map (\<lambda>p. map_option (Pair (fst p)) (canon (snd p))) (map h (sort_by key_cmp (filter defined kvs)))
     = map (\<lambda>p. map_option (Pair (fst p)) (canon (snd p))) (sort_by key_cmp (filter defined kvs))"
    using same by (auto simp: fst)
  ultimately show ?thesis by (simp only: canon.simps)
qed

lemma stripped_defined: "stripped v = Some w \<Longrightarrow> w \<noteq> VUndef"
  by (cases v) auto

lemma canon_defined: "canon v = Some w \<Longrightarrow> v \<noteq> VUndef"
  by auto

lemma those_Some_each: "those (map g xs) = Some ys \<Longrightarrow> x \<in> set xs \<Longrightarrow> \<exists>y. g x = Some y"
  by (induction xs arbitrary: ys) (auto split: option.splits)

lemma those_cong: "(\<And>x. x \<in> set xs \<Longrightarrow> f x = g x) \<Longrightarrow> those (map f xs) = those (map g xs)"
  by (metis map_eq_conv)

lemma canon_stripped: "canon v = Some c \<Longrightarrow> \<exists>w. stripped v = Some w \<and> canon w = Some c"
proof (induction v arbitrary: c rule: canon.induct)
  case (6 vs)
  let ?g = "\<lambda>v. if v = VUndef then Some VNull else canon v"
  let ?s = "\<lambda>v. case stripped v of None \<Rightarrow> VNull | Some w \<Rightarrow> w"
  from 6(2) obtain cs where cs: "those (map ?g vs) = Some cs" "c = VArr cs" by auto
  have each: "?g (?s v) = ?g v" if v: "v \<in> set vs" for v
  proof (cases "v = VUndef")
    case False
    with those_Some_each [OF cs(1) v] obtain d where "canon v = Some d" by auto
    with 6(1) [OF v False] stripped_defined [of v] False show ?thesis by auto
  qed simp
  have "canon (VArr (map ?s vs)) = map_option VArr (those (map ?g (map ?s vs)))" by simp
  also have "\<dots> = map_option VArr (those (map ?g vs))"
    using those_cong [of vs "\<lambda>v. ?g (?s v)" ?g] each by (simp only: map_map comp_def)
  finally show ?case using cs by simp
next
  case (7 kvs)
  let ?g = "\<lambda>p. map_option (Pair (fst p)) (canon (snd p))"
  let ?m = "\<lambda>p. case stripped (snd p) of None \<Rightarrow> [] | Some w \<Rightarrow> [(fst p, w)]"
  let ?h = "\<lambda>p. (fst p, case stripped (snd p) of None \<Rightarrow> snd p | Some w \<Rightarrow> w)"
  from 7(2) obtain cs where cs: "those (map ?g (sort_by key_cmp (filter defined kvs))) = Some cs" "c = VObj cs" by auto
  have each: "\<exists>w. stripped (snd p) = Some w \<and> canon w = canon (snd p)" if p: "p \<in> set kvs" "defined p" for p
  proof -
    have mem: "p \<in> set (sort_by key_cmp (filter defined kvs))" using p by simp
    from those_Some_each [OF cs(1) mem] obtain d where d: "canon (snd p) = Some d" by auto
    from 7(1) [OF mem d] d show ?thesis by auto
  qed
  have shape: "concat (map ?m ps) = map ?h (filter defined ps)" if "set ps \<subseteq> set kvs" for ps
    using that
  proof (induction ps)
    case (Cons p ps)
    show ?case
    proof (cases "defined p")
      case True
      with each [of p] Cons show ?thesis by auto
    next
      case False
      with Cons show ?thesis by (simp add: defined_def)
    qed
  qed simp
  have "canon (VObj (map ?h (filter defined kvs))) = canon (VObj (filter defined kvs))"
  proof (rule canon_obj_map)
    fix p assume "p \<in> set (filter defined kvs)"
    then have p: "p \<in> set kvs" "defined p" by simp_all
    from each [OF this] obtain w where w: "stripped (snd p) = Some w" "canon w = canon (snd p)" by blast
    with stripped_defined [OF w(1)] p(2)
    show "defined (?h p) = defined p \<and> (defined p \<longrightarrow> canon (snd (?h p)) = canon (snd p))"
      by (simp add: defined_def)
  qed simp
  then have "canon (VObj (concat (map ?m kvs))) = Some c"
    using 7(2) shape [of kvs] by simp
  then show ?case by simp
qed simp_all

lemma canonical_reloaded:
  assumes "canon (canonical_fields e prev) = Some c"
  shows "canon (canonical_fields (reloaded e) prev) = Some c"
proof -
  let ?h = "\<lambda>p. if fst p = ''details'' then (''details'', opt_obj (details_back (aeDetails e))) else p"
  obtain kvs where kvs: "canonical_fields e prev = VObj kvs" "distinct (map fst kvs)" by (simp add: canonical_fields_def)
  obtain cs where "c = VObj cs" "\<And>k. map_of cs k = Option.bind (map_of kvs k) canon"
    using canon_members [OF kvs(2) assms [unfolded kvs(1)]] filter_defined_bind [OF kvs(2), of canon] by auto
  have det: "canon (opt_obj (details_back (aeDetails e))) = canon (opt_obj (aeDetails e))
      \<and> (opt_obj (details_back (aeDetails e)) = VUndef \<longleftrightarrow> opt_obj (aeDetails e) = VUndef)"
  proof (cases "aeDetails e")
    case None
    then show ?thesis by (simp add: details_back_def)
  next
    case (Some d)
    have "(''details'', VObj d) \<in> set (filter defined kvs)"
      using kvs(1) Some by (auto simp: canonical_fields_def opt_obj_def defined_def)
    moreover obtain cs where "those (map (\<lambda>p. map_option (Pair (fst p)) (canon (snd p)))
        (sort_by key_cmp (filter defined kvs))) = Some cs"
      using assms unfolding kvs(1) by auto
    ultimately obtain x where "canon (VObj d) = Some x"
      using those_Some_each [of "\<lambda>p. map_option (Pair (fst p)) (canon (snd p))"
          "sort_by key_cmp (filter defined kvs)" cs "(''details'', VObj d)"] by auto
    from canon_stripped [OF this] obtain w where "stripped (VObj d) = Some w" "canon w = Some x" by blast
    with \<open>canon (VObj d) = Some x\<close> Some show ?thesis by (auto simp: details_back_def opt_obj_def)
  qed
  have "canonical_fields (reloaded e) prev = VObj (map ?h kvs)"
    using kvs(1) by (auto simp: canonical_fields_def reloaded_def)
  moreover have "canon (VObj (map ?h kvs)) = canon (VObj kvs)"
  proof (rule canon_obj_map)
    fix p assume p: "p \<in> set kvs"
    have "p = (''details'', opt_obj (aeDetails e))" if "fst p = ''details''"
      using p that kvs(1) by (auto simp: canonical_fields_def)
    with det show "defined (?h p) = defined p \<and> (defined p \<longrightarrow> canon (snd (?h p)) = canon (snd p))"
      by (auto simp: defined_def)
  qed simp
  ultimately show ?thesis using assms kvs(1) by simp
qed

section \<open>The file of a recorded log\<close>

lemma linked_reloaded:
  assumes "linked sha prev e" and "is_v2 e"
  shows "linked sha prev (reloaded e)"
proof -
  have v2: "is_v2 (reloaded e)" "aeHash (reloaded e) = aeHash e" "aePrev (reloaded e) = aePrev e"
    using assms(2) by (simp_all add: reloaded_def)
  from assms obtain s where s: "canonicalize (canonical_fields e prev) = Some s" "aeHash e = Some (sha s)"
    by (auto simp: linked_def computeEntryHash_def entry_payload_def)
  then obtain c where "canon (canonical_fields e prev) = Some c" "s = json_text c"
    unfolding canonicalize_text by auto
  with canonical_reloaded have "canonicalize (canonical_fields (reloaded e) prev) = Some s"
    unfolding canonicalize_text by simp
  with s v2 assms(1) show ?thesis by (simp add: linked_def computeEntryHash_def entry_payload_def)
qed

lemma chained_reloaded:
  "chained sha prev es \<Longrightarrow> list_all is_v2 es \<Longrightarrow> chained sha prev (map reloaded es)"
proof (induction es arbitrary: prev)
  case (Cons e es)
  moreover have "aeHash (reloaded e) = aeHash e" by (simp add: reloaded_def)
  ultimately show ?case by (simp add: linked_reloaded)
qed simp

definition line_of :: "AuditEntry \<Rightarrow> string" where
  "line_of e = (case jsonStringify (entry_json e) of None \<Rightarrow> [] | Some t \<Rightarrow> t)"

lemma entry_line:
  obtains w where "stripped (entry_json e) = Some w" "jsonStringify (entry_json e) = Some (line_of e)"
    "line_of e = json_text w" "\<exists>kvs. w = VObj kvs"
proof -
  obtain kvs where "entry_json e = VObj kvs" by (simp add: entry_json_def)
  then obtain w where w: "stripped (entry_json e) = Some w" "\<exists>kvs. w = VObj kvs" by simp
  with that show thesis by (simp add: line_of_def stringify_text)
qed

lemma line_of_ok: "line_ok (line_of e)"
proof -
  obtain w where w: "line_of e = json_text w" "\<exists>kvs. w = VObj kvs" by (rule entry_line)
  then obtain body where "line_of e = ''{'' @ body @ ''}''" by (auto simp: brace_def)
  then show ?thesis using json_text_line [of w] w(1) by (simp add: line_ok_def is_space_def char_code_def)
qed

lemma line_reads_back: "entry_ok e \<Longrightarrow> Option.bind (jsonParse (line_of e)) entry_of_json = Some (reloaded e)"
proof -
  assume ok: "entry_ok e"
  obtain w where w: "stripped (entry_json e) = Some w" "jsonStringify (entry_json e) = Some (line_of e)"
    by (rule entry_line)
  have "js_ok (entry_json e)"
    using ok by (simp add: entry_json_def entry_ok_def opt_str_def split: option.split)
  from parse_stringify [OF this w(2)] w(1) entry_reads_back [OF w(1)] show ?thesis by simp
qed

lemma file_write_body: "file_write e (file_body ls) = file_body (ls @ [line_of e])"
proof -
  obtain w where "jsonStringify (entry_json e) = Some (line_of e)" by (rule entry_line)
  then show ?thesis by (simp add: file_write_def file_body_def)
qed

definition file_matches :: "AuditState \<Rightarrow> bool" where
  "file_matches st \<longleftrightarrow> sinkFile st = Some (file_body (map line_of (auditLog st)))
     \<and> list_all is_v2 (auditLog st) \<and> list_all entry_ok (auditLog st)"

lemma record_file_matches:
  assumes "file_matches st" and "js_ok (opt_obj (peDetails p))"
  shows "file_matches (snd (record_entry sha clk p st))"
proof -
  obtain r where r: "record_entry sha clk p st = r" by simp
  then show ?thesis
  proof (cases rule: record_cases)
    case Throws
    with assms(1) r show ?thesis by (simp add: file_matches_def)
  next
    case (Appends e)
    with assms r show ?thesis by (simp add: file_matches_def file_write_body entry_ok_def)
  qed
qed

lemma record_all_file_matches:
  "file_matches st \<Longrightarrow> \<forall>p \<in> set ps. js_ok (opt_obj (peDetails (snd p))) \<Longrightarrow> file_matches (record_all sha ps st)"
proof (induction ps arbitrary: st)
  case (Cons p ps)
  with record_file_matches [of st "snd p" sha "fst p"] show ?case by (simp add: record_all_def)
qed (simp add: record_all_def)

lemma load_matches:
  assumes "file_matches st"
  shows "loadEntriesFromFile (sinkFile st) = Some (map reloaded (auditLog st))"
proof -
  have "those (map (\<lambda>l. Option.bind (jsonParse l) entry_of_json) (map line_of es)) = Some (map reloaded es)"
    if "list_all entry_ok es" for es
    using that by (induction es) (simp_all add: line_reads_back)
  moreover have "\<forall>l \<in> set (map line_of (auditLog st)). line_ok l" using line_of_ok by simp
  ultimately show ?thesis using assms load_body by (simp add: file_matches_def)
qed

text \<open>C28. The file a log was recorded to loads back to the entries of the log, their details without
  the members JSON drops, and the file verifies.\<close>

theorem audit_file_roundtrip:
  assumes "\<forall>p \<in> set ps. js_ok (opt_obj (peDetails (snd p)))"
    and "st = record_all sha ps (createAuditLog (Some []))"
  shows "loadEntriesFromFile (sinkFile st) = Some (map reloaded (auditLog st))
    \<and> verifyFileIntegrity sha (sinkFile st) = Some Valid"
proof -
  have "file_matches (createAuditLog (Some []))" by (simp add: file_matches_def createAuditLog_def file_body_def)
  from record_all_file_matches [OF this assms(1)] have m: "file_matches st" by (simp add: assms(2))
  have "chained sha None (auditLog st)"
    using recorded_log_verifies [of sha ps "Some []"] by (simp add: assms(2) verify_iff)
  with m have "verifyIntegrity sha (map reloaded (auditLog st)) = Some Valid"
    unfolding verify_iff by (simp add: file_matches_def chained_reloaded)
  with load_matches [OF m] show ?thesis by (simp add: verifyFileIntegrity_def)
qed

theorem audit_file_roundtrip_witness:
  "loadEntriesFromFile (sinkFile demo_log) = Some (map reloaded (auditLog demo_log))
    \<and> verifyFileIntegrity (\<lambda>s. s) (sinkFile demo_log) = Some Valid"
  by (rule audit_file_roundtrip [OF _ demo_log_def])
    (simp add: demo_partial_def opt_obj_def)

section \<open>Signatures\<close>

datatype signed_op = SRecord clock PartialEntry | SRotate SigningKey

fun signed_step :: "(string \<Rightarrow> string) \<Rightarrow> hmac \<Rightarrow> signed_op \<Rightarrow> SignedLog \<Rightarrow> SignedLog" where
  "signed_step sha hm (SRecord clk p) sl = snd (signed_record sha hm clk p sl)"
| "signed_step sha hm (SRotate k) sl = rotateKey k sl"

definition rotated :: "signed_op list \<Rightarrow> SigningKey set" where
  "rotated ops = {k. SRotate k \<in> set ops}"

definition signed_run :: "(string \<Rightarrow> string) \<Rightarrow> hmac \<Rightarrow> SigningKey \<Rightarrow> signed_op list \<Rightarrow> SignedLog" where
  "signed_run sha hm k ops = fold (signed_step sha hm) ops (createSignedAuditLog k None)"

text \<open>The keys in use have pairwise different ids; every entry is signed with the key its id names.\<close>

definition signed_inv :: "hmac \<Rightarrow> SigningKey set \<Rightarrow> SignedLog \<Rightarrow> bool" where
  "signed_inv hm K sl \<longleftrightarrow> slKey sl \<in> K \<and> map_of (slHistory sl) (skId (slKey sl)) = Some (slKey sl)
     \<and> (\<forall>i k. map_of (slHistory sl) i = Some k \<longrightarrow> k \<in> K \<and> skId k = i)
     \<and> (\<forall>s \<in> set (slEntries sl). signature_ok hm (slHistory sl) s)"

lemma signed_step_inv:
  assumes inj: "inj_on skId K" and inv: "signed_inv hm K sl" and op: "rotated [op] \<subseteq> K"
  shows "signed_inv hm K (signed_step sha hm op sl)"
proof (cases op)
  case (SRecord clk p)
  with inv show ?thesis
    by (auto simp: signed_inv_def signed_record_def Let_def signature_ok_def verifySignature_def split: option.split)
next
  case (SRotate k)
  with op have k: "k \<in> K" by (simp add: rotated_def)
  have keep: "signature_ok hm (map_set (skId k) k (slHistory sl)) s" if s: "signature_ok hm (slHistory sl) s" for s
  proof -
    obtain k' where k': "map_of (slHistory sl) (seKeyId s) = Some k'" "verifySignature hm s k'"
      using s by (auto simp: signature_ok_def split: option.splits)
    then have "k' \<in> K" "skId k' = seKeyId s" using inv by (auto simp: signed_inv_def)
    then have "seKeyId s = skId k \<Longrightarrow> k' = k" using inj k by (metis inj_onD)
    with k' show ?thesis by (auto simp: signature_ok_def)
  qed
  with SRotate k inv show ?thesis by (simp add: signed_inv_def rotateKey_def)
qed

lemma first_invalid_None: "\<forall>s \<in> set ss. signature_ok hm keys s \<Longrightarrow> first_invalid hm keys i ss = None"
  by (induction ss arbitrary: i) simp_all

lemma signed_run_inv:
  "inj_on skId K \<Longrightarrow> rotated ops \<subseteq> K \<Longrightarrow> signed_inv hm K sl \<Longrightarrow> signed_inv hm K (fold (signed_step sha hm) ops sl)"
proof (induction ops arbitrary: sl)
  case (Cons op ops)
  have "rotated [op] \<subseteq> K" "rotated ops \<subseteq> K" using Cons.prems(2) by (auto simp: rotated_def)
  with Cons.IH [OF Cons.prems(1) _ signed_step_inv [OF Cons.prems(1,3)]] show ?case by simp
qed simp

lemma signed_run_log: "\<exists>ps. auditLog (slInner (fold (signed_step sha hm) ops sl)) = auditLog (record_all sha ps (slInner sl))"
proof (induction ops arbitrary: sl)
  case Nil
  have "auditLog (slInner sl) = auditLog (record_all sha [] (slInner sl))" by (simp add: record_all_def)
  then show ?case by auto
next
  case (Cons op ops)
  show ?case
  proof (cases op)
    case (SRecord clk p)
    have inner: "slInner (snd (signed_record sha hm clk p sl)) = snd (record_entry sha clk p (slInner sl))"
      by (simp add: signed_record_def Let_def split: option.split)
    obtain ps where "auditLog (slInner (fold (signed_step sha hm) ops (signed_step sha hm op sl)))
      = auditLog (record_all sha ps (slInner (signed_step sha hm op sl)))" using Cons by blast
    then have "auditLog (slInner (fold (signed_step sha hm) (op # ops) sl))
      = auditLog (record_all sha ((clk, p) # ps) (slInner sl))"
      by (simp add: SRecord inner record_all_def)
    then show ?thesis by blast
  next
    case (SRotate k)
    with Cons [of "rotateKey k sl"] show ?thesis by (simp add: rotateKey_def)
  qed
qed

text \<open>As long as no two keys share an id, a signed log verifies after any sequence of recordings
  and key rotations: the chain and every signature.\<close>

theorem signed_log_verifies:
  assumes "inj_on skId (insert k (rotated ops))"
  shows "signed_verifyIntegrity sha hm (signed_run sha hm k ops)
    = Some \<lparr>sirChain = Valid, sirSignaturesValid = True, sirInvalidAt = None\<rparr>"
proof -
  have "signed_inv hm (insert k (rotated ops)) (createSignedAuditLog k None)"
    by (simp add: signed_inv_def createSignedAuditLog_def)
  from signed_run_inv [OF assms _ this] have "signed_inv hm (insert k (rotated ops)) (signed_run sha hm k ops)"
    by (auto simp: signed_run_def)
  then have "first_invalid hm (slHistory (signed_run sha hm k ops)) 0 (slEntries (signed_run sha hm k ops)) = None"
    by (intro first_invalid_None) (simp add: signed_inv_def)
  moreover obtain ps where "auditLog (slInner (signed_run sha hm k ops))
      = auditLog (record_all sha ps (slInner (createSignedAuditLog k None)))"
    using signed_run_log by (metis signed_run_def)
  then have "verifyIntegrity sha (auditLog (slInner (signed_run sha hm k ops))) = Some Valid"
    using recorded_log_verifies by (simp add: createSignedAuditLog_def)
  ultimately show ?thesis by (simp add: signed_verifyIntegrity_def)
qed

definition demo_key :: "string \<Rightarrow> string \<Rightarrow> SigningKey" where
  "demo_key i s = \<lparr>skId = i, skSecret = s, skAlgorithm = None\<rparr>"

theorem signed_log_verifies_witness:
  "signed_verifyIntegrity (\<lambda>s. s) (\<lambda>a s p. s @ p)
     (signed_run (\<lambda>s. s) (\<lambda>a s p. s @ p) (demo_key ''k1'' ''x'')
       [SRecord (1, ''now'') (demo_partial ''a''), SRotate (demo_key ''k2'' ''y'')])
   = Some \<lparr>sirChain = Valid, sirSignaturesValid = True, sirInvalidAt = None\<rparr>"
proof (rule signed_log_verifies)
  have "rotated [SRecord (1, ''now'') (demo_partial ''a''), SRotate (demo_key ''k2'' ''y'')] = {demo_key ''k2'' ''y''}"
    by (auto simp: rotated_def)
  then show "inj_on skId (insert (demo_key ''k1'' ''x'')
      (rotated [SRecord (1, ''now'') (demo_partial ''a''), SRotate (demo_key ''k2'' ''y'')]))"
    by (simp add: demo_key_def)
qed

text \<open>Rotating to a new secret under an id already in use replaces the old key in the history: an
  entry signed before no longer verifies, though nothing was tampered with.\<close>

theorem rotation_reusing_id_invalidates:
  "signed_verifyIntegrity (\<lambda>s. s) (\<lambda>a s p. s @ p)
     (signed_run (\<lambda>s. s) (\<lambda>a s p. s @ p) (demo_key ''k1'' ''x'')
       [SRecord (1, ''now'') (demo_partial ''a''), SRotate (demo_key ''k1'' ''y'')])
   = Some \<lparr>sirChain = Valid, sirSignaturesValid = False, sirInvalidAt = Some 0\<rparr>"
  by code_simp

end
