(* ===== verification/Decisions.thy ===== *)
theory Decisions
  imports Json Complex_Main
begin

text \<open>
  The decision catalog, \<open>pipeline-cli/src/decisions/\<close>: the decision and event records
  (\<open>decision-record.ts\<close>), the projection of the event log (\<open>projection.ts\<close>), ids
  (\<open>event-log.ts\<close>). \<open>Date.parse\<close> is the parameter \<open>dp\<close> (milliseconds, \<open>None\<close> when the text is no
  date), \<open>localeCompare\<close> the parameter \<open>lc\<close>. Scores are exact rationals. A null field and an absent
  field are both \<open>None\<close>.
\<close>

section \<open>Records\<close>

datatype DecisionLifecycle = LProposed | LOpen | LDeferred | LAnswered | LSuperseded | LArchived

datatype EscalationTier = TOperational | TDesign | TOperator

definition ESCALATION_TIERS :: "EscalationTier list" where
  "ESCALATION_TIERS = [TOperational, TDesign, TOperator]"

definition tier_text :: "EscalationTier \<Rightarrow> string" where
  "tier_text t = (case t of TOperational \<Rightarrow> ''operational'' | TDesign \<Rightarrow> ''design'' | TOperator \<Rightarrow> ''operator'')"

definition tier_of :: "string \<Rightarrow> EscalationTier option" where
  "tier_of s = find (\<lambda>t. tier_text t = s) ESCALATION_TIERS"

datatype DecisionPriority = PCritical | PHigh | PMedium | PLow

definition DECISION_PRIORITY_WEIGHTS :: "DecisionPriority \<Rightarrow> rat" where
  "DECISION_PRIORITY_WEIGHTS p = (case p of PCritical \<Rightarrow> 4 | PHigh \<Rightarrow> 3 | PMedium \<Rightarrow> 2 | PLow \<Rightarrow> 1)"

record DecisionEscalation =
  escRoute :: EscalationTier
  escTaskId :: string
  escRaisedBy :: "string option"
  escParked :: bool

record DecisionOption =
  optId :: string
  optDescription :: string

datatype GovernanceChangeKind = Weakening | Tightening

record GovernanceChange =
  gcKind :: GovernanceChangeKind
  weakeningOptionIds :: "string list"
  gcDerived :: bool
  gcSurfaces :: "string list option"

record DecisionMetadata =
  mdId :: string
  mdSource :: string
  mdScope :: string
  mdCreated :: string
  mdUpdated :: string

record DecisionSpec =
  spSummary :: string
  spBody :: "string option"
  spReversible :: "bool option"
  spOptions :: "DecisionOption list"
  spDependsOn :: "string list option"
  spTimebox :: "string option"
  spPriority :: "DecisionPriority option"
  spImpactScore :: "rat option"
  spFallback :: "string option"
  spContextRef :: "string option"
  spGovernance :: "GovernanceChange option"
  spEscalation :: "DecisionEscalation option"
  spStandingRule :: "string option"

text \<open>Routing, capacity and the stage outputs are carried as they are.\<close>

record DecisionStatus =
  stLifecycle :: DecisionLifecycle
  stAnsweredOptionId :: "string option"
  stAnsweredBy :: "string option"
  stAnsweredAt :: "string option"
  stSupersededBy :: "string option"
  stRouting :: "jsval option"
  stEvaluation :: "(string, jsval) jsmap option"
  stPriority :: "rat option"
  stCapacity :: "jsval option"
  stDeadline :: "string option"
  stTimeboxExpiresAt :: "string option"
  stEscalationTier :: "EscalationTier option"

section \<open>Events\<close>

record OpenedData =
  opSource :: string
  opScope :: string
  opSpec :: DecisionSpec
  opRouting :: "jsval option"
  opCapacity :: "jsval option"
  opDeadline :: "string option"
  opTimeboxExpiresAt :: "string option"

datatype EventBody =
    DecisionOpened OpenedData
  | RecommendationIssued jsval "jsval option" rat "jsval option"
  | StageCCompleted jsval bool
  | OperatorAnswered string
  | TimeboxExtended string string "string option"
  | Overridden string string
  | SupersededEvent string string
  | RoutingChanged string string
  | AutoExpired string string string
  | OtherEvent string

record DecisionEvent =
  evTs :: string
  evDecisionId :: string
  evBy :: "string option"
  evBody :: EventBody

record Decision =
  metadata :: DecisionMetadata
  spec :: DecisionSpec
  dstatus :: DecisionStatus
  decisionLog :: "DecisionEvent list"

section \<open>The projection\<close>

definition opened_decision :: "Decision option \<Rightarrow> DecisionEvent \<Rightarrow> OpenedData \<Rightarrow> Decision" where
  "opened_decision current ev od =
     \<lparr>metadata = \<lparr>mdId = evDecisionId ev, mdSource = opSource od, mdScope = opScope od,
        mdCreated = (case current of None \<Rightarrow> evTs ev | Some c \<Rightarrow> mdCreated (metadata c)),
        mdUpdated = evTs ev\<rparr>,
      spec = opSpec od,
      dstatus = \<lparr>stLifecycle = LOpen, stAnsweredOptionId = None, stAnsweredBy = None,
        stAnsweredAt = None, stSupersededBy = None, stRouting = opRouting od, stEvaluation = None,
        stPriority = None, stCapacity = opCapacity od, stDeadline = opDeadline od,
        stTimeboxExpiresAt = opTimeboxExpiresAt od,
        stEscalationTier = map_option escRoute (spEscalation (opSpec od))\<rparr>,
      decisionLog = (case current of None \<Rightarrow> [] | Some c \<Rightarrow> decisionLog c) @ [ev]\<rparr>"

definition log_event :: "DecisionEvent \<Rightarrow> Decision \<Rightarrow> Decision" where
  "log_event ev d = d\<lparr>decisionLog := decisionLog d @ [ev]\<rparr>"

definition touch :: "DecisionEvent \<Rightarrow> Decision \<Rightarrow> Decision" where
  "touch ev d = (log_event ev d)\<lparr>metadata := (metadata d)\<lparr>mdUpdated := evTs ev\<rparr>\<rparr>"

definition set_status :: "(DecisionStatus \<Rightarrow> DecisionStatus) \<Rightarrow> Decision \<Rightarrow> Decision" where
  "set_status f d = d\<lparr>dstatus := f (dstatus d)\<rparr>"

definition answer :: "string \<Rightarrow> string option \<Rightarrow> string \<Rightarrow> DecisionStatus \<Rightarrow> DecisionStatus" where
  "answer opt by ts st = st\<lparr>stLifecycle := LAnswered, stAnsweredOptionId := Some opt,
     stAnsweredBy := by, stAnsweredAt := Some ts\<rparr>"

definition set_evaluation :: "string \<Rightarrow> jsval \<Rightarrow> DecisionStatus \<Rightarrow> DecisionStatus" where
  "set_evaluation k v st = st\<lparr>stEvaluation :=
     Some (map_set k v (case stEvaluation st of None \<Rightarrow> [] | Some m \<Rightarrow> m))\<rparr>"

definition applyEvent :: "Decision option \<Rightarrow> DecisionEvent \<Rightarrow> Decision option" where
  "applyEvent current ev = (case evBody ev of
     DecisionOpened od \<Rightarrow> Some (opened_decision current ev od)
   | TimeboxExtended tb expi prev \<Rightarrow>
       map_option (\<lambda>d. set_status (\<lambda>st. st\<lparr>stTimeboxExpiresAt := Some expi\<rparr>)
         ((touch ev d)\<lparr>spec := (spec d)\<lparr>spTimebox := Some tb\<rparr>\<rparr>)) current
   | RoutingChanged fromT toT \<Rightarrow>
       map_option (\<lambda>d. case tier_of toT of
           None \<Rightarrow> touch ev d
         | Some t \<Rightarrow> set_status (\<lambda>st. st\<lparr>stEscalationTier := Some t\<rparr>) (touch ev d)) current
   | RecommendationIssued a b prio rt \<Rightarrow>
       map_option (\<lambda>d. set_status (\<lambda>st.
           (case b of None \<Rightarrow> set_evaluation ''stageA'' a st
             | Some sb \<Rightarrow> set_evaluation ''stageB'' sb (set_evaluation ''stageA'' a st))
           \<lparr>stPriority := Some prio,
            stRouting := (case rt of None \<Rightarrow> stRouting st | Some r \<Rightarrow> Some r)\<rparr>) (touch ev d)) current
   | StageCCompleted sc auto \<Rightarrow>
       map_option (\<lambda>d. set_status (set_evaluation ''stageC'' sc) (touch ev d)) current
   | Overridden opt old \<Rightarrow>
       map_option (\<lambda>d. set_status (answer opt (evBy ev) (evTs ev)) (touch ev d)) current
   | SupersededEvent by reason \<Rightarrow>
       map_option (\<lambda>d. if stLifecycle (dstatus d) \<in> {LAnswered, LSuperseded, LArchived}
         then log_event ev d
         else set_status (\<lambda>st. st\<lparr>stLifecycle := LSuperseded, stSupersededBy := Some by\<rparr>) (touch ev d)) current
   | OperatorAnswered opt \<Rightarrow>
       map_option (\<lambda>d. if stLifecycle (dstatus d) = LSuperseded then log_event ev d
         else set_status (answer opt (evBy ev) (evTs ev)) (touch ev d)) current
   | AutoExpired opt why expi \<Rightarrow>
       map_option (\<lambda>d. set_status (answer opt
         (Some (case evBy ev of None \<Rightarrow> ''auto-expired'' | Some b \<Rightarrow> b)) (evTs ev)) (touch ev d)) current
   | OtherEvent ty \<Rightarrow> map_option (touch ev) current)"

type_synonym date_parse = "string \<Rightarrow> int option"

text \<open>Time order; events whose time does not parse, and ties, keep the order they were read in.\<close>

definition event_cmp :: "date_parse \<Rightarrow> nat \<times> DecisionEvent \<Rightarrow> nat \<times> DecisionEvent \<Rightarrow> int" where
  "event_cmp dp a b =
     (case (dp (evTs (snd a)), dp (evTs (snd b))) of
        (Some s, Some t) \<Rightarrow> if s \<noteq> t then s - t else int (fst a) - int (fst b)
      | _ \<Rightarrow> int (fst a) - int (fst b))"

definition in_time_order :: "date_parse \<Rightarrow> DecisionEvent list \<Rightarrow> DecisionEvent list" where
  "in_time_order dp evs = map snd (sort_by (event_cmp dp) (zip [0..<length evs] evs))"

definition fold_event :: "DecisionEvent \<Rightarrow> (string, Decision) jsmap \<Rightarrow> (string, Decision) jsmap" where
  "fold_event ev m = (case applyEvent (map_of m (evDecisionId ev)) ev of
     None \<Rightarrow> m | Some d \<Rightarrow> map_set (evDecisionId ev) d m)"

definition projectAll :: "date_parse \<Rightarrow> DecisionEvent list \<Rightarrow> (string, Decision) jsmap" where
  "projectAll dp evs = fold fold_event (in_time_order dp evs) []"

definition projectDecision :: "date_parse \<Rightarrow> string \<Rightarrow> DecisionEvent list \<Rightarrow> Decision option" where
  "projectDecision dp i evs = map_of (projectAll dp evs) i"

type_synonym lcompare = "string \<Rightarrow> string \<Rightarrow> int"

definition created_cmp :: "lcompare \<Rightarrow> Decision \<Rightarrow> Decision \<Rightarrow> int" where
  "created_cmp lc a b = lc (mdCreated (metadata a)) (mdCreated (metadata b))"

definition listDecisions :: "date_parse \<Rightarrow> lcompare \<Rightarrow> DecisionEvent list \<Rightarrow> Decision list" where
  "listDecisions dp lc evs = sort_by (created_cmp lc) (map snd (projectAll dp evs))"

section \<open>Urgency and rank\<close>

definition set_text :: "string option \<Rightarrow> string option" where
  "set_text x = (case x of None \<Rightarrow> None | Some s \<Rightarrow> if s = [] then None else Some s)"

definition urgency_cmp :: "lcompare \<Rightarrow> Decision \<Rightarrow> Decision \<Rightarrow> int" where
  "urgency_cmp lc a b =
     (case (set_text (stTimeboxExpiresAt (dstatus a)), set_text (stTimeboxExpiresAt (dstatus b))) of
        (Some x, Some y) \<Rightarrow> (let c = lc x y in if c \<noteq> 0 then c else created_cmp lc a b)
      | (Some _, None) \<Rightarrow> - 1
      | (None, Some _) \<Rightarrow> 1
      | (None, None) \<Rightarrow> created_cmp lc a b)"

definition sortDecisionsByTimeboxUrgency :: "lcompare \<Rightarrow> Decision list \<Rightarrow> Decision list" where
  "sortDecisionsByTimeboxUrgency lc ds = sort_by (urgency_cmp lc) ds"

definition msRemainingUntil :: "date_parse \<Rightarrow> string option \<Rightarrow> int \<Rightarrow> int option" where
  "msRemainingUntil dp expi now = (case set_text expi of
     None \<Rightarrow> None | Some s \<Rightarrow> map_option (\<lambda>t. t - now) (dp s))"

definition isTimeboxExpired :: "date_parse \<Rightarrow> string option \<Rightarrow> int \<Rightarrow> bool" where
  "isTimeboxExpired dp expi now = (case msRemainingUntil dp expi now of None \<Rightarrow> False | Some ms \<Rightarrow> ms < 0)"

definition isDecisionTimeboxExpired :: "date_parse \<Rightarrow> Decision \<Rightarrow> int \<Rightarrow> bool" where
  "isDecisionTimeboxExpired dp d now = (case set_text (stTimeboxExpiresAt (dstatus d)) of
     None \<Rightarrow> False
   | Some s \<Rightarrow> (case dp s of None \<Rightarrow> False | Some t \<Rightarrow> t < now))"

definition filterExpiredDecisions :: "date_parse \<Rightarrow> Decision list \<Rightarrow> int \<Rightarrow> Decision list" where
  "filterExpiredDecisions dp ds now = filter (\<lambda>d.
     if \<not> isDecisionTimeboxExpired dp d now then False
     else (let l = stLifecycle (dstatus d) in l \<noteq> LAnswered \<and> l \<noteq> LArchived \<and> l \<noteq> LSuperseded)) ds"

definition urgencyDecay :: "int option \<Rightarrow> rat" where
  "urgencyDecay ms = (case ms of
     None \<Rightarrow> 1
   | Some r \<Rightarrow> if r \<le> 0 then 3 else if r \<le> 60 * 60 * 1000 then 2
       else if r \<le> 24 * 60 * 60 * 1000 then 3 / 2 else 1)"

definition computeRankScore :: "date_parse \<Rightarrow> Decision \<Rightarrow> int \<Rightarrow> rat" where
  "computeRankScore dp d now =
     (let w = DECISION_PRIORITY_WEIGHTS (case spPriority (spec d) of None \<Rightarrow> PLow | Some p \<Rightarrow> p);
          impact = (case spImpactScore (spec d) of None \<Rightarrow> 50 | Some i \<Rightarrow> i)
      in w * (impact / 100 + 1) * urgencyDecay (msRemainingUntil dp (stTimeboxExpiresAt (dstatus d)) now))"

definition rank_cmp :: "date_parse \<Rightarrow> lcompare \<Rightarrow> int \<Rightarrow> Decision \<Rightarrow> Decision \<Rightarrow> int" where
  "rank_cmp dp lc now a b =
     (let sa = computeRankScore dp a now; sb = computeRankScore dp b now
      in if sb \<noteq> sa then (if sb < sa then - 1 else 1) else created_cmp lc a b)"

definition rankDecisions :: "date_parse \<Rightarrow> lcompare \<Rightarrow> Decision list \<Rightarrow> int \<Rightarrow> Decision list" where
  "rankDecisions dp lc ds now = sort_by (rank_cmp dp lc now) ds"

section \<open>Ids\<close>

definition padStart4 :: "string \<Rightarrow> string" where
  "padStart4 s = replicate (4 - length s) (CHR ''0'') @ s"

definition formatDecisionId :: "nat \<Rightarrow> string option" where
  "formatDecisionId n = (if n < 1 then None else Some (''DEC-'' @ padStart4 (nat_text n)))"

text \<open>The number of an id \<open>DEC-\<close> followed by digits only.\<close>

definition decision_number :: "string \<Rightarrow> nat option" where
  "decision_number i =
     (case strip_prefix ''DEC-'' i of
        None \<Rightarrow> None
      | Some ds \<Rightarrow> if ds \<noteq> [] \<and> list_all is_digit ds then Some (nat_value ds) else None)"

definition max_number :: "DecisionEvent list \<Rightarrow> nat" where
  "max_number evs = fold (\<lambda>ev m. case decision_number (evDecisionId ev) of
     None \<Rightarrow> m | Some n \<Rightarrow> if n > m then n else m) evs 0"

definition nextDecisionId :: "DecisionEvent list \<Rightarrow> string option" where
  "nextDecisionId evs = formatDecisionId (max_number evs + 1)"

end
