(* ===== verification/Timebox.thy ===== *)
theory Timebox
  imports Json Complex_Main
begin

text \<open>
  Timebox durations, \<open>pipeline-cli/src/decisions/timebox.ts\<close>. Numbers are exact: the doubles of the
  code agree as long as the milliseconds stay below 2 to the 53 and an hour count prints without
  exponent.
\<close>

section \<open>Aliases\<close>

definition upper_char :: "char \<Rightarrow> char" where
  "upper_char c = (if 97 \<le> char_code c \<and> char_code c \<le> 122 then char_of (char_code c - 32) else c)"

definition toUpperCase :: "string \<Rightarrow> string" where
  "toUpperCase s = map upper_char s"

definition TIMEBOX_CATEGORICAL_ALIASES :: "(string, string) jsmap" where
  "TIMEBOX_CATEGORICAL_ALIASES =
     [(''URGENT'', ''PT4H''), (''24H'', ''P1D''), (''WEEK'', ''P7D''), (''BACKLOG'', ''P30D'')]"

section \<open>Durations\<close>

definition MS_PER_SECOND :: nat where "MS_PER_SECOND = 1000"
definition MS_PER_MINUTE :: nat where "MS_PER_MINUTE = 60 * MS_PER_SECOND"
definition MS_PER_HOUR :: nat where "MS_PER_HOUR = 60 * MS_PER_MINUTE"
definition MS_PER_DAY :: nat where "MS_PER_DAY = 24 * MS_PER_HOUR"
definition MS_PER_WEEK :: nat where "MS_PER_WEEK = 7 * MS_PER_DAY"
definition MS_PER_MONTH_AVG :: nat where "MS_PER_MONTH_AVG = 30 * MS_PER_DAY"
definition MS_PER_YEAR_AVG :: nat where "MS_PER_YEAR_AVG = 1461 * MS_PER_DAY div 4"

lemmas ms_defs = MS_PER_SECOND_def MS_PER_MINUTE_def MS_PER_HOUR_def MS_PER_DAY_def MS_PER_WEEK_def
  MS_PER_MONTH_AVG_def MS_PER_YEAR_AVG_def

text \<open>An optional group of the pattern: digits and their designator, or nothing.\<close>

definition group :: "char \<Rightarrow> string \<Rightarrow> string \<times> string" where
  "group c s = (let ds = takeWhile is_digit s; r = dropWhile is_digit s in
     if ds \<noteq> [] \<and> r \<noteq> [] \<and> hd r = c then (ds, tl r) else ([], s))"

record Designators =
  dWeeks :: string
  dYears :: string
  dMonths :: string
  dDays :: string
  dHours :: string
  dMins :: string
  dSecs :: string

text \<open>The pattern \<open>ISO_DURATION_RE\<close> on a trimmed text: weeks alone, or a date part and an optional
  time part after T.\<close>

definition match_duration :: "string \<Rightarrow> Designators option" where
  "match_duration s = (case s of
     [] \<Rightarrow> None
   | p # body \<Rightarrow>
       if p \<noteq> CHR ''P'' then None
       else (let w = group (CHR ''W'') body in
         if fst w \<noteq> [] \<and> snd w = [] then
           Some \<lparr>dWeeks = fst w, dYears = [], dMonths = [], dDays = [], dHours = [], dMins = [], dSecs = []\<rparr>
         else (let y = group (CHR ''Y'') body; mo = group (CHR ''M'') (snd y); d = group (CHR ''D'') (snd mo) in
           case snd d of
             [] \<Rightarrow> Some \<lparr>dWeeks = [], dYears = fst y, dMonths = fst mo, dDays = fst d,
                      dHours = [], dMins = [], dSecs = []\<rparr>
           | t # time \<Rightarrow>
               if t \<noteq> CHR ''T'' then None
               else (let h = group (CHR ''H'') time; mi = group (CHR ''M'') (snd h);
                         sc = group (CHR ''S'') (snd mi) in
                 if snd sc = [] then
                   Some \<lparr>dWeeks = [], dYears = fst y, dMonths = fst mo, dDays = fst d,
                      dHours = fst h, dMins = fst mi, dSecs = fst sc\<rparr>
                 else None))))"

definition parseIsoDurationToMs :: "string \<Rightarrow> nat option" where
  "parseIsoDurationToMs input =
     (let trimmed = trim input in
      if trimmed = [] then None
      else (case match_duration trimmed of
          None \<Rightarrow> None
        | Some m \<Rightarrow>
            if dWeeks m = [] \<and> dYears m = [] \<and> dMonths m = [] \<and> dDays m = [] \<and> dHours m = []
               \<and> dMins m = [] \<and> dSecs m = [] then None
            else (let ms = nat_value (dWeeks m) * MS_PER_WEEK + nat_value (dYears m) * MS_PER_YEAR_AVG
                    + nat_value (dMonths m) * MS_PER_MONTH_AVG + nat_value (dDays m) * MS_PER_DAY
                    + nat_value (dHours m) * MS_PER_HOUR + nat_value (dMins m) * MS_PER_MINUTE
                    + nat_value (dSecs m) * MS_PER_SECOND
                  in if ms = 0 then None else Some ms)))"

record ParsedTimebox =
  ptDuration :: string
  ptDurationMs :: nat
  ptAlias :: "string option"

datatype TimeboxError = EmptyTimebox | AliasTableBroken string | InvalidTimebox string

definition parseTimebox :: "string \<Rightarrow> TimeboxError + ParsedTimebox" where
  "parseTimebox input =
     (if trim input = [] then Inl EmptyTimebox
      else (let raw = trim input; upper = toUpperCase raw in
        case map_of TIMEBOX_CATEGORICAL_ALIASES upper of
          Some duration \<Rightarrow> (case parseIsoDurationToMs duration of
              None \<Rightarrow> Inl (AliasTableBroken upper)
            | Some ms \<Rightarrow> Inr \<lparr>ptDuration = duration, ptDurationMs = ms, ptAlias = Some upper\<rparr>)
        | None \<Rightarrow> (case parseIsoDurationToMs raw of
              None \<Rightarrow> Inl (InvalidTimebox input)
            | Some ms \<Rightarrow> Inr \<lparr>ptDuration = raw, ptDurationMs = ms, ptAlias = None\<rparr>)))"

section \<open>Hours\<close>

text \<open>\<open>Math.round\<close>: to the nearest integer, halves up.\<close>

definition js_round :: "rat \<Rightarrow> int" where
  "js_round x = \<lfloor>x + 1 / 2\<rfloor>"

datatype HoursError = NotPositive | NoWholeMinutes

definition hoursToIsoDuration :: "rat \<Rightarrow> HoursError + string" where
  "hoursToIsoDuration hours =
     (if hours \<le> 0 then Inl NotPositive
      else if of_int \<lfloor>hours\<rfloor> = hours then Inr (''PT'' @ int_text \<lfloor>hours\<rfloor> @ ''H'')
      else (let minutes = js_round (hours * 60) in
        if minutes \<le> 0 then Inl NoWholeMinutes else Inr (''PT'' @ int_text minutes @ ''M'')))"

section \<open>Expiry\<close>

definition computeTimeboxExpiresAt :: "(int \<Rightarrow> string) \<Rightarrow> int \<Rightarrow> int \<Rightarrow> string option" where
  "computeTimeboxExpiresAt fmt durationMs openedAt =
     (if durationMs \<le> 0 then None else Some (fmt (openedAt + durationMs)))"

end
