(* ===== verification/Escalation.thy ===== *)
theory Escalation
  imports Decisions Timebox
begin

text \<open>
  What acts on the decision catalog: governance tags (\<open>governance-fallback.ts\<close>), the automatic
  expiry of \<open>cli-decisions auto-expire\<close> (\<open>cli/decisions.ts\<close>), the escalation chain
  (\<open>escalation-chain.ts\<close>) and dispatch under fatigue (\<open>fatigue.ts\<close>). The roster, the terminal
  sender and the board are parameters; event times are inputs.
\<close>

section \<open>Governance tags\<close>

text \<open>The surface patterns are matched by a parameter; \<open>names\<close> are the surfaces found.\<close>

definition deriveGovernanceChange :: "GovernanceChange option \<Rightarrow> string list \<Rightarrow> GovernanceChange option" where
  "deriveGovernanceChange authored surfaces =
     (if surfaces = [] then authored
      else Some \<lparr>gcKind = Weakening,
        weakeningOptionIds = (case authored of None \<Rightarrow> [] | Some g \<Rightarrow> weakeningOptionIds g),
        gcDerived = True, gcSurfaces = Some surfaces\<rparr>)"

datatype GovernanceError =
    UnknownWeakens "string list" "string list"
  | WeakensOnTightening
  | UncheckableFallback "string list" string
  | NoWeakeningOption
  | WeakeningFallback string

definition checkGovernanceFallback ::
  "GovernanceChange option \<Rightarrow> string list \<Rightarrow> string option \<Rightarrow> GovernanceError option" where
  "checkGovernanceFallback change optionIds fallback =
     (case change of
        None \<Rightarrow> None
      | Some g \<Rightarrow>
          (let unknown = filter (\<lambda>i. i \<notin> set optionIds) (weakeningOptionIds g) in
           if unknown \<noteq> [] then Some (UnknownWeakens unknown optionIds)
           else if gcKind g = Tightening then
             (if weakeningOptionIds g \<noteq> [] then Some WeakensOnTightening else None)
           else if gcDerived g \<and> weakeningOptionIds g = [] then
             (case fallback of None \<Rightarrow> None
              | Some f \<Rightarrow> Some (UncheckableFallback
                  (case gcSurfaces g of None \<Rightarrow> [] | Some s \<Rightarrow> s) f))
           else if weakeningOptionIds g = [] then Some NoWeakeningOption
           else (case fallback of None \<Rightarrow> None
             | Some f \<Rightarrow> if f \<in> set (weakeningOptionIds g) then Some (WeakeningFallback f) else None)))"

definition fallbackWeakensControl :: "GovernanceChange option \<Rightarrow> string \<Rightarrow> bool" where
  "fallbackWeakensControl change opt =
     (case change of
        None \<Rightarrow> False
      | Some g \<Rightarrow>
          if gcKind g \<noteq> Weakening then False
          else if gcDerived g \<and> weakeningOptionIds g = [] then True
          else opt \<in> set (weakeningOptionIds g))"

section \<open>Automatic expiry\<close>

datatype SkipReason = NoAutonomousFallback | FallbackOptionMissing | WeakeningControlStays

datatype ExpiryOutcome = Untouched | Skip SkipReason | Expire string

definition expiry_outcome :: "date_parse \<Rightarrow> int \<Rightarrow> Decision \<Rightarrow> ExpiryOutcome" where
  "expiry_outcome dp now d =
     (if stLifecycle (dstatus d) \<in> {LAnswered, LArchived, LSuperseded} then Untouched
      else if \<not> isDecisionTimeboxExpired dp d now then Untouched
      else (case spFallback (spec d) of
          None \<Rightarrow> Skip NoAutonomousFallback
        | Some f \<Rightarrow>
            if \<not> list_ex (\<lambda>p. optId p = f) (spOptions (spec d)) then Skip FallbackOptionMissing
            else if fallbackWeakensControl (spGovernance (spec d)) f then Skip WeakeningControlStays
            else Expire f))"

definition makeAutoExpiredEvent :: "string \<Rightarrow> string \<Rightarrow> string \<Rightarrow> string \<Rightarrow> string \<Rightarrow> DecisionEvent" where
  "makeAutoExpiredEvent ts i opt rationale expiredAt =
     \<lparr>evTs = ts, evDecisionId = i, evBy = Some ''auto-expired'',
      evBody = AutoExpired opt rationale expiredAt\<rparr>"

definition expire_event :: "(int \<Rightarrow> string) \<Rightarrow> int \<Rightarrow> Decision \<Rightarrow> string \<Rightarrow> DecisionEvent" where
  "expire_event fmt now d f = makeAutoExpiredEvent (fmt now) (mdId (metadata d)) f
     (''fallback after '' @ (case spTimebox (spec d) of None \<Rightarrow> ''expired'' | Some t \<Rightarrow> t) @ '' timebox'')
     (case stTimeboxExpiresAt (dstatus d) of None \<Rightarrow> fmt now | Some e \<Rightarrow> e)"

text \<open>One run of \<open>auto-expire\<close>: the events it appends.\<close>

definition auto_expire :: "date_parse \<Rightarrow> (int \<Rightarrow> string) \<Rightarrow> lcompare \<Rightarrow> bool \<Rightarrow> int \<Rightarrow> DecisionEvent list
    \<Rightarrow> DecisionEvent list" where
  "auto_expire dp fmt lc dryRun now evs =
     (if dryRun then []
      else concat (map (\<lambda>d. case expiry_outcome dp now d of
          Expire f \<Rightarrow> [expire_event fmt now d f] | _ \<Rightarrow> []) (listDecisions dp lc evs)))"

section \<open>The escalation chain\<close>

definition nextTier :: "EscalationTier \<Rightarrow> EscalationTier option" where
  "nextTier t = (case t of TOperational \<Rightarrow> Some TDesign | TDesign \<Rightarrow> Some TOperator | TOperator \<Rightarrow> None)"

definition DEFAULT_ESCALATION_TIMEBOX_MINUTES :: "EscalationTier \<Rightarrow> rat" where
  "DEFAULT_ESCALATION_TIMEBOX_MINUTES t = (if t = TOperational then 30 else 240)"

text \<open>The configuration gives minutes per tier; values that are not positive numbers are ignored.\<close>

definition tierTimeboxMs :: "EscalationTier \<Rightarrow> (EscalationTier \<Rightarrow> rat option) \<Rightarrow> rat option" where
  "tierTimeboxMs t config =
     (if t = TOperator then None
      else (let minutes = (case config t of
              Some m \<Rightarrow> if m > 0 then m else DEFAULT_ESCALATION_TIMEBOX_MINUTES t
            | None \<Rightarrow> DEFAULT_ESCALATION_TIMEBOX_MINUTES t)
        in Some (minutes * 60000)))"

definition ANSWER_ROLES :: "EscalationTier \<Rightarrow> string list" where
  "ANSWER_ROLES t = (case t of TOperational \<Rightarrow> [''operator-dispatch'', ''planner'']
     | TDesign \<Rightarrow> [''planner''] | TOperator \<Rightarrow> [])"

datatype AnswerRefusal =
    NotIdentified string
  | RaisedToOperator string string
  | WrongRole EscalationTier "string list" string string

definition answerRefusal ::
  "EscalationTier \<Rightarrow> (string \<times> string) option \<Rightarrow> string option \<Rightarrow> AnswerRefusal option" where
  "answerRefusal t caller resolutionError =
     (case resolutionError of
        Some e \<Rightarrow> Some (NotIdentified e)
      | None \<Rightarrow> (case caller of
          None \<Rightarrow> None
        | Some (name, role) \<Rightarrow>
            if role \<in> set (ANSWER_ROLES t) then None
            else if t = TOperator then Some (RaisedToOperator name role)
            else Some (WrongRole t (ANSWER_ROLES t) name role)))"

fun last_move :: "DecisionEvent list \<Rightarrow> string option" where
  "last_move [] = None"
| "last_move (ev # older) = (case evBody ev of RoutingChanged _ _ \<Rightarrow> Some (evTs ev) | _ \<Rightarrow> last_move older)"

definition tierEnteredAt :: "Decision \<Rightarrow> string" where
  "tierEnteredAt d = (case last_move (rev (decisionLog d)) of
     Some ts \<Rightarrow> ts | None \<Rightarrow> mdCreated (metadata d))"

record DueDecision =
  dueDecision :: Decision
  dueFrom :: EscalationTier
  dueTo :: EscalationTier
  dueMinutes :: rat

definition due_of :: "date_parse \<Rightarrow> int \<Rightarrow> (EscalationTier \<Rightarrow> rat option) \<Rightarrow> Decision \<Rightarrow> DueDecision option" where
  "due_of dp now config d =
     (case stEscalationTier (dstatus d) of
        None \<Rightarrow> None
      | Some fromT \<Rightarrow>
          if stLifecycle (dstatus d) \<noteq> LOpen then None
          else (case (nextTier fromT, tierTimeboxMs fromT config) of
              (Some toT, Some ms) \<Rightarrow>
                (case dp (tierEnteredAt d) of
                   None \<Rightarrow> None
                 | Some entered \<Rightarrow>
                     if of_int (now - entered) < ms then None
                     else Some \<lparr>dueDecision = d, dueFrom = fromT, dueTo = toT, dueMinutes = ms / 60000\<rparr>)
            | _ \<Rightarrow> None))"

definition findDueDecisions ::
  "date_parse \<Rightarrow> Decision list \<Rightarrow> int \<Rightarrow> (EscalationTier \<Rightarrow> rat option) \<Rightarrow> DueDecision list" where
  "findDueDecisions dp ds now config = List.map_filter (due_of dp now config) ds"

definition makeRoutingChangedEvent :: "string \<Rightarrow> string \<Rightarrow> EscalationTier \<Rightarrow> EscalationTier \<Rightarrow> string option
    \<Rightarrow> DecisionEvent" where
  "makeRoutingChangedEvent ts i fromT toT by =
     \<lparr>evTs = ts, evDecisionId = i, evBy = by, evBody = RoutingChanged (tier_text fromT) (tier_text toT)\<rparr>"

text \<open>The messages of the chain: a roster session, the sender's refusal.\<close>

record RosterEntry =
  reName :: string
  reRole :: string
  reRunning :: bool

record ChainDeps =
  cdSessions :: "RosterEntry list option"
  cdSend :: "RosterEntry \<Rightarrow> string \<Rightarrow> string option"

record NotifyResult =
  nrSent :: bool
  nrTo :: "string option"
  nrReason :: "string option"

definition TIER_RECEIVER :: "EscalationTier \<Rightarrow> string option" where
  "TIER_RECEIVER t = (case t of TOperational \<Rightarrow> Some ''operator-dispatch''
     | TDesign \<Rightarrow> Some ''planner'' | TOperator \<Rightarrow> None)"

definition runningSessions :: "ChainDeps \<Rightarrow> RosterEntry list" where
  "runningSessions deps = (case cdSessions deps of None \<Rightarrow> [] | Some rs \<Rightarrow> filter reRunning rs)"

definition sendTo :: "ChainDeps \<Rightarrow> RosterEntry option \<Rightarrow> string \<Rightarrow> NotifyResult" where
  "sendTo deps entry message = (case entry of
     None \<Rightarrow> \<lparr>nrSent = False, nrTo = None, nrReason = Some ''no running session in the roster''\<rparr>
   | Some e \<Rightarrow> (case cdSend deps e message of
       None \<Rightarrow> \<lparr>nrSent = True, nrTo = Some (reName e), nrReason = None\<rparr>
     | Some err \<Rightarrow> \<lparr>nrSent = False, nrTo = Some (reName e), nrReason = Some err\<rparr>))"

definition tierSession :: "ChainDeps \<Rightarrow> EscalationTier \<Rightarrow> RosterEntry option" where
  "tierSession deps t = (case TIER_RECEIVER t of None \<Rightarrow> None
     | Some role \<Rightarrow> find (\<lambda>s. reRole s = role) (runningSessions deps))"

definition is_decision_id :: "string \<Rightarrow> bool" where
  "is_decision_id i = (case strip_prefix ''DEC-'' i of None \<Rightarrow> False
     | Some ds \<Rightarrow> length ds \<ge> 4 \<and> list_all is_digit ds)"

text \<open>One line of printable text, shortened to \<open>n\<close> characters.\<close>

definition printable :: "char \<Rightarrow> char" where
  "printable c = (if 32 \<le> char_code c \<and> char_code c \<le> 126 then c else CHR 0x20)"

fun squeeze :: "string \<Rightarrow> string" where
  "squeeze [] = []"
| "squeeze [c] = [c]"
| "squeeze (c # d # cs) = (if c = CHR 0x20 \<and> d = CHR 0x20 then squeeze (d # cs) else c # squeeze (d # cs))"

definition oneLine :: "string \<Rightarrow> nat \<Rightarrow> string" where
  "oneLine s n = (let flat = trim (squeeze (map printable s)) in
     if length flat > n then take (n - 3) flat @ ''...'' else flat)"

datatype MessageKind = NeedsAnswer | WasAnswered

text \<open>The left value is the message of the exception.\<close>

definition decisionMessage ::
  "MessageKind \<Rightarrow> string \<Rightarrow> EscalationTier option \<Rightarrow> string option \<Rightarrow> string + string" where
  "decisionMessage kind i t storePath =
     (if \<not> is_decision_id i then Inl (''refusing to announce decision id '' @ [CHR 0x27] @ oneLine i 40 @ [CHR 0x27])
      else if kind = WasAnswered
      then Inr (''Decision '' @ i @ '' was answered. Read it with: cli-decisions show '' @ i)
      else (case t of
          None \<Rightarrow> Inl ''refusing to announce a decision without a known tier''
        | Some tier \<Rightarrow>
            (let store = (case set_text storePath of None \<Rightarrow> []
                | Some p \<Rightarrow> '' (store: '' @ oneLine p 120 @ '')'')
             in Inr (''Decision '' @ i @ '' ('' @ tier_text tier
               @ '') needs an answer. Read it with: cli-decisions show '' @ i @ store))))"

definition not_sent :: "string \<Rightarrow> NotifyResult" where
  "not_sent why = \<lparr>nrSent = False, nrTo = None, nrReason = Some why\<rparr>"

definition notifyTier :: "ChainDeps \<Rightarrow> EscalationTier \<Rightarrow> string \<Rightarrow> string option \<Rightarrow> NotifyResult" where
  "notifyTier deps t i storePath =
     (if t = TOperator then not_sent ''the operator has no session''
      else (case decisionMessage NeedsAnswer i (Some t) storePath of
          Inl err \<Rightarrow> not_sent err
        | Inr msg \<Rightarrow> sendTo deps (tierSession deps t) msg))"

definition notifyRaiser :: "ChainDeps \<Rightarrow> string option \<Rightarrow> string \<Rightarrow> NotifyResult" where
  "notifyRaiser deps raisedBy i = (case set_text raisedBy of
     None \<Rightarrow> not_sent ''the raising session is unknown''
   | Some name \<Rightarrow> (case decisionMessage WasAnswered i None None of
       Inl err \<Rightarrow> not_sent err
     | Inr msg \<Rightarrow> sendTo deps (find (\<lambda>s. reName s = name) (runningSessions deps)) msg))"

text \<open>After an answer: the parked manifest goes back to the queue (the board's answer is a
  parameter, \<open>None\<close> when it throws) and the raiser is told.\<close>

definition afterAnswer ::
  "ChainDeps \<Rightarrow> (string \<Rightarrow> string \<Rightarrow> bool option) \<Rightarrow> Decision \<Rightarrow> bool \<times> NotifyResult" where
  "afterAnswer deps unblock d =
     (case spEscalation (spec d) of
        None \<Rightarrow> (False, notifyRaiser deps None (mdId (metadata d)))
      | Some e \<Rightarrow>
          (if escParked e then unblock (escTaskId e) (mdId (metadata d)) = Some True else False,
           notifyRaiser deps (escRaisedBy e) (mdId (metadata d))))"

record PromotedDecision =
  pdId :: string
  pdFrom :: EscalationTier
  pdTo :: EscalationTier
  pdNotified :: "NotifyResult option"

text \<open>Promotion: what it reports and the events it appends, stamped with the clock \<open>ts\<close>.\<close>

definition promoteExpiredDecisions ::
  "date_parse \<Rightarrow> lcompare \<Rightarrow> ChainDeps \<Rightarrow> (EscalationTier \<Rightarrow> rat option) \<Rightarrow> bool \<Rightarrow> int \<Rightarrow> string \<Rightarrow>
   DecisionEvent list \<Rightarrow> PromotedDecision list \<times> DecisionEvent list" where
  "promoteExpiredDecisions dp lc deps config dryRun now ts evs =
     (let due = findDueDecisions dp (listDecisions dp lc evs) now config in
      (map (\<lambda>q. \<lparr>pdId = mdId (metadata (dueDecision q)), pdFrom = dueFrom q, pdTo = dueTo q,
          pdNotified = (if dryRun then None
            else Some (notifyTier deps (dueTo q) (mdId (metadata (dueDecision q))) None))\<rparr>) due,
       if dryRun then [] else map (\<lambda>q. makeRoutingChangedEvent ts (mdId (metadata (dueDecision q)))
          (dueFrom q) (dueTo q) (Some ''framework'')) due))"

section \<open>Dispatch under fatigue\<close>

datatype DecisionTier = XS | S | M | L | XL

datatype FatigueDisposition = Dispatch | AutoDecide | SurfaceBlocking | Defer

definition dispatchUnderFatigue ::
  "bool \<Rightarrow> DecisionTier option \<Rightarrow> bool option \<Rightarrow> bool option \<Rightarrow> bool option \<Rightarrow> FatigueDisposition" where
  "dispatchUnderFatigue active tier reversible llmEligible blockingCritical =
     (if \<not> active then Dispatch
      else (let rev = (case reversible of None \<Rightarrow> True | Some b \<Rightarrow> b);
                llm = (case llmEligible of None \<Rightarrow> False | Some b \<Rightarrow> b);
                crit = (case blockingCritical of None \<Rightarrow> False | Some b \<Rightarrow> b) in
        if crit \<and> (tier = Some XS \<or> tier = Some S) then SurfaceBlocking
        else if rev \<and> llm \<and> (tier = Some XS \<or> tier = Some S) then AutoDecide
        else if tier = Some M \<or> tier = Some L \<or> tier = Some XL then Defer
        else Dispatch))"

end
