(* ===== verification/DecisionProps.thy ===== *)
theory DecisionProps
  imports Escalation JsonFacts
begin

text \<open>
  Properties of the decision catalog: the projection per decision and its independence of the read
  order, expiry and governance tags, durations, the escalation chain, fresh ids.
\<close>

section \<open>The projection, one decision at a time\<close>

definition step_event :: "DecisionEvent \<Rightarrow> Decision option \<Rightarrow> Decision option" where
  "step_event ev c = (case applyEvent c ev of None \<Rightarrow> c | Some d \<Rightarrow> Some d)"

definition events_of :: "string \<Rightarrow> DecisionEvent list \<Rightarrow> DecisionEvent list" where
  "events_of i evs = filter (\<lambda>ev. evDecisionId ev = i) evs"

lemma fold_event_lookup:
  "map_of (fold fold_event evs m) i = fold step_event (events_of i evs) (map_of m i)"
proof (induction evs arbitrary: m)
  case (Cons ev evs)
  have "map_of (fold_event ev m) i = (if evDecisionId ev = i then step_event ev (map_of m i) else map_of m i)"
    by (auto simp: fold_event_def step_event_def split: option.split)
  with Cons show ?case by (simp add: events_of_def)
qed (simp add: events_of_def)

lemma projectDecision_fold:
  "projectDecision dp i evs = fold step_event (events_of i (in_time_order dp evs)) None"
  by (simp add: projectDecision_def projectAll_def fold_event_lookup)

section \<open>Time order\<close>

definition time_of :: "date_parse \<Rightarrow> DecisionEvent \<Rightarrow> int" where
  "time_of dp ev = (case dp (evTs ev) of None \<Rightarrow> 0 | Some t \<Rightarrow> t)"

definition timed_cmp :: "date_parse \<Rightarrow> nat \<times> DecisionEvent \<Rightarrow> nat \<times> DecisionEvent \<Rightarrow> int" where
  "timed_cmp dp a b = (if time_of dp (snd a) \<noteq> time_of dp (snd b) then time_of dp (snd a) - time_of dp (snd b)
     else int (fst a) - int (fst b))"

interpretation time_order: comparator "timed_cmp dp" for dp
proof
  show "timed_cmp dp x y \<le> 0 \<or> timed_cmp dp y x \<le> 0" for x y by (auto simp: timed_cmp_def)
  show "timed_cmp dp x y \<le> 0 \<Longrightarrow> timed_cmp dp y z \<le> 0 \<Longrightarrow> timed_cmp dp x z \<le> 0" for x y z
    by (auto simp: timed_cmp_def split: if_splits)
qed

lemma insort_by_cong:
  "(\<And>y. y \<in> set xs \<Longrightarrow> f x y = g x y) \<Longrightarrow> insort_by f x xs = insort_by g x xs"
  by (induction xs) auto

lemma sort_by_cong:
  "(\<And>x y. x \<in> set xs \<Longrightarrow> y \<in> set xs \<Longrightarrow> f x y = g x y) \<Longrightarrow> sort_by f xs = sort_by g xs"
proof (induction xs)
  case (Cons x xs)
  then have "sort_by f xs = sort_by g xs" by simp
  moreover have "insort_by f x (sort_by g xs) = insort_by g x (sort_by g xs)"
    by (rule insort_by_cong) (use Cons.prems in simp)
  ultimately show ?case by (simp add: sort_by_def)
qed (simp add: sort_by_def)

definition dated :: "date_parse \<Rightarrow> DecisionEvent list \<Rightarrow> bool" where
  "dated dp evs \<longleftrightarrow> (\<forall>ev \<in> set evs. dp (evTs ev) \<noteq> None)"

lemma in_time_order_sorted:
  assumes "dated dp evs"
  shows "sorted (map (time_of dp) (in_time_order dp evs))" and "mset (in_time_order dp evs) = mset evs"
proof -
  let ?zs = "zip [0..<length evs] evs"
  have snd: "p \<in> set ?zs \<Longrightarrow> snd p \<in> set evs" for p by (metis prod.collapse set_zip_rightD)
  have "event_cmp dp a b = timed_cmp dp a b" if "a \<in> set ?zs" "b \<in> set ?zs" for a b
  proof -
    have "snd a \<in> set evs" "snd b \<in> set evs" by (rule snd, rule that)+
    then obtain s t where "dp (evTs (snd a)) = Some s" "dp (evTs (snd b)) = Some t"
      using assms unfolding dated_def by blast
    then show ?thesis by (simp add: event_cmp_def timed_cmp_def time_of_def)
  qed
  then have eq: "sort_by (event_cmp dp) ?zs = sort_by (timed_cmp dp) ?zs" by (rule sort_by_cong)
  have "sorted_wrt (\<lambda>a b. timed_cmp dp a b \<le> 0) (sort_by (timed_cmp dp) ?zs)"
    by (rule time_order.sorted_sort)
  then have "sorted_wrt (\<lambda>a b. time_of dp (snd a) \<le> time_of dp (snd b)) (sort_by (timed_cmp dp) ?zs)"
    by (rule sorted_wrt_mono_rel [rotated]) (auto simp: timed_cmp_def split: if_splits)
  then show "sorted (map (time_of dp) (in_time_order dp evs))"
    by (simp add: in_time_order_def eq sorted_map sorted_wrt_map)
  have "mset (map snd (sort_by (event_cmp dp) ?zs)) = image_mset snd (mset ?zs)" by simp
  also have "\<dots> = mset evs" by (metis length_map map_nth map_snd_zip length_upt minus_nat.diff_0 mset_map)
  finally show "mset (in_time_order dp evs) = mset evs" by (simp only: in_time_order_def)
qed

text \<open>When all event times parse and differ, the projection of every decision is a function of
  the set of events: it does not matter in which order the two storage layouts were read.\<close>

theorem projection_read_order_independent:
  assumes "dated dp evs" and "distinct (map (time_of dp) evs)" and "mset evs = mset evs'"
  shows "in_time_order dp evs = in_time_order dp evs'
    \<and> projectDecision dp i evs = projectDecision dp i evs'"
proof -
  have dated': "dated dp evs'" using assms(1,3) by (metis dated_def mset_eq_setD)
  note s = in_time_order_sorted [OF assms(1)] and s' = in_time_order_sorted [OF dated']
  have d: "distinct (map (time_of dp) xs)" if "mset xs = mset evs" for xs
    using assms(2) that by (metis mset_eq_imp_distinct_iff mset_map)
  have same: "set (in_time_order dp evs) = set evs" "set (in_time_order dp evs') = set evs"
    using s(2) s'(2) assms(3) by (metis mset_eq_setD)+
  have "in_time_order dp evs = in_time_order dp evs'"
    by (rule map_sorted_distinct_set_unique [where f = "time_of dp"])
      (use s s' d assms(2,3) same in \<open>simp_all add: distinct_map\<close>)
  then show ?thesis by (simp add: projectDecision_fold)
qed

definition demo_dp :: date_parse where
  "demo_dp s = (if s = ''t1'' then Some 1 else if s = ''t2'' then Some 2 else if s = ''t3'' then Some 3 else None)"

definition demo_spec :: DecisionSpec where
  "demo_spec = \<lparr>spSummary = ''s'', spBody = None, spReversible = None,
     spOptions = [\<lparr>optId = ''opt-a'', optDescription = ''a''\<rparr>, \<lparr>optId = ''opt-b'', optDescription = ''b''\<rparr>],
     spDependsOn = None, spTimebox = None, spPriority = None, spImpactScore = None, spFallback = Some ''opt-a'',
     spContextRef = None, spGovernance = None,
     spEscalation = Some \<lparr>escRoute = TOperational, escTaskId = ''T1'', escRaisedBy = None, escParked = False\<rparr>,
     spStandingRule = None\<rparr>"

definition demo_event :: "string \<Rightarrow> EventBody \<Rightarrow> DecisionEvent" where
  "demo_event ts b = \<lparr>evTs = ts, evDecisionId = ''DEC-0001'', evBy = Some ''op'', evBody = b\<rparr>"

definition demo_opened :: DecisionEvent where
  "demo_opened = demo_event ''t1'' (DecisionOpened \<lparr>opSource = ''ad-hoc'', opScope = ''workspace'', opSpec = demo_spec,
     opRouting = None, opCapacity = None, opDeadline = None, opTimeboxExpiresAt = Some ''t2''\<rparr>)"

theorem projection_read_order_independent_witness:
  "in_time_order demo_dp [demo_opened, demo_event ''t2'' (OperatorAnswered ''opt-a'')]
     = in_time_order demo_dp [demo_event ''t2'' (OperatorAnswered ''opt-a''), demo_opened]
   \<and> projectDecision demo_dp ''DEC-0001'' [demo_opened, demo_event ''t2'' (OperatorAnswered ''opt-a'')]
     = projectDecision demo_dp ''DEC-0001'' [demo_event ''t2'' (OperatorAnswered ''opt-a''), demo_opened]"
  by (rule projection_read_order_independent)
    (simp_all add: dated_def demo_dp_def demo_opened_def demo_event_def time_of_def add_mset_commute)

text \<open>A superseded decision is not immutable: an answer leaves it superseded, but an override or an
  automatic expiry that comes later makes it answered again.\<close>

theorem superseded_can_be_overridden:
  "map_option (\<lambda>d. (stLifecycle (dstatus d), stAnsweredOptionId (dstatus d)))
     (projectDecision demo_dp ''DEC-0001'' [demo_opened, demo_event ''t2'' (SupersededEvent ''DEC-0002'' ''r''),
        demo_event ''t3'' (OperatorAnswered ''opt-b'')]) = Some (LSuperseded, None)
   \<and> map_option (\<lambda>d. (stLifecycle (dstatus d), stAnsweredOptionId (dstatus d)))
     (projectDecision demo_dp ''DEC-0001'' [demo_opened, demo_event ''t2'' (SupersededEvent ''DEC-0002'' ''r''),
        demo_event ''t3'' (Overridden ''opt-b'' ''opt-a'')]) = Some (LAnswered, Some ''opt-b'')
   \<and> map_option (\<lambda>d. (stLifecycle (dstatus d), stAnsweredOptionId (dstatus d)))
     (projectDecision demo_dp ''DEC-0001'' [demo_opened, demo_event ''t2'' (SupersededEvent ''DEC-0002'' ''r''),
        demo_event ''t3'' (AutoExpired ''opt-a'' ''w'' ''t2'')]) = Some (LAnswered, Some ''opt-a'')"
  by (intro conjI; code_simp)

section \<open>Governance and automatic expiry\<close>

text \<open>A fallback that \<open>cli-decisions add\<close> accepts, with the governance tag it derives from the
  surfaces it found, is one that a lapsed timebox may apply: it weakens no control.\<close>

theorem accepted_fallback_never_weakens:
  assumes "checkGovernanceFallback (deriveGovernanceChange authored surfaces) optionIds (Some f) = None"
  shows "\<not> fallbackWeakensControl (deriveGovernanceChange authored surfaces) f"
proof (cases "deriveGovernanceChange authored surfaces")
  case None
  then show ?thesis by (simp add: fallbackWeakensControl_def)
next
  case (Some g)
  show ?thesis
  proof (cases "gcKind g")
    case Weakening
    then show ?thesis using assms unfolding Some
      by (auto simp: checkGovernanceFallback_def fallbackWeakensControl_def Let_def split: if_splits)
  next
    case Tightening
    then show ?thesis unfolding Some by (simp add: fallbackWeakensControl_def)
  qed
qed

theorem accepted_fallback_never_weakens_witness:
  "\<not> fallbackWeakensControl (deriveGovernanceChange
     (Some \<lparr>gcKind = Tightening, weakeningOptionIds = [''opt-b''], gcDerived = False, gcSurfaces = None\<rparr>)
     [''workflow gates'']) ''opt-a''"
  by (rule accepted_fallback_never_weakens [where optionIds = "[''opt-a'', ''opt-b'']"]) code_simp

lemma mem_listDecisions: "d \<in> set (listDecisions dp lc evs) \<longleftrightarrow> d \<in> snd ` set (projectAll dp evs)"
  by (simp add: listDecisions_def)

text \<open>C11. Every event \<open>auto-expire\<close> appends is for an unresolved decision whose timebox has lapsed,
  picks the declared fallback among the declared options, and never an option that weakens a
  control; folding it answers the decision with that option, so a second run leaves it alone.\<close>

theorem auto_expire_safe:
  assumes "ev \<in> set (auto_expire dp fmt lc dryRun now evs)"
  shows "\<exists>d f d'. d \<in> set (listDecisions dp lc evs)
    \<and> stLifecycle (dstatus d) \<notin> {LAnswered, LArchived, LSuperseded}
    \<and> isDecisionTimeboxExpired dp d now \<and> spFallback (spec d) = Some f
    \<and> f \<in> optId ` set (spOptions (spec d)) \<and> \<not> fallbackWeakensControl (spGovernance (spec d)) f
    \<and> evDecisionId ev = mdId (metadata d) \<and> applyEvent (Some d) ev = Some d'
    \<and> stLifecycle (dstatus d') = LAnswered \<and> stAnsweredOptionId (dstatus d') = Some f
    \<and> (\<forall>now'. expiry_outcome dp now' d' = Untouched)"
proof -
  from assms obtain d f where d: "d \<in> set (listDecisions dp lc evs)" "expiry_outcome dp now d = Expire f"
    "ev = expire_event fmt now d f"
    by (auto simp: auto_expire_def split: if_splits ExpiryOutcome.splits dest: sym)
  from d(2) have c: "stLifecycle (dstatus d) \<notin> {LAnswered, LArchived, LSuperseded}"
    "isDecisionTimeboxExpired dp d now" "spFallback (spec d) = Some f"
    "list_ex (\<lambda>p. optId p = f) (spOptions (spec d))" "\<not> fallbackWeakensControl (spGovernance (spec d)) f"
    by (auto simp: expiry_outcome_def split: if_splits option.splits)
  from c(4) have "f \<in> optId ` set (spOptions (spec d))" by (auto simp: list_ex_iff)
  moreover obtain d' where d': "applyEvent (Some d) ev = Some d'"
    "stLifecycle (dstatus d') = LAnswered" "stAnsweredOptionId (dstatus d') = Some f"
    by (simp add: d(3) expire_event_def makeAutoExpiredEvent_def applyEvent_def set_status_def answer_def)
  moreover have "expiry_outcome dp now' d' = Untouched" for now' using d'(2) by (simp add: expiry_outcome_def)
  moreover have "evDecisionId ev = mdId (metadata d)"
    by (simp add: d(3) expire_event_def makeAutoExpiredEvent_def)
  ultimately show ?thesis using d(1) c by blast
qed

theorem auto_expire_safe_witness:
  "\<exists>ev \<in> set (auto_expire demo_dp (\<lambda>t. ''t3'') (\<lambda>a b. 0) False 5 [demo_opened]).
   \<exists>d f d'. d \<in> set (listDecisions demo_dp (\<lambda>a b. 0) [demo_opened])
    \<and> stLifecycle (dstatus d) \<notin> {LAnswered, LArchived, LSuperseded}
    \<and> isDecisionTimeboxExpired demo_dp d 5 \<and> spFallback (spec d) = Some f
    \<and> f \<in> optId ` set (spOptions (spec d)) \<and> \<not> fallbackWeakensControl (spGovernance (spec d)) f
    \<and> evDecisionId ev = mdId (metadata d) \<and> applyEvent (Some d) ev = Some d'
    \<and> stLifecycle (dstatus d') = LAnswered \<and> stAnsweredOptionId (dstatus d') = Some f
    \<and> (\<forall>now'. expiry_outcome demo_dp now' d' = Untouched)"
proof -
  have "auto_expire demo_dp (\<lambda>t. ''t3'') (\<lambda>a b. 0) False 5 [demo_opened] \<noteq> []" by code_simp
  then obtain ev where ev: "ev \<in> set (auto_expire demo_dp (\<lambda>t. ''t3'') (\<lambda>a b. 0) False 5 [demo_opened])"
    using list.set_sel(1) by blast
  from auto_expire_safe [OF ev] ev show ?thesis by (intro bexI [where x = ev])
qed

section \<open>Durations\<close>

lemma digits_of_nat_text: "takeWhile is_digit (nat_text n @ c # r) = nat_text n \<and> dropWhile is_digit (nat_text n @ c # r) = c # r"
  if "\<not> is_digit c"
proof -
  have "\<forall>x \<in> set (nat_text n). is_digit x" using nat_text_digits [of n] by (simp add: list_all_iff)
  then show ?thesis using that by (simp add: takeWhile_append2 dropWhile_append2)
qed

lemma group_nat_text:
  assumes "\<not> is_digit c"
  shows "group d (nat_text n @ c # r) = (if c = d then (nat_text n, r) else ([], nat_text n @ c # r))"
  using digits_of_nat_text [OF assms] nat_text_digits [of n] by (simp add: group_def Let_def)

lemma group_other: "\<not> is_digit c \<Longrightarrow> group d (c # r) = ([], c # r)"
  by (simp add: group_def Let_def)

lemma group_Nil: "group d [] = ([], [])"
  by (simp add: group_def)

lemma no_digit [simp]: "\<not> is_digit CHR ''T''" "\<not> is_digit CHR ''H''" "\<not> is_digit CHR ''M''"
  by (simp_all add: is_digit_def char_code_def)

lemma trim_PT:
  assumes "\<not> is_space c"
  shows "trim (CHR ''P'' # s @ [c]) = CHR ''P'' # s @ [c]"
proof -
  have "\<not> is_space CHR ''P''" by (simp add: is_space_def char_code_def)
  with assms show ?thesis by (simp add: trim_def)
qed

lemma no_space [simp]: "\<not> is_space CHR ''H''" "\<not> is_space CHR ''M''"
  by (simp_all add: is_space_def char_code_def)

lemma parse_hours: "0 < n \<Longrightarrow> parseIsoDurationToMs (''PT'' @ nat_text n @ ''H'') = Some (n * MS_PER_HOUR)"
proof -
  assume n: "0 < n"
  let ?s = "CHR ''P'' # CHR ''T'' # nat_text n @ [CHR ''H'']"
  have t: "trim ?s = ?s" using trim_PT [of "CHR ''H''" "CHR ''T'' # nat_text n"] by simp
  have m: "match_duration ?s = Some \<lparr>dWeeks = [], dYears = [], dMonths = [], dDays = [],
      dHours = nat_text n, dMins = [], dSecs = []\<rparr>"
    by (simp add: match_duration_def group_other group_nat_text group_Nil Let_def)
  show ?thesis using n nat_text_digits [of n]
    by (simp add: parseIsoDurationToMs_def Let_def t m nat_value_text ms_defs) (simp add: nat_value_def)
qed

lemma parse_minutes: "0 < n \<Longrightarrow> parseIsoDurationToMs (''PT'' @ nat_text n @ ''M'') = Some (n * MS_PER_MINUTE)"
proof -
  assume n: "0 < n"
  let ?s = "CHR ''P'' # CHR ''T'' # nat_text n @ [CHR ''M'']"
  have t: "trim ?s = ?s" using trim_PT [of "CHR ''M''" "CHR ''T'' # nat_text n"] by simp
  have m: "match_duration ?s = Some \<lparr>dWeeks = [], dYears = [], dMonths = [], dDays = [],
      dHours = [], dMins = nat_text n, dSecs = []\<rparr>"
    by (simp add: match_duration_def group_other group_nat_text group_Nil Let_def)
  show ?thesis using n nat_text_digits [of n]
    by (simp add: parseIsoDurationToMs_def Let_def t m nat_value_text ms_defs) (simp add: nat_value_def)
qed

text \<open>An hour count that \<open>hoursToIsoDuration\<close> accepts is read back by the duration parser, exactly
  for whole hours and to within half a minute otherwise.\<close>

theorem hours_roundtrip:
  assumes "hoursToIsoDuration h = Inr s"
  shows "\<exists>ms. parseIsoDurationToMs s = Some ms \<and> \<bar>of_nat ms - h * 3600000\<bar> \<le> 30000
    \<and> (of_int \<lfloor>h\<rfloor> = h \<longrightarrow> of_nat ms = h * 3600000)"
proof (cases "of_int \<lfloor>h\<rfloor> = h")
  case True
  have pos: "0 < h" using assms by (auto simp: hoursToIsoDuration_def split: if_splits)
  then have fl: "0 < \<lfloor>h\<rfloor>" using True by (metis of_int_0_less_iff)
  then have s: "s = ''PT'' @ nat_text (nat \<lfloor>h\<rfloor>) @ ''H''"
    using assms True pos by (simp add: hoursToIsoDuration_def int_text_def)
  have n: "(of_nat (nat \<lfloor>h\<rfloor>) :: rat) = h" using True fl by simp
  have "parseIsoDurationToMs s = Some (nat \<lfloor>h\<rfloor> * MS_PER_HOUR)" using parse_hours fl unfolding s by simp
  moreover have "(of_nat (nat \<lfloor>h\<rfloor> * MS_PER_HOUR) :: rat) = h * 3600000"
    unfolding of_nat_mult n by (simp add: ms_defs)
  ultimately show ?thesis by auto
next
  case False
  then have m: "0 < js_round (h * 60)" "s = ''PT'' @ nat_text (nat (js_round (h * 60))) @ ''M''"
    using assms by (auto simp: hoursToIsoDuration_def Let_def int_text_def split: if_splits)
  have r: "of_int (js_round (h * 60)) \<le> h * 60 + 1 / 2" "h * 60 + 1 / 2 < of_int (js_round (h * 60)) + 1"
    unfolding js_round_def by linarith+
  have n: "(of_nat (nat (js_round (h * 60))) :: rat) = of_int (js_round (h * 60))" using m(1) by simp
  have "\<bar>of_nat (nat (js_round (h * 60)) * MS_PER_MINUTE) - h * 3600000\<bar> \<le> 30000"
    using r unfolding of_nat_mult n by (simp add: ms_defs abs_le_iff)
  with parse_minutes [of "nat (js_round (h * 60))"] m False show ?thesis by auto
qed

theorem hours_roundtrip_witness:
  "\<exists>ms. parseIsoDurationToMs ''PT90M'' = Some ms \<and> \<bar>of_nat ms - 3 / 2 * 3600000\<bar> \<le> (30000 :: rat)
    \<and> (of_int \<lfloor>3 / 2 :: rat\<rfloor> = (3 / 2 :: rat) \<longrightarrow> of_nat ms = (3 / 2 :: rat) * 3600000)"
proof (rule hours_roundtrip)
  show "hoursToIsoDuration (3 / 2) = Inr ''PT90M''" by code_simp
qed

section \<open>The escalation chain\<close>

lemma due_of_iff:
  "due_of dp now config d = Some q \<longleftrightarrow>
     (\<exists>t t' ms entered. stEscalationTier (dstatus d) = Some t \<and> stLifecycle (dstatus d) = LOpen
       \<and> nextTier t = Some t' \<and> tierTimeboxMs t config = Some ms \<and> dp (tierEnteredAt d) = Some entered
       \<and> ms \<le> of_int (now - entered)
       \<and> q = \<lparr>dueDecision = d, dueFrom = t, dueTo = t', dueMinutes = ms / 60000\<rparr>)"
  by (auto simp: due_of_def not_less split: option.splits)

lemma tier_of_text [simp]: "tier_of (tier_text t) = Some t"
  by (cases t) (simp_all add: tier_of_def ESCALATION_TIERS_def tier_text_def)

lemma tierEnteredAt_moved:
  "decisionLog d' = decisionLog d @ [makeRoutingChangedEvent ts i a b by'] \<Longrightarrow> tierEnteredAt d' = ts"
  by (simp add: tierEnteredAt_def makeRoutingChangedEvent_def)

definition tier_rank :: "EscalationTier \<Rightarrow> nat" where
  "tier_rank t = (case t of TOperational \<Rightarrow> 0 | TDesign \<Rightarrow> 1 | TOperator \<Rightarrow> 2)"

lemma nextTier_rank: "nextTier t = Some t' \<Longrightarrow> tier_rank t' = Suc (tier_rank t)"
  by (cases t) (auto simp: nextTier_def tier_rank_def)

text \<open>The minutes a tier waits: a positive setting, else half an hour for the operational tier and four hours
  for the design tier.\<close>

definition tier_minutes :: "(EscalationTier \<Rightarrow> rat option) \<Rightarrow> EscalationTier \<Rightarrow> rat" where
  "tier_minutes config t = (case config t of
     Some m \<Rightarrow> if 0 < m then m else (case t of TOperational \<Rightarrow> 30 | _ \<Rightarrow> 240)
   | None \<Rightarrow> (case t of TOperational \<Rightarrow> 30 | _ \<Rightarrow> 240))"

text \<open>A decision is due: open, escalated to a tier below the operator, and there for as long as the tier waits.\<close>

definition overdue :: "date_parse \<Rightarrow> int \<Rightarrow> (EscalationTier \<Rightarrow> rat option) \<Rightarrow> Decision \<Rightarrow> bool" where
  "overdue dp now config d \<longleftrightarrow> stLifecycle (dstatus d) = LOpen
     \<and> (\<exists>t entered. stEscalationTier (dstatus d) = Some t \<and> t \<noteq> TOperator \<and> dp (tierEnteredAt d) = Some entered
          \<and> tier_minutes config t * 60000 \<le> of_int (now - entered))"

lemma tierTimebox_minutes:
  "tierTimeboxMs t config = (if t = TOperator then None else Some (tier_minutes config t * 60000))"
  by (cases t) (simp_all add: tierTimeboxMs_def tier_minutes_def DEFAULT_ESCALATION_TIMEBOX_MINUTES_def Let_def
      split: option.split)

lemma nextTier_None: "nextTier t = None \<longleftrightarrow> t = TOperator"
  by (cases t) (simp_all add: nextTier_def)

lemma due_overdue: "due_of dp now config d \<noteq> None \<longleftrightarrow> overdue dp now config d"
proof -
  have "\<exists>t'. nextTier t = Some t'" if "t \<noteq> TOperator" for t using nextTier_None [of t] that by auto
  then show ?thesis unfolding not_None_eq due_of_iff overdue_def tierTimebox_minutes
    by (auto split: if_splits) blast
qed

lemma due_decision: "due_of dp now config d = Some q \<Longrightarrow> dueDecision q = d"
  by (auto simp: due_of_iff)

lemma found_due: "q \<in> set (findDueDecisions dp ds now config) \<longleftrightarrow> (\<exists>d \<in> set ds. due_of dp now config d = Some q)"
  by (force simp: findDueDecisions_def List.map_filter_def image_iff)

lemma due_decisions: "map dueDecision (findDueDecisions dp ds now config) = filter (overdue dp now config) ds"
  by (induction ds) (auto simp: findDueDecisions_def map_filter_simps due_decision due_overdue [symmetric]
      split: option.split)

lemma moved_decision:
  assumes "due_of dp now config d = Some q" and "dp ts = Some t0"
  obtains d' where "applyEvent (Some d) (makeRoutingChangedEvent ts (mdId (metadata d)) (dueFrom q) (dueTo q) (Some ''framework'')) = Some d'"
    and "stEscalationTier (dstatus d') = Some (dueTo q)" and "stLifecycle (dstatus d') = LOpen"
    and "\<And>now'. overdue dp now' config d' \<longleftrightarrow> dueTo q \<noteq> TOperator \<and> tier_minutes config (dueTo q) * 60000 \<le> of_int (now' - t0)"
proof -
  let ?ev = "makeRoutingChangedEvent ts (mdId (metadata d)) (dueFrom q) (dueTo q) (Some ''framework'')"
  define d' where "d' = set_status (\<lambda>st. st\<lparr>stEscalationTier := Some (dueTo q)\<rparr>) (touch ?ev d)"
  have op: "stLifecycle (dstatus d) = LOpen" using assms(1) by (auto simp: due_of_iff)
  have st: "stEscalationTier (dstatus d') = Some (dueTo q)" "stLifecycle (dstatus d') = LOpen"
    "decisionLog d' = decisionLog d @ [?ev]"
    using op by (simp_all add: d'_def set_status_def touch_def log_event_def)
  have ent: "tierEnteredAt d' = ts" by (rule tierEnteredAt_moved) (rule st(3))
  show thesis
  proof (rule that [of d'])
    show "applyEvent (Some d) ?ev = Some d'" by (simp add: applyEvent_def makeRoutingChangedEvent_def d'_def)
    show "overdue dp now' config d' \<longleftrightarrow> dueTo q \<noteq> TOperator \<and> tier_minutes config (dueTo q) * 60000 \<le> of_int (now' - t0)" for now'
      by (simp add: overdue_def st ent assms(2))
  qed (rule st)+
qed

text \<open>C22. The decisions found due are, in their order, exactly the open ones escalated to a tier below the operator
  that have been there for as long as the tier waits: the configured minutes if positive, else 30 at the
  operational and 240 at the design tier. The event recorded for one of them moves it one tier up and leaves it
  open, and it is due again exactly when its new tier is not the operator and its wait there is over.\<close>

theorem promotion_moves_up_one_tier:
  assumes "dp ts = Some t0"
  shows "map dueDecision (findDueDecisions dp ds now config) =
      filter (\<lambda>d. stLifecycle (dstatus d) = LOpen \<and> (\<exists>t entered. stEscalationTier (dstatus d) = Some t \<and> t \<noteq> TOperator
        \<and> dp (tierEnteredAt d) = Some entered \<and> tier_minutes config t * 60000 \<le> of_int (now - entered))) ds
    \<and> (\<forall>q \<in> set (findDueDecisions dp ds now config).
        stEscalationTier (dstatus (dueDecision q)) = Some (dueFrom q) \<and> tier_rank (dueTo q) = Suc (tier_rank (dueFrom q))
        \<and> (\<exists>d'. applyEvent (Some (dueDecision q)) (makeRoutingChangedEvent ts (mdId (metadata (dueDecision q)))
                (dueFrom q) (dueTo q) (Some ''framework'')) = Some d'
            \<and> stEscalationTier (dstatus d') = Some (dueTo q) \<and> stLifecycle (dstatus d') = LOpen
            \<and> (\<forall>now'. (findDueDecisions dp [d'] now' config \<noteq> []) =
                (dueTo q \<noteq> TOperator \<and> tier_minutes config (dueTo q) * 60000 \<le> of_int (now' - t0)))))"
proof (intro conjI ballI)
  show "map dueDecision (findDueDecisions dp ds now config) =
      filter (\<lambda>d. stLifecycle (dstatus d) = LOpen \<and> (\<exists>t entered. stEscalationTier (dstatus d) = Some t \<and> t \<noteq> TOperator
        \<and> dp (tierEnteredAt d) = Some entered \<and> tier_minutes config t * 60000 \<le> of_int (now - entered))) ds"
    unfolding due_decisions overdue_def ..
next
  fix q assume "q \<in> set (findDueDecisions dp ds now config)"
  then obtain d where d: "due_of dp now config d = Some q" unfolding found_due by auto
  note eq = due_decision [OF d]
  show "stEscalationTier (dstatus (dueDecision q)) = Some (dueFrom q)" using d by (auto simp: due_of_iff)
  show "tier_rank (dueTo q) = Suc (tier_rank (dueFrom q))" using d nextTier_rank by (auto simp: due_of_iff)
  have again: "(findDueDecisions dp [d'] now' config \<noteq> []) = overdue dp now' config d'" for d' now'
    by (simp add: findDueDecisions_def map_filter_simps due_overdue [symmetric] split: option.split)
  show "\<exists>d'. applyEvent (Some (dueDecision q)) (makeRoutingChangedEvent ts (mdId (metadata (dueDecision q)))
                (dueFrom q) (dueTo q) (Some ''framework'')) = Some d'
            \<and> stEscalationTier (dstatus d') = Some (dueTo q) \<and> stLifecycle (dstatus d') = LOpen
            \<and> (\<forall>now'. (findDueDecisions dp [d'] now' config \<noteq> []) =
                (dueTo q \<noteq> TOperator \<and> tier_minutes config (dueTo q) * 60000 \<le> of_int (now' - t0)))"
    unfolding eq again by (rule moved_decision [OF d assms]) blast
qed

definition demo_decision :: Decision where
  "demo_decision = the (projectDecision demo_dp ''DEC-0001'' [demo_opened])"

theorem promotion_moves_up_one_tier_witness:
  "map dueDecision (findDueDecisions demo_dp [demo_decision] 1800001 (\<lambda>t. None)) = [demo_decision]
    \<and> findDueDecisions demo_dp [demo_decision] 1800000 (\<lambda>t. None) = []"
proof -
  have t2: "demo_dp ''t2'' = Some 2" by (simp add: demo_dp_def)
  have d: "stLifecycle (dstatus demo_decision) = LOpen" "stEscalationTier (dstatus demo_decision) = Some TOperational"
    "demo_dp (tierEnteredAt demo_decision) = Some 1" by code_simp+
  note due = conjunct1 [OF promotion_moves_up_one_tier [of demo_dp "''t2''" 2 "[demo_decision]", OF t2]]
  show ?thesis using due [of 1800001 "\<lambda>t. None"] due [of 1800000 "\<lambda>t. None"] by (simp add: d tier_minutes_def)
qed

section \<open>Fresh ids\<close>

lemma nat_value_app: "nat_value (xs @ ys) = fold (\<lambda>d n. 10 * n + (char_code d - 48)) ys (nat_value xs)"
  by (simp add: nat_value_def)

lemma nat_value_zeros: "nat_value (replicate k CHR ''0'' @ ds) = nat_value ds"
proof -
  have "nat_value (replicate k CHR ''0'') = 0"
    by (induction k) (simp_all add: nat_value_def char_code_def)
  then show ?thesis unfolding nat_value_app by (simp add: nat_value_def)
qed

lemma decision_number_format: "formatDecisionId n = Some i \<Longrightarrow> decision_number i = Some n"
proof -
  assume i: "formatDecisionId n = Some i"
  have digits: "list_all is_digit (padStart4 (nat_text n))" "padStart4 (nat_text n) \<noteq> []"
    using nat_text_digits [of n] by (auto simp: padStart4_def list_all_iff is_digit_def char_code_def)
  have "nat_value (padStart4 (nat_text n)) = n"
    by (simp add: padStart4_def nat_value_zeros nat_value_text)
  with digits i show ?thesis
    by (auto simp: formatDecisionId_def decision_number_def strip_prefix_def split: if_splits)
qed

lemma max_number_bound:
  "decision_number (evDecisionId ev) = Some n \<Longrightarrow> ev \<in> set evs \<Longrightarrow> n \<le> max_number evs"
proof -
  let ?f = "\<lambda>ev m. case decision_number (evDecisionId ev) of None \<Rightarrow> m | Some n \<Rightarrow> if n > m then n else m"
  have mono: "m \<le> fold ?f evs m" for m evs
  proof (induction evs arbitrary: m)
    case (Cons e evs)
    have "m \<le> ?f e m" by (simp split: option.split)
    also have "\<dots> \<le> fold ?f evs (?f e m)" by (rule Cons.IH)
    finally show ?case by simp
  qed simp
  have "n \<le> fold ?f evs m" if "decision_number (evDecisionId ev) = Some n" "ev \<in> set evs" for m
    using that(2)
  proof (induction evs arbitrary: m)
    case (Cons e evs)
    show ?case
    proof (cases "e = ev")
      case True
      then have "n \<le> ?f e m" using that(1) by simp
      with mono [of "?f e m" evs] show ?thesis by simp
    next
      case False
      with Cons show ?thesis by simp
    qed
  qed simp
  then show "decision_number (evDecisionId ev) = Some n \<Longrightarrow> ev \<in> set evs \<Longrightarrow> n \<le> max_number evs"
    by (simp add: max_number_def)
qed

text \<open>The next decision id always exists, has the form \<open>DEC-\<close> and at least four digits, and no event
  of the log carries it.\<close>

theorem next_id_fresh:
  "\<exists>i. nextDecisionId evs = Some i \<and> is_decision_id i \<and> (\<forall>ev \<in> set evs. evDecisionId ev \<noteq> i)"
proof -
  obtain i where i: "nextDecisionId evs = Some i" by (simp add: nextDecisionId_def formatDecisionId_def)
  then have n: "decision_number i = Some (max_number evs + 1)"
    unfolding nextDecisionId_def by (rule decision_number_format)
  have "is_decision_id i"
    using i nat_text_digits [of "max_number evs + 1"]
    by (auto simp: nextDecisionId_def formatDecisionId_def is_decision_id_def strip_prefix_def padStart4_def
        list_all_iff is_digit_def char_code_def)
  moreover have "evDecisionId ev \<noteq> i" if "ev \<in> set evs" for ev
    using max_number_bound [of ev "max_number evs + 1" evs] that n by auto
  ultimately show ?thesis using i by blast
qed

theorem next_id_fresh_witness:
  "\<exists>i. nextDecisionId [demo_opened] = Some i \<and> is_decision_id i \<and> evDecisionId demo_opened \<noteq> i"
  using next_id_fresh [of "[demo_opened]"] by simp

end
