(* ===== verification/Reconciler.thy ===== *)
theory Reconciler
  imports Prelude Complex_Main
begin

text \<open>
  The continuous reconciliation loop, \<open>reference/src/reconciler/loop.ts\<close>, with the backoff and
  the error wrapper of \<open>index.ts\<close> and the types of \<open>types.ts\<close>.

  The fields of \<open>ReconcilerLoop\<close> are the first part of the state record. What the JavaScript
  runtime holds for the loop is the second part: the promises of the reconciler calls under way
  (\<open>inflight\<close>), the pending retry timeouts (\<open>timers\<close>) and the number of live interval timers
  (\<open>tickers\<close>: a second \<open>start\<close> forgets the handle of the first). One step is one callback of
  the event loop; callbacks come in any order. A resource is its name and a body; priorities are
  integers, \<open>Math.random()\<close> is part of the event. The reconciler does not call back into the loop
  synchronously.
\<close>

section \<open>Backoff\<close>

record ReconcilerConfig =
  periodicIntervalMs :: nat
  maxBackoffMs :: nat
  initialBackoffMs :: nat
  maxConcurrency :: nat

definition DEFAULT_RECONCILER_CONFIG :: ReconcilerConfig where
  "DEFAULT_RECONCILER_CONFIG =
     \<lparr>periodicIntervalMs = 30000, maxBackoffMs = 300000, initialBackoffMs = 1000, maxConcurrency = 10\<rparr>"

definition base_backoff :: "nat \<Rightarrow> ReconcilerConfig \<Rightarrow> nat" where
  "base_backoff attempt cfg = min (initialBackoffMs cfg * 2 ^ attempt) (maxBackoffMs cfg)"

definition calculateBackoff :: "nat \<Rightarrow> ReconcilerConfig \<Rightarrow> rat \<Rightarrow> int" where
  "calculateBackoff attempt cfg rnd =
     (let backoff = of_nat (base_backoff attempt cfg); jitter = backoff * (1 / 10) * rnd
      in \<lfloor>backoff + jitter\<rfloor>)"

section \<open>Results\<close>

datatype ReconcileResult =
    RSuccess
  | RError string "nat option"  \<comment> \<open>the error, \<open>retryAfterMs\<close>\<close>
  | RRequeue
  | RRequeueAfter int

text \<open>The reconciler throws (\<open>Inl\<close>) or returns.\<close>

definition reconcileOnce :: "string + ReconcileResult \<Rightarrow> ReconcileResult" where
  "reconcileOnce out = (case out of Inl err \<Rightarrow> RError err None | Inr r \<Rightarrow> r)"

section \<open>The loop\<close>

record 'r Resource =
  resName :: string
  resBody :: 'r

record 'r QueueItem =
  qiResource :: "'r Resource"
  qiAttempt :: nat
  qiPriority :: "int option"

record 'r LoopState =
  queue :: "(string, 'r QueueItem) jsmap"
  active :: "string list"
  knownResources :: "(string, 'r Resource) jsmap"
  knownPriorities :: "(string, int) jsmap"
  periodicTimer :: bool
  running :: bool
  inflight :: "(string \<times> 'r QueueItem) list"
  timers :: "(int \<times> string \<times> 'r QueueItem) list"
  tickers :: nat

definition initial_loop :: "'r LoopState" where
  "initial_loop = \<lparr>queue = [], active = [], knownResources = [], knownPriorities = [],
     periodicTimer = False, running = False, inflight = [], timers = [], tickers = 0\<rparr>"

definition busy :: "'r LoopState \<Rightarrow> string \<Rightarrow> bool" where
  "busy s n \<longleftrightarrow> n \<in> set (active s) \<or> n \<in> set (map_keys (queue s))"

definition item_priority :: "'r QueueItem \<Rightarrow> int" where
  "item_priority it = (case qiPriority it of None \<Rightarrow> 0 | Some p \<Rightarrow> p)"

definition priority_cmp :: "string \<times> 'r QueueItem \<Rightarrow> string \<times> 'r QueueItem \<Rightarrow> int" where
  "priority_cmp a b = item_priority (snd b) - item_priority (snd a)"

definition next_entries :: "ReconcilerConfig \<Rightarrow> 'r LoopState \<Rightarrow> (string \<times> 'r QueueItem) list" where
  "next_entries cfg s = take (maxConcurrency cfg - length (active s)) (sort_by priority_cmp (queue s))"

text \<open>One turn of the loop of \<open>processQueue\<close>; \<open>processItem\<close> calls the reconciler.\<close>

definition start_item :: "string \<times> 'r QueueItem \<Rightarrow> 'r LoopState \<Rightarrow> 'r LoopState" where
  "start_item e s = s\<lparr>queue := filter (\<lambda>q. fst q \<noteq> fst e) (queue s),
     active := set_add (fst e) (active s), inflight := inflight s @ [e]\<rparr>"

definition processQueue :: "ReconcilerConfig \<Rightarrow> 'r LoopState \<Rightarrow> 'r LoopState" where
  "processQueue cfg s =
     (if \<not> running s then s
      else if maxConcurrency cfg \<le> length (active s) then s
      else fold start_item (next_entries cfg s) s)"

definition enqueue :: "ReconcilerConfig \<Rightarrow> 'r Resource \<Rightarrow> int option \<Rightarrow> 'r LoopState \<Rightarrow> 'r LoopState" where
  "enqueue cfg r priority s =
     (let n = resName r;
          s1 = (case priority of None \<Rightarrow> s
            | Some p \<Rightarrow> s\<lparr>knownPriorities := map_set n p (knownPriorities s)\<rparr>)
      in if busy s1 n then s1
         else (let s2 = s1\<lparr>queue := map_set n \<lparr>qiResource = r, qiAttempt = 0, qiPriority = priority\<rparr> (queue s1),
                           knownResources := map_set n r (knownResources s1)\<rparr>
               in if running s2 then processQueue cfg s2 else s2))"

text \<open>The interval callback: every known resource that is neither active nor queued.\<close>

definition requeue_known :: "string \<times> 'r Resource \<Rightarrow> 'r LoopState \<Rightarrow> 'r LoopState" where
  "requeue_known kr s =
     (if \<not> busy s (fst kr)
      then s\<lparr>queue := map_set (fst kr) \<lparr>qiResource = snd kr, qiAttempt = 0,
               qiPriority = map_of (knownPriorities s) (fst kr)\<rparr> (queue s)\<rparr>
      else s)"

definition periodic_tick :: "ReconcilerConfig \<Rightarrow> 'r LoopState \<Rightarrow> 'r LoopState" where
  "periodic_tick cfg s = processQueue cfg (fold requeue_known (knownResources s) s)"

definition start_loop :: "ReconcilerConfig \<Rightarrow> 'r LoopState \<Rightarrow> 'r LoopState" where
  "start_loop cfg s = (processQueue cfg (s\<lparr>running := True\<rparr>))\<lparr>periodicTimer := True, tickers := tickers s + 1\<rparr>"

definition stop_loop :: "'r LoopState \<Rightarrow> 'r LoopState" where
  "stop_loop s = (let s1 = s\<lparr>running := False\<rparr>
     in if periodicTimer s1 then s1\<lparr>periodicTimer := False, tickers := tickers s1 - 1\<rparr> else s1)"

definition queueSize :: "'r LoopState \<Rightarrow> nat" where
  "queueSize s = length (queue s)"

definition activeCount :: "'r LoopState \<Rightarrow> nat" where
  "activeCount s = length (active s)"

text \<open>The continuation of the \<open>i\<close>-th call under way; \<open>drop_nth\<close> removes it from the runtime's
  pending promises.\<close>

definition drop_nth :: "nat \<Rightarrow> 'a list \<Rightarrow> 'a list" where
  "drop_nth i xs = take i xs @ drop (Suc i) xs"

definition leave_active :: "nat \<Rightarrow> 'r LoopState \<Rightarrow> 'r LoopState" where
  "leave_active i s = s\<lparr>active := removeAll (fst (inflight s ! i)) (active s),
     inflight := drop_nth i (inflight s)\<rparr>"

definition set_timer :: "int \<Rightarrow> string \<Rightarrow> 'r QueueItem \<Rightarrow> 'r LoopState \<Rightarrow> 'r LoopState" where
  "set_timer delay n it s = s\<lparr>timers := timers s @ [(delay, n, it)]\<rparr>"

definition put_queue :: "string \<Rightarrow> 'r QueueItem \<Rightarrow> 'r LoopState \<Rightarrow> 'r LoopState" where
  "put_queue n it s = s\<lparr>queue := map_set n it (queue s)\<rparr>"

definition settle :: "ReconcilerConfig \<Rightarrow> nat \<Rightarrow> string + ReconcileResult \<Rightarrow> rat \<Rightarrow> 'r LoopState \<Rightarrow> 'r LoopState" where
  "settle cfg i out rnd s =
     (let n = fst (inflight s ! i); it = snd (inflight s ! i); s1 = leave_active i s in
      if \<not> running s then s1
      else (case reconcileOnce out of
          RSuccess \<Rightarrow> processQueue cfg s1
        | RError err ra \<Rightarrow>
            (let nextAttempt = qiAttempt it + 1
             in set_timer (calculateBackoff nextAttempt cfg rnd) n (it\<lparr>qiAttempt := nextAttempt\<rparr>) s1)
        | RRequeue \<Rightarrow> processQueue cfg (put_queue n (it\<lparr>qiAttempt := 0\<rparr>) s1)
        | RRequeueAfter delay \<Rightarrow> set_timer delay n (it\<lparr>qiAttempt := 0\<rparr>) s1))"

text \<open>The callback of the \<open>i\<close>-th pending retry timeout.\<close>

definition retry_fires :: "ReconcilerConfig \<Rightarrow> nat \<Rightarrow> 'r LoopState \<Rightarrow> 'r LoopState" where
  "retry_fires cfg i s =
     (let t = timers s ! i; s1 = s\<lparr>timers := drop_nth i (timers s)\<rparr>
      in if \<not> running s then s1 else processQueue cfg (put_queue (fst (snd t)) (snd (snd t)) s1))"

section \<open>Steps and runs\<close>

datatype 'r LoopEvent =
    EvEnqueue "'r Resource" "int option"
  | EvStart
  | EvStop
  | EvTick
  | EvSettle nat "string + ReconcileResult" rat
  | EvTimer nat

inductive loop_step :: "ReconcilerConfig \<Rightarrow> 'r LoopState \<Rightarrow> 'r LoopEvent \<Rightarrow> 'r LoopState \<Rightarrow> bool"
  for cfg :: ReconcilerConfig where
  Enqueue: "loop_step cfg s (EvEnqueue r p) (enqueue cfg r p s)"
| Start: "loop_step cfg s EvStart (start_loop cfg s)"
| Stop: "loop_step cfg s EvStop (stop_loop s)"
| Tick: "loop_step cfg s EvTick (periodic_tick cfg s)" if "0 < tickers s"
| Settle: "loop_step cfg s (EvSettle i out rnd) (settle cfg i out rnd s)"
    if "i < length (inflight s)" and "0 \<le> rnd" and "rnd < 1"
| Fire: "loop_step cfg s (EvTimer i) (retry_fires cfg i s)" if "i < length (timers s)"

inductive_cases settleE: "loop_step cfg s (EvSettle i out rnd) s'"
inductive_simps loop_step_simps [simp]:
  "loop_step cfg s (EvEnqueue r p) s'"
  "loop_step cfg s EvStart s'"
  "loop_step cfg s EvStop s'"
  "loop_step cfg s EvTick s'"
  "loop_step cfg s (EvSettle i out rnd) s'"
  "loop_step cfg s (EvTimer i) s'"

end
