(* ===== verification/Transitions.thy ===== *)
theory Transitions
  imports Main
begin

text \<open>
  Runs of a labelled step relation, and invariants of them. \<open>step_invariant\<close> is the contract of a
  property every step keeps; \<open>relative_invariant\<close> adds one that is kept wherever the first
  holds, and the two together are an invariant again.
\<close>

inductive runs :: "('s \<Rightarrow> 'e \<Rightarrow> 's \<Rightarrow> bool) \<Rightarrow> 's \<Rightarrow> 'e list \<Rightarrow> 's \<Rightarrow> bool"
  for step :: "'s \<Rightarrow> 'e \<Rightarrow> 's \<Rightarrow> bool" where
  runs_nil: "runs step s [] s"
| runs_cons: "runs step s (e # es) s''" if "step s e s'" and "runs step s' es s''"

inductive_simps runs_nil_iff [simp]: "runs step s [] s'"
inductive_simps runs_cons_iff [simp]: "runs step s (e # es) s'"

lemma runs_append: "runs step s (es @ fs) s'' \<longleftrightarrow> (\<exists>s'. runs step s es s' \<and> runs step s' fs s'')"
  by (induction es arbitrary: s) auto

lemma runs_mono:
  assumes "runs step s es s'" and "\<And>s e s'. step s e s' \<Longrightarrow> step' s e s'"
  shows "runs step' s es s'"
  using assms(1) by induction (auto intro: assms(2))

locale step_invariant =
  fixes step :: "'s \<Rightarrow> 'e \<Rightarrow> 's \<Rightarrow> bool"
    and I :: "'s \<Rightarrow> bool"
  assumes kept: "step s e s' \<Longrightarrow> I s \<Longrightarrow> I s'"
begin

lemma along: "runs step s es s' \<Longrightarrow> I s \<Longrightarrow> I s'"
  by (induction rule: runs.induct) (auto dest: kept)

end

locale relative_invariant = step_invariant step I
  for step :: "'s \<Rightarrow> 'e \<Rightarrow> 's \<Rightarrow> bool" and I :: "'s \<Rightarrow> bool" +
  fixes J :: "'s \<Rightarrow> bool"
  assumes kept_with: "step s e s' \<Longrightarrow> I s \<Longrightarrow> J s \<Longrightarrow> J s'"

sublocale relative_invariant \<subseteq> both: step_invariant step "\<lambda>s. I s \<and> J s"
  by unfold_locales (auto dest: kept kept_with)

end
