(* ===== verification/ReconcilerFacts.thy ===== *)
theory ReconcilerFacts
  imports Reconciler Transitions
begin

text \<open>
  The invariants of the reconciliation loop: what every run keeps (\<open>loop_wf\<close>) and what is kept
  as long as no retry timeout fires while its resource is being reconciled (\<open>single_flight\<close>).
\<close>

interpretation priority_order: comparator priority_cmp
  by unfold_locales (auto simp: priority_cmp_def)

section \<open>Lists\<close>

lemma set_drop_nth: "set (drop_nth i xs) \<subseteq> set xs"
  by (auto simp: drop_nth_def dest: in_set_takeD in_set_dropD)

lemma drop_nth_split:
  assumes "i < length xs"
  obtains ys zs where "xs = ys @ xs ! i # zs" and "drop_nth i xs = ys @ zs"
  using assms id_take_nth_drop [of i xs] by (auto simp: drop_nth_def)

section \<open>Starting items\<close>

lemma start_item_sel [simp]:
  "queue (start_item e s) = filter (\<lambda>q. fst q \<noteq> fst e) (queue s)"
  "active (start_item e s) = set_add (fst e) (active s)"
  "inflight (start_item e s) = inflight s @ [e]"
  "knownResources (start_item e s) = knownResources s"
  "knownPriorities (start_item e s) = knownPriorities s"
  "timers (start_item e s) = timers s"
  "running (start_item e s) = running s"
  "tickers (start_item e s) = tickers s"
  "periodicTimer (start_item e s) = periodicTimer s"
  by (simp_all add: start_item_def)

lemma start_items_sel:
  "queue (fold start_item es s) = filter (\<lambda>q. fst q \<notin> fst ` set es) (queue s)"
  "active (fold start_item es s) = fold set_add (map fst es) (active s)"
  "inflight (fold start_item es s) = inflight s @ es"
  "knownResources (fold start_item es s) = knownResources s"
  "knownPriorities (fold start_item es s) = knownPriorities s"
  "timers (fold start_item es s) = timers s"
  "running (fold start_item es s) = running s"
  "tickers (fold start_item es s) = tickers s"
  "periodicTimer (fold start_item es s) = periodicTimer s"
  by (induction es arbitrary: s) (auto intro: filter_cong)

definition started :: "ReconcilerConfig \<Rightarrow> 'r LoopState \<Rightarrow> (string \<times> 'r QueueItem) list" where
  "started cfg s = (if running s \<and> length (active s) < maxConcurrency cfg then next_entries cfg s else [])"

lemma processQueue_started: "processQueue cfg s = fold start_item (started cfg s) s"
  by (simp add: processQueue_def started_def)

lemmas processQueue_sel [simp] = start_items_sel [where es = "started cfg s" and s = s for cfg s,
  folded processQueue_started]

lemma set_started: "set (started cfg s) \<subseteq> set (queue s)"
  unfolding started_def next_entries_def by (auto dest: in_set_takeD)

lemma length_started: "length (started cfg s) \<le> maxConcurrency cfg - length (active s)"
  by (simp add: started_def next_entries_def)

lemma started_keys:
  assumes "distinct (map_keys (queue s))"
  shows "distinct (map fst (started cfg s))"
proof -
  have "distinct (map fst (sort_by priority_cmp (queue s)))"
    using assms unfolding map_keys_def by (metis mset_map mset_sort_by mset_eq_imp_distinct_iff)
  then show ?thesis unfolding started_def next_entries_def by (simp add: take_map [symmetric])
qed

lemma fold_set_add_length: "length (fold set_add xs ys) \<le> length ys + length xs"
proof (induction xs arbitrary: ys)
  case (Cons x xs)
  have "length (set_add x ys) \<le> Suc (length ys)" by (simp add: set_add_def)
  with Cons [of "set_add x ys"] show ?case by simp
qed simp

lemma fold_set_add_fresh:
  "distinct xs \<Longrightarrow> set xs \<inter> set ys = {} \<Longrightarrow> fold set_add xs ys = ys @ xs"
  by (induction xs arbitrary: ys) (auto simp: set_add_def)

section \<open>Well-formedness\<close>

text \<open>Queue, active set and known resources have one entry per name; an item is filed under the name
  of its resource, which is known; the active set is bounded and holds only names whose
  reconciliation is under way.\<close>

definition filed :: "'r LoopState \<Rightarrow> string \<times> 'r QueueItem \<Rightarrow> bool" where
  "filed s e \<longleftrightarrow> resName (qiResource (snd e)) = fst e \<and> fst e \<in> set (map_keys (knownResources s))"

definition loop_wf :: "ReconcilerConfig \<Rightarrow> 'r LoopState \<Rightarrow> bool" where
  "loop_wf cfg s \<longleftrightarrow>
     distinct (map_keys (queue s)) \<and> distinct (active s) \<and> distinct (map_keys (knownResources s))
     \<and> length (active s) \<le> maxConcurrency cfg
     \<and> set (active s) \<subseteq> fst ` set (inflight s)
     \<and> (\<forall>kr \<in> set (knownResources s). resName (snd kr) = fst kr)
     \<and> (\<forall>e \<in> set (queue s). filed s e) \<and> (\<forall>e \<in> set (inflight s). filed s e)
     \<and> (\<forall>t \<in> set (timers s). filed s (snd t))"

lemma loop_wf_initial: "loop_wf cfg initial_loop"
  by (simp add: loop_wf_def initial_loop_def map_keys_def)

lemma distinct_keys_filter: "distinct (map_keys q) \<Longrightarrow> distinct (map_keys (filter P q))"
  unfolding map_keys_def by (induction q) auto

lemma loop_wf_processQueue [simp]:
  assumes "loop_wf cfg s"
  shows "loop_wf cfg (processQueue cfg s)"
proof -
  have f: "filed (processQueue cfg s) e = filed s e" for e by (simp add: filed_def)
  have "length (active s) \<le> maxConcurrency cfg" using assms by (simp add: loop_wf_def)
  then have "length (active (processQueue cfg s)) \<le> maxConcurrency cfg"
    using fold_set_add_length [of "map fst (started cfg s)" "active s"] length_started [of cfg s]
    by simp
  with assms set_started [of cfg s] show ?thesis
    unfolding loop_wf_def f by (auto simp: distinct_keys_filter set_of_iter_aux)
qed

lemma loop_wf_put:
  assumes "loop_wf cfg s" and "filed s (n, it)"
  shows "loop_wf cfg (put_queue n it s)"
  using assms unfolding loop_wf_def put_queue_def filed_def by (auto dest: map_set_mem)

lemma loop_wf_leave:
  assumes "loop_wf cfg s" and "i < length (inflight s)"
  shows "loop_wf cfg (leave_active i s)"
proof -
  obtain ys zs where s: "inflight s = ys @ inflight s ! i # zs" "drop_nth i (inflight s) = ys @ zs"
    using drop_nth_split [OF assms(2)] .
  have "set (removeAll (fst (inflight s ! i)) (active s)) \<subseteq> fst ` set (ys @ zs)"
  proof
    fix n assume "n \<in> set (removeAll (fst (inflight s ! i)) (active s))"
    then have n: "n \<in> fst ` set (inflight s)" "n \<noteq> fst (inflight s ! i)"
      using assms(1) by (auto simp: loop_wf_def)
    from n(1) have "n \<in> fst ` set (ys @ inflight s ! i # zs)" by (subst (asm) s(1))
    with n(2) show "n \<in> fst ` set (ys @ zs)" by auto
  qed
  moreover have "length (removeAll (fst (inflight s ! i)) (active s)) \<le> maxConcurrency cfg"
    unfolding removeAll_filter_not_eq
    by (rule order_trans [OF length_filter_le]) (use assms(1) in \<open>simp add: loop_wf_def\<close>)
  moreover have "set (ys @ zs) \<subseteq> set (inflight s)" using s(2) set_drop_nth by metis
  ultimately show ?thesis using assms(1)
    by (auto simp: loop_wf_def leave_active_def filed_def s(2) distinct_removeAll)
qed

lemma filed_update [simp]:
  "filed (s\<lparr>queue := q\<rparr>) e = filed s e" "filed (s\<lparr>running := b\<rparr>) e = filed s e"
  "filed (s\<lparr>timers := t\<rparr>) e = filed s e" "filed (leave_active i s) e = filed s e"
  "filed (s\<lparr>knownPriorities := kp\<rparr>) e = filed s e"
  by (simp_all add: filed_def leave_active_def)

lemma loop_wf_timer:
  assumes "loop_wf cfg s" and "filed s (n, it)"
  shows "loop_wf cfg (set_timer d n it s)"
  using assms by (auto simp: loop_wf_def set_timer_def)

lemma loop_wf_enqueued:
  assumes "loop_wf cfg s"
  shows "loop_wf cfg (s\<lparr>queue := map_set (resName r) \<lparr>qiResource = r, qiAttempt = 0, qiPriority = p\<rparr> (queue s),
    knownResources := map_set (resName r) r (knownResources s)\<rparr>)" (is "loop_wf cfg ?s")
proof -
  have f: "filed s e \<Longrightarrow> filed ?s e" for e by (auto simp: filed_def)
  have q: "e \<in> set (queue ?s) \<Longrightarrow> filed ?s e" for e
    using assms by (auto simp: loop_wf_def filed_def dest!: map_set_mem)
  have k: "kr \<in> set (knownResources ?s) \<Longrightarrow> resName (snd kr) = fst kr" for kr
    using assms by (auto simp: loop_wf_def dest!: map_set_mem)
  show ?thesis using assms f q k unfolding loop_wf_def by auto
qed

lemma loop_wf_enqueue:
  assumes "loop_wf cfg s"
  shows "loop_wf cfg (enqueue cfg r p s)"
proof -
  define s1 where "s1 = (case p of None \<Rightarrow> s
    | Some p \<Rightarrow> s\<lparr>knownPriorities := map_set (resName r) p (knownPriorities s)\<rparr>)"
  have "loop_wf cfg s1" using assms by (auto simp: s1_def loop_wf_def split: option.splits)
  with loop_wf_enqueued [OF this] show ?thesis by (simp add: enqueue_def Let_def s1_def [symmetric])
qed

lemma loop_wf_requeue:
  assumes "loop_wf cfg s" and "kr \<in> set (knownResources s)"
  shows "loop_wf cfg (requeue_known kr s) \<and> knownResources (requeue_known kr s) = knownResources s"
proof -
  have f: "filed s (fst kr, \<lparr>qiResource = snd kr, qiAttempt = 0, qiPriority = pr\<rparr>)" for pr
    using assms by (auto simp: loop_wf_def filed_def map_keys_def)
  show ?thesis using loop_wf_put [OF assms(1) f] assms(1) by (simp add: requeue_known_def put_queue_def)
qed

lemma loop_wf_requeues:
  "loop_wf cfg s \<Longrightarrow> set krs \<subseteq> set (knownResources s) \<Longrightarrow> loop_wf cfg (fold requeue_known krs s)"
  by (induction krs arbitrary: s) (use loop_wf_requeue in fastforce)+

lemma loop_wf_settle:
  assumes "loop_wf cfg s" and "i < length (inflight s)"
  shows "loop_wf cfg (settle cfg i out rnd s)"
proof -
  have f: "filed (leave_active i s) (fst (inflight s ! i), (snd (inflight s ! i))\<lparr>qiAttempt := a\<rparr>)" for a
    using assms by (auto simp: loop_wf_def filed_def leave_active_def)
  note * = loop_wf_leave [OF assms] loop_wf_timer [OF loop_wf_leave [OF assms] f]
    loop_wf_put [OF loop_wf_leave [OF assms] f]
  show ?thesis unfolding settle_def Let_def by (cases "reconcileOnce out") (simp_all add: *)
qed

lemma loop_wf_retry:
  assumes "loop_wf cfg s" and "i < length (timers s)"
  shows "loop_wf cfg (retry_fires cfg i s)"
proof -
  let ?s1 = "s\<lparr>timers := drop_nth i (timers s)\<rparr>"
  have wf: "loop_wf cfg ?s1" using assms(1) set_drop_nth [of i "timers s"] unfolding loop_wf_def by auto
  have "filed ?s1 (snd (timers s ! i))" using assms by (auto simp: loop_wf_def)
  then have "loop_wf cfg (put_queue (fst (snd (timers s ! i))) (snd (snd (timers s ! i))) ?s1)"
    using loop_wf_put [OF wf, of "fst (snd (timers s ! i))" "snd (snd (timers s ! i))"] by simp
  with wf show ?thesis by (simp add: retry_fires_def Let_def)
qed

lemma loop_wf_flags [simp]:
  "loop_wf cfg (s\<lparr>running := b\<rparr>) = loop_wf cfg s"
  "loop_wf cfg (s\<lparr>periodicTimer := p, tickers := k\<rparr>) = loop_wf cfg s"
  by (simp_all add: loop_wf_def filed_def)

interpretation wf_loop: step_invariant "loop_step cfg" "loop_wf cfg" for cfg
proof
  fix s s' :: "'r LoopState" and e
  assume "loop_step cfg s e s'" and wf: "loop_wf cfg s"
  then show "loop_wf cfg s'"
  proof cases
    case Tick
    then show ?thesis
      using loop_wf_requeues [OF wf subset_refl] by (simp add: periodic_tick_def)
  qed (use wf in \<open>simp_all add: loop_wf_enqueue loop_wf_settle loop_wf_retry start_loop_def stop_loop_def
      loop_wf_processQueue Let_def\<close>)
qed

section \<open>One reconciliation per resource\<close>

text \<open>Calls under way are for different resources, the active set names exactly them, and none of
  them waits in the queue. Steps keep this as long as no retry timeout fires for a resource that
  is being reconciled: \<open>calm\<close>, which the callback of the timeout does not test.\<close>

definition single_flight :: "'r LoopState \<Rightarrow> bool" where
  "single_flight s \<longleftrightarrow> distinct (map fst (inflight s)) \<and> set (active s) = fst ` set (inflight s)
     \<and> set (map_keys (queue s)) \<inter> set (active s) = {}"

definition calm :: "'r LoopState \<Rightarrow> 'r LoopEvent \<Rightarrow> bool" where
  "calm s e = (case e of EvTimer i \<Rightarrow> fst (snd (timers s ! i)) \<notin> set (active s) | _ \<Rightarrow> True)"

definition calm_step :: "ReconcilerConfig \<Rightarrow> 'r LoopState \<Rightarrow> 'r LoopEvent \<Rightarrow> 'r LoopState \<Rightarrow> bool" where
  "calm_step cfg s e s' \<longleftrightarrow> calm s e \<and> loop_step cfg s e s'"

lemma keys_filter: "set (map_keys (filter (\<lambda>q. fst q \<notin> N) q)) = set (map_keys q) - N"
  by (auto simp: map_keys_def)

lemma single_flight_processQueue:
  assumes "loop_wf cfg s" and "single_flight s"
  shows "single_flight (processQueue cfg s)"
proof -
  have k: "distinct (map fst (started cfg s))" using assms(1) by (intro started_keys) (simp add: loop_wf_def)
  have "fst ` set (started cfg s) \<subseteq> set (map_keys (queue s))"
    using set_started [of cfg s] by (auto simp: map_keys_def)
  with assms(2) k show ?thesis by (auto simp: single_flight_def keys_filter set_of_iter_aux)
qed

lemma single_flight_put:
  "single_flight s \<Longrightarrow> n \<notin> set (active s) \<Longrightarrow> single_flight (put_queue n it s)"
  by (auto simp: single_flight_def put_queue_def)

lemma single_flight_leave:
  assumes "single_flight s" and "i < length (inflight s)"
  shows "single_flight (leave_active i s) \<and> fst (inflight s ! i) \<notin> set (active (leave_active i s))"
proof -
  obtain ys zs where s: "inflight s = ys @ inflight s ! i # zs" "drop_nth i (inflight s) = ys @ zs"
    using drop_nth_split [OF assms(2)] .
  have d: "distinct (map fst (ys @ inflight s ! i # zs))" using assms(1) s(1) by (simp add: single_flight_def)
  have a: "set (active s) = fst ` set (ys @ inflight s ! i # zs)"
    using assms(1) s(1) by (simp add: single_flight_def)
  have "fst (inflight s ! i) \<notin> fst ` set (ys @ zs)" using d by (simp add: image_Un)
  with a have rest: "set (active s) - {fst (inflight s ! i)} = fst ` set (ys @ zs)"
    by (simp add: image_Un)
  have q: "set (map_keys (queue s)) \<inter> set (active s) = {}" using assms(1) unfolding single_flight_def by blast
  have "distinct (map fst (ys @ zs))" using d by simp
  with rest q show ?thesis by (auto simp: single_flight_def leave_active_def s(2) set_removeAll simp del: set_append)
qed

lemma single_flight_timer: "single_flight (set_timer d n it s) = single_flight s"
  by (simp add: single_flight_def set_timer_def)

lemma single_flight_flags [simp]:
  "single_flight (s\<lparr>running := b\<rparr>) = single_flight s"
  "single_flight (s\<lparr>knownPriorities := kp\<rparr>) = single_flight s"
  "single_flight (s\<lparr>knownResources := kr\<rparr>) = single_flight s"
  "single_flight (s\<lparr>timers := t\<rparr>) = single_flight s"
  "single_flight (s\<lparr>periodicTimer := p, tickers := k\<rparr>) = single_flight s"
  by (simp_all add: single_flight_def)

lemma single_flight_settle:
  assumes "loop_wf cfg s" and "single_flight s" and "i < length (inflight s)"
  shows "single_flight (settle cfg i out rnd s)"
proof -
  let ?n = "fst (inflight s ! i)"
  note l = single_flight_leave [OF assms(2,3)]
  have f: "filed (leave_active i s) (?n, (snd (inflight s ! i))\<lparr>qiAttempt := a\<rparr>)" for a
    using assms by (auto simp: loop_wf_def filed_def leave_active_def)
  note w = loop_wf_leave [OF assms(1,3)] loop_wf_put [OF loop_wf_leave [OF assms(1,3)] f]
  show ?thesis unfolding settle_def Let_def
    by (cases "reconcileOnce out") (simp_all add: l w single_flight_timer single_flight_put single_flight_processQueue)
qed

lemma single_flight_retry:
  assumes "loop_wf cfg s" and "single_flight s" and "i < length (timers s)"
    and "fst (snd (timers s ! i)) \<notin> set (active s)"
  shows "single_flight (retry_fires cfg i s)"
proof -
  let ?s1 = "s\<lparr>timers := drop_nth i (timers s)\<rparr>"
  have wf: "loop_wf cfg ?s1" using assms(1) set_drop_nth [of i "timers s"] unfolding loop_wf_def by auto
  have "filed ?s1 (snd (timers s ! i))" using assms by (auto simp: loop_wf_def)
  then have "loop_wf cfg (put_queue (fst (snd (timers s ! i))) (snd (snd (timers s ! i))) ?s1)"
    using loop_wf_put [OF wf, of "fst (snd (timers s ! i))" "snd (snd (timers s ! i))"] by simp
  with assms(2,4) show ?thesis
    by (simp add: retry_fires_def Let_def single_flight_put single_flight_processQueue)
qed

lemma single_flight_enqueue:
  assumes "loop_wf cfg s" and "single_flight s"
  shows "single_flight (enqueue cfg r p s)"
proof -
  define s1 where "s1 = (case p of None \<Rightarrow> s
    | Some p \<Rightarrow> s\<lparr>knownPriorities := map_set (resName r) p (knownPriorities s)\<rparr>)"
  have s1: "loop_wf cfg s1" "single_flight s1"
    using assms by (simp_all add: s1_def split: option.split) (auto simp: loop_wf_def)
  define s2 where "s2 = s1\<lparr>queue := map_set (resName r) \<lparr>qiResource = r, qiAttempt = 0, qiPriority = p\<rparr> (queue s1),
    knownResources := map_set (resName r) r (knownResources s1)\<rparr>"
  have "loop_wf cfg s2"
    unfolding s2_def by (rule loop_wf_enqueued [OF s1(1)])
  moreover have "single_flight s2" if "\<not> busy s1 (resName r)"
    using s1(2) that by (auto simp: s2_def single_flight_def busy_def)
  ultimately show ?thesis using s1 single_flight_processQueue [of cfg s2]
    by (auto simp: enqueue_def Let_def s1_def [symmetric] s2_def [symmetric])
qed

lemma single_flight_requeue:
  "single_flight s \<Longrightarrow> single_flight (requeue_known kr s)"
  using single_flight_put [of s "fst kr"] by (auto simp: requeue_known_def put_queue_def busy_def)

lemma single_flight_requeues: "single_flight s \<Longrightarrow> single_flight (fold requeue_known krs s)"
  by (induction krs arbitrary: s) (auto intro: single_flight_requeue)

interpretation calm_loop: relative_invariant "calm_step cfg" "loop_wf cfg" single_flight for cfg
proof
  fix s s' :: "'r LoopState" and e
  assume st: "calm_step cfg s e s'" and wf: "loop_wf cfg s"
  then show "loop_wf cfg s'" using wf_loop.kept by (auto simp: calm_step_def)
  assume sf: "single_flight s"
  from st have c: "calm s e" and "loop_step cfg s e s'" by (simp_all add: calm_step_def)
  from this(2) show "single_flight s'"
  proof cases
    case Tick
    then show ?thesis using loop_wf_requeues [OF wf subset_refl] single_flight_requeues [OF sf]
      by (simp add: periodic_tick_def single_flight_processQueue)
  next
    case (Fire i)
    then show ?thesis using c wf sf by (simp add: calm_def single_flight_retry)
  qed (use wf sf in \<open>simp_all add: single_flight_enqueue single_flight_settle start_loop_def
      stop_loop_def single_flight_processQueue Let_def\<close>)
qed

end
