(* ===== verification/ReconcilerProps.thy ===== *)
theory ReconcilerProps
  imports ReconcilerFacts
begin

text \<open>
  The properties of the reconciliation loop: its state is well formed along every run, a resource
  is reconciled at most once at a time unless a retry timeout fires during its reconciliation
  (and then it is not), which outcomes refill a free slot, and the bounds of the backoff.
\<close>

abbreviation loop_runs :: "ReconcilerConfig \<Rightarrow> 'r LoopState \<Rightarrow> 'r LoopEvent list \<Rightarrow> 'r LoopState \<Rightarrow> bool" where
  "loop_runs cfg \<equiv> runs (loop_step cfg)"

definition demo_config :: ReconcilerConfig where
  "demo_config = DEFAULT_RECONCILER_CONFIG\<lparr>maxConcurrency := 2\<rparr>"

definition demo_resource :: "string \<Rightarrow> unit Resource" where
  "demo_resource n = \<lparr>resName = n, resBody = ()\<rparr>"

lemmas loop_eval = demo_config_def DEFAULT_RECONCILER_CONFIG_def demo_resource_def initial_loop_def
  enqueue_def start_loop_def stop_loop_def settle_def retry_fires_def processQueue_def busy_def map_keys_def
  next_entries_def sort_by_def start_item_def set_add_def map_set_def leave_active_def drop_nth_def
  reconcileOnce_def set_timer_def put_queue_def Let_def priority_cmp_def item_priority_def
  calculateBackoff_def base_backoff_def

section \<open>Well-formed states\<close>

text \<open>C31. Along every run from the initial state, whatever the order of the callbacks: the queue and
  the known resources have one entry per name, each filed under the name of its resource; everything
  queued, under way or waiting for a retry is a known resource; and the active set never exceeds
  \<open>maxConcurrency\<close>.\<close>

theorem loop_state_typed:
  assumes "loop_runs cfg initial_loop es s"
  shows "distinct (map_keys (queue s)) \<and> distinct (map_keys (knownResources s))
    \<and> activeCount s \<le> maxConcurrency cfg
    \<and> (\<forall>e \<in> set (queue s) \<union> set (inflight s) \<union> snd ` set (timers s).
         resName (qiResource (snd e)) = fst e \<and> fst e \<in> set (map_keys (knownResources s)))"
  using wf_loop.along [OF assms loop_wf_initial]
  by (auto simp: loop_wf_def filed_def activeCount_def)

theorem loop_state_typed_witness:
  "\<exists>s. loop_runs demo_config initial_loop [EvEnqueue (demo_resource ''a'') None, EvStart] s
    \<and> length (inflight s) = 1 \<and> activeCount s \<le> maxConcurrency demo_config"
proof -
  let ?es = "[EvEnqueue (demo_resource ''a'') None, EvStart]"
  let ?s = "start_loop demo_config (enqueue demo_config (demo_resource ''a'') None initial_loop)"
  have r: "loop_runs demo_config initial_loop ?es ?s" by simp
  have "length (inflight ?s) = 1" by (simp add: loop_eval)
  with loop_state_typed [OF r] r show ?thesis by blast
qed

section \<open>One reconciliation at a time\<close>

text \<open>C10. As long as no retry timeout fires for a resource that is being reconciled, the
  reconciliations under way are for different resources, there are at most \<open>maxConcurrency\<close> of
  them, and none of these resources is queued.\<close>

theorem reconciled_once_at_a_time:
  assumes "runs (calm_step cfg) initial_loop es s"
  shows "distinct (map fst (inflight s)) \<and> length (inflight s) \<le> maxConcurrency cfg
    \<and> set (map_keys (queue s)) \<inter> fst ` set (inflight s) = {}"
proof -
  have "single_flight initial_loop" by (simp add: single_flight_def initial_loop_def map_keys_def)
  then have ok: "loop_wf cfg s" "single_flight s"
    using calm_loop.both.along [OF assms] loop_wf_initial by auto
  then have d: "distinct (map fst (inflight s))" and a: "set (active s) = set (map fst (inflight s))"
    and q: "set (map_keys (queue s)) \<inter> set (active s) = {}"
    unfolding single_flight_def by auto
  have "length (inflight s) = length (active s)"
    using d a ok(1) by (metis distinct_card length_map loop_wf_def)
  with d q [unfolded a] ok(1) show ?thesis by (simp add: loop_wf_def)
qed

definition retry_events :: "unit LoopEvent list" where
  "retry_events = [EvEnqueue (demo_resource ''a'') None, EvStart,
     EvSettle 0 (Inl ''boom'') 0, EvTimer 0]"

theorem reconciled_once_at_a_time_witness:
  "\<exists>s. runs (calm_step demo_config) initial_loop retry_events s \<and> length (inflight s) = 1
    \<and> distinct (map fst (inflight s))"
proof -
  let ?s = "retry_fires demo_config 0 (settle demo_config 0 (Inl ''boom'') 0
    (start_loop demo_config (enqueue demo_config (demo_resource ''a'') None initial_loop)))"
  have r: "runs (calm_step demo_config) initial_loop retry_events ?s"
    by (simp add: retry_events_def calm_step_def calm_def) (simp add: loop_eval)
  have "length (inflight ?s) = 1" by (simp add: loop_eval)
  with reconciled_once_at_a_time [OF r] r show ?thesis by blast
qed

definition overlap_events :: "unit LoopEvent list" where
  "overlap_events = [EvEnqueue (demo_resource ''a'') None, EvStart, EvSettle 0 (Inl ''boom'') 0,
     EvEnqueue (demo_resource ''a'') None, EvTimer 0, EvEnqueue (demo_resource ''b'') None]"

text \<open>Without that restriction the loop does run two reconciliations of one resource at once, and
  more than \<open>maxConcurrency\<close>: the resource fails, is enqueued again during the backoff and starts,
  and then the retry timeout starts it a second time. The active set counts the two as one, so
  another resource still finds a free slot.\<close>

theorem retry_starts_a_second_reconciliation:
  "\<exists>s. loop_runs demo_config initial_loop overlap_events s
    \<and> map fst (inflight s) = [''a'', ''a'', ''b''] \<and> activeCount s = 2 \<and> maxConcurrency demo_config = 2"
proof -
  let ?s1 = "settle demo_config 0 (Inl ''boom'') 0
    (start_loop demo_config (enqueue demo_config (demo_resource ''a'') None initial_loop))"
  let ?s2 = "retry_fires demo_config 0 (enqueue demo_config (demo_resource ''a'') None ?s1)"
  let ?s = "enqueue demo_config (demo_resource ''b'') None ?s2"
  have "loop_runs demo_config initial_loop overlap_events ?s"
    by (simp add: overlap_events_def) (simp add: loop_eval)
  moreover have "map fst (inflight ?s) = [''a'', ''a'', ''b''] \<and> activeCount ?s = 2"
    by (simp add: loop_eval activeCount_def)
  ultimately show ?thesis by (auto simp: demo_config_def)
qed

section \<open>Which outcomes refill a slot\<close>

lemma started_first:
  assumes "a \<in> set (started cfg s)" and "b \<in> set (queue (processQueue cfg s))"
  shows "item_priority (snd b) \<le> item_priority (snd a)"
proof -
  let ?L = "sort_by priority_cmp (queue s)" and ?k = "maxConcurrency cfg - length (active s)"
  from assms(1) have st: "started cfg s = take ?k ?L" by (auto simp: started_def next_entries_def split: if_splits)
  have "b \<in> set ?L" "b \<notin> set (started cfg s)" using assms(2) by auto
  then have "b \<in> set (drop ?k ?L)" using st by (metis Un_iff append_take_drop_id set_append)
  moreover have "sorted_wrt (\<lambda>a b. priority_cmp a b \<le> 0) (take ?k ?L @ drop ?k ?L)"
    using priority_order.sorted_sort by (metis append_take_drop_id)
  ultimately have "priority_cmp a b \<le> 0" using assms(1) unfolding st sorted_wrt_append by blast
  then show ?thesis by (simp add: priority_cmp_def)
qed

lemma started_some:
  assumes "running s" and "length (active s) < maxConcurrency cfg" and "queue s \<noteq> []"
  shows "started cfg s \<noteq> []"
proof -
  have "sort_by priority_cmp (queue s) \<noteq> []" using assms(3) by (metis mset_sort_by mset_zero_iff)
  then show ?thesis using assms by (simp add: started_def next_entries_def)
qed

lemma leave_frees_slot:
  assumes "loop_wf cfg s" and "single_flight s" and "i < length (inflight s)"
  shows "length (active (leave_active i s)) < maxConcurrency cfg"
proof -
  have "fst (inflight s ! i) \<in> set (active s)" using assms(2,3) by (simp add: single_flight_def)
  then have "length (removeAll (fst (inflight s ! i)) (active s)) < length (active s)"
    by (rule length_removeAll_less)
  with assms(1) show ?thesis by (simp add: loop_wf_def leave_active_def)
qed

definition starts_next :: "string + ReconcileResult \<Rightarrow> bool" where
  "starts_next out = (case reconcileOnce out of RSuccess \<Rightarrow> True | RRequeue \<Rightarrow> True
     | RError _ _ \<Rightarrow> False | RRequeueAfter _ \<Rightarrow> False)"

lemma put_queue_sel [simp]:
  "running (put_queue n it s) = running s" "active (put_queue n it s) = active s"
  "inflight (put_queue n it s) = inflight s" "queue (put_queue n it s) = map_set n it (queue s)"
  by (simp_all add: put_queue_def)

lemma leave_active_sel [simp]:
  "running (leave_active i s) = running s" "queue (leave_active i s) = queue s"
  "inflight (leave_active i s) = drop_nth i (inflight s)"
  by (simp_all add: leave_active_def)

lemma map_set_not_Nil: "map_set k v m \<noteq> []"
  by (cases m) (auto simp: map_set_def)

text \<open>When a reconciliation settles in a running loop that has work queued: after a success or an
  immediate requeue, entries of the highest priority start at once; after an error or a delayed
  requeue nothing starts, and the slot that became free stays idle.\<close>

theorem which_outcomes_refill_a_slot:
  assumes "runs (calm_step cfg) initial_loop es s" and "running s" and "queue s \<noteq> []"
    and "calm_step cfg s (EvSettle i out rnd) s'"
  shows "\<exists>new. inflight s' = drop_nth i (inflight s) @ new
    \<and> (new \<noteq> [] \<longleftrightarrow> starts_next out)
    \<and> (\<forall>a \<in> set new. \<forall>b \<in> set (queue s'). item_priority (snd b) \<le> item_priority (snd a))
    \<and> (\<not> starts_next out \<longrightarrow> queue s' = queue s \<and> activeCount s' < maxConcurrency cfg)"
proof -
  have "single_flight initial_loop" by (simp add: single_flight_def initial_loop_def map_keys_def)
  then have ok: "loop_wf cfg s" "single_flight s"
    using calm_loop.both.along [OF assms(1)] loop_wf_initial by auto
  have i: "i < length (inflight s)" and s': "s' = settle cfg i out rnd s"
    using assms(4) by (simp_all add: calm_step_def)
  let ?s1 = "leave_active i s" and ?n = "fst (inflight s ! i)"
  let ?s2 = "put_queue ?n ((snd (inflight s ! i))\<lparr>qiAttempt := 0\<rparr>) ?s1"
  have free: "length (active ?s1) < maxConcurrency cfg" by (rule leave_frees_slot [OF ok i])
  have refill: "\<exists>new. inflight (processQueue cfg t) = drop_nth i (inflight s) @ new \<and> new \<noteq> []
      \<and> (\<forall>a \<in> set new. \<forall>b \<in> set (queue (processQueue cfg t)). item_priority (snd b) \<le> item_priority (snd a))"
    if "running t" "active t = active ?s1" "inflight t = inflight ?s1" "queue t \<noteq> []" for t
    using started_some [of t cfg] started_first [of _ cfg t] that free by (intro exI [of _ "started cfg t"]) simp
  have "running ?s1" "queue ?s1 \<noteq> []" "queue ?s2 \<noteq> []" using assms(2,3) map_set_not_Nil by simp_all
  with refill [of ?s1] refill [of ?s2] have r: "\<exists>new. inflight (processQueue cfg t) = drop_nth i (inflight s) @ new
      \<and> new \<noteq> [] \<and> (\<forall>a \<in> set new. \<forall>b \<in> set (queue (processQueue cfg t)). item_priority (snd b) \<le> item_priority (snd a))"
    if "t = ?s1 \<or> t = ?s2" for t
    using that by (auto simp del: processQueue_sel)
  show ?thesis
    using assms(2) free r [of ?s1] r [of ?s2] unfolding s' settle_def Let_def starts_next_def
    by (cases "reconcileOnce out") (simp_all add: set_timer_def activeCount_def del: processQueue_sel)
qed

definition full_loop :: "unit LoopState" where
  "full_loop = start_loop demo_config (enqueue demo_config (demo_resource ''c'') (Some 5)
     (enqueue demo_config (demo_resource ''b'') None (enqueue demo_config (demo_resource ''a'') None initial_loop)))"

definition full_events :: "unit LoopEvent list" where
  "full_events = [EvEnqueue (demo_resource ''a'') None, EvEnqueue (demo_resource ''b'') None,
     EvEnqueue (demo_resource ''c'') (Some 5), EvStart]"

theorem which_outcomes_refill_a_slot_witness:
  "running full_loop \<and> map fst (queue full_loop) = [''b'']
    \<and> (\<exists>new. inflight (settle demo_config 0 (Inr RSuccess) 0 full_loop) = drop_nth 0 (inflight full_loop) @ new
         \<and> new \<noteq> [])"
proof -
  have r: "runs (calm_step demo_config) initial_loop full_events full_loop"
    by (simp add: full_events_def full_loop_def calm_step_def calm_def)
  have v: "running full_loop" "map fst (queue full_loop) = [''b'']" "length (inflight full_loop) = 2"
    by (simp_all add: full_loop_def loop_eval)
  then have q: "queue full_loop \<noteq> []" by auto
  have st: "calm_step demo_config full_loop (EvSettle 0 (Inr RSuccess) 0)
      (settle demo_config 0 (Inr RSuccess) 0 full_loop)"
    using v by (simp add: calm_step_def calm_def)
  have "starts_next (Inr RSuccess)" by (simp add: starts_next_def reconcileOnce_def)
  with which_outcomes_refill_a_slot [OF r v(1) q st] v show ?thesis by blast
qed

section \<open>Failures back off\<close>

text \<open>A failure in a running loop sets one retry with the attempt counted up; its delay lies between
  the doubled initial backoff, capped at the maximum, and that plus ten percent. So the first retry
  waits at least twice \<open>initialBackoffMs\<close> and a capped one may exceed \<open>maxBackoffMs\<close>; the
  \<open>retryAfterMs\<close> of the error plays no part.\<close>

theorem failure_backs_off:
  assumes "loop_step cfg s (EvSettle i out rnd) s'" and "running s" and "reconcileOnce out = RError err ra"
  shows "\<exists>d. timers s' = timers s @ [(d, fst (inflight s ! i),
        (snd (inflight s ! i))\<lparr>qiAttempt := qiAttempt (snd (inflight s ! i)) + 1\<rparr>)]
    \<and> int (min (initialBackoffMs cfg * 2 ^ (qiAttempt (snd (inflight s ! i)) + 1)) (maxBackoffMs cfg)) \<le> d
    \<and> 10 * d \<le> 11 * int (min (initialBackoffMs cfg * 2 ^ (qiAttempt (snd (inflight s ! i)) + 1)) (maxBackoffMs cfg))"
proof -
  let ?a = "qiAttempt (snd (inflight s ! i)) + 1"
  let ?b = "base_backoff ?a cfg"
  have rnd: "0 \<le> rnd" "rnd < 1" and s': "s' = settle cfg i out rnd s" using assms(1) by simp_all
  have "0 \<le> of_nat ?b * (1 / 10) * rnd" using rnd by simp
  then have lo: "int ?b \<le> calculateBackoff ?a cfg rnd"
    by (simp add: calculateBackoff_def le_floor_iff)
  have "of_nat ?b * rnd \<le> of_nat ?b * 1" using rnd by (intro mult_left_mono) simp_all
  then have hi: "10 * calculateBackoff ?a cfg rnd \<le> 11 * int ?b"
    unfolding calculateBackoff_def Let_def by linarith
  have "timers s' = timers s @ [(calculateBackoff ?a cfg rnd, fst (inflight s ! i), (snd (inflight s ! i))\<lparr>qiAttempt := ?a\<rparr>)]"
    using assms(2,3) by (simp add: s' settle_def Let_def set_timer_def leave_active_def)
  then show ?thesis using lo hi unfolding base_backoff_def by blast
qed

theorem failure_backs_off_witness:
  "\<exists>d s'. loop_step demo_config (start_loop demo_config (enqueue demo_config (demo_resource ''a'') None initial_loop))
      (EvSettle 0 (Inr (RError ''boom'' (Some 5))) (1/2)) s'
    \<and> map fst (timers s') = [d] \<and> 2000 \<le> d \<and> 10 * d \<le> 22000"
proof -
  let ?s = "start_loop demo_config (enqueue demo_config (demo_resource ''a'') None initial_loop)"
  let ?e = "EvSettle 0 (Inr (RError ''boom'' (Some 5))) (1/2)"
  let ?s' = "settle demo_config 0 (Inr (RError ''boom'' (Some 5))) (1/2) ?s"
  have v: "inflight ?s = [(''a'', \<lparr>qiResource = demo_resource ''a'', qiAttempt = 0, qiPriority = None\<rparr>)]"
    "running ?s" "timers ?s = []"
    by (simp_all add: loop_eval)
  have st: "loop_step demo_config ?s ?e ?s'" using v by simp
  have "\<exists>d. timers ?s' = [(d, ''a'', \<lparr>qiResource = demo_resource ''a'', qiAttempt = 1, qiPriority = None\<rparr>)]
      \<and> 2000 \<le> d \<and> 10 * d \<le> 22000"
    using failure_backs_off [OF st v(2)] by (simp add: v reconcileOnce_def) (simp add: demo_config_def DEFAULT_RECONCILER_CONFIG_def)
  with st show ?thesis by auto
qed

section \<open>The periodic tick\<close>

lemma busy_requeue: "busy s n \<Longrightarrow> busy (requeue_known kr s) n"
  by (auto simp: busy_def requeue_known_def)

lemma busy_requeues:
  "busy s n \<or> n \<in> fst ` set krs \<Longrightarrow> busy (fold requeue_known krs s) n"
proof (induction krs arbitrary: s)
  case (Cons kr krs)
  have "busy (requeue_known kr s) (fst kr)" by (auto simp: busy_def requeue_known_def)
  with Cons.prems busy_requeue [of s n kr] show ?case
    unfolding fold_simps by (intro Cons.IH) auto
qed simp

lemma busy_processQueue: "busy (processQueue cfg s) n = busy s n"
  using set_started [of cfg s] by (auto simp: busy_def set_of_iter_aux map_keys_def)

text \<open>After a tick of the interval timer every known resource is being reconciled or queued, so nothing
  ever enqueued is forgotten, whatever happened to it since.\<close>

theorem tick_covers_known_resources:
  assumes "loop_step cfg s EvTick s'" and "n \<in> set (map_keys (knownResources s))"
  shows "n \<in> set (active s') \<or> n \<in> set (map_keys (queue s'))"
proof -
  have s': "s' = processQueue cfg (fold requeue_known (knownResources s) s)"
    using assms(1) by (simp add: periodic_tick_def)
  have "busy (fold requeue_known (knownResources s) s) n"
    by (rule busy_requeues) (use assms(2) in \<open>simp add: map_keys_def\<close>)
  then have "busy s' n" unfolding s' busy_processQueue .
  then show ?thesis by (simp add: busy_def)
qed

theorem tick_covers_known_resources_witness:
  "\<exists>s'. loop_step demo_config (settle demo_config 0 (Inr RSuccess) 0 full_loop) EvTick s'
    \<and> (''a'' \<in> set (active s') \<or> ''a'' \<in> set (map_keys (queue s')))"
proof -
  let ?s = "settle demo_config 0 (Inr RSuccess) 0 full_loop"
  have v: "''a'' \<in> set (map_keys (knownResources ?s))" "tickers ?s = 1"
    by (simp_all add: full_loop_def loop_eval)
  have st: "loop_step demo_config ?s EvTick (periodic_tick demo_config ?s)" using v(2) by simp
  from tick_covers_known_resources [OF st v(1)] st show ?thesis by blast
qed

text \<open>An update of a resource that is busy is dropped: only its priority is remembered, and the ticks
  go on queueing the version known before.\<close>

lemma update_while_busy_is_lost:
  assumes "busy s (resName r)"
  shows "knownResources (enqueue cfg r p s) = knownResources s \<and> queue (enqueue cfg r p s) = queue s
    \<and> inflight (enqueue cfg r p s) = inflight s"
  using assms by (auto simp: enqueue_def Let_def busy_def split: option.split)

end
