(* ===== verification/Policy.thy ===== *)
theory Policy
  imports Prelude Complex_Main
begin

text \<open>
  Policy evaluation, \<open>reference/src/policy/\<close>: metric comparison and gate enforcement
  (\<open>enforcement.ts\<close>, \<open>core/compare.ts\<close>, \<open>reconciler/gate-reconciler.ts\<close>), authorization by globs and
  constraints (\<open>authorization.ts\<close>), attribute-based access (\<open>abac.ts\<close>). Numbers are rationals.
\<close>

section \<open>Comparison\<close>

definition compareMetric :: "rat \<Rightarrow> string \<Rightarrow> rat \<Rightarrow> bool" where
  "compareMetric actual operator threshold =
     (if operator = ''>='' then actual \<ge> threshold
      else if operator = ''<='' then actual \<le> threshold
      else if operator = ''=='' then actual = threshold
      else if operator = ''!='' then actual \<noteq> threshold
      else if operator = ''>'' then actual > threshold
      else if operator = ''<'' then actual < threshold
      else False)"

datatype Severity = SLow | SMedium | SHigh | SCritical

definition SEVERITY_ORDER :: "Severity \<Rightarrow> nat" where
  "SEVERITY_ORDER s = (case s of SLow \<Rightarrow> 1 | SMedium \<Rightarrow> 2 | SHigh \<Rightarrow> 3 | SCritical \<Rightarrow> 4)"

definition exceedsSeverity :: "Severity \<Rightarrow> Severity \<Rightarrow> bool" where
  "exceedsSeverity actual mx \<longleftrightarrow> SEVERITY_ORDER actual > SEVERITY_ORDER mx"

section \<open>Gates\<close>

datatype EnforcementLevel = Advisory | SoftMandatory | HardMandatory

datatype AuthorType = AiAgent | Human | Bot | ServiceAccount

datatype DesignDecision = Approved | Rejected | ApprovedWithComments

record DesignReview =
  drDecision :: "DesignDecision option"
  drReviewer :: "string option"
  drPendingTimeout :: bool

record StoryMeta =
  smDefault :: bool
  smStates :: bool
  smA11y :: bool
  smCount :: "nat option"

record EvaluationContext =
  ecAuthorType :: AuthorType
  ecMetrics :: "(string, rat) jsmap"
  ecOverrideRole :: "string option"
  ecOverrideJustification :: "string option"
  ecToolResults :: "(string, Severity list) jsmap"
  ecReviewerCount :: "nat option"
  ecChangedFiles :: "string list"
  ecDocFiles :: "string list"
  ecAttribution :: bool
  ecHumanReviewed :: bool
  ecDesignReview :: "DesignReview option"
  ecTokenViolations :: "(string, rat) jsmap"
  ecStoryMeta :: "StoryMeta option"

record StoryConfig =
  scDefault :: bool
  scStates :: bool
  scA11y :: bool
  scMin :: "nat option"

datatype GateRule =
    MetricRule string string rat
  | ToolRule string "Severity option"
  | ReviewerRule nat bool
  | DocumentationRule bool
  | CostRule string string rat
  | ProvenanceRule bool bool
  | TokenCoverageRule string rat
  | TokenViolationRule "string option" "rat option"
  | VisualRegressionRule rat bool
  | StoryCompletenessRule StoryConfig
  | DesignReviewRule bool  \<comment> \<open>true when a timeout fails the review\<close>
  | ExpressionRule string

datatype RuleFailure =
    MetricNotAvailable string
  | ComparisonFailed
  | ToolResultsNotAvailable string
  | FindingsExceed nat Severity
  | NeedsReviewers nat nat
  | NeedsDocs
  | NeedsAttribution
  | NeedsHumanReview
  | TokenViolations rat string rat
  | NoBaseline
  | VisualDiffExceeds rat rat
  | StoryMetaMissing
  | StoryMissing string
  | TooFewStories nat nat
  | ReviewNotSubmitted
  | ReviewTimedOut
  | ReviewPaused
  | ReviewDecided "DesignDecision option"
  | UnknownRuleType

text \<open>\<open>None\<close> is a rule that passes.\<close>

definition compare_rule :: "EvaluationContext \<Rightarrow> string \<Rightarrow> string \<Rightarrow> rat \<Rightarrow> RuleFailure option" where
  "compare_rule ctx metric op threshold = (case map_of (ecMetrics ctx) metric of
     None \<Rightarrow> Some (MetricNotAvailable metric)
   | Some actual \<Rightarrow> if compareMetric actual op threshold then None else Some ComparisonFailed)"

definition story_rule :: "EvaluationContext \<Rightarrow> StoryConfig \<Rightarrow> RuleFailure option" where
  "story_rule ctx cfg = (case ecStoryMeta ctx of
     None \<Rightarrow> Some StoryMetaMissing
   | Some meta \<Rightarrow>
       (let count = (case smCount meta of None \<Rightarrow> 0 | Some n \<Rightarrow> n) in
        if scDefault cfg \<and> \<not> smDefault meta then Some (StoryMissing ''default'')
        else if scStates cfg \<and> \<not> smStates meta then Some (StoryMissing ''states'')
        else if scA11y cfg \<and> \<not> smA11y meta then Some (StoryMissing ''a11y'')
        else (case scMin cfg of None \<Rightarrow> None
          | Some mn \<Rightarrow> if mn \<noteq> 0 \<and> count < mn then Some (TooFewStories count mn) else None)))"

definition evaluateRule :: "GateRule \<Rightarrow> EvaluationContext \<Rightarrow> RuleFailure option" where
  "evaluateRule rule ctx = (case rule of
     MetricRule metric op threshold \<Rightarrow> compare_rule ctx metric op threshold
   | ToolRule tool maxSev \<Rightarrow>
       (case map_of (ecToolResults ctx) tool of
          None \<Rightarrow> Some (ToolResultsNotAvailable tool)
        | Some findings \<Rightarrow>
            (case maxSev of None \<Rightarrow> None
             | Some m \<Rightarrow> (let violations = filter (\<lambda>f. exceedsSeverity f m) findings
                 in if length violations > 0 then Some (FindingsExceed (length violations) m) else None)))
   | ReviewerRule minimum extra \<Rightarrow>
       (let required = (if extra \<and> ecAuthorType ctx = AiAgent then minimum + 1 else minimum);
            actual = (case ecReviewerCount ctx of None \<Rightarrow> 0 | Some n \<Rightarrow> n)
        in if actual \<ge> required then None else Some (NeedsReviewers required actual))
   | DocumentationRule req \<Rightarrow>
       if \<not> req then None
       else if ecChangedFiles ctx \<noteq> [] \<and> ecDocFiles ctx = [] then Some NeedsDocs else None
   | CostRule metric op threshold \<Rightarrow> compare_rule ctx metric op threshold
   | ProvenanceRule attr review \<Rightarrow>
       if attr \<and> \<not> ecAttribution ctx then Some NeedsAttribution
       else if review \<and> \<not> ecHumanReviewed ctx then Some NeedsHumanReview else None
   | TokenCoverageRule op threshold \<Rightarrow> compare_rule ctx ''token-coverage'' op threshold
   | TokenViolationRule category maxV \<Rightarrow>
       (let cat = (case category of None \<Rightarrow> ''all'' | Some c \<Rightarrow> c);
            violations = (case map_of (ecTokenViolations ctx) cat of Some v \<Rightarrow> v
              | None \<Rightarrow> (case map_of (ecMetrics ctx) (cat @ ''-violations'') of Some v \<Rightarrow> v | None \<Rightarrow> 0));
            mx = (case maxV of None \<Rightarrow> 0 | Some m \<Rightarrow> m)
        in if violations > mx then Some (TokenViolations violations cat mx) else None)
   | VisualRegressionRule diffThreshold requireBaseline \<Rightarrow>
       if requireBaseline \<and> map_of (ecMetrics ctx) ''baseline-exists'' = Some 0 then Some NoBaseline
       else (case map_of (ecMetrics ctx) ''visual-diff-percentage'' of
           None \<Rightarrow> Some (MetricNotAvailable ''visual-diff-percentage'')
         | Some d \<Rightarrow> if d > diffThreshold then Some (VisualDiffExceeds d diffThreshold) else None)
   | StoryCompletenessRule cfg \<Rightarrow> story_rule ctx cfg
   | DesignReviewRule failOnTimeout \<Rightarrow>
       (case ecDesignReview ctx of
          None \<Rightarrow> Some ReviewNotSubmitted
        | Some review \<Rightarrow>
            if drPendingTimeout review then
              (if failOnTimeout then Some ReviewTimedOut else Some ReviewPaused)
            else if drDecision review = Some Approved \<or> drDecision review = Some ApprovedWithComments then None
            else Some (ReviewDecided (drDecision review)))
   | ExpressionRule expression \<Rightarrow> Some UnknownRuleType)"

record Override =
  ovRequiredRole :: string
  ovRequiresJustification :: bool

record Gate =
  gtName :: string
  gtEnforcement :: EnforcementLevel
  gtRule :: GateRule
  gtOverride :: "Override option"

datatype GateVerdict = VPass | VFail RuleFailure | VOverride string

record GateResult =
  grGate :: string
  grEnforcement :: EnforcementLevel
  grVerdict :: GateVerdict

definition given_text :: "string option \<Rightarrow> bool" where
  "given_text x = (case x of None \<Rightarrow> False | Some s \<Rightarrow> s \<noteq> [])"

definition may_override :: "Gate \<Rightarrow> EvaluationContext \<Rightarrow> bool" where
  "may_override gate ctx =
     (case (gtOverride gate, ecOverrideRole ctx) of
        (Some ov, Some role) \<Rightarrow>
          gtEnforcement gate = SoftMandatory \<and> role \<noteq> [] \<and> role = ovRequiredRole ov
          \<and> (\<not> ovRequiresJustification ov \<or> given_text (ecOverrideJustification ctx))
      | _ \<Rightarrow> False)"

definition evaluateGate :: "Gate \<Rightarrow> EvaluationContext \<Rightarrow> GateResult" where
  "evaluateGate gate ctx = \<lparr>grGate = gtName gate, grEnforcement = gtEnforcement gate,
     grVerdict = (case evaluateRule (gtRule gate) ctx of
        None \<Rightarrow> VPass
      | Some why \<Rightarrow> if may_override gate ctx
          then VOverride (case ecOverrideRole ctx of None \<Rightarrow> [] | Some r \<Rightarrow> r) else VFail why)\<rparr>"

definition result_allows :: "GateResult \<Rightarrow> bool" where
  "result_allows r = (case grVerdict r of VPass \<Rightarrow> True | VOverride _ \<Rightarrow> True
     | VFail _ \<Rightarrow> grEnforcement r = Advisory)"

definition enforce :: "Gate list \<Rightarrow> EvaluationContext \<Rightarrow> bool \<times> GateResult list" where
  "enforce gates ctx = (let rs = map (\<lambda>g. evaluateGate g ctx) gates in (list_all result_allows rs, rs))"

text \<open>The gate reconciler's status: compliance and one condition per gate.\<close>

record GateCondition =
  gcType :: string
  gcTrue :: bool

record GateStatus =
  gsCompliant :: bool
  gsConditions :: "GateCondition list"

definition reconcile_gate :: "Gate list \<Rightarrow> EvaluationContext \<Rightarrow> GateStatus" where
  "reconcile_gate gates ctx = (let r = enforce gates ctx in
     \<lparr>gsCompliant = fst r, gsConditions = map (\<lambda>x. \<lparr>gcType = grGate x,
        gcTrue = (case grVerdict x of VPass \<Rightarrow> True | VOverride _ \<Rightarrow> True | VFail _ \<Rightarrow> False)\<rparr>) (snd r)\<rparr>)"

section \<open>Globs\<close>

text \<open>The pattern after the replacements of \<open>globMatch\<close>: \<open>**\<close> becomes any text without line ends,
  \<open>*\<close> any text without slashes; the question mark is not escaped, so it stays a quantifier of the
  regular expression.\<close>

datatype glob_tok = Lit char | OptLit char | AnySegment | AnyPath

fun glob_atoms :: "string \<Rightarrow> glob_tok list" where
  "glob_atoms [] = []"
| "glob_atoms [c] = [if c = CHR ''*'' then AnySegment else Lit c]"
| "glob_atoms (c # d # s) =
     (if c = CHR ''*'' \<and> d = CHR ''*'' then AnyPath # glob_atoms s
      else (if c = CHR ''*'' then AnySegment else Lit c) # glob_atoms (d # s))"

text \<open>A quantifier makes the literal before it optional, and a second one makes that lazy; after a
  star it only makes the star lazy. With nothing to repeat the regular expression is malformed.\<close>

fun quantify :: "glob_tok list \<Rightarrow> glob_tok list option" where
  "quantify [] = Some []"
| "quantify (t # Lit q # ts) =
     (if t = Lit (CHR ''?'') then None
      else if q \<noteq> CHR ''?'' then map_option (Cons t) (quantify (Lit q # ts))
      else (case t of
          Lit c \<Rightarrow> (case ts of
              Lit q2 # ts2 \<Rightarrow> map_option (Cons (OptLit c))
                (quantify (if q2 = CHR ''?'' then ts2 else ts))
            | _ \<Rightarrow> map_option (Cons (OptLit c)) (quantify ts))
        | _ \<Rightarrow> map_option (Cons t) (quantify ts)))"
| "quantify (t # ts) = (if t = Lit (CHR ''?'') then None else map_option (Cons t) (quantify ts))"

definition line_end :: "char \<Rightarrow> bool" where
  "line_end c = (c = CHR 0x0A \<or> c = CHR 0x0D)"

fun glob_tokens_match :: "glob_tok list \<Rightarrow> string \<Rightarrow> bool" where
  "glob_tokens_match [] s = (s = [])"
| "glob_tokens_match (Lit c # ts) s = (case s of [] \<Rightarrow> False | d # r \<Rightarrow> d = c \<and> glob_tokens_match ts r)"
| "glob_tokens_match (OptLit c # ts) s =
     (glob_tokens_match ts s \<or> (case s of [] \<Rightarrow> False | d # r \<Rightarrow> d = c \<and> glob_tokens_match ts r))"
| "glob_tokens_match (AnySegment # ts) s =
     (glob_tokens_match ts s \<or> (case s of [] \<Rightarrow> False
        | d # r \<Rightarrow> d \<noteq> CHR ''/'' \<and> glob_tokens_match (AnySegment # ts) r))"
| "glob_tokens_match (AnyPath # ts) s =
     (glob_tokens_match ts s \<or> (case s of [] \<Rightarrow> False
        | d # r \<Rightarrow> \<not> line_end d \<and> glob_tokens_match (AnyPath # ts) r))"

text \<open>\<open>None\<close> is the exception for a malformed expression.\<close>

definition globMatch :: "string \<Rightarrow> string \<Rightarrow> bool option" where
  "globMatch pattern target =
     (if pattern = target then Some True
      else map_option (\<lambda>ts. glob_tokens_match ts target) (quantify (glob_atoms pattern)))"

section \<open>Authorization\<close>

datatype Action = ReadA | WriteA | ExecuteA

record Permissions =
  pmRead :: "string list"
  pmWrite :: "string list"
  pmExecute :: "string list"

record AgentConstraints =
  blockedPaths :: "string list"
  allowedLanguages :: "string list"

datatype Denial =
    NoPermissions Action
  | NotMatched string Action
  | BlockedPath string string
  | LanguageNotAllowed string
  | NoLevel string
  | LevelNotDefined nat

datatype Authz = Granted | Refused Denial

definition patterns_for :: "Permissions \<Rightarrow> Action \<Rightarrow> string list" where
  "patterns_for p a = (case a of ReadA \<Rightarrow> pmRead p | WriteA \<Rightarrow> pmWrite p | ExecuteA \<Rightarrow> pmExecute p)"

text \<open>\<open>patterns.some\<close> with a matcher that may throw.\<close>

fun some_match :: "string list \<Rightarrow> string \<Rightarrow> bool option" where
  "some_match [] target = Some False"
| "some_match (p # ps) target = (case globMatch p target of
     None \<Rightarrow> None | Some True \<Rightarrow> Some True | Some False \<Rightarrow> some_match ps target)"

definition checkPermission :: "Permissions \<Rightarrow> Action \<Rightarrow> string \<Rightarrow> Authz option" where
  "checkPermission perms action target =
     (if patterns_for perms action = [] then Some (Refused (NoPermissions action))
      else map_option (\<lambda>b. if b then Granted else Refused (NotMatched target action))
        (some_match (patterns_for perms action) target))"

definition LANGUAGE_EXTENSIONS :: "(string, string list) jsmap" where
  "LANGUAGE_EXTENSIONS =
     [(''typescript'', [''.ts'', ''.tsx'', ''.mts'', ''.cts'']),
      (''javascript'', [''.js'', ''.jsx'', ''.mjs'', ''.cjs'']),
      (''python'', [''.py'', ''.pyi'']), (''rust'', [''.rs'']), (''go'', [''.go'']),
      (''java'', [''.java'']), (''ruby'', [''.rb'']), (''csharp'', [''.cs'']),
      (''cpp'', [''.cpp'', ''.cc'', ''.cxx'', ''.h'', ''.hpp'']), (''c'', [''.c'', ''.h''])]"

definition extension :: "string \<Rightarrow> string" where
  "extension target = (if CHR ''.'' \<in> set target
     then CHR ''.'' # rev (takeWhile (\<lambda>c. c \<noteq> CHR ''.'') (rev target)) else [])"

definition language_extensions :: "string list \<Rightarrow> string list" where
  "language_extensions langs = concat (map (\<lambda>l. case map_of LANGUAGE_EXTENSIONS (toLowerCase l) of
     None \<Rightarrow> [] | Some es \<Rightarrow> es) langs)"

fun first_blocked :: "string list \<Rightarrow> string \<Rightarrow> string option option" where
  "first_blocked [] target = Some None"
| "first_blocked (p # ps) target = (case globMatch p target of
     None \<Rightarrow> None | Some True \<Rightarrow> Some (Some p) | Some False \<Rightarrow> first_blocked ps target)"

definition checkConstraints :: "AgentConstraints \<Rightarrow> string \<Rightarrow> Authz option" where
  "checkConstraints cs target =
     (case first_blocked (blockedPaths cs) target of
        None \<Rightarrow> None
      | Some (Some b) \<Rightarrow> Some (Refused (BlockedPath target b))
      | Some None \<Rightarrow>
          (let ext = extension target; allowedExt = language_extensions (allowedLanguages cs) in
           if allowedLanguages cs \<noteq> [] \<and> ext \<noteq> [] \<and> allowedExt \<noteq> [] \<and> ext \<notin> set allowedExt
           then Some (Refused (LanguageNotAllowed ext)) else Some Granted))"

definition authorize_action ::
  "Permissions \<Rightarrow> AgentConstraints option \<Rightarrow> Action \<Rightarrow> string \<Rightarrow> Authz option" where
  "authorize_action perms constraints action target =
     (case checkPermission perms action target of
        None \<Rightarrow> None
      | Some (Refused d) \<Rightarrow> Some (Refused d)
      | Some Granted \<Rightarrow>
          (case constraints of
             None \<Rightarrow> Some Granted
           | Some cs \<Rightarrow> if action = WriteA then checkConstraints cs target else Some Granted))"

text \<open>The hook: the agent's level, the level's permissions, the agent's constraints.\<close>

definition createAuthorizationHook ::
  "(nat \<times> Permissions) list \<Rightarrow> (string, nat) jsmap \<Rightarrow> (string, AgentConstraints) jsmap \<Rightarrow>
   string \<Rightarrow> Action \<Rightarrow> string \<Rightarrow> Authz option" where
  "createAuthorizationHook levels agentLevels agentConstraints agent action target =
     (case map_of agentLevels agent of
        None \<Rightarrow> Some (Refused (NoLevel agent))
      | Some level \<Rightarrow>
          (case find (\<lambda>l. fst l = level) levels of
             None \<Rightarrow> Some (Refused (LevelNotDefined level))
           | Some l \<Rightarrow> authorize_action (snd l) (map_of agentConstraints agent) action target))"

section \<open>Attribute-based access\<close>

datatype Effect = Allow | Deny

record ABACPolicy =
  abName :: string
  abExpression :: string
  abEffect :: Effect

datatype ABACResult = AbacAllowed | DeniedBy string | DefaultDeny

text \<open>The evaluator's verdict per expression; \<open>None\<close> is an evaluation error, treated as no match.\<close>

fun abac_loop :: "(string \<Rightarrow> bool option) \<Rightarrow> bool \<Rightarrow> ABACPolicy list \<Rightarrow> ABACResult" where
  "abac_loop ev anyAllow [] = (if anyAllow then AbacAllowed else DefaultDeny)"
| "abac_loop ev anyAllow (p # ps) =
     (case ev (abExpression p) of
        Some True \<Rightarrow> if abEffect p = Deny then DeniedBy (abName p) else abac_loop ev True ps
      | _ \<Rightarrow> abac_loop ev anyAllow ps)"

definition createABACAuthorizationHook :: "(string \<Rightarrow> bool option) \<Rightarrow> ABACPolicy list \<Rightarrow> ABACResult" where
  "createABACAuthorizationHook ev policies = abac_loop ev False policies"

end
