(* ===== verification/Autonomy.thy ===== *)
theory Autonomy
  imports Policy Timebox
begin

text \<open>
  Autonomy levels: durations, promotion and demotion (\<open>reference/src/policy/autonomy.ts\<close>) and the
  reconciler that applies them to the agents of a policy
  (\<open>reference/src/reconciler/autonomy-reconciler.ts\<close>). Times are milliseconds; a pass reads the
  clock once (\<open>now\<close>), \<open>toISOString\<close> is the parameter \<open>iso_text\<close>; numbers are rationals. The callbacks
  of the reconciler are recorded as notices and do not throw; the two getters may.
\<close>

section \<open>Durations\<close>

definition DEFAULT_COOLDOWN_MS :: rat where
  "DEFAULT_COOLDOWN_MS = 3600000"

text \<open>Digits with an optional fraction, and what follows them.\<close>

definition decimal_prefix :: "string \<Rightarrow> (rat \<times> string) option" where
  "decimal_prefix s = (let ds = takeWhile is_digit s; r = dropWhile is_digit s in
     if ds = [] then None
     else (case r of
         c # f \<Rightarrow> (let fs = takeWhile is_digit f in
            if c = CHR ''.'' \<and> fs \<noteq> []
            then Some (of_nat (nat_value ds) + of_nat (nat_value fs) / 10 ^ length fs, dropWhile is_digit f)
            else Some (of_nat (nat_value ds), r))
       | [] \<Rightarrow> Some (of_nat (nat_value ds), [])))"

definition unit_ms :: "char \<Rightarrow> rat option" where
  "unit_ms u = (if u = CHR ''s'' then Some 1000
     else if u = CHR ''m'' then Some (60 * 1000)
     else if u = CHR ''h'' then Some (60 * 60 * 1000)
     else if u = CHR ''d'' then Some (24 * 60 * 60 * 1000)
     else if u = CHR ''w'' then Some (7 * 24 * 60 * 60 * 1000)
     else None)"

definition simple_duration :: "string \<Rightarrow> rat option" where
  "simple_duration d = (case decimal_prefix d of
     None \<Rightarrow> None
   | Some (v, r) \<Rightarrow> (case dropWhile is_space r of
         [u] \<Rightarrow> map_option (\<lambda>k. v * k) (unit_ms (lower_char u))
       | _ \<Rightarrow> None))"

definition seconds_group :: "string \<Rightarrow> rat \<times> string" where
  "seconds_group s = (case decimal_prefix s of
     Some (v, CHR ''S'' # r) \<Rightarrow> (v, r)
   | _ \<Rightarrow> (0, s))"

definition iso_duration :: "string \<Rightarrow> rat option" where
  "iso_duration d = (case toUpperCase d of
     [] \<Rightarrow> None
   | p # body \<Rightarrow>
       if p \<noteq> CHR ''P'' then None
       else (let days = group (CHR ''D'') body;
                 day_ms = of_nat (nat_value (fst days)) * 86400000 in
         case snd days of
           [] \<Rightarrow> Some day_ms
         | t # time \<Rightarrow>
             if t \<noteq> CHR ''T'' then None
             else (let h = group (CHR ''H'') time; mi = group (CHR ''M'') (snd h);
                       sc = seconds_group (snd mi) in
               if snd sc = []
               then Some (day_ms + of_nat (nat_value (fst h)) * 3600000
                      + of_nat (nat_value (fst mi)) * 60000 + fst sc * 1000)
               else None)))"

definition parseDuration :: "string \<Rightarrow> rat" where
  "parseDuration d = (case simple_duration d of
     Some v \<Rightarrow> v
   | None \<Rightarrow> (case iso_duration d of Some v \<Rightarrow> v | None \<Rightarrow> 0))"

section \<open>Policies and agents\<close>

record MetricCondition =
  mcMetric :: string
  mcOperator :: string
  mcThreshold :: rat

record PromotionCriteria =
  minimumTasks :: nat
  conditions :: "MetricCondition list"
  requiredApprovals :: "string list"

record DemotionTriggerCondition =
  dcMetric :: string
  dcOperator :: string
  dcThreshold :: rat
  dcWindow :: "nat option"

datatype DemotionAction = DemoteTo0 | DemoteOneLevel

record DemotionTrigger =
  dtTrigger :: string
  dtAction :: DemotionAction
  dtCooldown :: string
  dtCondition :: "DemotionTriggerCondition option"

record AutonomyLevel =
  lvLevel :: nat
  lvPermissions :: Permissions
  lvMinimumDuration :: "string option"

record AutonomyPolicy =
  apLevels :: "AutonomyLevel list"
  apPromotionCriteria :: "(string, PromotionCriteria) jsmap"
  apDemotionTriggers :: "DemotionTrigger list"

record AgentMetrics =
  amName :: string
  currentLevel :: nat
  totalTasksCompleted :: nat
  amMetrics :: "(string, rat) jsmap"
  approvals :: "string list"
  promotedAt :: "int option"
  demotedAt :: "int option"

section \<open>Promotion\<close>

datatype Unmet =
    NoCriteria string
  | MinimumDurationUnmet nat int rat
  | CooldownActive int rat
  | TooFewTasks nat nat
  | MetricMissing string
  | ConditionFailed string rat string rat
  | ApprovalMissing string

record PromotionResult =
  eligible :: bool
  prFrom :: nat
  prTo :: nat
  unmetConditions :: "Unmet list"

definition criteria_key :: "nat \<Rightarrow> string" where
  "criteria_key l = nat_text l @ ''-to-'' @ nat_text (l + 1)"

definition duration_unmet :: "int \<Rightarrow> AutonomyPolicy \<Rightarrow> AgentMetrics \<Rightarrow> Unmet list" where
  "duration_unmet now policy a =
     (case (find (\<lambda>l. lvLevel l = currentLevel a) (apLevels policy), promotedAt a) of
        (Some l, Some since) \<Rightarrow>
          (case lvMinimumDuration l of
             None \<Rightarrow> []
           | Some d \<Rightarrow> if d = [] then []
               else (let minMs = parseDuration d; elapsed = now - since in
                 if of_int elapsed < minMs then [MinimumDurationUnmet (currentLevel a) elapsed minMs] else []))
      | _ \<Rightarrow> [])"

definition longest_cooldown :: "DemotionTrigger list \<Rightarrow> rat" where
  "longest_cooldown ts = fold (\<lambda>t m. let cd = parseDuration (dtCooldown t) in if cd > m then cd else m) ts 0"

definition cooldown_ms :: "AutonomyPolicy \<Rightarrow> rat" where
  "cooldown_ms policy = (let c = longest_cooldown (apDemotionTriggers policy)
     in if c = 0 then DEFAULT_COOLDOWN_MS else c)"

definition cooldown_unmet :: "int \<Rightarrow> AutonomyPolicy \<Rightarrow> AgentMetrics \<Rightarrow> Unmet list" where
  "cooldown_unmet now policy a = (case demotedAt a of
     None \<Rightarrow> []
   | Some since \<Rightarrow> (let elapsed = now - since in
       if of_int elapsed < cooldown_ms policy then [CooldownActive elapsed (cooldown_ms policy)] else []))"

definition condition_unmet :: "AgentMetrics \<Rightarrow> MetricCondition \<Rightarrow> Unmet list" where
  "condition_unmet a c = (case map_of (amMetrics a) (mcMetric c) of
     None \<Rightarrow> [MetricMissing (mcMetric c)]
   | Some actual \<Rightarrow> if compareMetric actual (mcOperator c) (mcThreshold c) then []
       else [ConditionFailed (mcMetric c) actual (mcOperator c) (mcThreshold c)])"

definition evaluatePromotion :: "int \<Rightarrow> AutonomyPolicy \<Rightarrow> AgentMetrics \<Rightarrow> PromotionResult" where
  "evaluatePromotion now policy a =
     (let fromLevel = currentLevel a; toLevel = fromLevel + 1; key = criteria_key fromLevel in
      case map_of (apPromotionCriteria policy) key of
        None \<Rightarrow> \<lparr>eligible = False, prFrom = fromLevel, prTo = toLevel, unmetConditions = [NoCriteria key]\<rparr>
      | Some criteria \<Rightarrow>
          (let unmet = duration_unmet now policy a @ cooldown_unmet now policy a
                 @ (if totalTasksCompleted a < minimumTasks criteria
                    then [TooFewTasks (totalTasksCompleted a) (minimumTasks criteria)] else [])
                 @ concat (map (condition_unmet a) (conditions criteria))
                 @ map ApprovalMissing (filter (\<lambda>ap. ap \<notin> set (approvals a)) (requiredApprovals criteria))
           in \<lparr>eligible = (unmet = []), prFrom = fromLevel, prTo = toLevel, unmetConditions = unmet\<rparr>))"

section \<open>Demotion\<close>

record DemotionConditionContext =
  ctxMetrics :: "(string, rat) jsmap"
  metricHistory :: "(string, rat list) jsmap option"

definition current_condition :: "DemotionTriggerCondition \<Rightarrow> DemotionConditionContext \<Rightarrow> bool" where
  "current_condition c ctx = (case map_of (ctxMetrics ctx) (dcMetric c) of
     None \<Rightarrow> False | Some actual \<Rightarrow> compareMetric actual (dcOperator c) (dcThreshold c))"

definition evaluateDemotionCondition :: "DemotionTriggerCondition \<Rightarrow> DemotionConditionContext \<Rightarrow> bool" where
  "evaluateDemotionCondition c ctx =
     (case (dcWindow c, metricHistory ctx) of
        (Some w, Some hist) \<Rightarrow>
          if w = 0 then current_condition c ctx
          else (case map_of hist (dcMetric c) of
             None \<Rightarrow> False
           | Some history \<Rightarrow> if length history < w then False
               else list_all (\<lambda>v. compareMetric v (dcOperator c) (dcThreshold c)) (take w history))
      | _ \<Rightarrow> current_condition c ctx)"

record DemotionResult =
  demoted :: bool
  drTrigger :: "string option"
  drFrom :: nat
  drTo :: nat

definition evaluateDemotion ::
  "AutonomyPolicy \<Rightarrow> AgentMetrics \<Rightarrow> string \<Rightarrow> DemotionConditionContext option \<Rightarrow> DemotionResult" where
  "evaluateDemotion policy a activeTrigger conditionCtx =
     (let fromLevel = currentLevel a;
          stay = \<lparr>demoted = False, drTrigger = None, drFrom = fromLevel, drTo = fromLevel\<rparr> in
      case find (\<lambda>t. dtTrigger t = activeTrigger) (apDemotionTriggers policy) of
        None \<Rightarrow> stay
      | Some t \<Rightarrow>
          if (case dtCondition t of
                None \<Rightarrow> False
              | Some c \<Rightarrow> (case conditionCtx of None \<Rightarrow> True
                  | Some ctx \<Rightarrow> \<not> evaluateDemotionCondition c ctx))
          then stay
          else \<lparr>demoted = True, drTrigger = Some (dtTrigger t), drFrom = fromLevel,
            drTo = (case dtAction t of DemoteTo0 \<Rightarrow> 0 | DemoteOneLevel \<Rightarrow> fromLevel - 1)\<rparr>)"

section \<open>The reconciler\<close>

record AgentAutonomyStatus =
  asName :: string
  asLevel :: nat
  asPromotedAt :: "string option"
  asDemotedAt :: "string option"
  asNextEvaluationAt :: "string option"
  asMetrics :: "(string, rat) jsmap option"

datatype AutonomyNotice =
    OnPromotion string nat nat
  | OnDemotion string nat nat string

fun first_demotion ::
  "AutonomyPolicy \<Rightarrow> AgentMetrics \<Rightarrow> string list \<Rightarrow> (DemotionResult \<times> string) option" where
  "first_demotion policy a [] = None"
| "first_demotion policy a (t # ts) =
     (let r = evaluateDemotion policy a t None in
      if demoted r then Some (r, t) else first_demotion policy a ts)"

definition reconcile_agent ::
  "(int \<Rightarrow> string) \<Rightarrow> int \<Rightarrow> AutonomyPolicy \<Rightarrow> AgentMetrics \<Rightarrow> string list \<Rightarrow> AgentAutonomyStatus
    \<Rightarrow> AgentAutonomyStatus \<times> AutonomyNotice list" where
  "reconcile_agent iso_text now policy a triggers st =
     (case first_demotion policy a triggers of
        Some (r, t) \<Rightarrow>
          (st\<lparr>asLevel := drTo r, asPromotedAt := None, asDemotedAt := Some (iso_text now)\<rparr>,
           [OnDemotion (asName st) (drFrom r) (drTo r) t])
      | None \<Rightarrow>
          (let p = evaluatePromotion now policy a;
               st1 = (if eligible p then st\<lparr>asLevel := prTo p, asPromotedAt := Some (iso_text now)\<rparr> else st)
           in (st1\<lparr>asNextEvaluationAt := Some (iso_text (now + 3600000)), asMetrics := Some (amMetrics a)\<rparr>,
               if eligible p then [OnPromotion (asName st) (prFrom p) (prTo p)] else [])))"

text \<open>The loop over the status entries; a getter that throws (\<open>Inl\<close>) ends it, with the entries before
  already changed.\<close>

fun reconcile_agents ::
  "(int \<Rightarrow> string) \<Rightarrow> int \<Rightarrow> AutonomyPolicy \<Rightarrow> (string \<Rightarrow> string + AgentMetrics option)
    \<Rightarrow> (string \<Rightarrow> string + string list) \<Rightarrow> AgentAutonomyStatus list
    \<Rightarrow> string option \<times> AgentAutonomyStatus list \<times> AutonomyNotice list" where
  "reconcile_agents iso_text now policy getMetrics getTriggers [] = (None, [], [])"
| "reconcile_agents iso_text now policy getMetrics getTriggers (st # sts) =
     (let again = (\<lambda>st' ns. case reconcile_agents iso_text now policy getMetrics getTriggers sts of
            (err, sts', ns') \<Rightarrow> (err, st' # sts', ns @ ns')) in
      case getMetrics (asName st) of
        Inl err \<Rightarrow> (Some err, st # sts, [])
      | Inr None \<Rightarrow> again st []
      | Inr (Some a) \<Rightarrow>
          (case getTriggers (asName st) of
             Inl err \<Rightarrow> (Some err, st # sts, [])
           | Inr triggers \<Rightarrow>
               (case reconcile_agent iso_text now policy a triggers st of (st', ns) \<Rightarrow> again st' ns)))"

end
