(* ===== verification/PolicyProps.thy ===== *)
theory PolicyProps
  imports Autonomy
begin

text \<open>
  The properties of policy evaluation: which gates let a request through, that a matching deny
  decides attribute-based access, what a glob matches, and what one pass of the autonomy
  reconciler may do to an agent.
\<close>

section \<open>Gates\<close>

lemma may_override_iff:
  "may_override gate ctx \<longleftrightarrow> (\<exists>ov role. gtOverride gate = Some ov \<and> ecOverrideRole ctx = Some role
     \<and> gtEnforcement gate = SoftMandatory \<and> role \<noteq> [] \<and> role = ovRequiredRole ov
     \<and> (ovRequiresJustification ov \<longrightarrow> given_text (ecOverrideJustification ctx)))"
  by (auto simp: may_override_def split: option.splits)

text \<open>C14. Enforcement lets a request through exactly when every gate passes its rule, is advisory, or is
  soft-mandatory with an override by the role it requires, justified where it asks for that. A
  failing hard-mandatory gate blocks whatever override is offered.\<close>

theorem enforce_allows_iff:
  "fst (enforce gates ctx) \<longleftrightarrow>
     (\<forall>gate \<in> set gates. evaluateRule (gtRule gate) ctx = None \<or> gtEnforcement gate = Advisory
        \<or> (gtEnforcement gate = SoftMandatory
           \<and> (\<exists>ov role. gtOverride gate = Some ov \<and> ecOverrideRole ctx = Some role
               \<and> role \<noteq> [] \<and> role = ovRequiredRole ov
               \<and> (ovRequiresJustification ov \<longrightarrow> given_text (ecOverrideJustification ctx)))))"
proof -
  have "result_allows (evaluateGate gate ctx) \<longleftrightarrow>
      evaluateRule (gtRule gate) ctx = None \<or> gtEnforcement gate = Advisory \<or> may_override gate ctx" for gate
    by (auto simp: result_allows_def evaluateGate_def split: option.splits)
  then show ?thesis by (simp add: enforce_def Let_def list_all_iff may_override_iff) blast
qed

definition demo_ctx :: EvaluationContext where
  "demo_ctx = \<lparr>ecAuthorType = AiAgent, ecMetrics = [(''coverage'', 70)], ecOverrideRole = Some ''lead'',
     ecOverrideJustification = Some ''hotfix'', ecToolResults = [], ecReviewerCount = Some 1,
     ecChangedFiles = [], ecDocFiles = [], ecAttribution = False, ecHumanReviewed = False,
     ecDesignReview = None, ecTokenViolations = [], ecStoryMeta = None\<rparr>"

definition demo_gate :: "EnforcementLevel \<Rightarrow> Gate" where
  "demo_gate lv = \<lparr>gtName = ''coverage'', gtEnforcement = lv, gtRule = MetricRule ''coverage'' ''>='' 80,
     gtOverride = Some \<lparr>ovRequiredRole = ''lead'', ovRequiresJustification = True\<rparr>\<rparr>"

theorem enforce_allows_iff_witness:
  "fst (enforce [demo_gate SoftMandatory] demo_ctx) \<and> \<not> fst (enforce [demo_gate HardMandatory] demo_ctx)"
  by (simp add: enforce_allows_iff [of "[demo_gate SoftMandatory]"] enforce_allows_iff [of "[demo_gate HardMandatory]"])
    (simp add: demo_gate_def demo_ctx_def evaluateRule_def compare_rule_def compareMetric_def given_text_def)

text \<open>An expression rule fails every gate: \<open>evaluateRule\<close> has no branch for it.\<close>

lemma expression_rule_never_passes: "evaluateRule (ExpressionRule e) ctx = Some UnknownRuleType"
  by (simp add: evaluateRule_def)

section \<open>Attribute-based access\<close>

lemma abac_loop_spec:
  "abac_loop ev any ps =
     (case find (\<lambda>p. ev (abExpression p) = Some True \<and> abEffect p = Deny) ps of
        Some p \<Rightarrow> DeniedBy (abName p)
      | None \<Rightarrow> if any \<or> list_ex (\<lambda>p. ev (abExpression p) = Some True) ps then AbacAllowed else DefaultDeny)"
proof (induction ps arbitrary: any)
  case (Cons p ps)
  show ?case
    by (cases "ev (abExpression p)"; cases "abEffect p")
      (auto simp: Cons.IH split: option.splits bool.splits)
qed simp

text \<open>Deny overrides: access is refused by the first matching deny policy wherever it stands in the
  list; without one it is granted exactly when some allow policy matches. An expression that
  cannot be evaluated matches nothing.\<close>

theorem deny_overrides_allow:
  "createABACAuthorizationHook ev ps =
     (case find (\<lambda>p. ev (abExpression p) = Some True \<and> abEffect p = Deny) ps of
        Some p \<Rightarrow> DeniedBy (abName p)
      | None \<Rightarrow> if list_ex (\<lambda>p. ev (abExpression p) = Some True \<and> abEffect p = Allow) ps
          then AbacAllowed else DefaultDeny)"
proof -
  have "list_ex (\<lambda>p. ev (abExpression p) = Some True) ps = list_ex (\<lambda>p. ev (abExpression p) = Some True \<and> abEffect p = Allow) ps"
    if "find (\<lambda>p. ev (abExpression p) = Some True \<and> abEffect p = Deny) ps = None"
    using that by (auto simp: find_None_iff list_ex_iff) (metis Effect.exhaust)
  then show ?thesis
    by (auto simp: createABACAuthorizationHook_def abac_loop_spec split: option.split)
qed

section \<open>Globs\<close>

text \<open>What a token stands for.\<close>

definition tok_lang :: "glob_tok \<Rightarrow> string set" where
  "tok_lang t = (case t of
     Lit c \<Rightarrow> {[c]}
   | OptLit c \<Rightarrow> {[], [c]}
   | AnySegment \<Rightarrow> {s. CHR ''/'' \<notin> set s}
   | AnyPath \<Rightarrow> {s. \<not> list_ex line_end s})"

fun pattern_lang :: "glob_tok list \<Rightarrow> string set" where
  "pattern_lang [] = {[]}"
| "pattern_lang (t # ts) = {u @ v |u v. u \<in> tok_lang t \<and> v \<in> pattern_lang ts}"

lemma star_unfold:
  assumes "\<And>u. u \<in> tok_lang t \<longleftrightarrow> list_all P u"
  shows "s \<in> pattern_lang (t # ts) \<longleftrightarrow>
    s \<in> pattern_lang ts \<or> (\<exists>d r. s = d # r \<and> P d \<and> r \<in> pattern_lang (t # ts))"
proof
  assume "s \<in> pattern_lang (t # ts)"
  then obtain u v where s: "s = u @ v" "list_all P u" "v \<in> pattern_lang ts" using assms by auto
  show "s \<in> pattern_lang ts \<or> (\<exists>d r. s = d # r \<and> P d \<and> r \<in> pattern_lang (t # ts))"
    by (cases u) (use s assms in auto)
next
  assume "s \<in> pattern_lang ts \<or> (\<exists>d r. s = d # r \<and> P d \<and> r \<in> pattern_lang (t # ts))"
  then show "s \<in> pattern_lang (t # ts)"
  proof
    assume "s \<in> pattern_lang ts"
    then show ?thesis using assms [of "[]"] by fastforce
  next
    assume "\<exists>d r. s = d # r \<and> P d \<and> r \<in> pattern_lang (t # ts)"
    then obtain d u v where "s = (d # u) @ v" "P d" "list_all P u" "v \<in> pattern_lang ts"
      using assms by auto
    moreover from this have "d # u \<in> tok_lang t" using assms [of "d # u"] by simp
    ultimately show ?thesis by (simp del: append_Cons) blast
  qed
qed

lemma glob_tokens_lang: "glob_tokens_match ts s \<longleftrightarrow> s \<in> pattern_lang ts"
proof (induction ts s rule: glob_tokens_match.induct)
  case (4 ts s)
  have "\<And>u. u \<in> tok_lang AnySegment \<longleftrightarrow> list_all (\<lambda>d. d \<noteq> CHR ''/'') u"
    by (auto simp: tok_lang_def list_all_iff)
  note * = star_unfold [OF this, of s ts]
  show ?case unfolding * using 4 by (cases s) auto
next
  case (5 ts s)
  have "\<And>u. u \<in> tok_lang AnyPath \<longleftrightarrow> list_all (\<lambda>d. \<not> line_end d) u"
    by (auto simp: tok_lang_def list_all_iff list_ex_iff)
  note * = star_unfold [OF this, of s ts]
  show ?case unfolding * using 5 by (cases s) auto
next
  case (3 c ts s)
  have "s \<in> pattern_lang (OptLit c # ts) \<longleftrightarrow> s \<in> pattern_lang ts \<or> (\<exists>r. s = c # r \<and> r \<in> pattern_lang ts)"
    by (auto simp: tok_lang_def intro: exI [of _ "[c]"])
  with 3 show ?case by (cases s) auto
qed (auto simp: tok_lang_def split: list.splits)

lemma quantify_plain: "Lit (CHR ''?'') \<notin> set ts \<Longrightarrow> quantify ts = Some ts"
  by (induction ts rule: quantify.induct) (auto split: glob_tok.split)

lemma glob_atoms_plain: "CHR ''?'' \<notin> set p \<Longrightarrow> Lit (CHR ''?'') \<notin> set (glob_atoms p)"
  by (induction p rule: glob_atoms.induct) auto

lemma pattern_lang_append:
  "u \<in> tok_lang t \<Longrightarrow> v \<in> pattern_lang ts \<Longrightarrow> u @ v \<in> pattern_lang (t # ts)"
  by auto

lemma glob_matches_itself: "p \<in> pattern_lang (glob_atoms p)"
proof (induction p rule: glob_atoms.induct)
  case (3 c d s)
  show ?case
  proof (cases "c = CHR ''*'' \<and> d = CHR ''*''")
    case True
    have "''**'' \<in> tok_lang AnyPath" by (simp add: tok_lang_def line_end_def)
    from pattern_lang_append [OF this 3(1) [OF True]] True show ?thesis by simp
  next
    case False
    have "[c] \<in> tok_lang (if c = CHR ''*'' then AnySegment else Lit c)" by (simp add: tok_lang_def)
    from pattern_lang_append [OF this 3(2) [OF False]] show ?thesis
      unfolding glob_atoms.simps if_not_P [OF False] by simp
  qed
qed (auto simp: tok_lang_def)

text \<open>What the text of a pattern spells, read off its characters.\<close>

function spells :: "string \<Rightarrow> string set" where
  "spells [] = {[]}"
| "spells (c # p) =
     (if c \<noteq> CHR ''*'' then {c # v |v. v \<in> spells p}
      else if take 1 p = ''*'' then {u @ v |u v. \<not> list_ex line_end u \<and> v \<in> spells (tl p)}
      else {u @ v |u v. CHR ''/'' \<notin> set u \<and> v \<in> spells p})"
  by pat_completeness auto
termination by (relation "measure length") (auto simp: less_Suc_eq_le)

lemma atoms_spell: "pattern_lang (glob_atoms p) = spells p"
proof (induction p rule: glob_atoms.induct)
  case (3 c d s)
  have "spells (c # d # s) = (if c \<noteq> CHR ''*'' then {c # v |v. v \<in> spells (d # s)}
      else if d = CHR ''*'' then {u @ v |u v. \<not> list_ex line_end u \<and> v \<in> spells s}
      else {u @ v |u v. CHR ''/'' \<notin> set u \<and> v \<in> spells (d # s)})"
    by (subst spells.simps(2)) (simp del: spells.simps)
  with 3 show ?case by (auto simp: tok_lang_def simp del: spells.simps)
qed (auto simp: tok_lang_def)

text \<open>C24. A pattern without question marks always compiles, and matches exactly the texts it spells: two stars in a row
  any text without a line end, a single star any text without a slash, every other character itself.\<close>

theorem glob_matches_its_language:
  assumes "CHR ''?'' \<notin> set p"
  shows "globMatch p target = Some (target \<in> spells p)"
  using glob_matches_itself [of p] assms unfolding atoms_spell [symmetric]
  by (auto simp: globMatch_def quantify_plain glob_atoms_plain glob_tokens_lang)

theorem glob_matches_its_language_witness:
  "''src/a.ts'' \<in> spells ''src/*.ts'' \<and> ''src/b/a.ts'' \<notin> spells ''src/*.ts'' \<and> ''src/b/a.ts'' \<in> spells ''src/**.ts''"
proof -
  have v: "globMatch ''src/*.ts'' ''src/a.ts'' = Some True" "globMatch ''src/*.ts'' ''src/b/a.ts'' = Some False"
    "globMatch ''src/**.ts'' ''src/b/a.ts'' = Some True"
    by code_simp+
  from v glob_matches_its_language [of "''src/*.ts''"] glob_matches_its_language [of "''src/**.ts''"] show ?thesis by simp
qed

section \<open>Authorization\<close>

lemma some_match_True: "some_match ps t = Some True \<Longrightarrow> \<exists>p \<in> set ps. globMatch p t = Some True"
  by (induction ps) (auto split: option.splits bool.splits)

lemma hook_grants:
  assumes "createAuthorizationHook levels agentLevels agentConstraints ag action t = Some Granted"
  obtains lv perms p where "map_of agentLevels ag = Some lv" "(lv, perms) \<in> set levels"
    "p \<in> set (patterns_for perms action)" "globMatch p t = Some True"
proof -
  from assms obtain lv l where l: "map_of agentLevels ag = Some lv" "find (\<lambda>l. fst l = lv) levels = Some l"
    "checkPermission (snd l) action t = Some Granted"
    by (auto simp: createAuthorizationHook_def authorize_action_def split: option.splits Authz.splits)
  then have "some_match (patterns_for (snd l) action) t = Some True"
    by (auto simp: checkPermission_def split: if_splits)
  then obtain p where "p \<in> set (patterns_for (snd l) action)" "globMatch p t = Some True"
    using some_match_True by blast
  with l show ?thesis using that [of lv "snd l" p] by (auto simp: find_Some_iff)
qed

section \<open>Autonomy\<close>

lemma first_demotion_Some:
  "first_demotion policy a ts = Some (r, t) \<Longrightarrow> t \<in> set ts \<and> r = evaluateDemotion policy a t None \<and> demoted r"
  by (induction ts) (auto simp: Let_def split: if_splits)

lemma first_demotion_None:
  "first_demotion policy a ts = None \<longleftrightarrow> (\<forall>t \<in> set ts. \<not> demoted (evaluateDemotion policy a t None))"
  by (induction ts) (auto simp: Let_def)

lemma demotes_iff:
  "demoted (evaluateDemotion policy a t None) \<longleftrightarrow>
     (\<exists>d. find (\<lambda>x. dtTrigger x = t) (apDemotionTriggers policy) = Some d \<and> dtCondition d = None)"
  by (auto simp: evaluateDemotion_def Let_def split: option.splits)

lemma demotion_levels:
  "demoted (evaluateDemotion policy a t ctx) \<Longrightarrow>
     drFrom (evaluateDemotion policy a t ctx) = currentLevel a
     \<and> (drTo (evaluateDemotion policy a t ctx) = 0 \<or> drTo (evaluateDemotion policy a t ctx) = currentLevel a - 1)"
  by (auto simp: evaluateDemotion_def Let_def split: option.splits if_splits DemotionAction.splits)

text \<open>When a promotion is due: the criteria of the level exist, the time at the level and the
  cooldown since the last demotion have passed, and tasks, metrics and approvals are there.\<close>

definition may_promote :: "int \<Rightarrow> AutonomyPolicy \<Rightarrow> AgentMetrics \<Rightarrow> bool" where
  "may_promote now policy a \<longleftrightarrow>
     (\<exists>cr. map_of (apPromotionCriteria policy) (criteria_key (currentLevel a)) = Some cr
        \<and> minimumTasks cr \<le> totalTasksCompleted a
        \<and> (\<forall>c \<in> set (conditions cr). \<exists>v. map_of (amMetrics a) (mcMetric c) = Some v
             \<and> compareMetric v (mcOperator c) (mcThreshold c))
        \<and> set (requiredApprovals cr) \<subseteq> set (approvals a))
     \<and> (\<forall>since l d. promotedAt a = Some since
          \<and> find (\<lambda>l. lvLevel l = currentLevel a) (apLevels policy) = Some l \<and> lvMinimumDuration l = Some d
          \<longrightarrow> d = [] \<or> parseDuration d \<le> of_int (now - since))
     \<and> (\<forall>since. demotedAt a = Some since \<longrightarrow> cooldown_ms policy \<le> of_int (now - since))"

lemma duration_unmet_Nil:
  "duration_unmet now policy a = [] \<longleftrightarrow> (\<forall>since l d. promotedAt a = Some since
     \<and> find (\<lambda>l. lvLevel l = currentLevel a) (apLevels policy) = Some l \<and> lvMinimumDuration l = Some d
     \<longrightarrow> d = [] \<or> parseDuration d \<le> of_int (now - since))"
  by (auto simp: duration_unmet_def Let_def not_less split: option.split)

lemma cooldown_unmet_Nil:
  "cooldown_unmet now policy a = [] \<longleftrightarrow>
     (\<forall>since. demotedAt a = Some since \<longrightarrow> cooldown_ms policy \<le> of_int (now - since))"
  by (auto simp: cooldown_unmet_def Let_def not_less split: option.split)

lemma condition_unmet_Nil:
  "condition_unmet a c = [] \<longleftrightarrow> (\<exists>v. map_of (amMetrics a) (mcMetric c) = Some v
     \<and> compareMetric v (mcOperator c) (mcThreshold c))"
  by (auto simp: condition_unmet_def split: option.split)

lemma eligible_iff: "eligible (evaluatePromotion now policy a) \<longleftrightarrow> may_promote now policy a"
  unfolding may_promote_def evaluatePromotion_def Let_def
  by (auto simp: duration_unmet_Nil cooldown_unmet_Nil condition_unmet_Nil filter_empty_conv
      split: option.split)

lemma promotion_levels:
  "prFrom (evaluatePromotion now policy a) = currentLevel a"
  "prTo (evaluatePromotion now policy a) = currentLevel a + 1"
  by (simp_all add: evaluatePromotion_def Let_def split: option.split)

lemma cooldown_longest:
  assumes "d \<in> set (apDemotionTriggers policy)"
  shows "parseDuration (dtCooldown d) \<le> cooldown_ms policy"
proof -
  have *: "m \<le> fold (\<lambda>t m. let cd = parseDuration (dtCooldown t) in if cd > m then cd else m) ts m
     \<and> (d \<in> set ts \<longrightarrow> parseDuration (dtCooldown d)
         \<le> fold (\<lambda>t m. let cd = parseDuration (dtCooldown t) in if cd > m then cd else m) ts m)" for ts m
  proof (induction ts arbitrary: m)
    case (Cons t ts)
    show ?case
    proof (cases "m < parseDuration (dtCooldown t)")
      case True
      then show ?thesis using Cons.IH [of "parseDuration (dtCooldown t)"] by auto
    next
      case False
      then show ?thesis using Cons.IH [of m] by auto
    qed
  qed simp
  have "parseDuration (dtCooldown d) \<le> longest_cooldown (apDemotionTriggers policy)"
    "0 \<le> longest_cooldown (apDemotionTriggers policy)"
    using * [of 0 "apDemotionTriggers policy"] assms by (simp_all add: longest_cooldown_def)
  then show ?thesis by (auto simp: cooldown_ms_def Let_def DEFAULT_COOLDOWN_MS_def)
qed

text \<open>C23. One pass over an agent: an active trigger of the policy without a condition demotes it, to level
  zero or one level down, even when a promotion is due; otherwise it rises exactly one level when
  the promotion is due, and in particular not before the cooldown of every trigger has passed since
  its last demotion; otherwise its level stays.\<close>

theorem autonomy_pass:
  assumes "reconcile_agent iso_text now policy a triggers st = (st', ns)"
  shows "if \<exists>t \<in> set triggers. \<exists>d. find (\<lambda>x. dtTrigger x = t) (apDemotionTriggers policy) = Some d
            \<and> dtCondition d = None
     then (asLevel st' = 0 \<or> asLevel st' = currentLevel a - 1) \<and> asPromotedAt st' = None
     else if may_promote now policy a
     then asLevel st' = currentLevel a + 1 \<and> ns = [OnPromotion (asName st) (currentLevel a) (currentLevel a + 1)]
       \<and> (\<forall>since. demotedAt a = Some since \<longrightarrow>
            (\<forall>d \<in> set (apDemotionTriggers policy). parseDuration (dtCooldown d) \<le> of_int (now - since)))
     else asLevel st' = asLevel st \<and> ns = []"
proof (cases "first_demotion policy a triggers")
  case (Some rt)
  obtain r t where rt: "rt = (r, t)" by (cases rt)
  note d = first_demotion_Some [OF Some [unfolded rt]]
  then have ex: "\<exists>t \<in> set triggers. \<exists>d. find (\<lambda>x. dtTrigger x = t) (apDemotionTriggers policy) = Some d
      \<and> dtCondition d = None" using demotes_iff by blast
  have "drTo r = 0 \<or> drTo r = currentLevel a - 1" using demotion_levels [of policy a t None] d by blast
  with ex show ?thesis using assms Some rt by (auto simp: reconcile_agent_def)
next
  case None
  then have ex: "\<not> (\<exists>t \<in> set triggers. \<exists>d. find (\<lambda>x. dtTrigger x = t) (apDemotionTriggers policy) = Some d
      \<and> dtCondition d = None)" unfolding first_demotion_None demotes_iff by blast
  have "may_promote now policy a \<Longrightarrow> demotedAt a = Some since \<Longrightarrow> d \<in> set (apDemotionTriggers policy) \<Longrightarrow>
      parseDuration (dtCooldown d) \<le> of_int (now - since)" for since d
    using cooldown_longest order_trans unfolding may_promote_def by blast
  with ex show ?thesis using assms None
    by (auto simp: reconcile_agent_def Let_def eligible_iff promotion_levels)
qed

definition demo_metrics :: AgentMetrics where
  "demo_metrics = \<lparr>amName = ''a'', currentLevel = 1, totalTasksCompleted = 20, amMetrics = [(''quality'', 9 / 10)],
     approvals = [''lead''], promotedAt = None, demotedAt = Some 0\<rparr>"

definition demo_policy :: "string \<Rightarrow> AutonomyPolicy" where
  "demo_policy cooldown = \<lparr>apLevels = [],
     apPromotionCriteria = [(''1-to-2'', \<lparr>minimumTasks = 10,
        conditions = [\<lparr>mcMetric = ''quality'', mcOperator = ''>='', mcThreshold = 4 / 5\<rparr>],
        requiredApprovals = [''lead'']\<rparr>)],
     apDemotionTriggers = [\<lparr>dtTrigger = ''incident'', dtAction = DemoteOneLevel, dtCooldown = cooldown,
        dtCondition = None\<rparr>]\<rparr>"

definition demo_status :: AgentAutonomyStatus where
  "demo_status = \<lparr>asName = ''a'', asLevel = 1, asPromotedAt = Some ''t0'', asDemotedAt = None,
     asNextEvaluationAt = None, asMetrics = None\<rparr>"

theorem autonomy_pass_witness:
  "asLevel (fst (reconcile_agent (\<lambda>_. ''t'') 5 (demo_policy ''2d'') demo_metrics [''incident''] demo_status)) = 0
    \<and> asPromotedAt (fst (reconcile_agent (\<lambda>_. ''t'') 5 (demo_policy ''2d'') demo_metrics [''incident''] demo_status)) = None"
proof -
  let ?r = "reconcile_agent (\<lambda>_. ''t'') 5 (demo_policy ''2d'') demo_metrics [''incident''] demo_status"
  have r: "?r = (fst ?r, snd ?r)" by simp
  show ?thesis using autonomy_pass [OF r] by (simp add: demo_policy_def demo_metrics_def)
qed

text \<open>The duration format of the policies admits years and months, which \<open>parseDuration\<close> does not
  read: a cooldown of one month counts as none, and an agent demoted an hour ago is promoted.\<close>

theorem calendar_cooldown_ignored:
  "parseDuration ''P1M'' = 0 \<and> cooldown_ms (demo_policy ''P1M'') = 3600000
   \<and> eligible (evaluatePromotion 3600000 (demo_policy ''P1M'') demo_metrics)
   \<and> \<not> eligible (evaluatePromotion 3600000 (demo_policy ''30d'') demo_metrics)"
  by code_simp

end
