(* ===== verification/Board.thy ===== *)
theory Board
  imports EffectivePriority Json Complex_Main
begin

text \<open>
  The dispatch board, \<open>pipeline-cli/src/dispatch/board.ts\<close> with \<open>ranking.ts\<close>: its files, what makes a
  queued manifest eligible, the claim order and the claim itself. A directory of the board is a map
  from the task id in the file name to the file: its parsed body (\<open>None\<close> when it does not parse) and
  its modification time. Every file operation succeeds and is atomic. What lies outside the board
  is the environment: the backlog graph when the repository root is known, the ranking mode, the
  active budget floor, \<open>Date.parse\<close> and \<open>localeCompare\<close>. Times are milliseconds.
\<close>

section \<open>Manifests, verdicts and the board\<close>

datatype WorkerKind = InSessionAgent | ClaudePShell

datatype ManifestWorkerKind = AnyKind | Kind WorkerKind

record BlockInfo =
  biBlockedAt :: string
  biBlockedBy :: string
  biReason :: string

record ResumeFeedback =
  rfNote :: string
  rfDeveloperRound :: bool

record DispatchManifest =
  mfTaskId :: string
  mfBranch :: string
  mfWorkerKind :: ManifestWorkerKind
  mfDispatchedAt :: string
  mfPayload :: string  \<comment> \<open>the fields the board only passes on\<close>
  mfIterationsAttempted :: "nat option"
  mfIterationBudget :: "nat option"
  mfNoClaimBefore :: "string option"
  mfAfter :: "string list option"
  mfSequenceGroup :: "string option"
  mfPriority :: "int option"
  mfWave :: "int option"
  mfFixesPr :: "nat option"
  mfBlockedBy :: "string option"
  mfBlock :: "BlockInfo option"
  mfRetryCount :: "nat option"
  mfWorkerId :: "string option"
  mfResume :: "ResumeFeedback option"
  mfReorderNote :: "string option"
  mfRulingUntil :: "string option"

datatype VerdictOutcome = Success | IterateNeeded | IterationExhausted | VFailed | QuotaExhausted | VBlocked

record DispatchVerdict =
  dvTaskId :: string
  dvOutcome :: VerdictOutcome
  dvCompletedAt :: string
  dvWorkerId :: string
  dvWorkerKind :: "WorkerKind option"
  dvCause :: "string option"
  dvIterationsAttempted :: "nat option"
  dvLanded :: "string option"

record InflightHeartbeat =
  hbWorkerId :: string
  hbWorkerKind :: WorkerKind
  hbLastHeartbeat :: string
  hbExecutorState :: "string option"

record ResumeSignal =
  rsTaskId :: string
  rsFeedback :: string

record 'a BoardFile =
  fileBody :: "'a option"
  fileMtime :: int

type_synonym manifest_dir = "(string, DispatchManifest BoardFile) jsmap"
type_synonym verdict_dir = "(string, DispatchVerdict option) jsmap"

record LandingRecord =
  lrPr :: "nat option"
  lrOwner :: string
  lrTaskId :: "string option"
  lrDelivered :: "string option"
  lrLanded :: "string option"

record DispatchBoard =
  bdQueue :: manifest_dir
  bdInflight :: manifest_dir
  bdBlocked :: manifest_dir
  bdRetired :: manifest_dir
  bdHeartbeats :: "(string, InflightHeartbeat option) jsmap"
  bdResumes :: "(string, ResumeSignal option) jsmap"
  bdDoneVerdicts :: verdict_dir
  bdDoneCompleted :: "(string, string) jsmap"
  bdFailedVerdicts :: verdict_dir
  bdFailedDiagnostics :: verdict_dir
  bdFailedManifests :: "(string, DispatchManifest) jsmap"
  bdFailedHistory :: "(string \<times> int) list"
  bdLanding :: "LandingRecord option list"

datatype RankingMode = Legacy | EffectiveMode

record BoardEnv =
  envGraph :: "DependencyGraph option"
  envRanking :: RankingMode
  envFloor :: "string option"
  envParse :: "string \<Rightarrow> int option"
  envIso :: "int \<Rightarrow> string"
  envLocale :: "string \<Rightarrow> string \<Rightarrow> int"

datatype BoardError =
    BadTaskId string
  | QueueExists string
  | InflightExists string
  | BlockedExists string
  | NoQueued string
  | HasDoneVerdict string
  | HasFailedRecord string
  | OneClaimPerWorker string string
  | UndeliveredPr string nat "string option"
  | NoInflightClaim string
  | IterationBudgetExhausted string nat nat

text \<open>The id pattern: letters, digits and dashes from a capital letter on, and after the last dash a dotted
  number.\<close>

definition id_char :: "char \<Rightarrow> bool" where
  "id_char c = (let n = char_code c in (65 \<le> n \<and> n \<le> 90) \<or> (48 \<le> n \<and> n \<le> 57) \<or> c = CHR ''-'')"

fun dotted_number :: "bool \<Rightarrow> string \<Rightarrow> bool" where
  "dotted_number digits [] = digits"
| "dotted_number digits (c # s) =
     (if is_digit c then dotted_number True s
      else c = CHR ''.'' \<and> digits \<and> dotted_number False s)"

definition is_task_id :: "string \<Rightarrow> bool" where
  "is_task_id s = (let tail = rev (takeWhile (\<lambda>c. c \<noteq> CHR ''-'') (rev s));
       prefix = take (length s - Suc (length tail)) s in
     CHR ''-'' \<in> set s \<and> dotted_number False tail
     \<and> (case prefix of [] \<Rightarrow> False
        | c # cs \<Rightarrow> 65 \<le> char_code c \<and> char_code c \<le> 90 \<and> list_all id_char cs))"

definition readManifest :: "string \<Rightarrow> manifest_dir \<Rightarrow> DispatchManifest option" where
  "readManifest i d = (case map_of d i of None \<Rightarrow> None | Some f \<Rightarrow> fileBody f)"

section \<open>Eligibility\<close>

record EligibilityContext =
  ecDone :: "string list"
  ecDelivered :: "string list"
  ecDoneOnMain :: "string \<Rightarrow> bool"
  ecFailed :: "string list"
  ecOnBoard :: "string list"
  ecBusyGroups :: "(string, string) jsmap"

definition verdict_success :: "bool \<Rightarrow> string \<times> DispatchVerdict option \<Rightarrow> bool" where
  "verdict_success landed e = (case snd e of None \<Rightarrow> False
     | Some v \<Rightarrow> dvOutcome v = Success \<and> truthy (dvLanded v) = landed)"

definition busy_group :: "string \<times> DispatchManifest BoardFile \<Rightarrow> (string, string) jsmap \<Rightarrow> (string, string) jsmap" where
  "busy_group e m = (case fileBody (snd e) of
     None \<Rightarrow> m
   | Some mf \<Rightarrow> (case mfSequenceGroup mf of
       None \<Rightarrow> m | Some g \<Rightarrow> if g = [] then m else map_set g (mfTaskId mf) m))"

definition done_on_main :: "BoardEnv \<Rightarrow> string \<Rightarrow> bool" where
  "done_on_main env i = (case envGraph env of None \<Rightarrow> False
     | Some g \<Rightarrow> (case map_of (nodes g) (toLowerCase i) of None \<Rightarrow> False | Some n \<Rightarrow> status n = Completed))"

definition loadEligibilityContext :: "BoardEnv \<Rightarrow> DispatchBoard \<Rightarrow> EligibilityContext" where
  "loadEligibilityContext env b =
     \<lparr>ecDone = map_keys (bdDoneCompleted b) @ map fst (filter (verdict_success True) (bdDoneVerdicts b)),
      ecDelivered = map fst (filter (verdict_success False) (bdDoneVerdicts b)),
      ecDoneOnMain = done_on_main env,
      ecFailed = map_keys (bdFailedVerdicts b) @ map_keys (bdFailedDiagnostics b),
      ecOnBoard = map_keys (bdQueue b) @ map_keys (bdInflight b) @ map_keys (bdBlocked b)
        @ map_keys (bdDoneCompleted b) @ map_keys (bdDoneVerdicts b)
        @ map_keys (bdFailedVerdicts b) @ map_keys (bdFailedDiagnostics b),
      ecBusyGroups = fold busy_group (bdInflight b) []\<rparr>"

datatype AfterWait = WaitToLand string | DependencyTaskFailed string | NotOnBoard string | WaitToFinish string

datatype Hold =
    BlockedByDecision string
  | RuledUntil string
  | UnmetAfter "AfterWait list"
  | GroupBusy string string
  | CoolDown string

definition after_wait :: "EligibilityContext \<Rightarrow> string \<Rightarrow> AfterWait" where
  "after_wait ctx i =
     (if i \<in> set (ecDelivered ctx) then WaitToLand i
      else if i \<in> set (ecFailed ctx) then DependencyTaskFailed i
      else if i \<notin> set (ecOnBoard ctx) then NotOnBoard i else WaitToFinish i)"

definition unmet_after :: "DispatchManifest \<Rightarrow> EligibilityContext \<Rightarrow> string list" where
  "unmet_after m ctx = filter (\<lambda>i. i \<notin> set (ecDone ctx) \<and> \<not> ecDoneOnMain ctx i)
     (case mfAfter m of None \<Rightarrow> [] | Some ids \<Rightarrow> ids)"

definition ruling_holds :: "DispatchManifest \<Rightarrow> EligibilityContext \<Rightarrow> bool" where
  "ruling_holds m ctx = (case mfRulingUntil m of None \<Rightarrow> False
     | Some u \<Rightarrow> u \<notin> set (ecDone ctx) \<and> u \<notin> set (ecDelivered ctx))"

text \<open>\<open>None\<close> is eligible.\<close>

definition checkEligibility :: "DispatchManifest \<Rightarrow> EligibilityContext \<Rightarrow> Hold option" where
  "checkEligibility m ctx =
     (if truthy (mfBlockedBy m) then Some (BlockedByDecision (the (mfBlockedBy m)))
      else if ruling_holds m ctx then Some (RuledUntil (the (mfRulingUntil m)))
      else if unmet_after m ctx \<noteq> [] then Some (UnmetAfter (map (after_wait ctx) (unmet_after m ctx)))
      else if truthy (mfSequenceGroup m) then
        (let g = the (mfSequenceGroup m) in
         case map_of (ecBusyGroups ctx) g of
           None \<Rightarrow> None
         | Some holder \<Rightarrow> if holder \<noteq> mfTaskId m then Some (GroupBusy g holder) else None)
      else None)"

definition cooling :: "BoardEnv \<Rightarrow> int \<Rightarrow> DispatchManifest \<Rightarrow> bool" where
  "cooling env now m = (case mfNoClaimBefore m of None \<Rightarrow> False
     | Some t \<Rightarrow> t \<noteq> [] \<and> (case envParse env t of None \<Rightarrow> False | Some ms \<Rightarrow> ms > now))"

section \<open>Claim order\<close>

record Ranked =
  rkFile :: string
  rkManifest :: DispatchManifest
  rkMtime :: int

definition mtime_cmp :: "string \<times> 'a BoardFile \<Rightarrow> string \<times> 'a BoardFile \<Rightarrow> int" where
  "mtime_cmp a b = fileMtime (snd a) - fileMtime (snd b)"

definition listManifestCandidates :: "manifest_dir \<Rightarrow> manifest_dir" where
  "listManifestCandidates d = sort_by mtime_cmp d"

definition comparePriority :: "int option \<Rightarrow> int option \<Rightarrow> int" where
  "comparePriority a b = (case (a, b) of
     (None, None) \<Rightarrow> 0
   | (None, Some _) \<Rightarrow> 1
   | (Some _, None) \<Rightarrow> - 1
   | (Some x, Some y) \<Rightarrow> if x = y then 0 else if x < y then - 1 else 1)"

definition manifest_wave :: "DispatchManifest \<Rightarrow> int" where
  "manifest_wave m = (case mfWave m of None \<Rightarrow> 0 | Some w \<Rightarrow> w)"

definition legacy_cmp :: "Ranked \<Rightarrow> Ranked \<Rightarrow> int" where
  "legacy_cmp a b =
     (let w = manifest_wave (rkManifest a) - manifest_wave (rkManifest b);
          p = comparePriority (mfPriority (rkManifest a)) (mfPriority (rkManifest b)) in
      if w \<noteq> 0 then w else if p \<noteq> 0 then p else rkMtime a - rkMtime b)"

record RankKey =
  kyWave :: int
  kyEffective :: int
  kyPath :: nat
  kyAge :: rat
  kyId :: string

definition ageBonus :: "BoardEnv \<Rightarrow> string \<Rightarrow> int \<Rightarrow> rat" where
  "ageBonus env dispatchedAt now =
     (if dispatchedAt = [] then 0
      else (case envParse env dispatchedAt of
        None \<Rightarrow> 0
      | Some ms \<Rightarrow> min 1 (max 0 ((of_int (now - ms) / 86400000 - 30) / 180))))"

definition rank_key :: "BoardEnv \<Rightarrow> int \<Rightarrow> DispatchManifest \<Rightarrow> RankKey" where
  "rank_key env now m =
     (let rec = (case envGraph env of None \<Rightarrow> None
            | Some g \<Rightarrow> map_of (computeEffectivePriorities None g) (toLowerCase (mfTaskId m)));
          fallback = (case mfPriority m of None \<Rightarrow> 2 | Some p \<Rightarrow> 4 - p)
      in \<lparr>kyWave = manifest_wave m,
          kyEffective = (case rec of None \<Rightarrow> fallback | Some r \<Rightarrow> int (erEffective r)),
          kyPath = (case rec of None \<Rightarrow> 0 | Some r \<Rightarrow> erCpl r),
          kyAge = ageBonus env (mfDispatchedAt m) now,
          kyId = mfTaskId m\<rparr>)"

definition compareRankKeys :: "BoardEnv \<Rightarrow> RankKey \<Rightarrow> RankKey \<Rightarrow> int" where
  "compareRankKeys env a b =
     (if kyWave a \<noteq> kyWave b then kyWave a - kyWave b
      else if kyEffective a \<noteq> kyEffective b then kyEffective b - kyEffective a
      else if kyPath a \<noteq> kyPath b then int (kyPath b) - int (kyPath a)
      else if kyAge a \<noteq> kyAge b then (if kyAge b < kyAge a then - 1 else 1)
      else envLocale env (kyId a) (kyId b))"

definition PRIORITY_RANK :: "string \<Rightarrow> int option" where
  "PRIORITY_RANK p = map_of [(''highest'', - 2), (''critical'', - 1), (''high'', 0), (''medium'', 1), (''low'', 2)] p"

definition below_floor :: "BoardEnv \<Rightarrow> DispatchManifest \<Rightarrow> bool" where
  "below_floor env m = (case (envFloor env, envGraph env) of
     (Some fl, Some g) \<Rightarrow>
       (let p = (case map_of (nodes g) (toLowerCase (mfTaskId m)) of None \<Rightarrow> [] | Some n \<Rightarrow> priority n) in
        case (PRIORITY_RANK p, PRIORITY_RANK fl) of
          (Some r, Some f) \<Rightarrow> r > f
        | (None, _) \<Rightarrow> True
        | _ \<Rightarrow> False)
   | _ \<Rightarrow> False)"

definition claimable :: "BoardEnv \<Rightarrow> EligibilityContext \<Rightarrow> WorkerKind option \<Rightarrow> int \<Rightarrow> DispatchManifest \<Rightarrow> bool" where
  "claimable env ctx kind now m \<longleftrightarrow>
     is_task_id (mfTaskId m)
     \<and> (case kind of None \<Rightarrow> True | Some k \<Rightarrow> mfWorkerKind m = AnyKind \<or> mfWorkerKind m = Kind k)
     \<and> \<not> cooling env now m \<and> checkEligibility m ctx = None \<and> \<not> below_floor env m"

definition ranked_of :: "string \<times> DispatchManifest BoardFile \<Rightarrow> Ranked option" where
  "ranked_of e = map_option (\<lambda>m. \<lparr>rkFile = fst e, rkManifest = m, rkMtime = fileMtime (snd e)\<rparr>) (fileBody (snd e))"

definition orderEligible :: "BoardEnv \<Rightarrow> DispatchBoard \<Rightarrow> WorkerKind option \<Rightarrow> int \<Rightarrow> Ranked list" where
  "orderEligible env b kind now =
     (let ctx = loadEligibilityContext env b;
          eligible = filter (\<lambda>r. claimable env ctx kind now (rkManifest r))
            (List.map_filter ranked_of (listManifestCandidates (bdQueue b)))
      in case envRanking env of
           Legacy \<Rightarrow> sort_by legacy_cmp eligible
         | EffectiveMode \<Rightarrow> sort_by (\<lambda>x y. compareRankKeys env
             (rank_key env now (rkManifest x)) (rank_key env now (rkManifest y))) eligible)"

section \<open>Claims\<close>

definition findUndeliveredPr :: "DispatchBoard \<Rightarrow> string \<Rightarrow> (nat \<times> string option) option" where
  "findUndeliveredPr b w =
     (case List.find (\<lambda>r. case r of None \<Rightarrow> False
          | Some l \<Rightarrow> lrOwner l = ''executor:'' @ w \<and> \<not> truthy (lrDelivered l) \<and> \<not> truthy (lrLanded l)
              \<and> lrPr l \<noteq> None) (bdLanding b) of
        Some (Some l) \<Rightarrow> Some (the (lrPr l), if truthy (lrTaskId l) then lrTaskId l else None)
      | _ \<Rightarrow> None)"

text \<open>The manifests in a directory that parse, in its order.\<close>

definition manifests_in :: "manifest_dir \<Rightarrow> DispatchManifest list" where
  "manifests_in d = List.map_filter (\<lambda>e. fileBody (snd e)) d"

text \<open>The default sort of file names, by code units.\<close>

definition file_name :: "string \<times> 'a \<Rightarrow> string" where
  "file_name e = fst e @ ''.dispatch.json''"

definition file_name_cmp :: "string \<times> 'a \<Rightarrow> string \<times> 'a \<Rightarrow> int" where
  "file_name_cmp a b = (if str_less (file_name a) (file_name b) then - 1
     else if str_less (file_name b) (file_name a) then 1 else 0)"

definition findHeldClaim :: "DispatchBoard \<Rightarrow> string \<Rightarrow> string option" where
  "findHeldClaim b w = map_option mfTaskId
     (List.find (\<lambda>m. mfWorkerId m = Some w) (manifests_in (sort_by file_name_cmp (bdInflight b))))"

definition otherGroupHolders :: "DispatchBoard \<Rightarrow> DispatchManifest \<Rightarrow> string list" where
  "otherGroupHolders b m = map mfTaskId
     (filter (\<lambda>x. mfSequenceGroup x = mfSequenceGroup m \<and> mfTaskId x \<noteq> mfTaskId m) (manifests_in (bdInflight b)))"

text \<open>The decision on a group claim, from the first scan of the other holders and the scans the polling
  makes: at most twenty of them, ten milliseconds apart.\<close>

definition settleGroupClaim :: "string \<Rightarrow> string list \<Rightarrow> string list list \<Rightarrow> bool" where
  "settleGroupClaim tid holders polls =
     (if holders = [] then True
      else if list_ex (\<lambda>i. str_less i tid) holders then False
      else list_ex (\<lambda>h. h = []) (take 20 polls))"

definition move_file :: "string \<Rightarrow> string \<Rightarrow> manifest_dir \<Rightarrow> manifest_dir \<Rightarrow> manifest_dir \<times> manifest_dir" where
  "move_file i j src dst = (case map_of src i of
     None \<Rightarrow> (src, dst) | Some f \<Rightarrow> (map_del i src, map_set j f dst))"

text \<open>One candidate, with nobody else at work: rename, settle the group (the scans all see the same
  holders), stamp the time and the worker.\<close>

definition take_claim :: "int \<Rightarrow> string option \<Rightarrow> Ranked \<Rightarrow> DispatchBoard \<Rightarrow> DispatchBoard \<times> DispatchManifest option" where
  "take_claim now w r b =
     (let m = rkManifest r; tid = mfTaskId m; mv = move_file (rkFile r) tid (bdQueue b) (bdInflight b);
          b1 = b\<lparr>bdQueue := fst mv, bdInflight := snd mv\<rparr>;
          holders = otherGroupHolders b1 m in
      if truthy (mfSequenceGroup m) \<and> \<not> settleGroupClaim tid holders (replicate 20 holders)
      then (let back = move_file tid (rkFile r) (bdInflight b1) (bdQueue b1)
            in (b1\<lparr>bdInflight := fst back, bdQueue := snd back\<rparr>, None))
      else (let m1 = (case w of None \<Rightarrow> m | Some wid \<Rightarrow> m\<lparr>mfWorkerId := Some wid\<rparr>)
            in (b1\<lparr>bdInflight := map_set tid \<lparr>fileBody = Some m1, fileMtime = now\<rparr> (bdInflight b1)\<rparr>, Some m1)))"

fun claim_loop :: "int \<Rightarrow> string option \<Rightarrow> string list \<Rightarrow> Ranked list \<Rightarrow> DispatchBoard \<Rightarrow> DispatchBoard \<times> DispatchManifest option" where
  "claim_loop now w groups [] b = (b, None)"
| "claim_loop now w groups (r # rs) b =
     (let g = mfSequenceGroup (rkManifest r) in
      if truthy g \<and> the g \<in> set groups then claim_loop now w groups rs b
      else (let groups1 = (if truthy g then the g # groups else groups); c = take_claim now w r b in
            case snd c of None \<Rightarrow> claim_loop now w groups1 rs (fst c) | Some m \<Rightarrow> c))"

definition fixes_or_resumes :: "Ranked \<Rightarrow> bool" where
  "fixes_or_resumes r \<longleftrightarrow> mfFixesPr (rkManifest r) \<noteq> None \<or> mfResume (rkManifest r) \<noteq> None"

definition claimNext ::
  "BoardEnv \<Rightarrow> WorkerKind \<Rightarrow> int \<Rightarrow> string option \<Rightarrow> string option \<Rightarrow> DispatchBoard
    \<Rightarrow> BoardError + DispatchBoard \<times> DispatchManifest option" where
  "claimNext env kind now w onlyTask b =
     (case (case w of None \<Rightarrow> None | Some wid \<Rightarrow> findHeldClaim b wid) of
        Some held \<Rightarrow> Inl (OneClaimPerWorker (the w) held)
      | None \<Rightarrow>
          (let eligible = filter (\<lambda>r. case onlyTask of None \<Rightarrow> True | Some t \<Rightarrow> mfTaskId (rkManifest r) = t)
                 (orderEligible env b (Some kind) now);
               undelivered = (case w of None \<Rightarrow> None
                 | Some wid \<Rightarrow> if eligible = [] then None else findUndeliveredPr b wid) in
           case undelivered of
             None \<Rightarrow> Inr (claim_loop now w [] eligible b)
           | Some (pr, t) \<Rightarrow>
               (if filter fixes_or_resumes eligible = [] then Inl (UndeliveredPr (the w) pr t)
                else Inr (claim_loop now w [] (filter fixes_or_resumes eligible) b))))"

end
