(* ===== verification/BoardOps.thy ===== *)
theory BoardOps
  imports Board
begin

text \<open>
  The other operations of \<open>pipeline-cli/src/dispatch/board.ts\<close>: writing, retiring, releasing, parking and
  requeueing manifests, verdicts and diagnostics, heartbeats and their sweep, resume signals and the
  iteration budget, listings; and of \<open>requeue.ts\<close> the requeue of a failed task.
\<close>

section \<open>The queue\<close>

definition writeManifest :: "int \<Rightarrow> DispatchManifest \<Rightarrow> DispatchBoard \<Rightarrow> BoardError + DispatchBoard" where
  "writeManifest now m b =
     (let i = mfTaskId m in
      if \<not> is_task_id i then Inl (BadTaskId i)
      else if has_key i (bdQueue b) then Inl (QueueExists i)
      else if has_key i (bdInflight b) then Inl (InflightExists i)
      else Inr (b\<lparr>bdQueue := map_set i \<lparr>fileBody = Some m, fileMtime = now\<rparr> (bdQueue b)\<rparr>))"

definition replaceQueuedBranch :: "int \<Rightarrow> string \<Rightarrow> string \<Rightarrow> DispatchBoard \<Rightarrow> BoardError + DispatchBoard" where
  "replaceQueuedBranch now i branch b =
     (if \<not> is_task_id i then Inl (BadTaskId i)
      else if has_key i (bdInflight b) then Inl (InflightExists i)
      else (case readManifest i (bdQueue b) of
          None \<Rightarrow> Inl (NoQueued i)
        | Some m \<Rightarrow> Inr (b\<lparr>bdQueue := map_set i
            \<lparr>fileBody = Some (m\<lparr>mfBranch := branch\<rparr>), fileMtime = now\<rparr> (bdQueue b)\<rparr>)))"

text \<open>The retired copy also records the time and the reason, which nothing reads back.\<close>

definition retireQueued :: "int \<Rightarrow> string \<Rightarrow> DispatchBoard \<Rightarrow> BoardError + DispatchBoard" where
  "retireQueued now i b =
     (if \<not> is_task_id i then Inl (BadTaskId i)
      else if has_key i (bdInflight b) then Inl (InflightExists i)
      else if has_key i (bdDoneVerdicts b) \<or> has_key i (bdDoneCompleted b) then Inl (HasDoneVerdict i)
      else (case readManifest i (bdQueue b) of
          None \<Rightarrow> Inl (NoQueued i)
        | Some m \<Rightarrow> Inr (b\<lparr>bdRetired := map_set i \<lparr>fileBody = Some m, fileMtime = now\<rparr> (bdRetired b),
            bdQueue := map_del i (bdQueue b)\<rparr>)))"

definition readQueuedManifest :: "string \<Rightarrow> DispatchBoard \<Rightarrow> BoardError + DispatchManifest option" where
  "readQueuedManifest i b = (if \<not> is_task_id i then Inl (BadTaskId i) else Inr (readManifest i (bdQueue b)))"

record QueuePatch =
  qpPriority :: "int option"
  qpResume :: "ResumeFeedback option"
  qpReorderNote :: "string option"
  qpAfter :: "string list option"

definition updateQueuedManifest :: "string \<Rightarrow> QueuePatch \<Rightarrow> DispatchBoard \<Rightarrow> BoardError + DispatchBoard" where
  "updateQueuedManifest i p b =
     (if \<not> is_task_id i then Inl (BadTaskId i)
      else if has_key i (bdInflight b) then Inl (InflightExists i)
      else if has_key i (bdDoneVerdicts b) \<or> has_key i (bdDoneCompleted b) then Inl (HasDoneVerdict i)
      else if has_key i (bdFailedDiagnostics b) then Inl (HasFailedRecord i)
      else (case map_of (bdQueue b) i of
          None \<Rightarrow> Inl (NoQueued i)
        | Some f \<Rightarrow> (case fileBody f of
            None \<Rightarrow> Inl (NoQueued i)
          | Some m \<Rightarrow> Inr (b\<lparr>bdQueue := map_set i (f\<lparr>fileBody := Some (m\<lparr>
                mfPriority := patched (qpPriority p) (mfPriority m),
                mfResume := patched (qpResume p) (mfResume m),
                mfReorderNote := patched (qpReorderNote p) (mfReorderNote m),
                mfAfter := patched (qpAfter p) (mfAfter m)\<rparr>)\<rparr>) (bdQueue b)\<rparr>))))"

section \<open>Inflight, blocked and back\<close>

definition clear_sidecars :: "string \<Rightarrow> DispatchBoard \<Rightarrow> DispatchBoard" where
  "clear_sidecars i b = b\<lparr>bdHeartbeats := map_del i (bdHeartbeats b), bdResumes := map_del i (bdResumes b)\<rparr>"

text \<open>The rename of a release overwrites a queued file of the same id.\<close>

definition releaseInflight :: "string \<Rightarrow> DispatchBoard \<Rightarrow> BoardError + DispatchBoard \<times> bool" where
  "releaseInflight i b =
     (if \<not> is_task_id i then Inl (BadTaskId i)
      else if \<not> has_key i (bdInflight b) then Inr (b, False)
      else (let mv = move_file i i (bdInflight b) (bdQueue b)
            in Inr ((clear_sidecars i b)\<lparr>bdInflight := fst mv, bdQueue := snd mv\<rparr>, True)))"

definition parkInflight :: "string \<Rightarrow> string \<Rightarrow> DispatchBoard \<Rightarrow> BoardError + DispatchBoard \<times> bool" where
  "parkInflight i decision b =
     (if \<not> is_task_id i then Inl (BadTaskId i)
      else (case map_of (bdInflight b) i of
          None \<Rightarrow> Inr (b, False)
        | Some f \<Rightarrow> (case fileBody f of
            None \<Rightarrow> Inr (b, False)
          | Some m \<Rightarrow>
              if has_key i (bdBlocked b) then Inl (BlockedExists i)
              else Inr ((clear_sidecars i b)\<lparr>
                 bdBlocked := map_set i (f\<lparr>fileBody := Some (m\<lparr>mfBlockedBy := Some decision\<rparr>)\<rparr>) (bdBlocked b),
                 bdInflight := map_del i (bdInflight b)\<rparr>, True))))"

definition unblockManifest :: "string \<Rightarrow> string option \<Rightarrow> DispatchBoard \<Rightarrow> BoardError + DispatchBoard \<times> bool" where
  "unblockManifest i onlyIf b =
     (if \<not> is_task_id i then Inl (BadTaskId i)
      else (case map_of (bdBlocked b) i of
          None \<Rightarrow> Inr (b, False)
        | Some f \<Rightarrow> (case fileBody f of
            None \<Rightarrow> Inr (b, False)
          | Some m \<Rightarrow>
              if onlyIf \<noteq> None \<and> mfBlockedBy m \<noteq> onlyIf then Inr (b, False)
              else if has_key i (bdQueue b) then Inl (QueueExists i)
              else Inr (b\<lparr>
                 bdQueue := map_set i (f\<lparr>fileBody := Some (m\<lparr>mfBlockedBy := None, mfBlock := None\<rparr>)\<rparr>) (bdQueue b),
                 bdBlocked := map_del i (bdBlocked b)\<rparr>, True))))"

datatype BoardState = InQueue | InInflight | InBlocked | InDone | InFailed

definition boardStateOf :: "string \<Rightarrow> DispatchBoard \<Rightarrow> BoardState option" where
  "boardStateOf i b =
     (if \<not> is_task_id i then None
      else if has_key i (bdQueue b) then Some InQueue
      else if has_key i (bdInflight b) then Some InInflight
      else if has_key i (bdBlocked b) then Some InBlocked
      else if has_key i (bdDoneVerdicts b) \<or> has_key i (bdDoneCompleted b) then Some InDone
      else if has_key i (bdFailedVerdicts b) \<or> has_key i (bdFailedDiagnostics b) then Some InFailed
      else None)"

definition isOnBoard :: "string \<Rightarrow> DispatchBoard \<Rightarrow> bool" where
  "isOnBoard i b \<longleftrightarrow> has_key i (bdQueue b) \<or> has_key i (bdInflight b) \<or> has_key i (bdBlocked b)
     \<or> has_key i (bdDoneVerdicts b) \<or> has_key i (bdDoneCompleted b)
     \<or> has_key i (bdFailedVerdicts b) \<or> has_key i (bdFailedDiagnostics b)"

datatype BlockResult = BlockOk bool | BlockRefused "BoardState option" | UnreadableManifest

definition blockQueued :: "BoardEnv \<Rightarrow> int \<Rightarrow> string \<Rightarrow> string \<Rightarrow> string \<Rightarrow> DispatchBoard \<Rightarrow> DispatchBoard \<times> BlockResult" where
  "blockQueued env now i why by_whom b =
     (case boardStateOf i b of
        Some InBlocked \<Rightarrow> (b, BlockOk True)
      | Some InQueue \<Rightarrow>
          (case map_of (bdQueue b) i of
             None \<Rightarrow> (b, UnreadableManifest)
           | Some f \<Rightarrow> (case fileBody f of
               None \<Rightarrow> (b, UnreadableManifest)
             | Some m \<Rightarrow> (b\<lparr>bdBlocked := map_set i (f\<lparr>fileBody := Some (m\<lparr>mfBlock :=
                    Some \<lparr>biBlockedAt = envIso env now, biBlockedBy = by_whom, biReason = why\<rparr>\<rparr>)\<rparr>) (bdBlocked b),
                  bdQueue := map_del i (bdQueue b)\<rparr>, BlockOk False)))
      | st \<Rightarrow> (b, BlockRefused st))"

definition enqueueTime :: "BoardEnv \<Rightarrow> DispatchManifest \<Rightarrow> int option" where
  "enqueueTime env m = envParse env (mfDispatchedAt m)"

definition requeueInflight :: "BoardEnv \<Rightarrow> string \<Rightarrow> nat \<Rightarrow> DispatchBoard \<Rightarrow> BoardError + DispatchBoard \<times> bool" where
  "requeueInflight env i retryCount b =
     (if \<not> is_task_id i then Inl (BadTaskId i)
      else (case map_of (bdInflight b) i of
          None \<Rightarrow> Inr (b, False)
        | Some f \<Rightarrow> (case fileBody f of
            None \<Rightarrow> Inr (b, False)
          | Some m \<Rightarrow>
              if has_key i (bdQueue b) then Inl (QueueExists i)
              else (let position = (case enqueueTime env m of None \<Rightarrow> fileMtime f | Some t \<Rightarrow> t)
                    in Inr ((clear_sidecars i b)\<lparr>
                      bdQueue := map_set i \<lparr>fileBody = Some (m\<lparr>mfRetryCount := Some retryCount\<rparr>),
                        fileMtime = position\<rparr> (bdQueue b),
                      bdInflight := map_del i (bdInflight b)\<rparr>, True)))))"

definition inflightClaimedAtMs :: "string \<Rightarrow> DispatchBoard \<Rightarrow> int option" where
  "inflightClaimedAtMs i b = (if is_task_id i then map_option fileMtime (map_of (bdInflight b) i) else None)"

definition consumeDeveloperRound :: "int \<Rightarrow> string \<Rightarrow> DispatchBoard \<Rightarrow> BoardError + DispatchBoard \<times> bool" where
  "consumeDeveloperRound now i b =
     (if \<not> is_task_id i then Inl (BadTaskId i)
      else (case readManifest i (bdInflight b) of
          None \<Rightarrow> Inr (b, False)
        | Some m \<Rightarrow> (case mfResume m of
            None \<Rightarrow> Inr (b, False)
          | Some r \<Rightarrow> if \<not> rfDeveloperRound r then Inr (b, False)
              else Inr (b\<lparr>bdInflight := map_set i \<lparr>fileBody =
                  Some (m\<lparr>mfResume := Some (r\<lparr>rfDeveloperRound := False\<rparr>)\<rparr>), fileMtime = now\<rparr> (bdInflight b)\<rparr>, True))))"

section \<open>Verdicts and diagnostics\<close>

definition end_of_inflight :: "string \<Rightarrow> DispatchBoard \<Rightarrow> DispatchBoard" where
  "end_of_inflight i b = (clear_sidecars i b)\<lparr>bdInflight := map_del i (bdInflight b)\<rparr>"

definition writeVerdict :: "int \<Rightarrow> DispatchVerdict \<Rightarrow> DispatchBoard \<Rightarrow> BoardError + DispatchBoard" where
  "writeVerdict now v b =
     (let i = dvTaskId v in
      if \<not> is_task_id i then Inl (BadTaskId i)
      else (let b1 = (if dvOutcome v = Success \<or> dvOutcome v = IterateNeeded
               then b\<lparr>bdDoneVerdicts := map_set i (Some v) (bdDoneVerdicts b)\<rparr>
               else b\<lparr>bdFailedVerdicts := map_set i (Some v) (bdFailedVerdicts b)\<rparr>) in
        if dvOutcome v \<noteq> IterateNeeded then Inr (end_of_inflight i b1)
        else (let b2 = (case (dvIterationsAttempted v, readManifest i (bdInflight b1)) of
                (Some n, Some m) \<Rightarrow> b1\<lparr>bdInflight := map_set i
                   \<lparr>fileBody = Some (m\<lparr>mfIterationsAttempted := Some n\<rparr>), fileMtime = now\<rparr> (bdInflight b1)\<rparr>
              | _ \<Rightarrow> b1)
              in Inr (b2\<lparr>bdResumes := map_del i (bdResumes b2)\<rparr>))))"

definition archiveFailedVerdict :: "int \<Rightarrow> string \<Rightarrow> DispatchBoard \<Rightarrow> DispatchBoard" where
  "archiveFailedVerdict now i b =
     (if is_task_id i \<and> has_key i (bdFailedVerdicts b)
      then b\<lparr>bdFailedVerdicts := map_del i (bdFailedVerdicts b), bdFailedHistory := bdFailedHistory b @ [(i, now)]\<rparr>
      else b)"

definition writeDiagnostic :: "DispatchVerdict \<Rightarrow> DispatchBoard \<Rightarrow> BoardError + DispatchBoard" where
  "writeDiagnostic v b =
     (let i = dvTaskId v in
      if \<not> is_task_id i then Inl (BadTaskId i)
      else Inr (end_of_inflight i (b\<lparr>bdFailedDiagnostics := map_set i (Some v) (bdFailedDiagnostics b)\<rparr>)))"

definition patchDoneVerdict :: "string \<Rightarrow> string option \<Rightarrow> DispatchBoard \<Rightarrow> DispatchBoard \<times> bool" where
  "patchDoneVerdict i landed b =
     (if \<not> is_task_id i then (b, False)
      else (case map_of (bdDoneVerdicts b) i of
          Some (Some v) \<Rightarrow> (b\<lparr>bdDoneVerdicts := map_set i
             (Some (v\<lparr>dvLanded := patched landed (dvLanded v)\<rparr>)) (bdDoneVerdicts b)\<rparr>, True)
        | _ \<Rightarrow> (b, False)))"

definition removeVerdict :: "string \<Rightarrow> bool \<Rightarrow> bool \<Rightarrow> DispatchBoard \<Rightarrow> DispatchBoard" where
  "removeVerdict i from_done withManifest b =
     (if \<not> is_task_id i then b
      else if from_done then
        (let b1 = (case map_of (bdDoneVerdicts b) i of
             Some (Some v) \<Rightarrow> if dvOutcome v = Success
               then b\<lparr>bdDoneCompleted := map_set i (dvCompletedAt v) (bdDoneCompleted b)\<rparr> else b
           | _ \<Rightarrow> b)
         in b1\<lparr>bdDoneVerdicts := map_del i (bdDoneVerdicts b1)\<rparr>)
      else (let b1 = b\<lparr>bdFailedVerdicts := map_del i (bdFailedVerdicts b),
                 bdFailedDiagnostics := map_del i (bdFailedDiagnostics b)\<rparr>
            in if withManifest then b1\<lparr>bdFailedManifests := map_del i (bdFailedManifests b1)\<rparr> else b1))"

definition verdict_bodies :: "verdict_dir \<Rightarrow> DispatchVerdict list" where
  "verdict_bodies d = List.map_filter snd d"

definition completed_cmp :: "BoardEnv \<Rightarrow> DispatchVerdict \<Rightarrow> DispatchVerdict \<Rightarrow> int" where
  "completed_cmp env a b = (case (envParse env (dvCompletedAt a), envParse env (dvCompletedAt b)) of
     (Some x, Some y) \<Rightarrow> x - y | _ \<Rightarrow> 0)"

definition collectVerdicts :: "BoardEnv \<Rightarrow> bool \<Rightarrow> DispatchBoard \<Rightarrow> DispatchVerdict list" where
  "collectVerdicts env includeFailed b = sort_by (completed_cmp env)
     (verdict_bodies (bdDoneVerdicts b) @ (if includeFailed
        then verdict_bodies (bdFailedVerdicts b) @ verdict_bodies (bdFailedDiagnostics b) else []))"

section \<open>Heartbeats\<close>

definition DEFAULT_HEARTBEAT_STALE_MS :: int where
  "DEFAULT_HEARTBEAT_STALE_MS = 30 * 60 * 1000"

definition readHeartbeat :: "string \<Rightarrow> DispatchBoard \<Rightarrow> InflightHeartbeat option" where
  "readHeartbeat i b = (case map_of (bdHeartbeats b) i of None \<Rightarrow> None | Some h \<Rightarrow> h)"

definition writeHeartbeat :: "string \<Rightarrow> InflightHeartbeat \<Rightarrow> DispatchBoard \<Rightarrow> BoardError + DispatchBoard" where
  "writeHeartbeat i h b =
     (if \<not> is_task_id i then Inl (BadTaskId i)
      else (let kept = (case hbExecutorState h of Some x \<Rightarrow> Some x
              | None \<Rightarrow> (case readHeartbeat i b of None \<Rightarrow> None | Some old \<Rightarrow> hbExecutorState old));
                body = (if truthy kept then h\<lparr>hbExecutorState := kept\<rparr> else h)
            in Inr (b\<lparr>bdHeartbeats := map_set i (Some body) (bdHeartbeats b)\<rparr>)))"

definition last_tick :: "BoardEnv \<Rightarrow> string \<Rightarrow> DispatchManifest \<Rightarrow> DispatchBoard \<Rightarrow> int option" where
  "last_tick env i m b = (case readHeartbeat i b of
     Some h \<Rightarrow> envParse env (hbLastHeartbeat h) | None \<Rightarrow> envParse env (mfDispatchedAt m))"

definition stale_diagnostic :: "BoardEnv \<Rightarrow> int \<Rightarrow> string \<Rightarrow> DispatchManifest \<Rightarrow> DispatchBoard \<Rightarrow> DispatchVerdict" where
  "stale_diagnostic env now i m b =
     \<lparr>dvTaskId = i, dvOutcome = VFailed, dvCompletedAt = envIso env now,
      dvWorkerId = (case readHeartbeat i b of None \<Rightarrow> ''unknown'' | Some h \<Rightarrow> hbWorkerId h),
      dvWorkerKind = (case readHeartbeat i b of Some h \<Rightarrow> Some (hbWorkerKind h)
        | None \<Rightarrow> (case mfWorkerKind m of AnyKind \<Rightarrow> None | Kind k \<Rightarrow> Some k)),
      dvCause = Some ''stale-heartbeat'', dvIterationsAttempted = None, dvLanded = None\<rparr>"

text \<open>One entry of the sweep. A file whose name is no task id makes \<open>writeDiagnostic\<close> throw and ends it.\<close>

definition sweep_entry :: "BoardEnv \<Rightarrow> int \<Rightarrow> int \<Rightarrow> string \<Rightarrow> DispatchBoard \<Rightarrow> BoardError + DispatchBoard \<times> bool" where
  "sweep_entry env now staleMs i b =
     (case readManifest i (bdInflight b) of
        None \<Rightarrow> Inr (b, False)
      | Some m \<Rightarrow> (case last_tick env i m b of
          None \<Rightarrow> Inr (b, False)
        | Some t \<Rightarrow> if t > now - staleMs then Inr (b, False)
            else (case writeDiagnostic (stale_diagnostic env now i m b) b of
                Inl e \<Rightarrow> Inl e
              | Inr b1 \<Rightarrow> Inr (end_of_inflight i b1, True))))"

fun sweep_loop :: "BoardEnv \<Rightarrow> int \<Rightarrow> int \<Rightarrow> string list \<Rightarrow> DispatchBoard \<Rightarrow> BoardError + DispatchBoard \<times> string list" where
  "sweep_loop env now staleMs [] b = Inr (b, [])"
| "sweep_loop env now staleMs (i # is) b =
     (case sweep_entry env now staleMs i b of
        Inl e \<Rightarrow> Inl e
      | Inr (b1, reaped) \<Rightarrow> (case sweep_loop env now staleMs is b1 of
          Inl e \<Rightarrow> Inl e
        | Inr (b2, rs) \<Rightarrow> Inr (b2, if reaped then i # rs else rs)))"

definition sweepStaleHeartbeats :: "BoardEnv \<Rightarrow> int \<Rightarrow> int option \<Rightarrow> DispatchBoard \<Rightarrow> BoardError + DispatchBoard \<times> string list" where
  "sweepStaleHeartbeats env now staleMs b =
     sweep_loop env now (case staleMs of None \<Rightarrow> DEFAULT_HEARTBEAT_STALE_MS | Some s \<Rightarrow> s) (map_keys (bdInflight b)) b"

section \<open>Resume signals and the iteration budget\<close>

definition DEFAULT_ITERATION_BUDGET :: nat where
  "DEFAULT_ITERATION_BUDGET = 2"

record IterationProbe =
  ipAttempts :: nat
  ipBudget :: nat
  ipExhausted :: bool

definition probe_of :: "DispatchManifest option \<Rightarrow> nat option \<Rightarrow> nat option \<Rightarrow> nat \<times> nat" where
  "probe_of m attempts budget =
     (or_else attempts (case m of None \<Rightarrow> 0 | Some x \<Rightarrow> or_else (mfIterationsAttempted x) 0),
      or_else budget (case m of None \<Rightarrow> DEFAULT_ITERATION_BUDGET
        | Some x \<Rightarrow> or_else (mfIterationBudget x) DEFAULT_ITERATION_BUDGET))"

definition writeResumeSignal :: "ResumeSignal \<Rightarrow> nat option \<Rightarrow> nat option \<Rightarrow> DispatchBoard \<Rightarrow> BoardError + DispatchBoard" where
  "writeResumeSignal s iterationBudget iterationsAttempted b =
     (let i = rsTaskId s in
      if \<not> is_task_id i then Inl (BadTaskId i)
      else if \<not> has_key i (bdInflight b) then Inl (NoInflightClaim i)
      else (let p = probe_of (readManifest i (bdInflight b)) iterationsAttempted iterationBudget in
        if fst p \<ge> snd p then Inl (IterationBudgetExhausted i (fst p) (snd p))
        else Inr (b\<lparr>bdResumes := map_set i (Some s) (bdResumes b)\<rparr>)))"

definition readResumeSignal :: "string \<Rightarrow> DispatchBoard \<Rightarrow> BoardError + ResumeSignal option" where
  "readResumeSignal i b = (if \<not> is_task_id i then Inl (BadTaskId i)
     else Inr (case map_of (bdResumes b) i of None \<Rightarrow> None | Some s \<Rightarrow> s))"

definition listResumeSignals :: "DispatchBoard \<Rightarrow> string list" where
  "listResumeSignals b = map_keys (bdResumes b)"

definition removeResumeSignal :: "string \<Rightarrow> DispatchBoard \<Rightarrow> BoardError + DispatchBoard" where
  "removeResumeSignal i b = (if \<not> is_task_id i then Inl (BadTaskId i)
     else Inr (b\<lparr>bdResumes := map_del i (bdResumes b)\<rparr>))"

definition probeIterationBudget :: "string \<Rightarrow> DispatchBoard \<Rightarrow> BoardError + IterationProbe" where
  "probeIterationBudget i b =
     (if \<not> is_task_id i then Inl (BadTaskId i)
      else (let p = probe_of (readManifest i (bdInflight b)) None None
            in Inr \<lparr>ipAttempts = fst p, ipBudget = snd p, ipExhausted = (fst p \<ge> snd p)\<rparr>))"

definition writeIterationExhaustedDiagnostic ::
  "BoardEnv \<Rightarrow> int \<Rightarrow> string \<Rightarrow> nat \<Rightarrow> string option \<Rightarrow> WorkerKind option \<Rightarrow> string option \<Rightarrow> DispatchBoard
    \<Rightarrow> BoardError + DispatchBoard" where
  "writeIterationExhaustedDiagnostic env now i attempts w kind completedAt b =
     writeDiagnostic \<lparr>dvTaskId = i, dvOutcome = IterationExhausted,
       dvCompletedAt = or_else completedAt (envIso env now), dvWorkerId = or_else w ''conductor'',
       dvWorkerKind = kind, dvCause = Some ''iteration-budget-exhausted'',
       dvIterationsAttempted = Some attempts, dvLanded = None\<rparr> b"

section \<open>Listings\<close>

record BoardEntry =
  beTaskId :: string
  beState :: BoardState
  beHold :: "Hold option"
  beReason :: "string option"
  beWave :: "int option"
  bePriority :: "int option"

definition queue_hold :: "BoardEnv \<Rightarrow> EligibilityContext \<Rightarrow> int \<Rightarrow> DispatchManifest \<Rightarrow> Hold option" where
  "queue_hold env ctx now m = (case checkEligibility m ctx of
     Some h \<Rightarrow> Some h
   | None \<Rightarrow> if cooling env now m then Some (CoolDown (the (mfNoClaimBefore m))) else None)"

definition queue_entry_cmp :: "BoardEntry \<times> int \<Rightarrow> BoardEntry \<times> int \<Rightarrow> int" where
  "queue_entry_cmp x y =
     (let a = fst x; b = fst y; e = (if beHold b = None then 1 else 0) - (if beHold a = None then 1 else 0);
          w = or_else (beWave a) 0 - or_else (beWave b) 0; p = comparePriority (bePriority a) (bePriority b) in
      if e \<noteq> 0 then e else if w \<noteq> 0 then w else if p \<noteq> 0 then p else snd x - snd y)"

definition plain_entry :: "BoardState \<Rightarrow> string \<Rightarrow> BoardEntry" where
  "plain_entry st i = \<lparr>beTaskId = i, beState = st, beHold = None, beReason = None, beWave = None, bePriority = None\<rparr>"

definition block_reason :: "DispatchManifest BoardFile \<Rightarrow> string option" where
  "block_reason f = (case fileBody f of
     None \<Rightarrow> None
   | Some m \<Rightarrow> (case mfBlock m of
       Some bi \<Rightarrow> Some (biReason bi)
     | None \<Rightarrow> if truthy (mfBlockedBy m) then Some (''blocked by decision '' @ the (mfBlockedBy m)) else None))"

definition listBoard :: "BoardEnv \<Rightarrow> int \<Rightarrow> DispatchBoard \<Rightarrow> BoardEntry list" where
  "listBoard env now b =
     (let ctx = loadEligibilityContext env b;
          queued = List.map_filter (\<lambda>e. map_option (\<lambda>m.
            (\<lparr>beTaskId = mfTaskId m, beState = InQueue, beHold = queue_hold env ctx now m,
              beReason = None, beWave = mfWave m, bePriority = mfPriority m\<rparr>, fileMtime (snd e))) (fileBody (snd e)))
            (listManifestCandidates (bdQueue b))
      in map fst (sort_by queue_entry_cmp queued)
         @ map (plain_entry InInflight) (map_keys (bdInflight b))
         @ map (\<lambda>e. (plain_entry InBlocked (fst e))\<lparr>beReason := block_reason (snd e)\<rparr>) (bdBlocked b)
         @ map (plain_entry InDone) (map_keys (bdDoneVerdicts b))
         @ map (plain_entry InFailed) (map_keys (bdFailedVerdicts b) @ map_keys (bdFailedDiagnostics b)))"

definition peekQueueOrder :: "BoardEnv \<Rightarrow> int \<Rightarrow> WorkerKind option \<Rightarrow> DispatchBoard \<Rightarrow> string list" where
  "peekQueueOrder env now kind b = map (\<lambda>r. mfTaskId (rkManifest r)) (orderEligible env b kind now)"

definition is_canary :: "string \<Rightarrow> bool" where
  "is_canary i = (take 7 i = ''CANARY-'')"

definition count_keys :: "(string, 'v) jsmap \<Rightarrow> nat" where
  "count_keys d = length (filter (\<lambda>i. \<not> is_canary i) (map_keys d))"

record QueuePeek =
  pkQueued :: nat
  pkInflight :: nat
  pkDone :: nat
  pkFailed :: nat
  pkOldest :: "(string \<times> int) option"

definition older :: "BoardEnv \<Rightarrow> string \<times> DispatchManifest BoardFile \<Rightarrow> (string \<times> int) option \<Rightarrow> (string \<times> int) option" where
  "older env e best = (case fileBody (snd e) of
     None \<Rightarrow> best
   | Some m \<Rightarrow> (case envParse env (mfDispatchedAt m) of
       None \<Rightarrow> best
     | Some ms \<Rightarrow> if is_canary (mfTaskId m) then best
         else (case best of None \<Rightarrow> Some (mfTaskId m, ms)
           | Some o1 \<Rightarrow> if ms < snd o1 then Some (mfTaskId m, ms) else best)))"

definition peekQueue :: "BoardEnv \<Rightarrow> int \<Rightarrow> DispatchBoard \<Rightarrow> QueuePeek" where
  "peekQueue env now b =
     \<lparr>pkQueued = count_keys (bdQueue b), pkInflight = count_keys (bdInflight b),
      pkDone = count_keys (bdDoneVerdicts b),
      pkFailed = count_keys (bdFailedVerdicts b) + count_keys (bdFailedDiagnostics b),
      pkOldest = map_option (\<lambda>p. (fst p, max 0 ((now - snd p) div 1000)))
        (fold (older env) (listManifestCandidates (bdQueue b)) None)\<rparr>"

section \<open>Requeue of a failed task\<close>

datatype RequeueError =
    RqBadId string
  | NotFailed string
  | AlreadyIn string BoardState
  | NoSnapshot string
  | RetryLimit string nat nat
  | RqBoard BoardError

definition snapshotFailedManifest :: "DispatchManifest \<Rightarrow> DispatchBoard \<Rightarrow> BoardError + DispatchBoard" where
  "snapshotFailedManifest m b =
     (if \<not> is_task_id (mfTaskId m) then Inl (BadTaskId (mfTaskId m))
      else Inr (b\<lparr>bdFailedManifests := map_set (mfTaskId m) m (bdFailedManifests b)\<rparr>))"

text \<open>\<open>followUp\<close> is whether the pull request of the failure record is open, \<open>derived\<close> the dependencies of
  the task file.\<close>

definition requeueFailed ::
  "int \<Rightarrow> string \<Rightarrow> nat \<Rightarrow> bool \<Rightarrow> string list \<Rightarrow> DispatchBoard \<Rightarrow> RequeueError + DispatchBoard" where
  "requeueFailed now i retryLimit followUp derived b =
     (if \<not> is_task_id i then Inl (RqBadId i)
      else if \<not> has_key i (bdFailedVerdicts b) \<and> \<not> has_key i (bdFailedDiagnostics b) then Inl (NotFailed i)
      else if has_key i (bdQueue b) then Inl (AlreadyIn i InQueue)
      else if has_key i (bdInflight b) then Inl (AlreadyIn i InInflight)
      else if has_key i (bdBlocked b) then Inl (AlreadyIn i InBlocked)
      else (case map_of (bdFailedManifests b) i of
          None \<Rightarrow> Inl (NoSnapshot i)
        | Some m \<Rightarrow>
            if mfTaskId m \<noteq> i then Inl (NoSnapshot i)
            else (let prior = or_else (mfRetryCount m) 0;
                      retryCount = (if followUp then prior else prior + 1);
                      next1 = m\<lparr>mfRetryCount := Some retryCount,
                        mfAfter := (if or_else (mfAfter m) [] = [] \<and> derived \<noteq> [] then Some derived else mfAfter m),
                        mfWorkerId := None, mfBlockedBy := None\<rparr> in
              if \<not> followUp \<and> retryCount > retryLimit then Inl (RetryLimit i prior retryLimit)
              else (case writeManifest now next1 b of
                  Inl e \<Rightarrow> Inl (RqBoard e)
                | Inr b1 \<Rightarrow> Inr (b1\<lparr>bdFailedVerdicts := map_del i (bdFailedVerdicts b1),
                     bdFailedDiagnostics := map_del i (bdFailedDiagnostics b1),
                     bdFailedManifests := map_del i (bdFailedManifests b1)\<rparr>)))))"

end
