(* ===== verification/BoardFacts.thy ===== *)
theory BoardFacts
  imports BoardOps Transitions
begin

text \<open>
  The dispatch board as a transition system. Every operation moves files between the three manifest
  directories in one of a few ways (\<open>dir_step\<close>, on the maps the directories are); the invariants are
  proved for those.
\<close>

section \<open>Steps\<close>

datatype BoardEvent =
    BWrite int DispatchManifest
  | BReplaceBranch int string string
  | BRetire int string
  | BUpdate string QueuePatch
  | BClaim WorkerKind int "string option" "string option"
  | BRelease string
  | BPark string string
  | BUnblock string "string option"
  | BBlock int string string string
  | BRequeue string nat
  | BConsumeRound int string
  | BVerdict int DispatchVerdict
  | BArchive int string
  | BDiagnostic DispatchVerdict
  | BPatchVerdict string "string option"
  | BRemoveVerdict string bool bool
  | BHeartbeat string InflightHeartbeat
  | BSweep int "int option"
  | BResumeSignal ResumeSignal "nat option" "nat option"
  | BRemoveSignal string
  | BSnapshot DispatchManifest
  | BRequeueFailed int string nat bool "string list"

inductive board_step :: "BoardEnv \<Rightarrow> DispatchBoard \<Rightarrow> BoardEvent \<Rightarrow> DispatchBoard \<Rightarrow> bool"
  for env :: BoardEnv where
  "board_step env b (BWrite now m) b'" if "writeManifest now m b = Inr b'"
| "board_step env b (BReplaceBranch now i br) b'" if "replaceQueuedBranch now i br b = Inr b'"
| "board_step env b (BRetire now i) b'" if "retireQueued now i b = Inr b'"
| "board_step env b (BUpdate i p) b'" if "updateQueuedManifest i p b = Inr b'"
| "board_step env b (BClaim k now w t) b'" if "claimNext env k now w t b = Inr (b', r)"
| "board_step env b (BRelease i) b'" if "releaseInflight i b = Inr (b', r)"
| "board_step env b (BPark i d) b'" if "parkInflight i d b = Inr (b', r)"
| "board_step env b (BUnblock i d) b'" if "unblockManifest i d b = Inr (b', r)"
| "board_step env b (BBlock now i why by_whom) b'" if "blockQueued env now i why by_whom b = (b', r)"
| "board_step env b (BRequeue i n) b'" if "requeueInflight env i n b = Inr (b', r)"
| "board_step env b (BConsumeRound now i) b'" if "consumeDeveloperRound now i b = Inr (b', r)"
| "board_step env b (BVerdict now v) b'" if "writeVerdict now v b = Inr b'"
| "board_step env b (BArchive now i) (archiveFailedVerdict now i b)"
| "board_step env b (BDiagnostic v) b'" if "writeDiagnostic v b = Inr b'"
| "board_step env b (BPatchVerdict i l) b'" if "patchDoneVerdict i l b = (b', r)"
| "board_step env b (BRemoveVerdict i d wm) (removeVerdict i d wm b)"
| "board_step env b (BHeartbeat i h) b'" if "writeHeartbeat i h b = Inr b'"
| "board_step env b (BSweep now s) b'" if "sweepStaleHeartbeats env now s b = Inr (b', r)"
| "board_step env b (BResumeSignal s x y) b'" if "writeResumeSignal s x y b = Inr b'"
| "board_step env b (BRemoveSignal i) b'" if "removeResumeSignal i b = Inr b'"
| "board_step env b (BSnapshot m) b'" if "snapshotFailedManifest m b = Inr b'"
| "board_step env b (BRequeueFailed now i l f ds) b'" if "requeueFailed now i l f ds b = Inr b'"

inductive_cases board_stepE: "board_step env b ev b'"

section \<open>Maps of files\<close>

lemma move_file_present:
  "map_of src i = Some f \<Longrightarrow> move_file i j src dst = (map_del i src, map_set j f dst)"
  by (simp add: move_file_def)

type_synonym files = "string \<Rightarrow> DispatchManifest BoardFile option"

definition dirs :: "DispatchBoard \<Rightarrow> files \<times> files \<times> files" where
  "dirs b = (map_of (bdQueue b), map_of (bdInflight b), map_of (bdBlocked b))"

definition named :: "string \<Rightarrow> DispatchManifest BoardFile \<Rightarrow> bool" where
  "named i f \<longleftrightarrow> (\<forall>m. fileBody f = Some m \<longrightarrow> mfTaskId m = i)"

text \<open>A rewrite of an inflight file keeps who holds it and its group.\<close>

definition keeps_claim :: "DispatchManifest BoardFile \<Rightarrow> DispatchManifest BoardFile \<Rightarrow> bool" where
  "keeps_claim f f' \<longleftrightarrow> (\<forall>m'. fileBody f' = Some m' \<longrightarrow> (\<exists>m. fileBody f = Some m
     \<and> mfWorkerId m' = mfWorkerId m \<and> mfSequenceGroup m' = mfSequenceGroup m))"

text \<open>The claim of a manifest whose group nobody else holds, by a worker that holds nothing.\<close>

definition free_claim :: "string option \<Rightarrow> files \<Rightarrow> DispatchManifest \<Rightarrow> bool" where
  "free_claim w fl m \<longleftrightarrow>
     (truthy (mfSequenceGroup m) \<longrightarrow> (\<forall>i f m'. fl i = Some f \<longrightarrow> fileBody f = Some m' \<longrightarrow>
        mfSequenceGroup m' = mfSequenceGroup m \<longrightarrow> mfTaskId m' = mfTaskId m))
     \<and> (case w of None \<Rightarrow> True
        | Some wid \<Rightarrow> mfWorkerId m = w \<and> (\<forall>i f m'. fl i = Some f \<longrightarrow> fileBody f = Some m' \<longrightarrow> mfWorkerId m' \<noteq> w))"

inductive dir_step :: "string option \<Rightarrow> files \<times> files \<times> files \<Rightarrow> files \<times> files \<times> files \<Rightarrow> bool"
  for w :: "string option" where
  same: "dir_step w v v"
| set_queue: "dir_step w (q, f, b) (q(i \<mapsto> x), f, b)" if "q i \<noteq> None" and "named i x"
| set_inflight: "dir_step w (q, f, b) (q, f(i \<mapsto> x), b)" if "f i = Some y" and "keeps_claim y x" and "named i x"
| add: "dir_step w (q, f, b) (q(i \<mapsto> x), f, b)" if "q i = None" and "f i = None" and "b i = None" and "named i x"
| drop_queue: "dir_step w (q, f, b) (q(i := None), f, b)"
| drop_inflight: "dir_step w (q, f, b) (q, f |` (- S), b)"
| give_back: "dir_step w (q, f, b) (q(i \<mapsto> x), f(i := None), b)" if "f i \<noteq> None" and "named i x"
| park: "dir_step w (q, f, b) (q, f(i := None), b(i \<mapsto> x))" if "f i \<noteq> None" and "named i x"
| unblock: "dir_step w (q, f, b) (q(i \<mapsto> x), f, b(i := None))" if "b i \<noteq> None" and "q i = None" and "named i x"
| block: "dir_step w (q, f, b) (q(i := None), f, b(i \<mapsto> x))" if "q i \<noteq> None" and "named i x"
| claim: "dir_step w (q, f, b) (q(i := None), f(i \<mapsto> \<lparr>fileBody = Some m, fileMtime = t\<rparr>), b)"
    if "q i \<noteq> None" and "mfTaskId m = i" and "free_claim w f m"

section \<open>One directory per task\<close>

definition one_place :: "files \<times> files \<times> files \<Rightarrow> bool" where
  "one_place v \<longleftrightarrow> (case v of (q, f, b) \<Rightarrow>
     dom q \<inter> dom f = {} \<and> dom q \<inter> dom b = {} \<and> dom f \<inter> dom b = {}
     \<and> (\<forall>i x. q i = Some x \<or> f i = Some x \<or> b i = Some x \<longrightarrow> named i x))"

lemma dir_step_one_place: "dir_step w v v' \<Longrightarrow> one_place v \<Longrightarrow> one_place v'"
proof (induction rule: dir_step.induct)
  case (drop_inflight q f b S)
  then show ?case by (auto simp: one_place_def restrict_map_def dom_def)
next
  case (claim q i m f t b)
  then show ?case by (auto simp: one_place_def named_def dom_def split: if_splits)
qed (auto simp: one_place_def dom_def split: if_splits)

text \<open>No two inflight manifests share a sequence group, and none share a worker.\<close>

definition exclusive :: "files \<times> files \<times> files \<Rightarrow> bool" where
  "exclusive v \<longleftrightarrow> (case v of (q, f, b) \<Rightarrow>
     \<forall>i j x y m n. f i = Some x \<longrightarrow> f j = Some y \<longrightarrow> fileBody x = Some m \<longrightarrow> fileBody y = Some n \<longrightarrow> i \<noteq> j \<longrightarrow>
       \<not> (truthy (mfSequenceGroup m) \<and> mfSequenceGroup m = mfSequenceGroup n)
       \<and> \<not> (mfWorkerId m \<noteq> None \<and> mfWorkerId m = mfWorkerId n))"

section \<open>Operations as directory steps\<close>

definition keys_distinct :: "DispatchBoard \<Rightarrow> bool" where
  "keys_distinct b \<longleftrightarrow> distinct (map_keys (bdQueue b)) \<and> distinct (map_keys (bdInflight b))
     \<and> distinct (map_keys (bdBlocked b))"

lemma one_placeD:
  assumes "one_place (dirs b)"
  shows "map_of (bdQueue b) i = Some x \<Longrightarrow> named i x" "map_of (bdInflight b) i = Some x \<Longrightarrow> named i x"
    "map_of (bdBlocked b) i = Some x \<Longrightarrow> named i x"
  using assms by (auto simp: one_place_def dirs_def)

lemma named_body [simp]: "named i (f\<lparr>fileBody := Some m\<rparr>) \<longleftrightarrow> mfTaskId m = i"
  "named i \<lparr>fileBody = Some m, fileMtime = t\<rparr> \<longleftrightarrow> mfTaskId m = i"
  by (auto simp: named_def)

lemma named_fileBody: "named i f \<Longrightarrow> fileBody f = Some m \<Longrightarrow> mfTaskId m = i"
  by (simp add: named_def)

lemma stored:
  assumes "one_place (dirs b)"
  shows "map_of (bdQueue b) i = Some f \<Longrightarrow> fileBody f = Some m \<Longrightarrow> mfTaskId m = i"
    "map_of (bdInflight b) i = Some f \<Longrightarrow> fileBody f = Some m \<Longrightarrow> mfTaskId m = i"
    "map_of (bdBlocked b) i = Some f \<Longrightarrow> fileBody f = Some m \<Longrightarrow> mfTaskId m = i"
  using one_placeD [OF assms] named_fileBody by blast+

lemma readManifest_Some:
  "readManifest i d = Some m \<Longrightarrow> \<exists>f. map_of d i = Some f \<and> fileBody f = Some m"
  by (auto simp: readManifest_def split: option.splits)

lemma dirs_sidecars [simp]:
  "dirs (clear_sidecars i b) = dirs b" "bdQueue (clear_sidecars i b) = bdQueue b"
  "bdInflight (clear_sidecars i b) = bdInflight b" "bdBlocked (clear_sidecars i b) = bdBlocked b"
  by (simp_all add: clear_sidecars_def dirs_def)

lemma write_dir:
  assumes "writeManifest now m b = Inr b'" and "\<not> has_key (mfTaskId m) (bdBlocked b)"
  shows "dir_step w (dirs b) (dirs b')"
  using assms by (auto simp: writeManifest_def Let_def dirs_def has_key_def split: if_splits intro!: dir_step.add)

lemma rewrite_queue_dir:
  assumes "map_of (bdQueue b) i = Some f" and "named i x"
  shows "dir_step w (dirs b) (dirs (b\<lparr>bdQueue := map_set i x (bdQueue b)\<rparr>))"
  using assms by (auto simp: dirs_def intro: dir_step.set_queue)

lemma replace_dir:
  assumes "replaceQueuedBranch now i br b = Inr b'" and "one_place (dirs b)"
  shows "dir_step w (dirs b) (dirs b')"
  using assms(1) stored(1) [OF assms(2)]
  by (auto simp: replaceQueuedBranch_def split: if_splits option.splits
      dest!: readManifest_Some intro!: rewrite_queue_dir)

lemma update_dir:
  assumes "updateQueuedManifest i p b = Inr b'" and "one_place (dirs b)"
  shows "dir_step w (dirs b) (dirs b')"
  using assms(1) stored(1) [OF assms(2)]
  by (auto simp: updateQueuedManifest_def split: if_splits option.splits intro!: rewrite_queue_dir)

lemma retire_dir: "retireQueued now i b = Inr b' \<Longrightarrow> dir_step w (dirs b) (dirs b')"
  by (auto simp: retireQueued_def dirs_def split: if_splits option.splits intro: dir_step.drop_queue)

lemma release_dir:
  assumes "releaseInflight i b = Inr (b', r)" and "one_place (dirs b)"
  shows "dir_step w (dirs b) (dirs b')"
  using assms(1) one_placeD(2) [OF assms(2)]
  by (auto simp: releaseInflight_def has_key_def dirs_def move_file_present split: if_splits
      intro: dir_step.same intro!: dir_step.give_back)

lemma park_dir:
  assumes "parkInflight i d b = Inr (b', r)" and "one_place (dirs b)"
  shows "dir_step w (dirs b) (dirs b')"
  using assms(1) stored(2) [OF assms(2)]
  by (auto simp: parkInflight_def dirs_def split: if_splits option.splits
      intro: dir_step.same intro!: dir_step.park)

lemma unblock_dir:
  assumes "unblockManifest i d b = Inr (b', r)" and "one_place (dirs b)"
  shows "dir_step w (dirs b) (dirs b')"
  using assms(1) stored(3) [OF assms(2)]
  by (auto simp: unblockManifest_def dirs_def has_key_def split: if_splits option.splits
      intro: dir_step.same intro!: dir_step.unblock)

lemma block_dir:
  assumes "blockQueued env now i why by_whom b = (b', r)" and "one_place (dirs b)"
  shows "dir_step w (dirs b) (dirs b')"
  using assms(1) stored(1) [OF assms(2)]
  by (auto simp: blockQueued_def dirs_def split: if_splits option.splits BoardState.splits
      intro: dir_step.same intro!: dir_step.block)

lemma requeue_dir:
  assumes "requeueInflight env i n b = Inr (b', r)" and "one_place (dirs b)"
  shows "dir_step w (dirs b) (dirs b')"
  using assms(1) stored(2) [OF assms(2)]
  by (auto simp: requeueInflight_def Let_def dirs_def split: if_splits option.splits
      intro: dir_step.same intro!: dir_step.give_back)

lemma rewrite_inflight_dir:
  assumes "readManifest i (bdInflight b) = Some m" and "one_place (dirs b)"
    and "mfTaskId m' = mfTaskId m" "mfWorkerId m' = mfWorkerId m" "mfSequenceGroup m' = mfSequenceGroup m"
  shows "dir_step w (dirs b) (dirs (b\<lparr>bdInflight := map_set i \<lparr>fileBody = Some m', fileMtime = t\<rparr> (bdInflight b)\<rparr>))"
proof -
  obtain f where f: "map_of (bdInflight b) i = Some f" "fileBody f = Some m"
    using readManifest_Some [OF assms(1)] by blast
  then have "mfTaskId m = i" using one_placeD(2) [OF assms(2)] named_fileBody by blast
  with f assms(3-5) show ?thesis
    by (auto simp: dirs_def keeps_claim_def intro!: dir_step.set_inflight)
qed

lemma consume_dir:
  assumes "consumeDeveloperRound now i b = Inr (b', r)" and "one_place (dirs b)"
  shows "dir_step w (dirs b) (dirs b')"
  using assms by (auto simp: consumeDeveloperRound_def split: if_splits option.splits
      intro: dir_step.same intro!: rewrite_inflight_dir)

lemma drop_one: "dir_step w (q, f, b) (q, f(i := None), b)"
  using dir_step.drop_inflight [of w q f b "{i}"] by (simp add: restrict_complement_singleton_eq)

lemma dirs_end [simp]: "dirs (end_of_inflight i b) = (map_of (bdQueue b), (map_of (bdInflight b))(i := None), map_of (bdBlocked b))"
  by (simp add: end_of_inflight_def dirs_def)

lemma dirs_other [simp]:
  "dirs (b\<lparr>bdDoneVerdicts := x\<rparr>) = dirs b" "dirs (b\<lparr>bdFailedVerdicts := x\<rparr>) = dirs b"
  "dirs (b\<lparr>bdFailedDiagnostics := x\<rparr>) = dirs b" "dirs (b\<lparr>bdDoneCompleted := y\<rparr>) = dirs b"
  "dirs (b\<lparr>bdResumes := z\<rparr>) = dirs b" "dirs (b\<lparr>bdHeartbeats := h\<rparr>) = dirs b"
  "dirs (b\<lparr>bdFailedManifests := mf\<rparr>) = dirs b" "dirs (b\<lparr>bdFailedHistory := hs\<rparr>) = dirs b"
  by (simp_all add: dirs_def)

lemma diagnostic_dir: "writeDiagnostic v b = Inr b' \<Longrightarrow> dir_step w (dirs b) (dirs b')"
  by (auto simp: writeDiagnostic_def Let_def split: if_splits) (simp add: dirs_def drop_one)

lemma verdict_dir:
  assumes "writeVerdict now v b = Inr b'" and "one_place (dirs b)"
  shows "dir_step w (dirs b) (dirs b')"
proof -
  define b1 where "b1 = (if dvOutcome v = Success \<or> dvOutcome v = IterateNeeded
    then b\<lparr>bdDoneVerdicts := map_set (dvTaskId v) (Some v) (bdDoneVerdicts b)\<rparr>
    else b\<lparr>bdFailedVerdicts := map_set (dvTaskId v) (Some v) (bdFailedVerdicts b)\<rparr>)"
  have d: "dirs b1 = dirs b" "bdInflight b1 = bdInflight b" by (simp_all add: b1_def)
  have e: "dir_step w (dirs b) (dirs (end_of_inflight (dvTaskId v) b1))"
    unfolding dirs_end d(1) [symmetric] unfolding dirs_def by (rule drop_one)
  have r: "dir_step w (dirs b) (dirs (b1\<lparr>bdInflight := map_set (dvTaskId v)
      \<lparr>fileBody = Some (m\<lparr>mfIterationsAttempted := n\<rparr>), fileMtime = now\<rparr> (bdInflight b1)\<rparr>))"
    if "readManifest (dvTaskId v) (bdInflight b1) = Some m" for m n
    using rewrite_inflight_dir [OF that, of "m\<lparr>mfIterationsAttempted := n\<rparr>"] assms(2) d(1) by simp
  show ?thesis using assms(1) e r d(1)
    by (auto simp: writeVerdict_def Let_def b1_def [symmetric] intro: dir_step.same split: if_splits option.splits)
qed

lemma requeue_failed_dir: "requeueFailed now i l fu ds b = Inr b' \<Longrightarrow> dir_step w (dirs b) (dirs b')"
  by (auto simp: requeueFailed_def Let_def split: if_splits option.splits sum.splits; (erule write_dir, simp))

lemma stale_task [simp]: "dvTaskId (stale_diagnostic env now i m b) = i"
  by (simp add: stale_diagnostic_def)

lemma restrict_UNIV [simp]: "m |` UNIV = m"
  by (simp add: restrict_map_def)

lemma sweep_entry_dir:
  assumes "sweep_entry env now stale i b = Inr (b1, r)"
  shows "dirs b1 = dirs b \<or> dirs b1 = (map_of (bdQueue b), map_of (bdInflight b) |` (- {i}), map_of (bdBlocked b))"
  using assms
  by (auto simp: sweep_entry_def writeDiagnostic_def Let_def restrict_complement_singleton_eq dirs_def
      end_of_inflight_def split: option.splits if_splits sum.splits)

lemma sweep_dir:
  assumes "sweep_loop env now stale is b = Inr (b', rs)"
  shows "\<exists>S. dirs b' = (map_of (bdQueue b), map_of (bdInflight b) |` (- S), map_of (bdBlocked b))"
  using assms
proof (induction "is" arbitrary: b rs)
  case Nil
  then show ?case by (intro exI [of _ "{}"]) (simp add: dirs_def restrict_map_def)
next
  case (Cons i "is")
  then obtain b1 r rs1 where s: "sweep_entry env now stale i b = Inr (b1, r)"
    and l: "sweep_loop env now stale is b1 = Inr (b', rs1)" by (auto split: sum.splits)
  obtain T where T: "dirs b1 = (map_of (bdQueue b), map_of (bdInflight b) |` (- T), map_of (bdBlocked b))"
    using sweep_entry_dir [OF s] by (auto simp: dirs_def intro: that [of "{}"] that [of "{i}"])
  from Cons.IH [OF l] obtain S where "dirs b' = (map_of (bdQueue b1), map_of (bdInflight b1) |` (- S), map_of (bdBlocked b1))"
    by blast
  then show ?case by (intro exI [of _ "T \<union> S"]) (use T in \<open>simp add: dirs_def\<close>)
qed

section \<open>Claims\<close>

lemma settle_same_holders: "settleGroupClaim tid h (replicate 20 h) \<longleftrightarrow> h = []"
  by (simp add: settleGroupClaim_def list_ex_iff in_set_replicate)

lemma mem_map_filter: "x \<in> set (List.map_filter f xs) \<longleftrightarrow> (\<exists>y \<in> set xs. f y = Some x)"
  by (induction xs) (auto simp: List.map_filter_def)

lemma manifests_in_mem: "map_of d i = Some f \<Longrightarrow> fileBody f = Some m \<Longrightarrow> m \<in> set (manifests_in d)"
  by (force simp: manifests_in_def mem_map_filter dest: map_of_SomeD)

text \<open>The queue entry behind a candidate.\<close>

definition candidate :: "DispatchBoard \<Rightarrow> Ranked \<Rightarrow> bool" where
  "candidate b r \<longleftrightarrow> (\<exists>f. map_of (bdQueue b) (rkFile r) = Some f \<and> fileBody f = Some (rkManifest r))"

definition holds_nothing :: "string option \<Rightarrow> DispatchBoard \<Rightarrow> bool" where
  "holds_nothing w b \<longleftrightarrow> w = None \<or> (\<forall>i f m. map_of (bdInflight b) i = Some f \<longrightarrow> fileBody f = Some m \<longrightarrow> mfWorkerId m \<noteq> w)"

lemma candidate_cong: "dirs b = dirs b' \<Longrightarrow> candidate b r = candidate b' r"
  by (simp add: candidate_def dirs_def)

lemma holds_nothing_cong: "dirs b = dirs b' \<Longrightarrow> holds_nothing w b = holds_nothing w b'"
  by (simp add: holds_nothing_def dirs_def)

definition claims :: "string option \<Rightarrow> string \<Rightarrow> DispatchManifest \<Rightarrow> DispatchBoard \<Rightarrow> DispatchBoard \<Rightarrow> bool" where
  "claims w i m b b' \<longleftrightarrow> (\<exists>t. dirs b' = ((map_of (bdQueue b))(i := None),
      (map_of (bdInflight b))(i \<mapsto> \<lparr>fileBody = Some m, fileMtime = t\<rparr>), map_of (bdBlocked b)))
    \<and> map_of (bdQueue b) i \<noteq> None \<and> mfTaskId m = i \<and> free_claim w (map_of (bdInflight b)) m"

lemma claims_dir: "claims w i m b b' \<Longrightarrow> dir_step w (dirs b) (dirs b')"
  by (auto simp: claims_def dirs_def [of b] intro!: dir_step.claim)

lemma take_claim_dir:
  assumes ok: "one_place (dirs b)" and c: "candidate b r" and free: "holds_nothing w b"
    and t: "take_claim now w r b = (b', res)"
  shows "case res of None \<Rightarrow> dirs b' = dirs b | Some m' \<Rightarrow> claims w (rkFile r) m' b b'
    \<and> m' = (rkManifest r)\<lparr>mfWorkerId := (if w = None then mfWorkerId (rkManifest r) else w)\<rparr>"
proof -
  let ?m = "rkManifest r" and ?i = "rkFile r"
  obtain f where f: "map_of (bdQueue b) ?i = Some f" "fileBody f = Some ?m"
    using c by (auto simp: candidate_def)
  have tid: "mfTaskId ?m = ?i" using stored(1) [OF ok f] .
  have none: "map_of (bdInflight b) ?i = None" using ok f(1) by (auto simp: one_place_def dirs_def)
  define b1 where "b1 = b\<lparr>bdQueue := map_del ?i (bdQueue b), bdInflight := map_set ?i f (bdInflight b)\<rparr>"
  have b1: "map_of (bdInflight b1) = (map_of (bdInflight b))(?i \<mapsto> f)" "map_of (bdQueue b1) = (map_of (bdQueue b))(?i := None)"
    "bdBlocked b1 = bdBlocked b"
    by (simp_all add: b1_def)
  define h where "h = otherGroupHolders b1 ?m"
  let ?m1 = "?m\<lparr>mfWorkerId := (if w = None then mfWorkerId ?m else w)\<rparr>"
  have m1: "(case w of None \<Rightarrow> ?m | Some wid \<Rightarrow> ?m\<lparr>mfWorkerId := Some wid\<rparr>) = ?m1" by (cases w) simp_all
  have tk: "take_claim now w r b = (if truthy (mfSequenceGroup ?m) \<and> h \<noteq> []
      then (b1\<lparr>bdInflight := map_del ?i (bdInflight b1), bdQueue := map_set ?i f (bdQueue b1)\<rparr>, None)
      else (b1\<lparr>bdInflight := map_set ?i \<lparr>fileBody = Some ?m1, fileMtime = now\<rparr> (bdInflight b1)\<rparr>, Some ?m1))"
    using f tid m1 unfolding take_claim_def Let_def move_file_present [OF f(1)] b1_def h_def
    by (simp add: settle_same_holders move_file_present)
  show ?thesis
  proof (cases "truthy (mfSequenceGroup ?m) \<and> h \<noteq> []")
    case True
    then have "res = None" "b' = b1\<lparr>bdInflight := map_del ?i (bdInflight b1), bdQueue := map_set ?i f (bdQueue b1)\<rparr>"
      using t tk by auto
    then show ?thesis using f(1) none b1 by (auto simp: dirs_def fun_upd_idem)
  next
    case False
    then have res: "res = Some ?m1" and b': "b' = b1\<lparr>bdInflight := map_set ?i \<lparr>fileBody = Some ?m1, fileMtime = now\<rparr> (bdInflight b1)\<rparr>"
      using t tk by auto
    have "mfTaskId m' = ?i" if "truthy (mfSequenceGroup ?m)" "map_of (bdInflight b) j = Some x" "fileBody x = Some m'"
      "mfSequenceGroup m' = mfSequenceGroup ?m" for j x m'
    proof (rule ccontr)
      assume "mfTaskId m' \<noteq> ?i"
      moreover have "map_of (bdInflight b1) j = Some x" using that(2) none b1(1) by auto
      ultimately have "mfTaskId m' \<in> set h"
        using manifests_in_mem [OF _ that(3)] that(4) tid by (auto simp: h_def otherGroupHolders_def)
      with False that(1) show False by auto
    qed
    then have "free_claim w (map_of (bdInflight b)) ?m1"
      using free tid by (auto simp: free_claim_def holds_nothing_def split: option.split)
    then show ?thesis using f(1) tid b1 by (auto simp: res b' claims_def dirs_def)
  qed
qed

lemma claim_loop_dir:
  assumes "one_place (dirs b)" and "\<forall>r \<in> set rs. candidate b r" and "holds_nothing w b"
    and "claim_loop now w gs rs b = (b', res)"
  shows "case res of None \<Rightarrow> dirs b' = dirs b
    | Some m' \<Rightarrow> \<exists>r \<in> set rs. claims w (rkFile r) m' b b'
        \<and> m' = (rkManifest r)\<lparr>mfWorkerId := (if w = None then mfWorkerId (rkManifest r) else w)\<rparr>"
  using assms
proof (induction rs arbitrary: gs b)
  case (Cons r rs)
  show ?case
  proof (cases "truthy (mfSequenceGroup (rkManifest r)) \<and> the (mfSequenceGroup (rkManifest r)) \<in> set gs")
    case True
    then show ?thesis using Cons.IH [OF Cons.prems(1) _ Cons.prems(3), of gs] Cons.prems(2,4)
      by (auto split: option.splits)
  next
    case False
    obtain b1 r1 where t: "take_claim now w r b = (b1, r1)" by (cases "take_claim now w r b")
    note tc = take_claim_dir [OF Cons.prems(1) _ Cons.prems(3) t]
    show ?thesis
    proof (cases r1)
      case None
      then have d: "dirs b1 = dirs b" using tc Cons.prems(2) by simp
      have "claim_loop now w (if truthy (mfSequenceGroup (rkManifest r)) then the (mfSequenceGroup (rkManifest r)) # gs else gs) rs b1 = (b', res)"
        using Cons.prems(4) False t None by (auto simp: Let_def)
      from Cons.IH [OF _ _ _ this] Cons.prems(1-3) d show ?thesis
        by (auto simp: candidate_cong [OF d] holds_nothing_cong [OF d] claims_def dirs_def split: option.splits) 
    next
      case (Some m)
      then have "b' = b1 \<and> res = Some m" using Cons.prems(4) False t by (auto simp: Let_def)
      with tc Some Cons.prems(2) show ?thesis by auto
    qed
  qed
qed simp

lemma held_none:
  assumes "findHeldClaim b wid = None"
  shows "holds_nothing (Some wid) b"
proof -
  have "mfWorkerId m \<noteq> Some wid" if "map_of (bdInflight b) i = Some f" "fileBody f = Some m" for i f m
  proof -
    have "(i, f) \<in> set (sort_by file_name_cmp (bdInflight b))" using map_of_SomeD [OF that(1)] by simp
    then have "m \<in> set (manifests_in (sort_by file_name_cmp (bdInflight b)))"
      using that(2) by (force simp: manifests_in_def mem_map_filter)
    then show ?thesis using assms by (auto simp: findHeldClaim_def find_None_iff)
  qed
  then show ?thesis by (auto simp: holds_nothing_def)
qed

lemma ordered_claimable:
  assumes "r \<in> set (orderEligible env b k now)"
  shows "(\<exists>f. (rkFile r, f) \<in> set (bdQueue b) \<and> fileBody f = Some (rkManifest r))
    \<and> claimable env (loadEligibilityContext env b) k now (rkManifest r)"
  using assms by (auto simp: orderEligible_def Let_def mem_map_filter ranked_of_def listManifestCandidates_def
      split: RankingMode.splits)

lemma claim_from_loop:
  assumes "claimNext env k now w only b = Inr (b', res)"
  shows "\<exists>rs. claim_loop now w [] rs b = (b', res) \<and> set rs \<subseteq> set (orderEligible env b (Some k) now)"
  using assms by (auto simp: claimNext_def Let_def split: option.splits if_splits intro: exI [of _ "[]"])

lemma claim_dir:
  assumes "one_place (dirs b)" and "keys_distinct b" and "claimNext env k now w only b = Inr (b', res)"
  shows "case res of None \<Rightarrow> dirs b' = dirs b
    | Some m' \<Rightarrow> \<exists>r \<in> set (orderEligible env b (Some k) now). claims w (rkFile r) m' b b'
        \<and> m' = (rkManifest r)\<lparr>mfWorkerId := (if w = None then mfWorkerId (rkManifest r) else w)\<rparr>"
proof -
  have free: "holds_nothing w b"
    using assms(3) held_none by (cases w) (auto simp: claimNext_def holds_nothing_def split: option.splits)
  have cand: "candidate b r" if "r \<in> set (orderEligible env b (Some k) now)" for r
    using ordered_claimable [OF that] assms(2) by (auto simp: candidate_def keys_distinct_def map_keys_def)
  obtain rs where rs: "claim_loop now w [] rs b = (b', res)" "set rs \<subseteq> set (orderEligible env b (Some k) now)"
    using claim_from_loop [OF assms(3)] by blast
  have "\<forall>r \<in> set rs. candidate b r" using rs(2) cand by blast
  from claim_loop_dir [OF assms(1) this free rs(1)] rs(2) show ?thesis by (cases res) auto
qed

section \<open>Every step is a directory step\<close>

text \<open>\<open>writeManifest\<close> itself looks into the queue and at the inflight manifests only; its caller has to see
  to it that the task is not parked.\<close>

definition tidy :: "DispatchBoard \<Rightarrow> BoardEvent \<Rightarrow> bool" where
  "tidy b ev = (case ev of BWrite now m \<Rightarrow> \<not> has_key (mfTaskId m) (bdBlocked b) | _ \<Rightarrow> True)"

definition claimer :: "BoardEvent \<Rightarrow> string option" where
  "claimer ev = (case ev of BClaim k now w t \<Rightarrow> w | _ \<Rightarrow> Some [])"

definition board_ok :: "DispatchBoard \<Rightarrow> bool" where
  "board_ok b \<longleftrightarrow> one_place (dirs b) \<and> keys_distinct b"

definition tidy_step :: "BoardEnv \<Rightarrow> DispatchBoard \<Rightarrow> BoardEvent \<Rightarrow> DispatchBoard \<Rightarrow> bool" where
  "tidy_step env b ev b' \<longleftrightarrow> tidy b ev \<and> board_step env b ev b'"

lemmas op_dirs = write_dir replace_dir update_dir retire_dir release_dir park_dir unblock_dir block_dir
  requeue_dir consume_dir diagnostic_dir verdict_dir requeue_failed_dir

lemma step_dir:
  assumes "tidy_step env b ev b'" and ok: "board_ok b"
  shows "dir_step (claimer ev) (dirs b) (dirs b')"
proof -
  have o1: "one_place (dirs b)" using ok by (simp add: board_ok_def)
  from assms(1) have "board_step env b ev b'" and t: "tidy b ev" by (simp_all add: tidy_step_def)
  from this(1) show ?thesis
  proof cases
    case (5 k now w tk r)
    then show ?thesis using claim_dir [OF o1 _ 5(2)] ok
      by (cases r) (auto simp: board_ok_def claimer_def intro: dir_step.same claims_dir)
  next
    case (18 now st r)
    then show ?thesis using sweep_dir dir_step.drop_inflight
      unfolding sweepStaleHeartbeats_def dirs_def [of b] by (metis (no_types))
  next
    case (1 now m)
    then show ?thesis using t by (intro op_dirs) (auto simp: tidy_def)
  qed (use o1 in \<open>auto intro: op_dirs dir_step.same simp: archiveFailedVerdict_def patchDoneVerdict_def removeVerdict_def
      Let_def writeHeartbeat_def writeResumeSignal_def removeResumeSignal_def snapshotFailedManifest_def
      split: if_splits option.splits\<close>)
qed

lemma keys_sidecars [simp]:
  "keys_distinct (clear_sidecars i b) = keys_distinct b"
  by (simp add: keys_distinct_def)

lemma take_claim_keys: "keys_distinct b \<Longrightarrow> keys_distinct (fst (take_claim now w r b))"
  by (simp add: keys_distinct_def take_claim_def Let_def move_file_def split: option.split)

lemma claim_loop_keys: "keys_distinct b \<Longrightarrow> keys_distinct (fst (claim_loop now w gs rs b))"
  by (induction rs arbitrary: gs b) (auto simp: Let_def split: option.split dest: take_claim_keys)

lemma diagnostic_keys: "writeDiagnostic v b = Inr b' \<Longrightarrow> keys_distinct b \<Longrightarrow> keys_distinct b'"
  by (auto simp: writeDiagnostic_def Let_def keys_distinct_def end_of_inflight_def split: if_splits)

lemma sweep_keys:
  "sweep_loop env now st is b = Inr (b', rs) \<Longrightarrow> keys_distinct b \<Longrightarrow> keys_distinct b'"
proof (induction "is" arbitrary: b rs)
  case (Cons i "is")
  then obtain b1 r rs1 where s: "sweep_entry env now st i b = Inr (b1, r)"
    and l: "sweep_loop env now st is b1 = Inr (b', rs1)" by (auto split: sum.splits)
  have "keys_distinct b1" using s Cons.prems(2)
    by (auto simp: sweep_entry_def end_of_inflight_def keys_distinct_def split: option.splits if_splits sum.splits
        dest!: diagnostic_keys)
  with Cons.IH [OF l] show ?case .
qed simp

lemma keys_other:
  "keys_distinct (b\<lparr>bdDoneVerdicts := x\<rparr>) = keys_distinct b" "keys_distinct (b\<lparr>bdFailedVerdicts := x\<rparr>) = keys_distinct b"
  "keys_distinct (b\<lparr>bdFailedDiagnostics := x\<rparr>) = keys_distinct b" "keys_distinct (b\<lparr>bdDoneCompleted := y\<rparr>) = keys_distinct b"
  "keys_distinct (b\<lparr>bdResumes := z\<rparr>) = keys_distinct b" "keys_distinct (b\<lparr>bdHeartbeats := h\<rparr>) = keys_distinct b"
  "keys_distinct (b\<lparr>bdFailedManifests := mf\<rparr>) = keys_distinct b" "keys_distinct (b\<lparr>bdFailedHistory := hs\<rparr>) = keys_distinct b"
  by (simp_all add: keys_distinct_def)

lemma write_keys: "writeManifest now m b = Inr b' \<Longrightarrow> keys_distinct b \<Longrightarrow> keys_distinct b'"
  by (auto simp: keys_distinct_def writeManifest_def Let_def split: if_splits option.splits)

lemma replace_keys: "replaceQueuedBranch now i br b = Inr b' \<Longrightarrow> keys_distinct b \<Longrightarrow> keys_distinct b'"
  by (auto simp: keys_distinct_def replaceQueuedBranch_def Let_def split: if_splits option.splits)

lemma retire_keys: "retireQueued now i b = Inr b' \<Longrightarrow> keys_distinct b \<Longrightarrow> keys_distinct b'"
  by (auto simp: keys_distinct_def retireQueued_def Let_def split: if_splits option.splits)

lemma update_keys': "updateQueuedManifest i p b = Inr b' \<Longrightarrow> keys_distinct b \<Longrightarrow> keys_distinct b'"
  by (auto simp: keys_distinct_def updateQueuedManifest_def Let_def split: if_splits option.splits)

lemma release_keys: "releaseInflight i b = Inr (b', r) \<Longrightarrow> keys_distinct b \<Longrightarrow> keys_distinct b'"
  by (auto simp: keys_distinct_def releaseInflight_def move_file_def Let_def split: if_splits option.splits)

lemma park_keys: "parkInflight i d b = Inr (b', r) \<Longrightarrow> keys_distinct b \<Longrightarrow> keys_distinct b'"
  by (auto simp: keys_distinct_def parkInflight_def Let_def split: if_splits option.splits)

lemma unblock_keys: "unblockManifest i d b = Inr (b', r) \<Longrightarrow> keys_distinct b \<Longrightarrow> keys_distinct b'"
  by (auto simp: keys_distinct_def unblockManifest_def Let_def split: if_splits option.splits)

lemma block_keys: "blockQueued env now i why by_whom b = (b', r) \<Longrightarrow> keys_distinct b \<Longrightarrow> keys_distinct b'"
  by (auto simp: keys_distinct_def blockQueued_def Let_def split: if_splits option.splits BoardState.splits)

lemma requeue_keys: "requeueInflight env i n b = Inr (b', r) \<Longrightarrow> keys_distinct b \<Longrightarrow> keys_distinct b'"
  by (auto simp: keys_distinct_def requeueInflight_def Let_def split: if_splits option.splits)

lemma consume_keys: "consumeDeveloperRound now i b = Inr (b', r) \<Longrightarrow> keys_distinct b \<Longrightarrow> keys_distinct b'"
  by (auto simp: keys_distinct_def consumeDeveloperRound_def Let_def split: if_splits option.splits)

lemma verdict_keys: "writeVerdict now v b = Inr b' \<Longrightarrow> keys_distinct b \<Longrightarrow> keys_distinct b'"
  by (auto simp: keys_distinct_def writeVerdict_def end_of_inflight_def Let_def split: if_splits option.splits)

lemma requeue_failed_keys: "requeueFailed now i l fu ds b = Inr b' \<Longrightarrow> keys_distinct b \<Longrightarrow> keys_distinct b'"
  by (auto simp: requeueFailed_def Let_def split: if_splits option.splits sum.splits dest!: write_keys)
    (simp_all add: keys_distinct_def)

lemmas op_keys = write_keys replace_keys retire_keys update_keys' release_keys park_keys unblock_keys block_keys
  requeue_keys consume_keys diagnostic_keys verdict_keys requeue_failed_keys

lemma claim_keys: "claimNext env k now w only b = Inr (b', res) \<Longrightarrow> keys_distinct b \<Longrightarrow> keys_distinct b'"
  using claim_from_loop claim_loop_keys by (metis fst_conv)

lemma step_keys:
  assumes "board_step env b ev b'" and "keys_distinct b"
  shows "keys_distinct b'"
  using assms(1)
proof cases
  case (5 k now w tk r)
  then show ?thesis using claim_keys assms(2) by blast
next
  case (18 now st r)
  then show ?thesis using sweep_keys assms(2) by (auto simp: sweepStaleHeartbeats_def)
qed (use assms(2) op_keys in \<open>auto simp: archiveFailedVerdict_def patchDoneVerdict_def removeVerdict_def
    Let_def writeHeartbeat_def writeResumeSignal_def removeResumeSignal_def snapshotFailedManifest_def keys_other
    split: if_splits option.splits\<close>)

lemma step_ok: "tidy_step env b ev b' \<Longrightarrow> board_ok b \<Longrightarrow> board_ok b'"
  using step_dir dir_step_one_place step_keys unfolding tidy_step_def board_ok_def by blast

end
