(* ===== verification/BoardProps.thy ===== *)
theory BoardProps
  imports BoardFacts
begin

text \<open>
  The properties of the dispatch board: a task is in one directory and moves only along the
  lifecycle, claims are exclusive and take the first eligible manifest, a task leaves the board only
  on request; and the run in which a parked task ends up with two workers.
\<close>

section \<open>The lifecycle\<close>

datatype Place = PQueue | PInflight | PBlocked

definition place_in :: "files \<times> files \<times> files \<Rightarrow> string \<Rightarrow> Place option" where
  "place_in v i = (case v of (q, f, b) \<Rightarrow> if q i \<noteq> None then Some PQueue else if f i \<noteq> None then Some PInflight
     else if b i \<noteq> None then Some PBlocked else None)"

definition place :: "DispatchBoard \<Rightarrow> string \<Rightarrow> Place option" where
  "place b i = place_in (dirs b) i"

definition lifecycle :: "(Place option \<times> Place option) set" where
  "lifecycle = {(None, Some PQueue), (Some PQueue, Some PInflight), (Some PInflight, Some PQueue),
     (Some PInflight, Some PBlocked), (Some PBlocked, Some PQueue), (Some PQueue, Some PBlocked),
     (Some PQueue, None), (Some PInflight, None)}"

lemma one_place_absent:
  assumes "one_place (q, f, b)"
  shows "q i \<noteq> None \<Longrightarrow> f i = None \<and> b i = None" "f i \<noteq> None \<Longrightarrow> q i = None \<and> b i = None"
    "b i \<noteq> None \<Longrightarrow> q i = None \<and> f i = None"
  using assms unfolding one_place_def by (auto simp: dom_def)

lemma place_in_cong:
  "q' i = q i \<Longrightarrow> f' i = f i \<Longrightarrow> b' i = b i \<Longrightarrow> place_in (q', f', b') i = place_in (q, f, b) i"
  by (simp add: place_in_def)

lemma dir_step_lifecycle:
  assumes "dir_step w v v'" and "one_place v"
  shows "place_in v' i = place_in v i \<or> (place_in v i, place_in v' i) \<in> lifecycle"
  using assms
proof (induction rule: dir_step.induct)
  case (drop_inflight q f b S)
  show ?case
  proof (cases "i \<in> S \<and> f i \<noteq> None")
    case True then show ?thesis using one_place_absent(2) [OF drop_inflight, of i] by (simp add: place_in_def lifecycle_def)
  next
    case False then show ?thesis by (intro disjI1 place_in_cong) (auto simp: restrict_map_def)
  qed
next
  case (add q j f b x)
  then show ?case by (cases "i = j") (simp_all add: place_in_def lifecycle_def)
next
  case (set_queue q j x f b)
  then show ?case by (cases "i = j") (simp_all add: place_in_def)
next
  case (set_inflight f j y x q b)
  then show ?case by (cases "i = j") (simp_all add: place_in_def)
next
  case (drop_queue q f b j)
  then show ?case using one_place_absent(1) [OF drop_queue, of i]
    by (cases "i = j"; cases "q i = None") (simp_all add: place_in_def lifecycle_def)
next
  case (give_back f j x q b)
  then show ?case using one_place_absent(2) [OF give_back(3) give_back(1)]
    by (cases "i = j") (simp_all add: place_in_def lifecycle_def)
next
  case (park f j x q b)
  then show ?case using one_place_absent(2) [OF park(3) park(1)]
    by (cases "i = j") (simp_all add: place_in_def lifecycle_def)
next
  case (unblock b j q x f)
  then show ?case using one_place_absent(3) [OF unblock(4) unblock(1)]
    by (cases "i = j") (simp_all add: place_in_def lifecycle_def)
next
  case (block q j x f b)
  then show ?case using one_place_absent(1) [OF block(3) block(1)]
    by (cases "i = j") (simp_all add: place_in_def lifecycle_def)
next
  case (claim q j m f b t)
  then show ?case using one_place_absent(1) [OF claim(4) claim(1)]
    by (cases "i = j") (simp_all add: place_in_def lifecycle_def)
qed simp

definition fresh_board :: "DispatchBoard \<Rightarrow> bool" where
  "fresh_board b \<longleftrightarrow> bdQueue b = [] \<and> bdInflight b = [] \<and> bdBlocked b = []"

lemma fresh_ok: "fresh_board b \<Longrightarrow> board_ok b"
  by (simp add: fresh_board_def board_ok_def one_place_def dirs_def keys_distinct_def map_keys_def)

interpretation ok_board: step_invariant "tidy_step env" board_ok for env
  by unfold_locales (rule step_ok)

text \<open>C2. As long as no manifest is written for a parked task, a task is in at most one of the queue,
  the inflight and the blocked directory, and every operation moves it along the lifecycle: into the
  queue, from there to a worker or to the blocked directory and back, from the worker to the blocked
  directory, and out from the queue or from a worker.\<close>

theorem one_directory_per_task:
  assumes "fresh_board b0" and "runs (tidy_step env) b0 es b" and "tidy_step env b ev b'"
  shows "(i \<in> set (map_keys (bdQueue b)) \<longrightarrow> i \<notin> set (map_keys (bdInflight b)) \<and> i \<notin> set (map_keys (bdBlocked b)))
    \<and> (i \<in> set (map_keys (bdInflight b)) \<longrightarrow> i \<notin> set (map_keys (bdBlocked b)))
    \<and> (place b' i = place b i \<or> (place b i, place b' i) \<in> lifecycle)"
proof -
  have ok: "board_ok b" using ok_board.along [OF assms(2) fresh_ok [OF assms(1)]] .
  then have o1: "one_place (map_of (bdQueue b), map_of (bdInflight b), map_of (bdBlocked b))"
    by (simp add: board_ok_def dirs_def)
  have "place b' i = place b i \<or> (place b i, place b' i) \<in> lifecycle"
    using dir_step_lifecycle [OF step_dir [OF assms(3) ok]] ok unfolding place_def board_ok_def by blast
  moreover have k: "i \<in> set (map_keys d) \<longleftrightarrow> map_of d i \<noteq> None" for d :: manifest_dir
    by (simp add: map_of_None_keys)
  ultimately show ?thesis using one_place_absent [OF o1, of i] unfolding k by blast
qed

section \<open>Exclusive claims\<close>

text \<open>What the inflight directory says of who works on what.\<close>

definition holds :: "files \<Rightarrow> string \<Rightarrow> DispatchManifest \<Rightarrow> bool" where
  "holds f i m \<longleftrightarrow> (\<exists>x. f i = Some x \<and> fileBody x = Some m)"

definition clash :: "DispatchManifest \<Rightarrow> DispatchManifest \<Rightarrow> bool" where
  "clash m n \<longleftrightarrow> truthy (mfSequenceGroup m) \<and> mfSequenceGroup m = mfSequenceGroup n
     \<or> mfWorkerId m \<noteq> None \<and> mfWorkerId m = mfWorkerId n"

lemma exclusive_holds:
  "exclusive (q, f, b) \<longleftrightarrow> (\<forall>i j m n. holds f i m \<longrightarrow> holds f j n \<longrightarrow> i \<noteq> j \<longrightarrow> \<not> clash m n)"
  unfolding exclusive_def holds_def clash_def by blast

lemma exclusive_frame: "exclusive (q', f, b') = exclusive (q, f, b)"
  by (simp add: exclusive_holds)

lemma clash_sym: "clash m n \<Longrightarrow> clash n m"
  by (auto simp: clash_def)

lemma exclusive_mono:
  assumes "exclusive (q, f, b)"
    and "\<And>i m. holds f' i m \<Longrightarrow> \<exists>m0. holds f i m0 \<and> mfWorkerId m = mfWorkerId m0 \<and> mfSequenceGroup m = mfSequenceGroup m0"
  shows "exclusive (q', f', b')"
  unfolding exclusive_holds
proof (intro allI impI)
  fix i j m n
  assume h: "holds f' i m" "holds f' j n" "i \<noteq> j"
  obtain m0 n0 where "holds f i m0" "mfWorkerId m = mfWorkerId m0" "mfSequenceGroup m = mfSequenceGroup m0"
    "holds f j n0" "mfWorkerId n = mfWorkerId n0" "mfSequenceGroup n = mfSequenceGroup n0"
    using assms(2) h by meson
  with assms(1) h(3) show "\<not> clash m n" unfolding exclusive_holds clash_def by metis
qed

lemma claim_exclusive:
  assumes tid: "mfTaskId m = j" and fr: "free_claim (Some wid) f m" and o1: "one_place (q, f, b)" and ex: "exclusive (q, f, b)"
  shows "exclusive (q', f(j \<mapsto> \<lparr>fileBody = Some m, fileMtime = t\<rparr>), b)"
proof -
  have named: "holds f k m' \<Longrightarrow> mfTaskId m' = k" for k m'
    using o1 unfolding one_place_def named_def holds_def split_conv by blast
  have new: "\<not> clash m m'" if h: "holds f k m'" "k \<noteq> j" for k m'
  proof -
    obtain x where x: "f k = Some x" "fileBody x = Some m'" using h(1) unfolding holds_def by blast
    have "\<not> (truthy (mfSequenceGroup m) \<and> mfSequenceGroup m' = mfSequenceGroup m)"
      using fr x named [OF h(1)] tid h(2) unfolding free_claim_def by blast
    moreover have "mfWorkerId m' \<noteq> mfWorkerId m" using fr x by (simp add: free_claim_def)
    ultimately show ?thesis by (auto simp: clash_def)
  qed
  have old: "holds f k m'" if "holds (f(j \<mapsto> \<lparr>fileBody = Some m, fileMtime = t\<rparr>)) k m'" "k \<noteq> j" for k m'
    using that by (simp add: holds_def)
  have mine: "m' = m" if "holds (f(j \<mapsto> \<lparr>fileBody = Some m, fileMtime = t\<rparr>)) j m'" for m'
    using that by (simp add: holds_def)
  show ?thesis unfolding exclusive_holds
  proof (intro allI impI)
    fix i k m1 n1
    assume h: "holds (f(j \<mapsto> \<lparr>fileBody = Some m, fileMtime = t\<rparr>)) i m1"
      "holds (f(j \<mapsto> \<lparr>fileBody = Some m, fileMtime = t\<rparr>)) k n1" "i \<noteq> k"
    consider "i = j" | "k = j" | "i \<noteq> j" "k \<noteq> j" by blast
    then show "\<not> clash m1 n1"
    proof cases
      case 1
      then show ?thesis using new [OF old [OF h(2)]] mine [of m1] h(1,3) by simp
    next
      case 2
      then show ?thesis using new [OF old [OF h(1)]] mine [of n1] h(2,3) clash_sym [of m1 m] by auto
    next
      case 3
      then show ?thesis using old [OF h(1)] old [OF h(2)] h(3) ex unfolding exclusive_holds by blast
    qed
  qed
qed

lemma dir_step_exclusive:
  assumes "dir_step (Some wid) v v'" and "one_place v" and "exclusive v"
  shows "exclusive v'"
  using assms
proof (induction rule: dir_step.induct)
  case (set_inflight f j y x q b)
  show ?case
    using set_inflight(1,2) by (intro exclusive_mono [OF set_inflight(5)])
      (auto simp: holds_def keeps_claim_def split: if_splits)
next
  case (drop_inflight q f b S)
  show ?case by (intro exclusive_mono [OF drop_inflight(2)]) (auto simp: holds_def restrict_map_def split: if_splits)
next
  case (give_back f i x q b)
  show ?case by (intro exclusive_mono [OF give_back(4)]) (auto simp: holds_def split: if_splits)
next
  case (park f i x q b)
  show ?case by (intro exclusive_mono [OF park(4)]) (auto simp: holds_def split: if_splits)
next
  case (claim q j m f b t)
  show ?case by (rule claim_exclusive [OF claim(2-5)])
next
  case (set_queue q i x f b)
  show ?case by (rule exclusive_frame [THEN iffD1, OF set_queue(4)])
next
  case (add q i f b x)
  show ?case by (rule exclusive_frame [THEN iffD1, OF add(6)])
next
  case (drop_queue q f b i)
  show ?case by (rule exclusive_frame [THEN iffD1, OF drop_queue(2)])
next
  case (unblock b i q x f)
  show ?case by (rule exclusive_frame [THEN iffD1, OF unblock(5)])
next
  case (block q i x f b)
  show ?case by (rule exclusive_frame [THEN iffD1, OF block(4)])
qed simp

definition named_claim :: "BoardEvent \<Rightarrow> bool" where
  "named_claim ev = (case ev of BClaim k now w t \<Rightarrow> w \<noteq> None | _ \<Rightarrow> True)"

definition worker_step :: "BoardEnv \<Rightarrow> DispatchBoard \<Rightarrow> BoardEvent \<Rightarrow> DispatchBoard \<Rightarrow> bool" where
  "worker_step env b ev b' \<longleftrightarrow> named_claim ev \<and> tidy_step env b ev b'"

interpretation exclusive_board: relative_invariant "worker_step env" board_ok "\<lambda>b. exclusive (dirs b)" for env
proof
  fix b ev b'
  assume s: "worker_step env b ev b'" and ok: "board_ok b"
  from s ok show "board_ok b'" using step_ok by (auto simp: worker_step_def)
  assume ex: "exclusive (dirs b)"
  have c: "claimer ev \<noteq> None" using s by (auto simp: worker_step_def named_claim_def claimer_def split: BoardEvent.splits)
  show "exclusive (dirs b')"
  proof -
    obtain y where y: "claimer ev = Some y" using c by blast
    have d: "dir_step (Some y) (dirs b) (dirs b')" using step_dir [OF _ ok, of env ev b'] s y by (simp add: worker_step_def)
    show ?thesis using dir_step_exclusive [OF d _ ex] ok by (simp add: board_ok_def)
  qed
qed

text \<open>C12. When every claim names its worker, no two manifests under way belong to the same worker, and no
  two to the same sequence group.\<close>

theorem claims_are_exclusive:
  assumes "fresh_board b0" and "runs (worker_step env) b0 es b"
    and "map_of (bdInflight b) i = Some x" and "fileBody x = Some m"
    and "map_of (bdInflight b) j = Some y" and "fileBody y = Some n" and "i \<noteq> j"
  shows "\<not> (mfWorkerId m \<noteq> None \<and> mfWorkerId m = mfWorkerId n)
    \<and> \<not> (truthy (mfSequenceGroup m) \<and> mfSequenceGroup m = mfSequenceGroup n)"
proof -
  have "exclusive (dirs b0)" using assms(1) by (simp add: fresh_board_def exclusive_def dirs_def)
  then have "exclusive (dirs b)"
    using exclusive_board.both.along [OF assms(2)] fresh_ok [OF assms(1)] by blast
  moreover have "holds (map_of (bdInflight b)) i m" "holds (map_of (bdInflight b)) j n"
    using assms(3-6) by (auto simp: holds_def)
  ultimately have "\<not> clash m n" using assms(7) unfolding dirs_def exclusive_holds by blast
  then show ?thesis by (simp add: clash_def)
qed

section \<open>The claim takes the first eligible manifest\<close>

lemma busy_group_Some:
  assumes "e \<in> set es" and "fileBody (snd e) = Some m" and "mfSequenceGroup m = Some g" and "g \<noteq> []"
  shows "\<exists>e' m'. e' \<in> set es \<and> fileBody (snd e') = Some m' \<and> map_of (fold busy_group es acc) g = Some (mfTaskId m')"
  using assms
proof (induction es arbitrary: acc rule: rev_induct)
  case (snoc x xs)
  show ?case
  proof (cases "\<exists>mx. fileBody (snd x) = Some mx \<and> mfSequenceGroup mx = Some g")
    case True
    then obtain mx where mx: "fileBody (snd x) = Some mx" "mfSequenceGroup mx = Some g" by blast
    with snoc.prems(4) have "map_of (fold busy_group (xs @ [x]) acc) g = Some (mfTaskId mx)" by (simp add: busy_group_def)
    with mx show ?thesis by (intro exI [of _ x] exI [of _ mx]) simp
  next
    case False
    with snoc.prems have "e \<in> set xs" by auto
    from snoc.IH [OF this snoc.prems(2-4)] obtain e' m' where
      e': "e' \<in> set xs" "fileBody (snd e') = Some m'" "map_of (fold busy_group xs acc) g = Some (mfTaskId m')" by blast
    have "map_of (fold busy_group (xs @ [x]) acc) g = map_of (fold busy_group xs acc) g"
      using False by (auto simp: busy_group_def split: option.split)
    with e' show ?thesis by (intro exI [of _ e'] exI [of _ m']) simp
  qed
qed simp

lemma eligible_no_rivals:
  assumes ok: "board_ok b" and c: "candidate b r" and e: "checkEligibility (rkManifest r) (loadEligibilityContext env b) = None"
    and g: "truthy (mfSequenceGroup (rkManifest r))"
    and e1: "e \<in> set (bdInflight b)" and m: "fileBody (snd e) = Some m"
  shows "mfSequenceGroup m \<noteq> mfSequenceGroup (rkManifest r)"
proof
  assume same: "mfSequenceGroup m = mfSequenceGroup (rkManifest r)"
  obtain gr where gr: "mfSequenceGroup (rkManifest r) = Some gr" "gr \<noteq> []"
    using g by (auto simp: truthy_def split: option.splits)
  obtain e' m' where e': "e' \<in> set (bdInflight b)" "fileBody (snd e') = Some m'"
    "map_of (fold busy_group (bdInflight b) []) gr = Some (mfTaskId m')"
    using busy_group_Some [OF e1 m, of gr "[]"] same gr by auto
  then have t: "mfTaskId m' = mfTaskId (rkManifest r)"
    using e gr g by (auto simp: checkEligibility_def loadEligibilityContext_def Let_def split: if_splits)
  have "map_of (bdInflight b) (fst e') = Some (snd e')"
    using ok e'(1) by (simp add: board_ok_def keys_distinct_def map_keys_def)
  moreover have o1: "one_place (dirs b)" using ok by (simp add: board_ok_def)
  ultimately have "mfTaskId m' = fst e'" using stored(2) [OF o1] e'(2) by blast
  moreover obtain f where f: "map_of (bdQueue b) (rkFile r) = Some f" "fileBody f = Some (rkManifest r)"
    using c by (auto simp: candidate_def)
  ultimately have "rkFile r = fst e'" using stored(1) [OF o1 f] t by simp
  with f \<open>map_of (bdInflight b) (fst e') = Some (snd e')\<close> o1 show False
    by (auto simp: one_place_def dirs_def)
qed

lemma landed_done:
  assumes "i \<in> set (ecDone (loadEligibilityContext env b))"
  shows "i \<in> set (map_keys (bdDoneCompleted b))
    \<or> (\<exists>v. (i, Some v) \<in> set (bdDoneVerdicts b) \<and> dvOutcome v = Success \<and> truthy (dvLanded v))"
  using assms by (force simp: loadEligibilityContext_def verdict_success_def split: option.splits)

lemma ruled_done:
  assumes "\<not> ruling_holds m (loadEligibilityContext env b)"
  shows "case mfRulingUntil m of None \<Rightarrow> True | Some u \<Rightarrow> u \<in> set (map_keys (bdDoneCompleted b))
    \<or> (\<exists>v. (u, Some v) \<in> set (bdDoneVerdicts b) \<and> dvOutcome v = Success)"
  using assms by (fastforce simp: ruling_holds_def loadEligibilityContext_def verdict_success_def split: option.splits)

lemma take_claim_succeeds:
  assumes ok: "board_ok b" and c: "candidate b r"
    and e: "checkEligibility (rkManifest r) (loadEligibilityContext env b) = None"
  shows "\<exists>b'. take_claim now w r b = (b', Some ((rkManifest r)\<lparr>mfWorkerId := (if w = None then mfWorkerId (rkManifest r) else w)\<rparr>))"
proof -
  let ?m = "rkManifest r"
  obtain f where f: "map_of (bdQueue b) (rkFile r) = Some f" "fileBody f = Some ?m"
    using c by (auto simp: candidate_def)
  have tid: "mfTaskId ?m = rkFile r" using stored(1) [OF _ f] ok by (simp add: board_ok_def)
  let ?b1 = "b\<lparr>bdQueue := map_del (rkFile r) (bdQueue b), bdInflight := map_set (rkFile r) f (bdInflight b)\<rparr>"
  have "otherGroupHolders ?b1 ?m = []" if "truthy (mfSequenceGroup ?m)"
  proof -
    have "mfTaskId x = mfTaskId ?m" if x: "x \<in> set (manifests_in (map_set (rkFile r) f (bdInflight b)))"
      and g: "mfSequenceGroup x = mfSequenceGroup ?m" for x
    proof -
      obtain e where "e \<in> set (map_set (rkFile r) f (bdInflight b))" "fileBody (snd e) = Some x"
        using x by (auto simp: manifests_in_def mem_map_filter)
      then consider "x = ?m" | "e \<in> set (bdInflight b)" "fileBody (snd e) = Some x"
        using f(2) map_set_mem by fastforce
      then show ?thesis
        using eligible_no_rivals [OF ok c e \<open>truthy _\<close>] g by cases auto
    qed
    then show ?thesis by (simp add: otherGroupHolders_def filter_empty_conv)
  qed
  then show ?thesis
    unfolding take_claim_def Let_def tid move_file_present [OF f(1)]
    by (cases w) (auto simp: settle_same_holders)
qed

definition offered :: "BoardEnv \<Rightarrow> WorkerKind \<Rightarrow> int \<Rightarrow> string option \<Rightarrow> DispatchBoard \<Rightarrow> Ranked list" where
  "offered env k now w b = (let rs = orderEligible env b (Some k) now in
     if rs \<noteq> [] \<and> (\<exists>wid. w = Some wid \<and> findUndeliveredPr b wid \<noteq> None) then filter fixes_or_resumes rs else rs)"

text \<open>C13. A claim that is not refused takes exactly the first manifest of the claim order (of those that
  fix or resume a pull request, while the worker owes one), and finds nothing only when there is
  none. The manifest taken carries a task id, fits the worker's kind, is not cooling down, blocked or below the
  budget floor; the task whose ruling it waits for, if any, has succeeded, every task it runs after has landed, and
  no task in flight is of its sequence group.\<close>

theorem claim_takes_the_first:
  assumes "fresh_board b0" and "runs (tidy_step env) b0 es b" and "claimNext env k now w None b = Inr (b', res)"
  shows "case offered env k now w b of
      [] \<Rightarrow> res = None
    | r # rs \<Rightarrow> res = Some ((rkManifest r)\<lparr>mfWorkerId := (if w = None then mfWorkerId (rkManifest r) else w)\<rparr>)
        \<and> (mfWorkerKind (rkManifest r) = AnyKind \<or> mfWorkerKind (rkManifest r) = Kind k)
        \<and> \<not> cooling env now (rkManifest r) \<and> \<not> truthy (mfBlockedBy (rkManifest r))
        \<and> \<not> below_floor env (rkManifest r) \<and> is_task_id (mfTaskId (rkManifest r))
        \<and> (case mfRulingUntil (rkManifest r) of None \<Rightarrow> True | Some u \<Rightarrow> u \<in> set (map_keys (bdDoneCompleted b))
             \<or> (\<exists>v. (u, Some v) \<in> set (bdDoneVerdicts b) \<and> dvOutcome v = Success))
        \<and> (\<forall>e \<in> set (bdInflight b). \<forall>m. fileBody (snd e) = Some m \<and> truthy (mfSequenceGroup (rkManifest r))
             \<longrightarrow> mfSequenceGroup m \<noteq> mfSequenceGroup (rkManifest r))
        \<and> (\<forall>i \<in> set (case mfAfter (rkManifest r) of None \<Rightarrow> [] | Some ids \<Rightarrow> ids).
             i \<in> set (map_keys (bdDoneCompleted b)) \<or> done_on_main env i
             \<or> (\<exists>v. (i, Some v) \<in> set (bdDoneVerdicts b) \<and> dvOutcome v = Success \<and> truthy (dvLanded v)))"
proof -
  have ok: "board_ok b" using ok_board.along [OF assms(2) fresh_ok [OF assms(1)]] .
  have loop: "claim_loop now w [] (offered env k now w b) b = (b', res)"
    using assms(3) by (auto simp: claimNext_def offered_def Let_def split: option.splits if_splits)
  show ?thesis
  proof (cases "offered env k now w b")
    case Nil
    with loop show ?thesis by simp
  next
    case (Cons r rs)
    then have "r \<in> set (offered env k now w b)" by simp
    then have "r \<in> set (orderEligible env b (Some k) now)"
      by (auto simp: offered_def Let_def split: if_splits)
    from ordered_claimable [OF this] have c: "candidate b r" and cl: "claimable env (loadEligibilityContext env b) (Some k) now (rkManifest r)"
      using ok by (auto simp: candidate_def board_ok_def keys_distinct_def map_keys_def)
    from cl have e: "checkEligibility (rkManifest r) (loadEligibilityContext env b) = None" by (simp add: claimable_def)
    obtain b1 where "take_claim now w r b = (b1, Some ((rkManifest r)\<lparr>mfWorkerId := (if w = None then mfWorkerId (rkManifest r) else w)\<rparr>))"
      using take_claim_succeeds [OF ok c e] by blast
    then have "res = Some ((rkManifest r)\<lparr>mfWorkerId := (if w = None then mfWorkerId (rkManifest r) else w)\<rparr>)"
      using loop Cons by (simp add: Let_def)
    moreover have u: "unmet_after (rkManifest r) (loadEligibilityContext env b) = []" "\<not> truthy (mfBlockedBy (rkManifest r))"
      using e by (auto simp: checkEligibility_def split: if_splits)
    moreover have "i \<in> set (map_keys (bdDoneCompleted b)) \<or> done_on_main env i
             \<or> (\<exists>v. (i, Some v) \<in> set (bdDoneVerdicts b) \<and> dvOutcome v = Success \<and> truthy (dvLanded v))"
      if "i \<in> set (case mfAfter (rkManifest r) of None \<Rightarrow> [] | Some ids \<Rightarrow> ids)" for i
    proof -
      have "i \<in> set (ecDone (loadEligibilityContext env b)) \<or> ecDoneOnMain (loadEligibilityContext env b) i"
        using u(1) that unfolding unmet_after_def filter_empty_conv by blast
      then show ?thesis using landed_done [of i env b] by (auto simp: loadEligibilityContext_def)
    qed
    moreover have "case mfRulingUntil (rkManifest r) of None \<Rightarrow> True | Some u \<Rightarrow> u \<in> set (map_keys (bdDoneCompleted b))
             \<or> (\<exists>v. (u, Some v) \<in> set (bdDoneVerdicts b) \<and> dvOutcome v = Success)"
      using ruled_done [of "rkManifest r" env b] e by (simp add: checkEligibility_def split: if_splits)
    moreover have "\<forall>e \<in> set (bdInflight b). \<forall>m. fileBody (snd e) = Some m \<and> truthy (mfSequenceGroup (rkManifest r))
             \<longrightarrow> mfSequenceGroup m \<noteq> mfSequenceGroup (rkManifest r)"
      using eligible_no_rivals [OF ok c e] by blast
    ultimately show ?thesis using cl Cons unfolding claimable_def by simp
  qed
qed

section \<open>Tasks stay on the board\<close>

text \<open>The tasks an event takes off the board on request.\<close>

definition takes_off :: "BoardEvent \<Rightarrow> string list" where
  "takes_off ev = (case ev of BRetire now i \<Rightarrow> [i] | BArchive now i \<Rightarrow> [i] | BRemoveVerdict i d wm \<Rightarrow> [i] | _ \<Rightarrow> [])"

definition stays :: "DispatchBoard \<Rightarrow> DispatchBoard \<Rightarrow> string list \<Rightarrow> bool" where
  "stays b b' is \<longleftrightarrow> (\<forall>i. isOnBoard i b \<longrightarrow> i \<notin> set is \<longrightarrow> isOnBoard i b')"

lemma has_key_map: "map_of d i = Some x \<Longrightarrow> has_key i d"
  by (simp add: has_key_def)

lemma sweep_entry_stays: "sweep_entry env now st i b = Inr (b', r) \<Longrightarrow> stays b b' []"
  by (auto simp: sweep_entry_def writeDiagnostic_def Let_def end_of_inflight_def clear_sidecars_def stays_def isOnBoard_def
      split: option.splits if_splits sum.splits)

lemma sweep_stays: "sweep_loop env now st is b = Inr (b', rs) \<Longrightarrow> stays b b' []"
proof (induction "is" arbitrary: b rs)
  case (Cons i "is")
  then obtain b1 r rs1 where s: "sweep_entry env now st i b = Inr (b1, r)"
    and l: "sweep_loop env now st is b1 = Inr (b', rs1)" by (auto split: sum.splits)
  show ?case using sweep_entry_stays [OF s] Cons.IH [OF l] by (simp add: stays_def)
qed (simp add: stays_def)

definition finished_part :: "DispatchBoard \<Rightarrow> verdict_dir \<times> (string, string) jsmap \<times> verdict_dir \<times> verdict_dir" where
  "finished_part b = (bdDoneVerdicts b, bdDoneCompleted b, bdFailedVerdicts b, bdFailedDiagnostics b)"

lemma claim_loop_finished: "finished_part (fst (claim_loop now w gs rs b)) = finished_part b"
proof (induction rs arbitrary: gs b)
  case (Cons r rs)
  have "finished_part (fst (take_claim now w r b)) = finished_part b"
    by (simp add: take_claim_def Let_def finished_part_def)
  then show ?case using Cons by (simp add: Let_def split: option.split)
qed simp

definition on_dirs :: "files \<times> files \<times> files \<Rightarrow> string \<Rightarrow> bool" where
  "on_dirs v i = (case v of (q, f, b) \<Rightarrow> q i \<noteq> None \<or> f i \<noteq> None \<or> b i \<noteq> None)"

lemma isOnBoard_dirs: "isOnBoard i b \<longleftrightarrow> on_dirs (dirs b) i \<or> has_key i (bdDoneVerdicts b) \<or> has_key i (bdDoneCompleted b)
    \<or> has_key i (bdFailedVerdicts b) \<or> has_key i (bdFailedDiagnostics b)"
  by (simp add: isOnBoard_def on_dirs_def dirs_def has_key_def)

lemma claim_stays:
  assumes "claimNext env k now w t b = Inr (b', r)" and ok: "board_ok b"
  shows "stays b b' []"
proof -
  have f: "finished_part b' = finished_part b"
    using claim_from_loop [OF assms(1)] claim_loop_finished by (metis fst_conv)
  have "on_dirs (dirs b') i" if "on_dirs (dirs b) i" for i
  proof (cases r)
    case None
    then show ?thesis using claim_dir [OF _ _ assms(1)] ok that by (simp add: board_ok_def)
  next
    case (Some m)
    then obtain j t where "dirs b' = ((map_of (bdQueue b))(j := None),
        (map_of (bdInflight b))(j \<mapsto> \<lparr>fileBody = Some m, fileMtime = t\<rparr>), map_of (bdBlocked b))"
      using claim_dir [OF _ _ assms(1)] ok unfolding board_ok_def claims_def by auto
    then show ?thesis using that by (simp add: on_dirs_def dirs_def)
  qed
  then show ?thesis using f unfolding stays_def isOnBoard_dirs finished_part_def by auto
qed

lemma move_file_stays: "move_file i i src dst = (src', dst') \<Longrightarrow> has_key j src \<or> has_key j dst \<Longrightarrow> has_key j src' \<or> has_key j dst'"
  by (auto simp: move_file_def split: option.splits)


lemma stays_refl: "stays b b is"
  by (simp add: stays_def)

lemmas stays_defs = stays_def isOnBoard_def clear_sidecars_def end_of_inflight_def Let_def

lemma write_stays: "writeManifest now m b = Inr b' \<Longrightarrow> stays b b' []"
  by (auto simp: writeManifest_def stays_defs split: if_splits)

lemma release_stays: "releaseInflight i b = Inr (b', r) \<Longrightarrow> stays b b' []"
  by (auto simp: releaseInflight_def has_key_def move_file_def stays_defs split: if_splits option.splits)

lemma park_stays: "parkInflight i d b = Inr (b', r) \<Longrightarrow> stays b b' []"
  by (auto simp: parkInflight_def stays_defs split: if_splits option.splits)

lemma unblock_stays: "unblockManifest i d b = Inr (b', r) \<Longrightarrow> stays b b' []"
  by (auto simp: unblockManifest_def stays_defs split: if_splits option.splits)

lemma block_stays: "blockQueued env now i why by_whom b = (b', r) \<Longrightarrow> stays b b' []"
  by (auto simp: blockQueued_def stays_defs split: if_splits option.splits BoardState.splits)

lemma requeue_stays: "requeueInflight env i n b = Inr (b', r) \<Longrightarrow> stays b b' []"
  by (auto simp: requeueInflight_def stays_defs split: if_splits option.splits)

lemma verdict_stays: "writeVerdict now v b = Inr b' \<Longrightarrow> stays b b' []"
  by (auto simp: writeVerdict_def stays_defs split: if_splits option.splits)

lemma diagnostic_stays: "writeDiagnostic v b = Inr b' \<Longrightarrow> stays b b' []"
  by (auto simp: writeDiagnostic_def stays_defs split: if_splits)

lemma consume_stays: "consumeDeveloperRound now i b = Inr (b', r) \<Longrightarrow> stays b b' []"
  by (auto simp: consumeDeveloperRound_def stays_defs split: if_splits option.splits)

lemma update_stays: "updateQueuedManifest i p b = Inr b' \<Longrightarrow> stays b b' []"
  by (auto simp: updateQueuedManifest_def stays_defs split: if_splits option.splits)

lemma replace_stays: "replaceQueuedBranch now i br b = Inr b' \<Longrightarrow> stays b b' []"
  by (auto simp: replaceQueuedBranch_def stays_defs split: if_splits option.splits)

lemma patch_stays: "patchDoneVerdict i l b = (b', r) \<Longrightarrow> stays b b' []"
  by (auto simp: patchDoneVerdict_def stays_defs split: if_splits option.splits)

lemma retire_stays: "retireQueued now i b = Inr b' \<Longrightarrow> stays b b' [i]"
  by (auto simp: retireQueued_def stays_defs split: if_splits option.splits)

lemma archive_stays: "stays b (archiveFailedVerdict now i b) [i]"
  by (auto simp: archiveFailedVerdict_def stays_defs)

lemma remove_stays: "stays b (removeVerdict i d wm b) [i]"
  by (auto simp: removeVerdict_def stays_defs split: option.splits)

lemma requeue_failed_stays: "requeueFailed now i l fu ds b = Inr b' \<Longrightarrow> stays b b' []"
  by (auto simp: requeueFailed_def writeManifest_def stays_defs split: if_splits option.splits sum.splits)

lemma heartbeat_stays: "writeHeartbeat i h b = Inr b' \<Longrightarrow> stays b b' []"
  by (auto simp: writeHeartbeat_def stays_defs split: if_splits)

lemma signal_stays: "writeResumeSignal s x y b = Inr b' \<Longrightarrow> stays b b' []"
  by (auto simp: writeResumeSignal_def stays_defs split: if_splits)

lemma remove_signal_stays: "removeResumeSignal i b = Inr b' \<Longrightarrow> stays b b' []"
  by (auto simp: removeResumeSignal_def stays_defs split: if_splits)

lemma snapshot_stays: "snapshotFailedManifest m b = Inr b' \<Longrightarrow> stays b b' []"
  by (auto simp: snapshotFailedManifest_def stays_defs split: if_splits)

lemmas op_stays = heartbeat_stays signal_stays remove_signal_stays snapshot_stays write_stays release_stays park_stays unblock_stays block_stays requeue_stays verdict_stays diagnostic_stays
  consume_stays update_stays replace_stays patch_stays retire_stays archive_stays remove_stays requeue_failed_stays

lemma step_stays:
  assumes "board_step env b ev b'" and ok: "board_ok b"
  shows "stays b b' (takes_off ev)"
  using assms(1)
proof cases
  case (5 k now w t r)
  then show ?thesis using claim_stays [OF 5(2) ok] by (simp add: takes_off_def)
next
  case (18 now st r)
  then show ?thesis using sweep_stays by (auto simp: sweepStaleHeartbeats_def takes_off_def)
qed (auto simp: takes_off_def intro: op_stays)

text \<open>A task that is on the board stays on it, in whatever directory, unless it is retired, archived or its
  verdict removed by name.\<close>

theorem tasks_stay_on_the_board:
  assumes "fresh_board b0" and "runs (tidy_step env) b0 es b" and "runs (tidy_step env) b fs b'"
    and "isOnBoard i b" and "\<forall>ev \<in> set fs. i \<notin> set (takes_off ev)"
  shows "isOnBoard i b'"
  using assms(3) ok_board.along [OF assms(2) fresh_ok [OF assms(1)]] assms(4,5)
proof (induction rule: runs.induct)
  case (runs_cons b ev b1 fs b')
  have "stays b b1 (takes_off ev)" using step_stays [of env b ev b1] runs_cons.hyps(1) runs_cons.prems(1)
    by (simp add: tidy_step_def)
  then have "isOnBoard i b1" using runs_cons.prems(2,3) by (simp add: stays_def)
  then show ?case using runs_cons.IH step_ok [OF runs_cons.hyps(1) runs_cons.prems(1)] runs_cons.prems(3) by simp
qed simp

end
