(* ===== verification/BoardSweep.thy ===== *)
theory BoardSweep
  imports BoardProps
begin

text \<open>
  The heartbeat sweep: which claims it reaps, what it leaves of them, and that a claim taken a moment ago is among
  them when its task waited long enough in the queue.
\<close>

definition stale_claim :: "BoardEnv \<Rightarrow> int \<Rightarrow> int \<Rightarrow> DispatchBoard \<Rightarrow> string \<Rightarrow> bool" where
  "stale_claim env now st b i \<longleftrightarrow> (\<exists>m t. readManifest i (bdInflight b) = Some m \<and> last_tick env i m b = Some t \<and> t \<le> now - st)"

lemma reaped_fields:
  assumes "sweep_entry env now st i b = Inr (b1, r)"
  shows "r = stale_claim env now st b i"
    and "map_of (bdInflight b1) = (if r then (map_of (bdInflight b))(i := None) else map_of (bdInflight b))"
    and "map_of (bdHeartbeats b1) = (if r then (map_of (bdHeartbeats b))(i := None) else map_of (bdHeartbeats b))"
    and "map_of (bdFailedDiagnostics b1) = (if r then (map_of (bdFailedDiagnostics b))
      (i \<mapsto> Some (stale_diagnostic env now i (the (readManifest i (bdInflight b))) b)) else map_of (bdFailedDiagnostics b))"
  using assms by (auto simp: sweep_entry_def stale_claim_def writeDiagnostic_def end_of_inflight_def clear_sidecars_def Let_def
      split: option.splits if_splits sum.splits)

lemma read_cong: "map_of d i = map_of d' i \<Longrightarrow> readManifest i d = readManifest i d'"
  by (simp add: readManifest_def)

lemma other_entry:
  assumes "sweep_entry env now st i b = Inr (b1, r)" and "j \<noteq> i"
  shows "readManifest j (bdInflight b1) = readManifest j (bdInflight b)" "readHeartbeat j b1 = readHeartbeat j b"
    "map_of (bdFailedDiagnostics b1) j = map_of (bdFailedDiagnostics b) j"
  using reaped_fields [OF assms(1)] assms(2) by (auto simp: readHeartbeat_def intro!: read_cong)

lemma stale_frame:
  assumes "sweep_entry env now st i b = Inr (b1, r)" and "j \<noteq> i"
  shows "stale_claim env now st b1 j = stale_claim env now st b j"
    "stale_diagnostic env now j m b1 = stale_diagnostic env now j m b"
  using other_entry [OF assms] by (simp_all add: stale_claim_def last_tick_def stale_diagnostic_def)

definition diagnostic_of :: "BoardEnv \<Rightarrow> int \<Rightarrow> DispatchBoard \<Rightarrow> string \<Rightarrow> DispatchVerdict" where
  "diagnostic_of env now b i = stale_diagnostic env now i (the (readManifest i (bdInflight b))) b"

lemma sweep_loop_exact:
  assumes "sweep_loop env now st is b = Inr (b', rs)" and "distinct is"
  shows "rs = filter (stale_claim env now st b) is
    \<and> (\<forall>j. map_of (bdInflight b') j = (if j \<in> set rs then None else map_of (bdInflight b) j))
    \<and> (\<forall>j. map_of (bdFailedDiagnostics b') j = (if j \<in> set rs then Some (Some (diagnostic_of env now b j)) else map_of (bdFailedDiagnostics b) j))"
  using assms
proof (induction "is" arbitrary: b rs)
  case (Cons i "is")
  then obtain b1 r rs1 where s: "sweep_entry env now st i b = Inr (b1, r)"
    and l: "sweep_loop env now st is b1 = Inr (b', rs1)" and rs: "rs = (if r then i # rs1 else rs1)"
    by (auto split: sum.splits)
  have d: "i \<notin> set is" "distinct is" using Cons.prems(2) by simp_all
  note IH = Cons.IH [OF l d(2)]
  have rs1: "rs1 = filter (stale_claim env now st b) is"
    using IH stale_frame(1) [OF s] d(1) by (metis (mono_tags, lifting) filter_cong)
  have ni: "i \<notin> set rs1" using rs1 d(1) by simp
  have 1: "rs = filter (stale_claim env now st b) (i # is)" using rs1 rs reaped_fields(1) [OF s] by simp
  have 2: "map_of (bdInflight b') j = (if j \<in> set rs then None else map_of (bdInflight b) j)" for j
    using IH reaped_fields(2) [OF s] ni rs by (cases "j = i") auto
  have 3: "map_of (bdFailedDiagnostics b') j = (if j \<in> set rs then Some (Some (diagnostic_of env now b j)) else map_of (bdFailedDiagnostics b) j)" for j
  proof (cases "j = i")
    case True
    then show ?thesis using IH reaped_fields(4) [OF s] ni rs d(1) by (simp add: diagnostic_of_def)
  next
    case False
    have "diagnostic_of env now b1 j = diagnostic_of env now b j"
      unfolding diagnostic_of_def using stale_frame(2) [OF s False] other_entry(1) [OF s False] by simp
    then show ?thesis using IH reaped_fields(4) [OF s] False rs by auto
  qed
  from 1 2 3 show ?case by blast
qed simp

text \<open>C19. A sweep reaps exactly the claims whose last sign of life, the heartbeat or without one the time the task was
  dispatched, is older than the threshold; it leaves every other claim, and a diagnostic for each one reaped.\<close>

theorem sweep_reaps_exactly_the_stale:
  assumes "fresh_board b0" and "runs (tidy_step env) b0 es b" and "sweepStaleHeartbeats env now st b = Inr (b', rs)"
  shows "rs = filter (stale_claim env now (or_else st DEFAULT_HEARTBEAT_STALE_MS) b) (map_keys (bdInflight b))
    \<and> (\<forall>i. map_of (bdInflight b') i = (if i \<in> set rs then None else map_of (bdInflight b) i))
    \<and> (\<forall>i. map_of (bdFailedDiagnostics b') i =
        (if i \<in> set rs then Some (Some (diagnostic_of env now b i)) else map_of (bdFailedDiagnostics b) i))"
proof -
  have "distinct (map_keys (bdInflight b))"
    using ok_board.along [OF assms(2) fresh_ok [OF assms(1)]] by (simp add: board_ok_def keys_distinct_def)
  with assms(3) show ?thesis
    using sweep_loop_exact [of env now "or_else st DEFAULT_HEARTBEAT_STALE_MS" "map_keys (bdInflight b)" b b' rs]
    by (simp add: sweepStaleHeartbeats_def or_else_def)
qed

lemma take_claim_stamps:
  assumes "take_claim now w r b = (b', Some m)"
  shows "map_of (bdInflight b') (mfTaskId m) = Some \<lparr>fileBody = Some m, fileMtime = now\<rparr> \<and> bdHeartbeats b' = bdHeartbeats b"
  using assms by (auto simp: take_claim_def Let_def split: if_splits option.splits)

lemma take_claim_beats: "bdHeartbeats (fst (take_claim now w r b)) = bdHeartbeats b"
  by (simp add: take_claim_def Let_def)

lemma claim_loop_stamps:
  assumes "claim_loop now w gs rs b = (b', Some m)"
  shows "map_of (bdInflight b') (mfTaskId m) = Some \<lparr>fileBody = Some m, fileMtime = now\<rparr> \<and> bdHeartbeats b' = bdHeartbeats b"
  using assms
proof (induction rs arbitrary: gs b)
  case (Cons r rs)
  obtain b1 r1 where t: "take_claim now w r b = (b1, r1)" by (cases "take_claim now w r b")
  have h: "bdHeartbeats b1 = bdHeartbeats b" using take_claim_beats [of now w r b] t by simp
  show ?case
  proof (cases r1)
    case None
    then show ?thesis using Cons.prems Cons.IH [of gs b] Cons.IH [of _ b1] t h by (simp add: Let_def split: if_splits) 
  next
    case (Some m1)
    then show ?thesis using Cons.prems Cons.IH [of gs b] t take_claim_stamps [of now w r b b1 m1]
      by (auto simp: Let_def split: if_splits)
  qed
qed simp

text \<open>A claim without a heartbeat is reaped in the moment it was taken, when the task was dispatched longer ago than
  the threshold: the claim time the claim stamps on the file is not looked at.\<close>

theorem fresh_claim_is_reaped:
  assumes "fresh_board b0" and "runs (tidy_step env) b0 es b" and "claimNext env k now w None b = Inr (b1, Some m)"
    and "readHeartbeat (mfTaskId m) b = None" and "envParse env (mfDispatchedAt m) = Some t"
    and "t \<le> now - DEFAULT_HEARTBEAT_STALE_MS" and "sweepStaleHeartbeats env now None b1 = Inr (b2, rs)"
  shows "inflightClaimedAtMs (mfTaskId m) b1 = Some now \<and> mfTaskId m \<in> set rs"
proof -
  obtain rs0 where "claim_loop now w [] rs0 b = (b1, Some m)" using claim_from_loop [OF assms(3)] by blast
  from claim_loop_stamps [OF this]
  have f: "map_of (bdInflight b1) (mfTaskId m) = Some \<lparr>fileBody = Some m, fileMtime = now\<rparr>" "bdHeartbeats b1 = bdHeartbeats b"
    by simp_all
  have "tidy_step env b (BClaim k now w None) b1"
    using board_step.intros(5) [OF assms(3)] by (simp add: tidy_step_def tidy_def)
  then have ok: "board_ok b1" using ok_board.along [OF assms(2) fresh_ok [OF assms(1)]] step_ok by blast
  have "stale_claim env now DEFAULT_HEARTBEAT_STALE_MS b1 (mfTaskId m)"
    using f assms(4-6) by (simp add: stale_claim_def readManifest_def last_tick_def readHeartbeat_def)
  moreover have "mfTaskId m \<in> set (map_keys (bdInflight b1))" using f(1) map_of_Some_keys by metis
  moreover have "rs = filter (stale_claim env now DEFAULT_HEARTBEAT_STALE_MS b1) (map_keys (bdInflight b1))"
    using sweep_loop_exact [of env now DEFAULT_HEARTBEAT_STALE_MS "map_keys (bdInflight b1)" b1 b2 rs] assms(7) ok
    by (simp add: sweepStaleHeartbeats_def board_ok_def keys_distinct_def)
  moreover have "is_task_id (mfTaskId m)"
  proof -
    have "board_ok b" using ok_board.along [OF assms(2) fresh_ok [OF assms(1)]] .
    then obtain r where r: "r \<in> set (orderEligible env b (Some k) now)"
        "m = (rkManifest r)\<lparr>mfWorkerId := (if w = None then mfWorkerId (rkManifest r) else w)\<rparr>"
      using claim_dir [OF _ _ assms(3)] by (auto simp: board_ok_def)
    show ?thesis using ordered_claimable [OF r(1)] r(2) by (simp add: claimable_def)
  qed
  ultimately show ?thesis using f(1) by (simp add: inflightClaimedAtMs_def)
qed

end
