(* ===== verification/BoardExamples.thy ===== *)
theory BoardExamples
  imports BoardSweep
begin

text \<open>
  Concrete boards: the hypotheses of the board properties hold on a run, and the run in which a task that was
  queued again while it was parked ends up with two workers.
\<close>

definition plain_env :: BoardEnv where
  "plain_env = \<lparr>envGraph = None, envRanking = Legacy, envFloor = None, envParse = (\<lambda>_. None), envIso = (\<lambda>_. []),
     envLocale = (\<lambda>_ _. 0)\<rparr>"

definition empty_board :: DispatchBoard where
  "empty_board = \<lparr>bdQueue = [], bdInflight = [], bdBlocked = [], bdRetired = [], bdHeartbeats = [], bdResumes = [],
     bdDoneVerdicts = [], bdDoneCompleted = [], bdFailedVerdicts = [], bdFailedDiagnostics = [], bdFailedManifests = [],
     bdFailedHistory = [], bdLanding = []\<rparr>"

definition manifest_for :: "string \<Rightarrow> string option \<Rightarrow> DispatchManifest" where
  "manifest_for i g = \<lparr>mfTaskId = i, mfBranch = [], mfWorkerKind = AnyKind, mfDispatchedAt = [], mfPayload = [],
     mfIterationsAttempted = None, mfIterationBudget = None, mfNoClaimBefore = None, mfAfter = None,
     mfSequenceGroup = g, mfPriority = None, mfWave = None, mfFixesPr = None, mfBlockedBy = None, mfBlock = None,
     mfRetryCount = None, mfWorkerId = None, mfResume = None, mfReorderNote = None, mfRulingUntil = None\<rparr>"

definition with_queue :: "string list \<Rightarrow> DispatchBoard" where
  "with_queue is = empty_board\<lparr>bdQueue := map (\<lambda>i. (i, \<lparr>fileBody = Some (manifest_for i None), fileMtime = 0\<rparr>)) is\<rparr>"

definition held_by :: "string \<Rightarrow> string \<Rightarrow> DispatchManifest" where
  "held_by i w = (manifest_for i None)\<lparr>mfWorkerId := Some w\<rparr>"

definition held_file :: "string \<Rightarrow> string \<Rightarrow> string \<times> DispatchManifest BoardFile" where
  "held_file i w = (i, \<lparr>fileBody = Some (held_by i w), fileMtime = 5\<rparr>)"

lemma plain_ops:
  "writeManifest 0 (manifest_for ''T-1'' None) empty_board = Inr (with_queue [''T-1''])"
  "writeManifest 0 (manifest_for ''T-2'' None) (with_queue [''T-1'']) = Inr (with_queue [''T-1'', ''T-2''])"
  "claimNext plain_env InSessionAgent 5 (Some ''w'') None (with_queue [''T-1'', ''T-2'']) =
     Inr ((with_queue [''T-2''])\<lparr>bdInflight := [held_file ''T-1'' ''w'']\<rparr>, Some (held_by ''T-1'' ''w''))"
  "claimNext plain_env InSessionAgent 5 (Some ''v'') None ((with_queue [''T-2''])\<lparr>bdInflight := [held_file ''T-1'' ''w'']\<rparr>) =
     Inr (empty_board\<lparr>bdInflight := [held_file ''T-1'' ''w'', held_file ''T-2'' ''v'']\<rparr>, Some (held_by ''T-2'' ''v''))"
  by code_simp+

lemma queued_run:
  "runs (worker_step env) empty_board
     [BWrite 0 (manifest_for ''T-1'' None), BWrite 0 (manifest_for ''T-2'' None)] (with_queue [''T-1'', ''T-2''])"
  using plain_ops(1,2) by (auto simp: worker_step_def named_claim_def tidy_step_def tidy_def has_key_def
      empty_board_def with_queue_def intro!: exI board_step.intros(1))

lemma first_claim:
  "worker_step plain_env (with_queue [''T-1'', ''T-2'']) (BClaim InSessionAgent 5 (Some ''w'') None)
     ((with_queue [''T-2''])\<lparr>bdInflight := [held_file ''T-1'' ''w'']\<rparr>)"
  using board_step.intros(5) [OF plain_ops(3)] by (simp add: worker_step_def named_claim_def tidy_step_def tidy_def)

lemma second_claim:
  "worker_step plain_env ((with_queue [''T-2''])\<lparr>bdInflight := [held_file ''T-1'' ''w'']\<rparr>)
     (BClaim InSessionAgent 5 (Some ''v'') None) (empty_board\<lparr>bdInflight := [held_file ''T-1'' ''w'', held_file ''T-2'' ''v'']\<rparr>)"
  using board_step.intros(5) [OF plain_ops(4)] by (simp add: worker_step_def named_claim_def tidy_step_def tidy_def)

lemma tidy_run: "runs (worker_step env) b es b' \<Longrightarrow> runs (tidy_step env) b es b'"
  by (erule runs_mono) (simp add: worker_step_def)

lemma empty_fresh: "fresh_board empty_board"
  by (simp add: fresh_board_def empty_board_def)

lemma first_tidy: "tidy_step plain_env (with_queue [''T-1'', ''T-2'']) (BClaim InSessionAgent 5 (Some ''w'') None)
     ((with_queue [''T-2''])\<lparr>bdInflight := [held_file ''T-1'' ''w'']\<rparr>)"
  using first_claim by (simp add: worker_step_def)

theorem one_directory_per_task_witness:
  "(place (with_queue [''T-1'', ''T-2'']) ''T-1'',
    place ((with_queue [''T-2''])\<lparr>bdInflight := [held_file ''T-1'' ''w'']\<rparr>) ''T-1'') \<in> lifecycle"
proof -
  have "place (with_queue [''T-1'', ''T-2'']) ''T-1'' \<noteq> place ((with_queue [''T-2''])\<lparr>bdInflight := [held_file ''T-1'' ''w'']\<rparr>) ''T-1''"
    by code_simp
  then show ?thesis
    using one_directory_per_task [OF empty_fresh tidy_run [OF queued_run] first_tidy, of "''T-1''"] by metis
qed

theorem claims_are_exclusive_witness:
  "\<not> (mfWorkerId (held_by ''T-1'' ''w'') \<noteq> None \<and> mfWorkerId (held_by ''T-1'' ''w'') = mfWorkerId (held_by ''T-2'' ''v''))"
proof -
  let ?b = "empty_board\<lparr>bdInflight := [held_file ''T-1'' ''w'', held_file ''T-2'' ''v'']\<rparr>"
  have "runs (worker_step plain_env) empty_board ([BWrite 0 (manifest_for ''T-1'' None), BWrite 0 (manifest_for ''T-2'' None)]
      @ [BClaim InSessionAgent 5 (Some ''w'') None, BClaim InSessionAgent 5 (Some ''v'') None]) ?b"
    unfolding runs_append using queued_run [of plain_env] first_claim second_claim
    by (intro exI [of _ "with_queue [''T-1'', ''T-2'']"]) auto
  from claims_are_exclusive [OF empty_fresh this, of "''T-1''" "snd (held_file ''T-1'' ''w'')" _ "''T-2''" "snd (held_file ''T-2'' ''v'')"]
  show ?thesis by (simp add: held_file_def)
qed

theorem claim_takes_the_first_witness:
  "case offered plain_env InSessionAgent 5 (Some ''w'') (with_queue [''T-1'', ''T-2'']) of
     [] \<Rightarrow> False | r # rs \<Rightarrow> mfTaskId (rkManifest r) = ''T-1''"
proof -
  have "mfTaskId (held_by ''T-1'' ''w'') = ''T-1''" by (simp add: held_by_def manifest_for_def)
  then show ?thesis using claim_takes_the_first [OF empty_fresh tidy_run [OF queued_run] plain_ops(3)]
    by (auto split: list.splits)
qed

theorem tasks_stay_on_the_board_witness:
  "isOnBoard ''T-1'' ((with_queue [''T-2''])\<lparr>bdInflight := [held_file ''T-1'' ''w'']\<rparr>)"
proof -
  have "runs (tidy_step plain_env) (with_queue [''T-1'', ''T-2'']) [BClaim InSessionAgent 5 (Some ''w'') None]
      ((with_queue [''T-2''])\<lparr>bdInflight := [held_file ''T-1'' ''w'']\<rparr>)"
    using first_tidy by simp
  moreover have "isOnBoard ''T-1'' (with_queue [''T-1'', ''T-2''])" by code_simp
  moreover have "\<forall>ev \<in> set [BClaim InSessionAgent 5 (Some ''w'') None]. ''T-1'' \<notin> set (takes_off ev)"
    by (simp add: takes_off_def)
  ultimately show ?thesis by (rule tasks_stay_on_the_board [OF empty_fresh tidy_run [OF queued_run]])
qed

definition dated_env :: BoardEnv where
  "dated_env = plain_env\<lparr>envParse := (\<lambda>_. Some 0)\<rparr>"

definition late_board :: DispatchBoard where
  "late_board = (with_queue [''T-2''])\<lparr>bdInflight := [(''T-1'', \<lparr>fileBody = Some (held_by ''T-1'' ''w''), fileMtime = 1800000\<rparr>)]\<rparr>"

lemma late_ops:
  "claimNext dated_env InSessionAgent 1800000 (Some ''w'') None (with_queue [''T-1'', ''T-2'']) = Inr (late_board, Some (held_by ''T-1'' ''w''))"
  "sweepStaleHeartbeats dated_env 1800000 None late_board = Inr ((with_queue [''T-2''])\<lparr>bdFailedDiagnostics :=
     [(''T-1'', Some (stale_diagnostic dated_env 1800000 ''T-1'' (held_by ''T-1'' ''w'') late_board))]\<rparr>, [''T-1''])"
  by code_simp+

theorem fresh_claim_is_reaped_witness:
  "inflightClaimedAtMs ''T-1'' late_board = Some 1800000"
proof -
  have "mfTaskId (held_by ''T-1'' ''w'') = ''T-1''" by (simp add: held_by_def manifest_for_def)
  then show ?thesis
    using fresh_claim_is_reaped [OF empty_fresh tidy_run [OF queued_run] late_ops(1), of 0, OF _ _ _ late_ops(2)]
    by (simp add: readHeartbeat_def with_queue_def empty_board_def dated_env_def DEFAULT_HEARTBEAT_STALE_MS_def)
qed

lemma late_run:
  "runs (tidy_step dated_env) empty_board ([BWrite 0 (manifest_for ''T-1'' None), BWrite 0 (manifest_for ''T-2'' None)]
      @ [BClaim InSessionAgent 1800000 (Some ''w'') None]) late_board"
proof -
  have "tidy_step dated_env (with_queue [''T-1'', ''T-2'']) (BClaim InSessionAgent 1800000 (Some ''w'') None) late_board"
    using board_step.intros(5) [OF late_ops(1)] by (simp add: tidy_step_def tidy_def)
  then show ?thesis unfolding runs_append using tidy_run [OF queued_run [of dated_env]]
    by (intro exI [of _ "with_queue [''T-1'', ''T-2'']"]) simp
qed

theorem sweep_reaps_exactly_the_stale_witness:
  "filter (stale_claim dated_env 1800000 DEFAULT_HEARTBEAT_STALE_MS late_board) [''T-1''] = [''T-1'']"
proof -
  have k: "map_keys (bdInflight late_board) = [''T-1'']" by (simp add: late_board_def map_keys_def)
  have d: "or_else None DEFAULT_HEARTBEAT_STALE_MS = DEFAULT_HEARTBEAT_STALE_MS" by (simp add: or_else_def)
  show ?thesis by (rule sweep_reaps_exactly_the_stale [OF empty_fresh late_run late_ops(2), THEN conjunct1, unfolded k d, symmetric])
qed

definition sum_bind :: "BoardError + 'a \<Rightarrow> ('a \<Rightarrow> BoardError + 'c) \<Rightarrow> BoardError + 'c" where
  "sum_bind x f = (case x of Inl e \<Rightarrow> Inl e | Inr a \<Rightarrow> f a)"

text \<open>A task that was written to the queue while it was parked and claimed again is queued a second time when
  the decision comes, because unblocking looks into the queue only; the next claim overwrites the claim of the first
  worker.\<close>

theorem parked_task_claimed_twice:
  "sum_bind (writeManifest 0 (manifest_for ''T-1'' None) empty_board) (\<lambda>b1.
   sum_bind (claimNext plain_env InSessionAgent 1 (Some ''w1'') None b1) (\<lambda>(b2, r2).
   sum_bind (parkInflight ''T-1'' ''DEC-1'' b2) (\<lambda>(b3, r3).
   sum_bind (writeManifest 2 (manifest_for ''T-1'' None) b3) (\<lambda>b4.
   sum_bind (claimNext plain_env InSessionAgent 3 (Some ''w1'') None b4) (\<lambda>(b5, r5).
   sum_bind (unblockManifest ''T-1'' (Some ''DEC-1'') b5) (\<lambda>(b6, r6).
   sum_bind (claimNext plain_env InSessionAgent 4 (Some ''w2'') None b6) (\<lambda>(b7, r7).
     Inr (map_option mfWorkerId r5, map_keys (bdQueue b6), map_keys (bdInflight b6), map_option mfWorkerId r7,
       findHeldClaim b7 ''w1''))))))))
   = Inr (Some (Some ''w1''), [''T-1''], [''T-1''], Some (Some ''w2''), None)"
  by code_simp

end
