(* ===== verification/GroupClaim.thy ===== *)
theory GroupClaim
  imports Board Transitions
begin

text \<open>
  Claims of one sequence group by workers that run side by side: the part of \<open>claimNext\<close> from the
  claim rename to the decision (\<open>settleGroupClaim\<close>), with \<open>otherGroupHolders\<close> as a directory listing
  followed by one read per entry, so that other workers act in between. Every claimant tries another
  manifest of the group and is named by its task id.
\<close>

section \<open>The protocol\<close>

text \<open>Where a claimant is. The list of lists holds the scans it has finished, the first one first.\<close>

datatype ClaimPhase =
    Queued
  | Renamed
  | Scanning "string list list" "string list" "string list"  \<comment> \<open>entries still to read, holders found\<close>
  | Sleeping "string list list"
  | KeptClaim
  | Returning "string list list"

type_synonym group_state = "(string, ClaimPhase) jsmap"

datatype GroupEvent = Rename string | List string | Read string | Settle string | GiveBack string | Finish string

definition phase_of :: "group_state \<Rightarrow> string \<Rightarrow> ClaimPhase" where
  "phase_of s t = (case map_of s t of None \<Rightarrow> Queued | Some p \<Rightarrow> p)"

text \<open>The manifests of the group in the inflight directory.\<close>

definition in_inflight :: "group_state \<Rightarrow> string \<Rightarrow> bool" where
  "in_inflight s t \<longleftrightarrow> phase_of s t \<noteq> Queued"

definition listing :: "group_state \<Rightarrow> string \<Rightarrow> string list" where
  "listing s t = filter (\<lambda>j. j \<noteq> t \<and> in_inflight s j) (map_keys s)"

definition decided :: "string \<Rightarrow> string list list \<Rightarrow> ClaimPhase" where
  "decided t scans = (case scans of
     [] \<Rightarrow> Renamed
   | first # polls \<Rightarrow>
       if settleGroupClaim t first polls then KeptClaim
       else if list_ex (\<lambda>i. str_less i t) first \<or> length polls \<ge> 20 then Returning scans
       else Sleeping scans)"

text \<open>What each event does to the claimant it names; \<open>None\<close> where it cannot happen. \<open>Finish\<close> is whatever ends a kept
  claim.\<close>

definition next_phase :: "group_state \<Rightarrow> GroupEvent \<Rightarrow> (string \<times> ClaimPhase) option" where
  "next_phase s ev = (case ev of
     Rename t \<Rightarrow> if phase_of s t = Queued then Some (t, Renamed) else None
   | List t \<Rightarrow> (case phase_of s t of
         Renamed \<Rightarrow> Some (t, Scanning [] (listing s t) [])
       | Sleeping scans \<Rightarrow> Some (t, Scanning scans (listing s t) [])
       | _ \<Rightarrow> None)
   | Read t \<Rightarrow> (case phase_of s t of
         Scanning scans (j # todo) found \<Rightarrow>
           Some (t, Scanning scans todo (if in_inflight s j then found @ [j] else found))
       | _ \<Rightarrow> None)
   | Settle t \<Rightarrow> (case phase_of s t of
         Scanning scans [] found \<Rightarrow> Some (t, decided t (scans @ [found]))
       | _ \<Rightarrow> None)
   | GiveBack t \<Rightarrow> (case phase_of s t of Returning scans \<Rightarrow> Some (t, Queued) | _ \<Rightarrow> None)
   | Finish t \<Rightarrow> (if phase_of s t = KeptClaim then Some (t, Queued) else None))"

definition group_event :: "group_state \<Rightarrow> GroupEvent \<Rightarrow> group_state option" where
  "group_event s ev = map_option (\<lambda>(t, p). map_set t p s) (next_phase s ev)"

definition group_step :: "group_state \<Rightarrow> GroupEvent \<Rightarrow> group_state \<Rightarrow> bool" where
  "group_step s ev s' \<longleftrightarrow> group_event s ev = Some s'"

section \<open>The invariant\<close>

text \<open>\<open>a\<close> is still going to notice \<open>b\<close>, as long as \<open>b\<close> stays.\<close>

definition will_see :: "ClaimPhase \<Rightarrow> string \<Rightarrow> bool" where
  "will_see p b = (case p of
     Renamed \<Rightarrow> True
   | Scanning scans todo found \<Rightarrow> b \<in> set todo \<or> b \<in> set found
   | Sleeping scans \<Rightarrow> True
   | Returning scans \<Rightarrow> True
   | _ \<Rightarrow> False)"

definition one_sees :: "group_state \<Rightarrow> bool" where
  "one_sees s \<longleftrightarrow> (\<forall>a b. a \<noteq> b \<longrightarrow> in_inflight s a \<longrightarrow> in_inflight s b
     \<longrightarrow> will_see (phase_of s a) b \<or> will_see (phase_of s b) a)"

text \<open>The scans a claimant carries are those of a claim that is not settled yet.\<close>

definition rivals_seen :: "string \<Rightarrow> string list list \<Rightarrow> bool" where
  "rivals_seen t scans \<longleftrightarrow> (\<forall>h \<in> set scans. h \<noteq> [])
     \<and> (scans \<noteq> [] \<longrightarrow> \<not> list_ex (\<lambda>i. str_less i t) (hd scans)) \<and> length scans \<le> 20"

definition handed_back :: "string \<Rightarrow> string list list \<Rightarrow> bool" where
  "handed_back t scans \<longleftrightarrow> scans \<noteq> [] \<and> (list_ex (\<lambda>i. str_less i t) (hd scans)
     \<or> length scans = 21 \<and> (\<forall>h \<in> set scans. h \<noteq> []))"

definition phase_ok :: "string \<Rightarrow> ClaimPhase \<Rightarrow> bool" where
  "phase_ok t p = (case p of
     Scanning scans todo found \<Rightarrow> rivals_seen t scans
   | Sleeping scans \<Rightarrow> rivals_seen t scans \<and> scans \<noteq> []
   | Returning scans \<Rightarrow> handed_back t scans
   | _ \<Rightarrow> True)"

lemma phase_of_set [simp]: "phase_of (map_set t p s) j = (if j = t then p else phase_of s j)"
  by (simp add: phase_of_def)

lemma in_inflight_key: "in_inflight s t \<Longrightarrow> t \<in> set (map_keys s)"
  by (auto simp: in_inflight_def phase_of_def split: option.splits dest: map_of_Some_keys)

lemma mem_listing: "b \<in> set (listing s a) \<longleftrightarrow> b \<noteq> a \<and> in_inflight s b"
  by (auto simp: listing_def in_inflight_key)

lemma decided_cases:
  assumes "rivals_seen t scans"
  shows "decided t (scans @ [found]) = (if found = [] then KeptClaim
    else if scans = [] \<and> list_ex (\<lambda>i. str_less i t) found \<or> length scans = 20 then Returning (scans @ [found])
    else Sleeping (scans @ [found]))"
proof (cases scans)
  case Nil
  then show ?thesis by (simp add: decided_def settleGroupClaim_def)
next
  case (Cons first polls)
  then have p: "\<forall>h \<in> set polls. h \<noteq> []" "first \<noteq> []" "\<not> list_ex (\<lambda>i. str_less i t) first" "length polls \<le> 19"
    using assms by (auto simp: rivals_seen_def)
  then have "list_ex (\<lambda>h. h = []) (take 20 (polls @ [found])) \<longleftrightarrow> found = []"
    by (auto simp: list_ex_iff)
  with p Cons show ?thesis by (auto simp: decided_def settleGroupClaim_def)
qed

definition group_ok :: "group_state \<Rightarrow> bool" where
  "group_ok s \<longleftrightarrow> one_sees s \<and> (\<forall>t. phase_ok t (phase_of s t))"

lemma one_sees_update:
  assumes s: "one_sees s"
    and keep: "\<And>b. b \<noteq> t \<Longrightarrow> in_inflight s b \<Longrightarrow> p \<noteq> Queued \<Longrightarrow> will_see p b \<or> will_see (phase_of s b) t"
  shows "one_sees (map_set t p s)"
  using s keep unfolding one_sees_def in_inflight_def by (simp (no_asm_simp)) blast

lemma will_see_simps [simp]:
  "will_see Renamed b" "will_see (Sleeping scans) b" "will_see (Returning scans) b"
  "\<not> will_see KeptClaim b" "\<not> will_see Queued b"
  "will_see (Scanning scans todo found) b \<longleftrightarrow> b \<in> set todo \<or> b \<in> set found"
  by (simp_all add: will_see_def)

lemma one_seesD:
  "one_sees s \<Longrightarrow> a \<noteq> b \<Longrightarrow> in_inflight s b \<Longrightarrow> phase_of s a \<noteq> Queued
    \<Longrightarrow> will_see (phase_of s a) b \<or> will_see (phase_of s b) a"
  by (simp add: one_sees_def in_inflight_def)

lemma settle_event:
  assumes "next_phase s (Settle t') = Some (t, p)" and "phase_ok t (phase_of s t)"
  shows "\<exists>scans found. t' = t \<and> phase_of s t = Scanning scans [] found \<and> p = decided t (scans @ [found]) \<and> rivals_seen t scans"
  using assms by (auto simp: next_phase_def phase_ok_def split: ClaimPhase.splits list.splits)

lemma read_event:
  assumes "next_phase s (Read t') = Some (t, p)"
  shows "\<exists>scans j todo found. t' = t \<and> phase_of s t = Scanning scans (j # todo) found
    \<and> p = Scanning scans todo (if in_inflight s j then found @ [j] else found)"
  using assms by (auto simp: next_phase_def split: ClaimPhase.split_asm list.split_asm split del: if_split)

lemma step_sees:
  assumes n: "next_phase s ev = Some (t, p)" and ok: "group_ok s"
  shows "one_sees (map_set t p s)"
proof (rule one_sees_update)
  show o: "one_sees s" using ok by (simp add: group_ok_def)
  fix b assume b: "b \<noteq> t" "in_inflight s b" and p: "p \<noteq> Queued"
  show "will_see p b \<or> will_see (phase_of s b) t"
  proof (cases ev)
    case (Read t')
    obtain scans j todo found where r: "phase_of s t = Scanning scans (j # todo) found"
        "p = Scanning scans todo (if in_inflight s j then found @ [j] else found)"
      using read_event [OF n [unfolded Read]] by blast
    have "will_see (phase_of s t) b \<or> will_see (phase_of s b) t"
      using one_seesD [OF o b(1) [symmetric] b(2)] r(1) by simp
    then show ?thesis using b(2) r by auto
  next
    case (Settle t')
    obtain scans found where r: "phase_of s t = Scanning scans [] found" "p = decided t (scans @ [found])" "rivals_seen t scans"
      using settle_event [OF n [unfolded Settle]] ok unfolding group_ok_def by blast
    have "will_see (phase_of s t) b \<or> will_see (phase_of s b) t"
      using one_seesD [OF o b(1) [symmetric] b(2)] r(1) by simp
    then show ?thesis using r(1) unfolding r(2) decided_cases [OF r(3)] by auto
  qed (use n b p in \<open>auto simp: next_phase_def mem_listing split: if_splits ClaimPhase.splits\<close>)
qed

lemma step_phase_ok:
  assumes n: "next_phase s ev = Some (t, p)" and ok: "phase_ok t (phase_of s t)"
  shows "phase_ok t p"
proof (cases ev)
  case (Settle t')
  obtain scans found where r: "p = decided t (scans @ [found])" "rivals_seen t scans"
    using settle_event [OF n [unfolded Settle] ok] by blast
  then show ?thesis unfolding r(1) decided_cases [OF r(2)]
    by (auto simp: phase_ok_def handed_back_def rivals_seen_def hd_append)
qed (use n ok in \<open>auto simp: next_phase_def phase_ok_def rivals_seen_def split: if_splits ClaimPhase.splits list.splits\<close>)

lemma group_step_ok: "group_step s ev s' \<Longrightarrow> group_ok s \<Longrightarrow> group_ok s'"
  using step_sees step_phase_ok unfolding group_step_def group_event_def group_ok_def by auto

interpretation group_invariant: step_invariant group_step group_ok
  by unfold_locales (rule group_step_ok)

definition all_queued :: "group_state \<Rightarrow> bool" where
  "all_queued s \<longleftrightarrow> list_all (\<lambda>e. snd e = Queued) s"

lemma all_queued_ok: "all_queued s \<Longrightarrow> group_ok s"
proof -
  assume "all_queued s"
  then have "phase_of s t = Queued" for t
    by (fastforce simp: all_queued_def phase_of_def list_all_iff split: option.split dest: map_of_SomeD)
  then show ?thesis by (simp add: group_ok_def one_sees_def in_inflight_def phase_ok_def)
qed

fun group_run :: "group_state \<Rightarrow> GroupEvent list \<Rightarrow> group_state option" where
  "group_run s [] = Some s"
| "group_run s (e # es) = (case group_event s e of None \<Rightarrow> None | Some s1 \<Rightarrow> group_run s1 es)"

lemma group_run_iff: "group_run s es = Some s' \<longleftrightarrow> runs group_step s es s'"
  by (induction es arbitrary: s) (auto simp: group_step_def split: option.splits)

section \<open>Properties\<close>

text \<open>C7. However the claimants of a sequence group interleave, at most one of them keeps its claim at a time.\<close>

theorem group_claim_exclusive:
  assumes "all_queued s0" and "runs group_step s0 es s"
    and "phase_of s a = KeptClaim" and "phase_of s b = KeptClaim"
  shows "a = b"
proof (rule ccontr)
  assume "a \<noteq> b"
  moreover have "one_sees s" using group_invariant.along [OF assms(2) all_queued_ok [OF assms(1)]] by (simp add: group_ok_def)
  ultimately show False using assms(3,4) unfolding one_sees_def in_inflight_def by (metis ClaimPhase.distinct(7) will_see_simps(4))
qed

definition kept_run :: "GroupEvent list" where
  "kept_run = [Rename ''T-1'', List ''T-1'', Rename ''T-2'', Settle ''T-1'', List ''T-2'', Read ''T-2'', Settle ''T-2'']"

definition kept_state :: group_state where
  "kept_state = [(''T-1'', KeptClaim), (''T-2'', Returning [[''T-1'']])]"

lemma kept_run: "runs group_step [(''T-1'', Queued), (''T-2'', Queued)] kept_run kept_state"
proof -
  have "group_run [(''T-1'', Queued), (''T-2'', Queued)] kept_run = Some kept_state" by code_simp
  then show ?thesis by (simp add: group_run_iff)
qed

lemma two_queued: "all_queued [(''T-1'', Queued), (''T-2'', Queued)]"
  by (simp add: all_queued_def)

theorem group_claim_exclusive_witness:
  "phase_of kept_state ''T-1'' = KeptClaim \<and> phase_of kept_state ''T-2'' \<noteq> KeptClaim"
proof -
  have "phase_of kept_state ''T-1'' = KeptClaim" by (simp add: kept_state_def phase_of_def)
  with group_claim_exclusive [OF two_queued kept_run this, of "''T-2''"] show ?thesis by auto
qed

text \<open>A claimant hands its claim back only if its first scan found a rival with a lower task id, or each of its
  twenty-one scans found a rival.\<close>

theorem claim_returned_for_a_rival:
  assumes "all_queued s0" and "runs group_step s0 es s" and "group_event s (GiveBack t) = Some s'"
  shows "\<exists>first polls. phase_of s t = Returning (first # polls)
    \<and> ((\<exists>i \<in> set first. str_less i t) \<or> length polls = 20 \<and> (\<forall>h \<in> set (first # polls). h \<noteq> []))"
proof -
  have "phase_ok t (phase_of s t)"
    using group_invariant.along [OF assms(2) all_queued_ok [OF assms(1)]] by (simp add: group_ok_def)
  moreover obtain scans where "phase_of s t = Returning scans"
    using assms(3) by (auto simp: group_event_def next_phase_def split: ClaimPhase.splits)
  ultimately show ?thesis by (cases scans) (auto simp: phase_ok_def handed_back_def list_ex_iff)
qed

theorem claim_returned_for_a_rival_witness:
  "\<exists>first polls. phase_of kept_state ''T-2'' = Returning (first # polls)
    \<and> ((\<exists>i \<in> set first. str_less i ''T-2'') \<or> length polls = 20 \<and> (\<forall>h \<in> set (first # polls). h \<noteq> []))"
proof -
  have "group_event kept_state (GiveBack ''T-2'') = Some [(''T-1'', KeptClaim), (''T-2'', Queued)]" by code_simp
  from claim_returned_for_a_rival [OF two_queued kept_run this] show ?thesis .
qed

text \<open>One round of a claimant with one rival: list, read, settle.\<close>

definition scan_round :: "string \<Rightarrow> GroupEvent list" where
  "scan_round t = [List t, Read t, Settle t]"

definition slow_rival_events :: "GroupEvent list" where
  "slow_rival_events = [Rename ''T-1'', Rename ''T-2''] @ concat (replicate 21 (scan_round ''T-1''))
     @ scan_round ''T-2'' @ [GiveBack ''T-1'', GiveBack ''T-2'']"

text \<open>When the claimant with the higher id is slower than the twenty polls of the other, both hand their
  claims back and nobody holds the group.\<close>

theorem both_claimants_roll_back:
  "group_run [(''T-1'', Queued), (''T-2'', Queued)] slow_rival_events = Some [(''T-1'', Queued), (''T-2'', Queued)]"
  by code_simp

end
