(* ===== verification/Sessions.thy ===== *)
theory Sessions
  imports BoardOps
begin

text \<open>
  The session files next to the dispatch board, \<open>pipeline-cli/src/dispatch/sessions.ts\<close>, and the reapers of
  \<open>session-reaper.ts\<close>. The session directory is a map from the lower-case task id in the file name to the parsed
  file (\<open>None\<close> when it does not parse); files are written whole.
\<close>

section \<open>Session files\<close>

datatype SessionStatus = Starting | InProgress | SDone | SFailed | SCancelled

record DispatchSession =
  seTaskId :: string
  seTmuxSession :: "string option"
  seSpawnedAt :: string
  seStatus :: SessionStatus
  seLastHeartbeat :: "string option"
  sePrUrl :: "string option"
  seAgentId :: "string option"
  seTranscript :: "string option"
  seWorktree :: "string option"

record CancelSignal =
  csTaskId :: string
  csCancelledAt :: string
  csReason :: "string option"
  csCancelledBy :: "string option"

record SessionStore =
  ssFiles :: "(string, DispatchSession option) jsmap"
  ssCancels :: "(string, CancelSignal option) jsmap"
  ssArchive :: "(string, DispatchSession option) jsmap"

definition writeCancelSignal :: "CancelSignal \<Rightarrow> string option \<Rightarrow> string option \<Rightarrow> SessionStore \<Rightarrow> SessionStore" where
  "writeCancelSignal s reason cancelledBy st = st\<lparr>ssCancels := map_set (toLowerCase (csTaskId s))
     (Some (s\<lparr>csReason := patched reason (csReason s), csCancelledBy := patched cancelledBy (csCancelledBy s)\<rparr>)) (ssCancels st)\<rparr>"

definition readCancelSignal :: "string \<Rightarrow> SessionStore \<Rightarrow> CancelSignal option" where
  "readCancelSignal i st = (case map_of (ssCancels st) (toLowerCase i) of None \<Rightarrow> None | Some s \<Rightarrow> s)"

definition removeCancelSignal :: "string \<Rightarrow> SessionStore \<Rightarrow> SessionStore" where
  "removeCancelSignal i st = st\<lparr>ssCancels := map_del (toLowerCase i) (ssCancels st)\<rparr>"

definition writeSession :: "DispatchSession \<Rightarrow> SessionStore \<Rightarrow> SessionStore" where
  "writeSession s st = st\<lparr>ssFiles := map_set (toLowerCase (seTaskId s)) (Some s) (ssFiles st)\<rparr>"

definition readSession :: "string \<Rightarrow> SessionStore \<Rightarrow> DispatchSession option" where
  "readSession i st = (case map_of (ssFiles st) (toLowerCase i) of None \<Rightarrow> None | Some s \<Rightarrow> s)"

text \<open>The merge is written under the task id of the record, which need not be the one it was read under.\<close>

definition updateSession :: "string \<Rightarrow> (DispatchSession \<Rightarrow> DispatchSession) \<Rightarrow> SessionStore \<Rightarrow> SessionStore" where
  "updateSession i updates st = (case readSession i st of None \<Rightarrow> st | Some s \<Rightarrow> writeSession (updates s) st)"

definition recordAgentSession ::
  "string \<Rightarrow> string \<Rightarrow> string \<Rightarrow> string option \<Rightarrow> string \<Rightarrow> SessionStore \<Rightarrow> SessionStore \<times> DispatchSession" where
  "recordAgentSession i agentId worktree transcript nowIso st =
     (let base = (case readSession i st of Some s \<Rightarrow> s
          | None \<Rightarrow> \<lparr>seTaskId = i, seTmuxSession = None, seSpawnedAt = nowIso, seStatus = InProgress, seLastHeartbeat = None,
              sePrUrl = None, seAgentId = None, seTranscript = None, seWorktree = None\<rparr>);
          s1 = base\<lparr>seStatus := InProgress, seLastHeartbeat := Some nowIso, seAgentId := Some agentId, seWorktree := Some worktree\<rparr>;
          s2 = (if truthy transcript then s1\<lparr>seTranscript := transcript\<rparr> else s1)
      in (writeSession s2 st, s2))"

definition markSessionOutcome :: "string \<Rightarrow> SessionStatus \<Rightarrow> string option \<Rightarrow> SessionStore \<Rightarrow> SessionStore" where
  "markSessionOutcome i outcome prUrl st =
     updateSession i (\<lambda>s. (if truthy prUrl then s\<lparr>seStatus := outcome, sePrUrl := prUrl\<rparr> else s\<lparr>seStatus := outcome\<rparr>)) st"

definition listSessions :: "SessionStore \<Rightarrow> DispatchSession list" where
  "listSessions st = List.map_filter snd (ssFiles st)"

definition active_status :: "SessionStatus \<Rightarrow> bool" where
  "active_status s \<longleftrightarrow> s = Starting \<or> s = InProgress"

definition listActiveSessions :: "SessionStore \<Rightarrow> DispatchSession list" where
  "listActiveSessions st = filter (\<lambda>s. active_status (seStatus s)) (listSessions st)"

definition isSessionActive :: "string \<Rightarrow> SessionStore \<Rightarrow> bool" where
  "isSessionActive i st = (case readSession i st of None \<Rightarrow> False | Some s \<Rightarrow> active_status (seStatus s))"

definition countActiveSessions :: "SessionStore \<Rightarrow> nat" where
  "countActiveSessions st = length (listActiveSessions st)"

definition archiveSession :: "string \<Rightarrow> SessionStore \<Rightarrow> SessionStore \<times> bool" where
  "archiveSession i st = (let k = toLowerCase i in
     case map_of (ssFiles st) k of
       None \<Rightarrow> (st, False)
     | Some f \<Rightarrow> (st\<lparr>ssArchive := map_set k f (ssArchive st), ssFiles := map_del k (ssFiles st)\<rparr>, True))"

section \<open>The session reaper\<close>

definition DEFAULT_SESSION_STALE_MS :: int where
  "DEFAULT_SESSION_STALE_MS = 30 * 60 * 1000"

record ReapedSession =
  rpTaskId :: string
  rpLastHeartbeat :: string
  rpBoardReconciled :: bool

definition anchor :: "DispatchSession \<Rightarrow> string" where
  "anchor s = or_else (seLastHeartbeat s) (seSpawnedAt s)"

definition stale_session :: "BoardEnv \<Rightarrow> int \<Rightarrow> DispatchSession \<Rightarrow> bool" where
  "stale_session env cutoff s \<longleftrightarrow> active_status (seStatus s) \<and> truthy (seTmuxSession s) \<and> anchor s \<noteq> []
     \<and> (case envParse env (anchor s) of None \<Rightarrow> False | Some t \<Rightarrow> t \<le> cutoff)"

definition reaper_verdict :: "BoardEnv \<Rightarrow> int \<Rightarrow> string \<Rightarrow> string \<Rightarrow> string \<Rightarrow> DispatchVerdict" where
  "reaper_verdict env now i w cause = \<lparr>dvTaskId = i, dvOutcome = VFailed, dvCompletedAt = envIso env now, dvWorkerId = w,
     dvWorkerKind = None, dvCause = Some cause, dvIterationsAttempted = None, dvLanded = None\<rparr>"

text \<open>A failing diagnostic is ignored; the existence test looks at the file name alone.\<close>

definition try_diagnostic :: "DispatchVerdict \<Rightarrow> DispatchBoard \<Rightarrow> DispatchBoard" where
  "try_diagnostic v b = (case writeDiagnostic v b of Inl e \<Rightarrow> b | Inr b1 \<Rightarrow> b1)"

definition reap_session ::
  "BoardEnv \<Rightarrow> int \<Rightarrow> DispatchSession \<Rightarrow> SessionStore \<times> DispatchBoard
    \<Rightarrow> BoardError + (SessionStore \<times> DispatchBoard) \<times> ReapedSession" where
  "reap_session env now s st =
     (let ss1 = updateSession (seTaskId s) (\<lambda>x. x\<lparr>seStatus := SFailed, seLastHeartbeat := Some (envIso env now)\<rparr>) (fst st) in
      case sweepStaleHeartbeats env now (Some 0) (snd st) of
        Inl e \<Rightarrow> Inl e
      | Inr (b1, swept) \<Rightarrow>
          (let reconciled = seTaskId s \<in> set swept;
               b2 = (if \<not> reconciled \<and> \<not> has_key (seTaskId s) (bdInflight b1)
                 then try_diagnostic (reaper_verdict env now (seTaskId s) ''session-reaper'' ''stale-heartbeat'') b1 else b1)
           in Inr ((ss1, b2), \<lparr>rpTaskId = seTaskId s, rpLastHeartbeat = anchor s, rpBoardReconciled = reconciled\<rparr>)))"

fun reap_loop ::
  "BoardEnv \<Rightarrow> int \<Rightarrow> int \<Rightarrow> DispatchSession list \<Rightarrow> SessionStore \<times> DispatchBoard
    \<Rightarrow> BoardError + (SessionStore \<times> DispatchBoard) \<times> ReapedSession list" where
  "reap_loop env now cutoff [] st = Inr (st, [])"
| "reap_loop env now cutoff (s # sessions) st =
     (if \<not> stale_session env cutoff s then reap_loop env now cutoff sessions st
      else (case reap_session env now s st of
          Inl e \<Rightarrow> Inl e
        | Inr (st1, r) \<Rightarrow> (case reap_loop env now cutoff sessions st1 of
            Inl e \<Rightarrow> Inl e
          | Inr (st2, rs) \<Rightarrow> Inr (st2, r # rs))))"

definition reapStaleSessions ::
  "BoardEnv \<Rightarrow> int \<Rightarrow> int option \<Rightarrow> SessionStore \<times> DispatchBoard
    \<Rightarrow> BoardError + (SessionStore \<times> DispatchBoard) \<times> ReapedSession list \<times> string list" where
  "reapStaleSessions env now staleMs st =
     (let stale = or_else staleMs DEFAULT_SESSION_STALE_MS in
      case reap_loop env now (now - stale) (listSessions (fst st)) st of
        Inl e \<Rightarrow> Inl e
      | Inr ((ss1, b1), reaped) \<Rightarrow>
          (case sweepStaleHeartbeats env now (Some stale) b1 of
             Inl e \<Rightarrow> Inl e
           | Inr (b2, swept) \<Rightarrow> Inr ((ss1, b2), reaped, filter (\<lambda>i. i \<notin> set (map rpTaskId reaped)) swept)))"

definition honorCancelIfRequested :: "BoardEnv \<Rightarrow> int \<Rightarrow> string \<Rightarrow> SessionStore \<times> DispatchBoard \<Rightarrow> (SessionStore \<times> DispatchBoard) \<times> bool" where
  "honorCancelIfRequested env now i st =
     (case readCancelSignal i (fst st) of
        None \<Rightarrow> (st, False)
      | Some sig \<Rightarrow>
          ((updateSession i (\<lambda>s. s\<lparr>seStatus := SCancelled, seLastHeartbeat := Some (envIso env now)\<rparr>) (removeCancelSignal i (fst st)),
            try_diagnostic (reaper_verdict env now i ''session-cancel-handler'' ''operator-cancel'') (snd st)), True))"

section \<open>The requeue reaper\<close>

definition DEFAULT_REQUEUE_RETRY_LIMIT :: nat where
  "DEFAULT_REQUEUE_RETRY_LIMIT = 2"

datatype StaleReason = OffRoster string | NoHeartbeatFor int

record RequeueResult =
  rqRequeued :: "(string \<times> nat \<times> StaleReason) list"
  rqFailed :: "(string \<times> nat \<times> StaleReason) list"

definition claim_tick :: "BoardEnv \<Rightarrow> string \<Rightarrow> DispatchManifest \<Rightarrow> DispatchBoard \<Rightarrow> int option" where
  "claim_tick env i m b = (case readHeartbeat i b of
     Some h \<Rightarrow> envParse env (hbLastHeartbeat h)
   | None \<Rightarrow> (case inflightClaimedAtMs i b of Some t \<Rightarrow> Some t | None \<Rightarrow> envParse env (mfDispatchedAt m)))"

definition stale_reason :: "BoardEnv \<Rightarrow> int \<Rightarrow> int \<Rightarrow> string list option \<Rightarrow> string \<Rightarrow> DispatchManifest \<Rightarrow> DispatchBoard \<Rightarrow> StaleReason option" where
  "stale_reason env now staleMs roster i m b =
     (case (roster, readHeartbeat i b) of
        (Some names, Some h) \<Rightarrow>
          if hbWorkerId h \<noteq> [] \<and> hbWorkerId h \<notin> set names then Some (OffRoster (hbWorkerId h))
          else (case claim_tick env i m b of None \<Rightarrow> None | Some t \<Rightarrow> if t \<le> now - staleMs then Some (NoHeartbeatFor staleMs) else None)
      | _ \<Rightarrow> (case claim_tick env i m b of None \<Rightarrow> None | Some t \<Rightarrow> if t \<le> now - staleMs then Some (NoHeartbeatFor staleMs) else None))"

definition requeue_entry ::
  "BoardEnv \<Rightarrow> int \<Rightarrow> int \<Rightarrow> nat \<Rightarrow> string list option \<Rightarrow> string \<Rightarrow> DispatchBoard \<times> RequeueResult
    \<Rightarrow> BoardError + DispatchBoard \<times> RequeueResult" where
  "requeue_entry env now staleMs retryLimit roster i st =
     (let b = fst st; res = snd st in
      if \<not> is_task_id i then Inl (BadTaskId i)
      else (case readManifest i (bdInflight b) of
          None \<Rightarrow> Inr st
        | Some m \<Rightarrow> (case stale_reason env now staleMs roster i m b of
            None \<Rightarrow> Inr st
          | Some reason \<Rightarrow>
              (let retryCount = or_else (mfRetryCount m) 0 + 1 in
               if retryCount > retryLimit then
                 (case writeDiagnostic (reaper_verdict env now i ''session-reaper'' ''retry-limit-exceeded'') b of
                    Inl e \<Rightarrow> Inl e
                  | Inr b1 \<Rightarrow> Inr (b1, res\<lparr>rqFailed := rqFailed res @ [(i, retryCount, reason)]\<rparr>))
               else (case requeueInflight env i retryCount b of
                    Inl e \<Rightarrow> Inl e
                  | Inr (b1, ok) \<Rightarrow> Inr (b1, if ok then res\<lparr>rqRequeued := rqRequeued res @ [(i, retryCount, reason)]\<rparr> else res))))))"

fun requeue_loop ::
  "BoardEnv \<Rightarrow> int \<Rightarrow> int \<Rightarrow> nat \<Rightarrow> string list option \<Rightarrow> string list \<Rightarrow> DispatchBoard \<times> RequeueResult
    \<Rightarrow> BoardError + DispatchBoard \<times> RequeueResult" where
  "requeue_loop env now staleMs retryLimit roster [] st = Inr st"
| "requeue_loop env now staleMs retryLimit roster (i # is) st =
     (case requeue_entry env now staleMs retryLimit roster i st of
        Inl e \<Rightarrow> Inl e
      | Inr st1 \<Rightarrow> requeue_loop env now staleMs retryLimit roster is st1)"

definition requeueStaleInflight ::
  "BoardEnv \<Rightarrow> int \<Rightarrow> int option \<Rightarrow> nat option \<Rightarrow> string list option \<Rightarrow> DispatchBoard
    \<Rightarrow> BoardError + DispatchBoard \<times> RequeueResult" where
  "requeueStaleInflight env now staleMs retryLimit roster b =
     requeue_loop env now (or_else staleMs DEFAULT_HEARTBEAT_STALE_MS) (or_else retryLimit DEFAULT_REQUEUE_RETRY_LIMIT) roster
       (map_keys (bdInflight b)) (b, \<lparr>rqRequeued = [], rqFailed = []\<rparr>)"

end
