(* ===== verification/SessionProps.thy ===== *)
theory SessionProps
  imports Sessions BoardExamples
begin

text \<open>
  What the reapers do to the board: one stale session makes the session reaper reap the claims of every task, and
  the requeue reaper gives every stale claim back to the queue until its retries are used up.
\<close>

section \<open>The session reaper\<close>

text \<open>A board on which the claim of a task has ended.\<close>

definition gone :: "string \<Rightarrow> DispatchBoard \<Rightarrow> bool" where
  "gone i b \<longleftrightarrow> map_of (bdInflight b) i = None"

lemma sweep_entry_gone: "sweep_entry env now st j b = Inr (b1, r) \<Longrightarrow> gone i b \<Longrightarrow> gone i b1"
  using reaped_fields(2) by (auto simp: gone_def split: if_splits)

lemma sweep_gone: "sweepStaleHeartbeats env now st b = Inr (b1, r) \<Longrightarrow> gone i b \<Longrightarrow> gone i b1"
proof -
  have "sweep_loop env now t is b = Inr (b1, r) \<Longrightarrow> gone i b \<Longrightarrow> gone i b1" for t "is"
  proof (induction "is" arbitrary: b r)
    case (Cons j "is")
    then obtain b2 r2 rs2 where e: "sweep_entry env now t j b = Inr (b2, r2)" "sweep_loop env now t is b2 = Inr (b1, rs2)"
      by (auto split: sum.splits)
    show ?case using Cons.IH [OF e(2) sweep_entry_gone [OF e(1) Cons.prems(2)]] .
  qed simp
  then show "sweepStaleHeartbeats env now st b = Inr (b1, r) \<Longrightarrow> gone i b \<Longrightarrow> gone i b1"
    by (simp add: sweepStaleHeartbeats_def)
qed

lemma sweep_reaps_stale:
  assumes "sweepStaleHeartbeats env now (Some st) b = Inr (b1, rs)" and "distinct (map_keys (bdInflight b))"
    and "stale_claim env now st b i"
  shows "gone i b1"
proof -
  have "i \<in> set (map_keys (bdInflight b))"
    using assms(3) by (auto simp: stale_claim_def dest: readManifest_Some map_of_Some_keys)
  then show ?thesis using sweep_loop_exact [of env now st "map_keys (bdInflight b)" b b1 rs] assms
    by (simp add: sweepStaleHeartbeats_def gone_def)
qed

lemma try_diagnostic_gone: "gone i b \<Longrightarrow> gone i (try_diagnostic v b)"
  by (auto simp: try_diagnostic_def writeDiagnostic_def Let_def gone_def end_of_inflight_def split: sum.split)

lemma reap_session_gone:
  assumes "reap_session env now s st = Inr (st1, r)"
  shows "gone i (snd st) \<Longrightarrow> gone i (snd st1)"
    and "distinct (map_keys (bdInflight (snd st))) \<Longrightarrow> stale_claim env now 0 (snd st) i \<Longrightarrow> gone i (snd st1)"
proof -
  obtain b1 sw where b1: "sweepStaleHeartbeats env now (Some 0) (snd st) = Inr (b1, sw)"
    and st1: "snd st1 = b1 \<or> snd st1 = try_diagnostic (reaper_verdict env now (seTaskId s) ''session-reaper'' ''stale-heartbeat'') b1"
    using assms by (auto simp: reap_session_def Let_def split: sum.splits if_splits)
  show "gone i (snd st) \<Longrightarrow> gone i (snd st1)"
    using sweep_gone [OF b1] try_diagnostic_gone st1 by metis
  show "distinct (map_keys (bdInflight (snd st))) \<Longrightarrow> stale_claim env now 0 (snd st) i \<Longrightarrow> gone i (snd st1)"
    using sweep_reaps_stale [OF b1] try_diagnostic_gone st1 by metis
qed

lemma reap_loop_gone: "reap_loop env now cutoff ss st = Inr (st1, rs) \<Longrightarrow> gone i (snd st) \<Longrightarrow> gone i (snd st1)"
proof (induction ss arbitrary: st rs)
  case (Cons s ss)
  show ?case
  proof (cases "stale_session env cutoff s")
    case True
    then obtain st2 r rs2 where r: "reap_session env now s st = Inr (st2, r)" "reap_loop env now cutoff ss st2 = Inr (st1, rs2)"
      using Cons.prems(1) by (auto split: sum.splits)
    show ?thesis using Cons.IH [OF r(2) reap_session_gone(1) [OF r(1) Cons.prems(2)]] .
  next
    case False
    then show ?thesis using Cons by simp
  qed
qed simp

text \<open>The first stale session in the list already sweeps the whole board.\<close>

lemma reap_loop_reaps:
  assumes "reap_loop env now cutoff ss st = Inr (st1, rs)" and "s \<in> set ss" and "stale_session env cutoff s"
    and "distinct (map_keys (bdInflight (snd st)))" and "stale_claim env now 0 (snd st) i"
  shows "gone i (snd st1)"
  using assms
proof (induction ss arbitrary: st rs)
  case (Cons x ss)
  show ?case
  proof (cases "stale_session env cutoff x")
    case True
    then obtain st2 r rs2 where r: "reap_session env now x st = Inr (st2, r)" "reap_loop env now cutoff ss st2 = Inr (st1, rs2)"
      using Cons.prems(1) by (auto split: sum.splits)
    show ?thesis by (rule reap_loop_gone [OF r(2) reap_session_gone(2) [OF r(1) Cons.prems(4,5)]])
  next
    case False
    then show ?thesis using Cons.IH [of st rs] Cons.prems by auto
  qed
qed simp

text \<open>A single stale session makes the session reaper end the claims of every task, however fresh their
  heartbeats: all whose last sign of life is not in the future.\<close>

lemma stale_session_reaps_every_claim:
  assumes "distinct (map_keys (bdInflight b))" and "reapStaleSessions env now staleMs (ss, b) = Inr ((ss1, b1), reaped, others)"
    and "s \<in> set (listSessions ss)" and "stale_session env (now - or_else staleMs DEFAULT_SESSION_STALE_MS) s"
    and "readManifest i (bdInflight b) = Some m" and "last_tick env i m b = Some t" and "t \<le> now"
  shows "\<not> has_key i (bdInflight b1)"
proof -
  let ?stale = "or_else staleMs DEFAULT_SESSION_STALE_MS"
  obtain b2 sw where l: "reap_loop env now (now - ?stale) (listSessions ss) (ss, b) = Inr ((ss1, b2), reaped)"
    and w: "sweepStaleHeartbeats env now (Some ?stale) b2 = Inr (b1, sw)"
    using assms(2) by (auto simp: reapStaleSessions_def Let_def split: sum.splits)
  have "stale_claim env now 0 (snd (ss, b)) i" using assms(5-7) by (simp add: stale_claim_def)
  from reap_loop_reaps [OF l assms(3,4) _ this] assms(1) have "gone i b2" by simp
  then show ?thesis using sweep_gone [OF w] by (simp add: gone_def has_key_def)
qed

definition tmux_session :: "string \<Rightarrow> string \<Rightarrow> DispatchSession" where
  "tmux_session i beat = \<lparr>seTaskId = i, seTmuxSession = Some ''main'', seSpawnedAt = beat, seStatus = InProgress,
     seLastHeartbeat = None, sePrUrl = None, seAgentId = None, seTranscript = None, seWorktree = None\<rparr>"

definition clock_env :: BoardEnv where
  "clock_env = plain_env\<lparr>envParse := (\<lambda>s. if s = ''old'' then Some 0 else if s = ''now'' then Some 7200000 else None)\<rparr>"

text \<open>The task T-2 has a heartbeat of this very moment; the stale session is that of T-1, which is not even on the
  board.\<close>

definition beating_board :: DispatchBoard where
  "beating_board = empty_board\<lparr>bdInflight := [held_file ''T-2'' ''v''],
     bdHeartbeats := [(''T-2'', Some \<lparr>hbWorkerId = ''v'', hbWorkerKind = InSessionAgent, hbLastHeartbeat = ''now'', hbExecutorState = None\<rparr>)]\<rparr>"

lemma idle_session_ends_a_fresh_claim:
  "\<exists>st r. reapStaleSessions clock_env 7200000 None
      (\<lparr>ssFiles = [(''t-1'', Some (tmux_session ''T-1'' ''old''))], ssCancels = [], ssArchive = []\<rparr>, beating_board) = Inr (st, r)
    \<and> \<not> has_key ''T-2'' (bdInflight (snd st))"
proof -
  let ?ss = "\<lparr>ssFiles = [(''t-1'', Some (tmux_session ''T-1'' ''old''))], ssCancels = [], ssArchive = []\<rparr>"
  have "case reapStaleSessions clock_env 7200000 None (?ss, beating_board) of Inl e \<Rightarrow> False | Inr x \<Rightarrow> True" by code_simp
  then obtain ss1 b1 reaped others where r: "reapStaleSessions clock_env 7200000 None (?ss, beating_board) = Inr ((ss1, b1), reaped, others)"
    by (auto split: sum.splits)
  have "distinct (map_keys (bdInflight beating_board))" by code_simp
  moreover have "tmux_session ''T-1'' ''old'' \<in> set (listSessions ?ss)" by (simp add: listSessions_def map_filter_simps)
  moreover have "stale_session clock_env (7200000 - or_else None DEFAULT_SESSION_STALE_MS) (tmux_session ''T-1'' ''old'')" by code_simp
  moreover have "readManifest ''T-2'' (bdInflight beating_board) = Some (held_by ''T-2'' ''v'')" by code_simp
  moreover have "last_tick clock_env ''T-2'' (held_by ''T-2'' ''v'') beating_board = Some 7200000" by code_simp
  ultimately have "\<not> has_key ''T-2'' (bdInflight b1)"
    using stale_session_reaps_every_claim [OF _ r] by blast
  with r show ?thesis by auto
qed

end
