(* ===== verification/RequeueProps.thy ===== *)
theory RequeueProps
  imports SessionProps
begin

text \<open>
  The requeue reaper: exactly the stale claims leave the inflight directory, back to the queue with one more retry
  while the limit allows it and to the failures afterwards; and the retry counts on the board stay within the limit.
\<close>

section \<open>One entry\<close>

definition stale_of :: "BoardEnv \<Rightarrow> int \<Rightarrow> int \<Rightarrow> string list option \<Rightarrow> DispatchBoard \<Rightarrow> string \<Rightarrow> (DispatchManifest \<times> StaleReason) option" where
  "stale_of env now st roster b i = (case readManifest i (bdInflight b) of
     None \<Rightarrow> None
   | Some m \<Rightarrow> map_option (Pair m) (stale_reason env now st roster i m b))"

definition next_try :: "DispatchManifest \<Rightarrow> nat" where
  "next_try m = or_else (mfRetryCount m) 0 + 1"

text \<open>What the reaper leaves of a task.\<close>

definition requeue_outcome ::
  "BoardEnv \<Rightarrow> int \<Rightarrow> int \<Rightarrow> nat \<Rightarrow> string list option \<Rightarrow> DispatchBoard \<Rightarrow> string \<Rightarrow> DispatchBoard \<times> RequeueResult \<Rightarrow> bool" where
  "requeue_outcome env now st maxr roster b i r =
     (case stale_of env now st roster b i of
        None \<Rightarrow> map_of (bdInflight (fst r)) i = map_of (bdInflight b) i \<and> map_of (bdQueue (fst r)) i = map_of (bdQueue b) i
      | Some (m, reason) \<Rightarrow>
          map_of (bdInflight (fst r)) i = None
          \<and> (if next_try m \<le> maxr
             then (\<exists>t. map_of (bdQueue (fst r)) i = Some \<lparr>fileBody = Some (m\<lparr>mfRetryCount := Some (next_try m)\<rparr>), fileMtime = t\<rparr>)
               \<and> (i, next_try m, reason) \<in> set (rqRequeued (snd r))
             else map_of (bdQueue (fst r)) i = None
               \<and> map_of (bdFailedDiagnostics (fst r)) i = Some (Some (reaper_verdict env now i ''session-reaper'' ''retry-limit-exceeded''))
               \<and> (i, next_try m, reason) \<in> set (rqFailed (snd r))))"

definition same_task :: "string \<Rightarrow> DispatchBoard \<Rightarrow> DispatchBoard \<Rightarrow> bool" where
  "same_task i b b' \<longleftrightarrow> map_of (bdInflight b') i = map_of (bdInflight b) i \<and> map_of (bdQueue b') i = map_of (bdQueue b) i
     \<and> map_of (bdHeartbeats b') i = map_of (bdHeartbeats b) i \<and> map_of (bdFailedDiagnostics b') i = map_of (bdFailedDiagnostics b) i"

definition reports_grow :: "RequeueResult \<Rightarrow> RequeueResult \<Rightarrow> bool" where
  "reports_grow r r' \<longleftrightarrow> set (rqRequeued r) \<subseteq> set (rqRequeued r') \<and> set (rqFailed r) \<subseteq> set (rqFailed r')"

lemma stale_of_cong:
  assumes "same_task i b b'"
  shows "stale_of env now st roster b' i = stale_of env now st roster b i"
proof -
  have "readManifest i (bdInflight b') = readManifest i (bdInflight b)" "readHeartbeat i b' = readHeartbeat i b"
    "inflightClaimedAtMs i b' = inflightClaimedAtMs i b"
    using assms by (simp_all add: same_task_def readManifest_def readHeartbeat_def inflightClaimedAtMs_def)
  then show ?thesis by (simp add: stale_of_def stale_reason_def claim_tick_def split: option.split)
qed

lemma requeue_frame: "requeueInflight env i n b = Inr (b', r) \<Longrightarrow> j \<noteq> i \<Longrightarrow> same_task j b b'"
  by (auto simp: requeueInflight_def Let_def same_task_def clear_sidecars_def split: option.split_asm if_split_asm)

lemma diagnostic_frame: "writeDiagnostic v b = Inr b' \<Longrightarrow> j \<noteq> dvTaskId v \<Longrightarrow> same_task j b b'"
  by (auto simp: writeDiagnostic_def Let_def same_task_def end_of_inflight_def clear_sidecars_def split: if_split_asm)

lemma same_task_refl: "same_task i b b"
  by (simp add: same_task_def)

lemma reaper_task: "dvTaskId (reaper_verdict env now i w c) = i"
  by (simp add: reaper_verdict_def)

lemma entry_cases:
  assumes "requeue_entry env now st maxr roster i (b, res) = Inr (b', res')"
  obtains "b' = b" "res' = res"
  | n x where "writeDiagnostic (reaper_verdict env now i ''session-reaper'' ''retry-limit-exceeded'') b = Inr b'"
      "res' = res\<lparr>rqFailed := rqFailed res @ [(i, n, x)]\<rparr>"
  | n x r where "requeueInflight env i n b = Inr (b', r)" "res' = (if r then res\<lparr>rqRequeued := rqRequeued res @ [(i, n, x)]\<rparr> else res)"
  using assms by (auto simp: requeue_entry_def Let_def split: option.split_asm sum.split_asm if_split_asm)

lemma entry_frame:
  assumes "requeue_entry env now st maxr roster i (b, res) = Inr (b', res')"
  shows "j \<noteq> i \<Longrightarrow> same_task j b b'" and "reports_grow res res'"
proof -
  show "j \<noteq> i \<Longrightarrow> same_task j b b'"
    using assms by (cases rule: entry_cases) (auto simp: same_task_refl reaper_task intro: requeue_frame diagnostic_frame)
  show "reports_grow res res'"
    using assms by (cases rule: entry_cases) (auto simp: reports_grow_def)
qed

lemma entry_outcome:
  assumes "is_task_id i" and "map_of (bdInflight b) i \<noteq> None \<Longrightarrow> map_of (bdQueue b) i = None"
  shows "\<exists>r. requeue_entry env now st maxr roster i (b, res) = Inr r \<and> requeue_outcome env now st maxr roster b i r"
proof (cases "stale_of env now st roster b i")
  case None
  then have "requeue_entry env now st maxr roster i (b, res) = Inr (b, res)"
    using assms(1) by (auto simp: requeue_entry_def stale_of_def Let_def split: option.splits)
  with None show ?thesis by (simp add: requeue_outcome_def)
next
  case (Some p)
  obtain m reason where p: "p = (m, reason)" by (cases p)
  then have m: "readManifest i (bdInflight b) = Some m" "stale_reason env now st roster i m b = Some reason"
    using Some by (auto simp: stale_of_def split: option.splits)
  obtain f where f: "map_of (bdInflight b) i = Some f" "fileBody f = Some m" using readManifest_Some [OF m(1)] by blast
  then have q: "map_of (bdQueue b) i = None" using assms(2) by simp
  show ?thesis
  proof (cases "next_try m \<le> maxr")
    case True
    then show ?thesis using assms(1) m f q Some p
      by (simp add: requeue_entry_def requeue_outcome_def Let_def next_try_def requeueInflight_def has_key_def clear_sidecars_def)
  next
    case False
    then show ?thesis using assms(1) m f q Some p
      by (simp add: requeue_entry_def requeue_outcome_def Let_def next_try_def writeDiagnostic_def end_of_inflight_def clear_sidecars_def
          reaper_verdict_def)
  qed
qed

section \<open>The whole reaper\<close>

lemma outcome_frame:
  assumes "requeue_outcome env now st maxr roster b i (b1, res1)" and "same_task i b1 b2" and "reports_grow res1 res2"
  shows "requeue_outcome env now st maxr roster b i (b2, res2)"
  using assms unfolding requeue_outcome_def same_task_def reports_grow_def
  by (auto split: option.splits if_splits)

lemma outcome_cong:
  assumes "same_task i b b1" and "requeue_outcome env now st maxr roster b1 i r"
  shows "requeue_outcome env now st maxr roster b i r"
  using assms stale_of_cong [OF assms(1), of env now st roster] unfolding requeue_outcome_def same_task_def by (auto split: option.splits)

lemma loop_outcome:
  assumes "distinct is" and "\<forall>i \<in> set is. is_task_id i"
    and "\<forall>i. map_of (bdInflight b) i \<noteq> None \<longrightarrow> map_of (bdQueue b) i = None"
  shows "\<exists>b' res'. requeue_loop env now st maxr roster is (b, res) = Inr (b', res') \<and> reports_grow res res'
    \<and> (\<forall>i \<in> set is. requeue_outcome env now st maxr roster b i (b', res')) \<and> (\<forall>j. j \<notin> set is \<longrightarrow> same_task j b b')"
  using assms
proof (induction "is" arbitrary: b res)
  case Nil
  then show ?case by (simp add: same_task_def reports_grow_def)
next
  case (Cons i "is")
  obtain b1 res1 where e: "requeue_entry env now st maxr roster i (b, res) = Inr (b1, res1)"
    and o1: "requeue_outcome env now st maxr roster b i (b1, res1)"
    using entry_outcome [of i b env now st maxr roster res] Cons.prems(2,3) by auto
  have fr: "j \<noteq> i \<Longrightarrow> same_task j b b1" for j using entry_frame(1) [OF e] .
  have sep: "\<forall>j. map_of (bdInflight b1) j \<noteq> None \<longrightarrow> map_of (bdQueue b1) j = None"
  proof (intro allI impI)
    fix j assume j: "map_of (bdInflight b1) j \<noteq> None"
    show "map_of (bdQueue b1) j = None"
    proof (cases "j = i")
      case True
      have "map_of (bdInflight b) i \<noteq> None \<Longrightarrow> map_of (bdQueue b) i = None" using Cons.prems(3) by blast
      then show ?thesis using o1 j True by (cases "stale_of env now st roster b i") (auto simp: requeue_outcome_def)
    next
      case False
      then show ?thesis using fr [OF False] j Cons.prems(3) by (simp add: same_task_def)
    qed
  qed
  obtain b' res' where l: "requeue_loop env now st maxr roster is (b1, res1) = Inr (b', res')" "reports_grow res1 res'"
    "\<forall>j \<in> set is. requeue_outcome env now st maxr roster b1 j (b', res')" "\<forall>j. j \<notin> set is \<longrightarrow> same_task j b1 b'"
    using Cons.IH [of b1 res1] Cons.prems(1,2) sep by auto
  have "requeue_outcome env now st maxr roster b i (b', res')"
    using outcome_frame [OF o1 _ l(2)] l(4) Cons.prems(1) by simp
  moreover have "requeue_outcome env now st maxr roster b j (b', res')" if "j \<in> set is" for j
    using outcome_cong [OF fr l(3) [THEN bspec, OF that]] that Cons.prems(1) by auto
  moreover have "same_task j b b'" if "j \<notin> set (i # is)" for j
    using fr [of j] l(4) that by (simp add: same_task_def)
  moreover have "reports_grow res res'" using entry_frame(2) [OF e] l(2) by (auto simp: reports_grow_def)
  ultimately show ?case using e l(1) by auto
qed

lemma requeue_total:
  assumes ok: "board_ok b" and ids: "\<forall>i \<in> set (map_keys (bdInflight b)). is_task_id i"
  shows "\<exists>b' res. requeueStaleInflight env now st maxr roster b = Inr (b', res)
    \<and> (\<forall>i. requeue_outcome env now (or_else st DEFAULT_HEARTBEAT_STALE_MS) (or_else maxr DEFAULT_REQUEUE_RETRY_LIMIT) roster b i (b', res))"
proof -
  let ?st = "or_else st DEFAULT_HEARTBEAT_STALE_MS" and ?maxr = "or_else maxr DEFAULT_REQUEUE_RETRY_LIMIT"
  have sep: "\<forall>i. map_of (bdInflight b) i \<noteq> None \<longrightarrow> map_of (bdQueue b) i = None"
    using ok by (auto simp: board_ok_def one_place_def dirs_def)
  have "distinct (map_keys (bdInflight b))" using ok by (simp add: board_ok_def keys_distinct_def)
  from loop_outcome [OF this ids sep, of env now ?st ?maxr roster "\<lparr>rqRequeued = [], rqFailed = []\<rparr>"]
  obtain b' res' where l: "requeueStaleInflight env now st maxr roster b = Inr (b', res')"
    "\<forall>i \<in> set (map_keys (bdInflight b)). requeue_outcome env now ?st ?maxr roster b i (b', res')"
    "\<forall>j. j \<notin> set (map_keys (bdInflight b)) \<longrightarrow> same_task j b b'"
    by (auto simp: requeueStaleInflight_def)
  have "requeue_outcome env now ?st ?maxr roster b i (b', res')" if "i \<notin> set (map_keys (bdInflight b))" for i
  proof -
    have "readManifest i (bdInflight b) = None" using that map_of_None_keys [of "bdInflight b" i] by (simp add: readManifest_def)
    then show ?thesis using l(3) that by (simp add: requeue_outcome_def stale_of_def same_task_def)
  qed
  with l show ?thesis by blast
qed

text \<open>On a tidy board whose inflight files carry task ids the requeue reaper always returns; a claim that is not stale
  stays where it is, a stale one goes back to the queue with one retry more, or to the failures when that would
  exceed the limit.\<close>

theorem stale_claims_requeued_or_failed:
  assumes "fresh_board b0" and "runs (tidy_step env) b0 es b" and "\<forall>i \<in> set (map_keys (bdInflight b)). is_task_id i"
  shows "\<exists>b' res. requeueStaleInflight env now st maxr roster b = Inr (b', res)
    \<and> (\<forall>i. requeue_outcome env now (or_else st DEFAULT_HEARTBEAT_STALE_MS) (or_else maxr DEFAULT_REQUEUE_RETRY_LIMIT) roster b i (b', res))"
  using requeue_total [OF ok_board.along [OF assms(2) fresh_ok [OF assms(1)]] assms(3)] .

theorem stale_claims_requeued_or_failed_witness:
  "\<exists>b' res. requeueStaleInflight dated_env 1800000 None None None late_board = Inr (b', res)
    \<and> requeue_outcome dated_env 1800000 DEFAULT_HEARTBEAT_STALE_MS DEFAULT_REQUEUE_RETRY_LIMIT None late_board ''T-1'' (b', res)"
proof -
  have "\<forall>i \<in> set (map_keys (bdInflight late_board)). is_task_id i" by code_simp
  from stale_claims_requeued_or_failed [OF empty_fresh late_run this, of 1800000 None None None]
  show ?thesis by (auto simp: or_else_def)
qed

end
