(* ===== verification/Complexity.thy ===== *)
theory Complexity
  imports Prelude Complex_Main
begin

text \<open>
  Complexity scores and the routes they lead to (\<open>reference/src/policy/complexity.ts\<close>), and the choice of a
  model from complexity and budget pressure (\<open>reference/src/policy/model-selection.ts\<close>). Numbers are exact
  rationals, counts integers.
\<close>

section \<open>Complexity\<close>

record ComplexityInput =
  ciFiles :: int
  ciLines :: int
  ciSecurity :: bool
  ciApi :: bool
  ciDatabase :: bool
  ciCrossService :: bool
  ciNewDependencies :: "int option"

record ComplexityFactor =
  cfName :: string
  cfWeight :: rat
  cfScore :: "ComplexityInput \<Rightarrow> rat"

datatype RoutingStrategy = FullyAutonomous | AiWithReview | AiAssisted | HumanLed

record ComplexityThreshold =
  ctMin :: rat
  ctMax :: rat
  ctStrategy :: RoutingStrategy

definition per_step :: "int \<Rightarrow> int \<Rightarrow> rat" where
  "per_step n k = min 10 (of_int \<lceil>of_int n / (of_int k :: rat)\<rceil>)"

definition flag_score :: "bool \<Rightarrow> rat \<Rightarrow> rat" where
  "flag_score raised x = (if raised then x else 1)"

definition DEFAULT_COMPLEXITY_FACTORS :: "ComplexityFactor list" where
  "DEFAULT_COMPLEXITY_FACTORS =
     [\<lparr>cfName = ''fileScope'', cfWeight = 2 / 10, cfScore = (\<lambda>i. per_step (ciFiles i) 5)\<rparr>,
      \<lparr>cfName = ''changeSize'', cfWeight = 2 / 10, cfScore = (\<lambda>i. per_step (ciLines i) 100)\<rparr>,
      \<lparr>cfName = ''security'', cfWeight = 2 / 10, cfScore = (\<lambda>i. flag_score (ciSecurity i) 10)\<rparr>,
      \<lparr>cfName = ''apiChange'', cfWeight = 15 / 100, cfScore = (\<lambda>i. flag_score (ciApi i) 8)\<rparr>,
      \<lparr>cfName = ''databaseMigration'', cfWeight = 15 / 100, cfScore = (\<lambda>i. flag_score (ciDatabase i) 9)\<rparr>,
      \<lparr>cfName = ''crossService'', cfWeight = 1 / 10, cfScore = (\<lambda>i. flag_score (ciCrossService i) 8)\<rparr>]"

definition DEFAULT_THRESHOLDS :: "(string, ComplexityThreshold) jsmap" where
  "DEFAULT_THRESHOLDS =
     [(''low'', \<lparr>ctMin = 1, ctMax = 3, ctStrategy = FullyAutonomous\<rparr>),
      (''medium'', \<lparr>ctMin = 4, ctMax = 6, ctStrategy = AiWithReview\<rparr>),
      (''high'', \<lparr>ctMin = 7, ctMax = 8, ctStrategy = AiAssisted\<rparr>),
      (''critical'', \<lparr>ctMin = 9, ctMax = 10, ctStrategy = HumanLed\<rparr>)]"

definition clamp10 :: "rat \<Rightarrow> rat" where
  "clamp10 x = max 1 (min 10 x)"

definition js_round :: "rat \<Rightarrow> int" where
  "js_round x = \<lfloor>x + 1 / 2\<rfloor>"

text \<open>The running sums: total weight and weighted sum.\<close>

definition add_factor :: "ComplexityInput \<Rightarrow> ComplexityFactor \<Rightarrow> rat \<times> rat \<Rightarrow> rat \<times> rat" where
  "add_factor input f acc = (fst acc + cfWeight f, snd acc + clamp10 (cfScore f input) * cfWeight f)"

definition scoreComplexity :: "ComplexityInput \<Rightarrow> ComplexityFactor list \<Rightarrow> rat" where
  "scoreComplexity input factors =
     (let (total, weighted) = fold (add_factor input) factors (0, 0) in
      if total = 0 then 1 else clamp10 (of_int (js_round (weighted / total))))"

definition routeByComplexity :: "rat \<Rightarrow> (string, ComplexityThreshold) jsmap \<Rightarrow> RoutingStrategy" where
  "routeByComplexity score thresholds =
     (case find (\<lambda>t. ctMin t \<le> score \<and> score \<le> ctMax t) (map snd thresholds) of
        Some t \<Rightarrow> ctStrategy t
      | None \<Rightarrow> if score \<ge> 7 then HumanLed else AiWithReview)"

record ComplexityResult =
  crScore :: rat
  crFactors :: "(string, rat) jsmap"
  crStrategy :: RoutingStrategy

definition evaluateComplexity ::
  "ComplexityInput \<Rightarrow> ComplexityFactor list option \<Rightarrow> (string, ComplexityThreshold) jsmap option \<Rightarrow> ComplexityResult" where
  "evaluateComplexity input factors thresholds =
     (let used = or_else factors DEFAULT_COMPLEXITY_FACTORS; score = scoreComplexity input used in
      \<lparr>crScore = score,
       crFactors = fold (\<lambda>f m. map_set (cfName f) (clamp10 (cfScore f input)) m) used [],
       crStrategy = routeByComplexity score (or_else thresholds DEFAULT_THRESHOLDS)\<rparr>)"

section \<open>Model selection\<close>

record ModelRule =
  mrMin :: rat
  mrMax :: rat
  mrModel :: string
  mrRationale :: "string option"

record BudgetPressureRule =
  bpAbove :: rat
  bpDownshift :: int
  bpNotify :: "string list"

record ModelSelection =
  msRules :: "ModelRule list"
  msPressure :: "BudgetPressureRule list"
  msFallback :: "string list"

datatype SelectReason = Downshifted | Rationale string | MatchedRange rat rat | NoRuleMatched

record ModelSelectionResult =
  mrsModel :: string
  mrsReason :: SelectReason
  mrsDownshifted :: bool
  mrsNotify :: "string list"

text \<open>Sorted by the lower end of the range; rules with the same one keep their order.\<close>

definition sorted_rules :: "ModelSelection \<Rightarrow> ModelRule list" where
  "sorted_rules sel = sort_key mrMin (msRules sel)"

definition in_range :: "rat \<Rightarrow> ModelRule \<Rightarrow> bool" where
  "in_range c r \<longleftrightarrow> mrMin r \<le> c \<and> c \<le> mrMax r"

fun find_index :: "('a \<Rightarrow> bool) \<Rightarrow> 'a list \<Rightarrow> nat option" where
  "find_index P [] = None"
| "find_index P (x # xs) = (if P x then Some 0 else map_option Suc (find_index P xs))"

definition pressures :: "ModelSelection \<Rightarrow> rat \<Rightarrow> BudgetPressureRule list" where
  "pressures sel utilization = filter (\<lambda>p. utilization > bpAbove p) (msPressure sel)"

definition downshift :: "ModelSelection \<Rightarrow> rat \<Rightarrow> int" where
  "downshift sel utilization = sum_list (map bpDownshift (pressures sel utilization))"

definition match_index :: "ModelSelection \<Rightarrow> rat \<Rightarrow> rat \<Rightarrow> nat option" where
  "match_index sel complexity utilization =
     map_option (\<lambda>i. if downshift sel utilization > 0 then nat (max 0 (int i - downshift sel utilization)) else i)
       (find_index (in_range complexity) (sorted_rules sel))"

definition selectModel :: "ModelSelection \<Rightarrow> rat \<Rightarrow> rat \<Rightarrow> ModelSelectionResult option" where
  "selectModel sel complexity utilization =
     (let notify = concat (map bpNotify (pressures sel utilization)); shifted = downshift sel utilization > 0 in
      case match_index sel complexity utilization of
        Some i \<Rightarrow>
          (let rule = sorted_rules sel ! i in
           Some \<lparr>mrsModel = mrModel rule,
             mrsReason = (if shifted then Downshifted else (case mrRationale rule of
                 Some t \<Rightarrow> Rationale t | None \<Rightarrow> MatchedRange (mrMin rule) (mrMax rule))),
             mrsDownshifted = shifted, mrsNotify = notify\<rparr>)
      | None \<Rightarrow> (case msFallback sel of
          [] \<Rightarrow> None
        | m # ms \<Rightarrow> Some \<lparr>mrsModel = m, mrsReason = NoRuleMatched, mrsDownshifted = shifted, mrsNotify = notify\<rparr>))"

end
