(* ===== verification/ComplexityProps.thy ===== *)
theory ComplexityProps
  imports Complexity
begin

text \<open>
  What the default complexity score and its routes guarantee, and which model a selection can come up with.
\<close>

section \<open>The default score\<close>

text \<open>The weighted mean of the six factors; the weights add up to one.\<close>

definition default_mean :: "ComplexityInput \<Rightarrow> rat" where
  "default_mean i = clamp10 (per_step (ciFiles i) 5) / 5 + clamp10 (per_step (ciLines i) 100) / 5
     + flag_score (ciSecurity i) 10 / 5 + flag_score (ciApi i) 8 * 3 / 20 + flag_score (ciDatabase i) 9 * 3 / 20
     + flag_score (ciCrossService i) 8 / 10"

lemma default_score: "scoreComplexity i DEFAULT_COMPLEXITY_FACTORS = clamp10 (of_int (js_round (default_mean i)))"
proof -
  have "fold (add_factor i) DEFAULT_COMPLEXITY_FACTORS (0, 0) = (1, default_mean i)"
    by (simp add: DEFAULT_COMPLEXITY_FACTORS_def add_factor_def default_mean_def clamp10_def flag_score_def)
  then show ?thesis by (simp add: scoreComplexity_def)
qed

lemma clamp10_bounds: "1 \<le> clamp10 x" "clamp10 x \<le> 10"
  by (simp_all add: clamp10_def)

lemma clamp10_mono: "x \<le> y \<Longrightarrow> clamp10 x \<le> clamp10 y"
  by (auto simp: clamp10_def)

lemma js_round_mono: "x \<le> y \<Longrightarrow> js_round x \<le> js_round y"
  by (simp add: js_round_def floor_mono)

lemma per_step_mono: "0 < k \<Longrightarrow> n \<le> m \<Longrightarrow> per_step n k \<le> per_step m k"
  unfolding per_step_def by (intro min.mono order_refl of_int_le_iff [THEN iffD2] ceiling_mono divide_right_mono) simp_all

lemma flag_score_mono: "(a \<longrightarrow> b) \<Longrightarrow> 1 \<le> x \<Longrightarrow> flag_score a x \<le> flag_score b x"
  by (simp add: flag_score_def)

text \<open>\<open>j\<close> is at least as risky as \<open>i\<close> in every respect.\<close>

definition riskier :: "ComplexityInput \<Rightarrow> ComplexityInput \<Rightarrow> bool" where
  "riskier i j \<longleftrightarrow> ciFiles i \<le> ciFiles j \<and> ciLines i \<le> ciLines j \<and> (ciSecurity i \<longrightarrow> ciSecurity j) \<and> (ciApi i \<longrightarrow> ciApi j)
     \<and> (ciDatabase i \<longrightarrow> ciDatabase j) \<and> (ciCrossService i \<longrightarrow> ciCrossService j)"

lemma default_mean_mono: "riskier i j \<Longrightarrow> default_mean i \<le> default_mean j"
  unfolding default_mean_def riskier_def
  by (intro add_mono divide_right_mono mult_right_mono clamp10_mono per_step_mono flag_score_mono) simp_all

definition oversight :: "RoutingStrategy \<Rightarrow> nat" where
  "oversight s = (case s of FullyAutonomous \<Rightarrow> 0 | AiWithReview \<Rightarrow> 1 | AiAssisted \<Rightarrow> 2 | HumanLed \<Rightarrow> 3)"

lemma default_route:
  assumes "1 \<le> n" and "n \<le> 10"
  shows "routeByComplexity (of_int n) DEFAULT_THRESHOLDS =
    (if n \<le> 3 then FullyAutonomous else if n \<le> 6 then AiWithReview else if n \<le> 8 then AiAssisted else HumanLed)"
proof -
  have "\<forall>k \<in> set [1..10]. routeByComplexity (of_int k) DEFAULT_THRESHOLDS =
    (if k \<le> 3 then FullyAutonomous else if k \<le> 6 then AiWithReview else if k \<le> 8 then AiAssisted else HumanLed)"
    by (simp add: upto_rec1 routeByComplexity_def DEFAULT_THRESHOLDS_def)
  then show ?thesis using assms by simp
qed

lemma score_int: "\<exists>n. 1 \<le> n \<and> n \<le> 10 \<and> clamp10 (of_int m) = of_int n"
proof -
  have "clamp10 (of_int m) = of_int (max 1 (min 10 m))" by (simp add: clamp10_def of_int_max of_int_min)
  then show ?thesis by (intro exI [of _ "max 1 (min 10 m)"]) simp
qed

lemma evaluate_default:
  "crStrategy (evaluateComplexity i None None) = routeByComplexity (scoreComplexity i DEFAULT_COMPLEXITY_FACTORS) DEFAULT_THRESHOLDS"
  by (simp add: evaluateComplexity_def or_else_def Let_def)

text \<open>With the default factors and thresholds a riskier task never gets less oversight.\<close>

theorem riskier_never_less_oversight:
  assumes "riskier i j"
  shows "crScore (evaluateComplexity i None None) \<le> crScore (evaluateComplexity j None None)
    \<and> oversight (crStrategy (evaluateComplexity i None None)) \<le> oversight (crStrategy (evaluateComplexity j None None))"
proof -
  let ?s = "\<lambda>x. scoreComplexity x DEFAULT_COMPLEXITY_FACTORS"
  have le: "?s i \<le> ?s j"
    unfolding default_score using default_mean_mono [OF assms] by (intro clamp10_mono) (simp add: js_round_mono)
  obtain m where m: "1 \<le> m" "m \<le> 10" "?s i = of_int m" unfolding default_score using score_int by blast
  obtain n where n: "1 \<le> n" "n \<le> 10" "?s j = of_int n" unfolding default_score using score_int by blast
  have "m \<le> n" using le m(3) n(3) by simp
  then have "oversight (routeByComplexity (?s i) DEFAULT_THRESHOLDS) \<le> oversight (routeByComplexity (?s j) DEFAULT_THRESHOLDS)"
    unfolding m(3) n(3) default_route [OF m(1,2)] default_route [OF n(1,2)] by (simp add: oversight_def)
  with le show ?thesis by (simp add: evaluate_default) (simp add: evaluateComplexity_def or_else_def Let_def)
qed

theorem riskier_never_less_oversight_witness:
  "oversight (crStrategy (evaluateComplexity \<lparr>ciFiles = 1, ciLines = 10, ciSecurity = False, ciApi = False, ciDatabase = False, ciCrossService = False, ciNewDependencies = None\<rparr> None None))
    \<le> oversight (crStrategy (evaluateComplexity \<lparr>ciFiles = 40, ciLines = 10, ciSecurity = True, ciApi = False, ciDatabase = False, ciCrossService = False, ciNewDependencies = None\<rparr> None None))"
  by (rule riskier_never_less_oversight [THEN conjunct2]) (simp add: riskier_def)

lemma per_step_gt: "0 < k \<Longrightarrow> of_int j < per_step n k \<Longrightarrow> k * j < n"
proof -
  assume k: "0 < k" and "of_int j < per_step n k"
  then have "(of_int j :: rat) < of_int \<lceil>of_int n / (of_int k :: rat)\<rceil>" by (simp add: per_step_def)
  then have "j < \<lceil>of_int n / (of_int k :: rat)\<rceil>" by simp
  then have "(of_int j :: rat) < of_int n / of_int k" by (simp add: less_ceiling_iff)
  then have "(of_int (k * j) :: rat) < of_int n" using k by (simp add: pos_less_divide_eq mult.commute)
  then show "k * j < n" by (simp only: of_int_less_iff)
qed

text \<open>The default score is never ten, and a task is led by a human only when it is security sensitive, changes an API,
  migrates a database, and touches more than 25 files and 500 lines.\<close>

theorem human_led_needs_everything:
  "crScore (evaluateComplexity i None None) \<le> 9
    \<and> (crStrategy (evaluateComplexity i None None) = HumanLed
       \<longrightarrow> ciSecurity i \<and> ciApi i \<and> ciDatabase i \<and> 25 < ciFiles i \<and> 500 < ciLines i)"
proof -
  let ?f = "clamp10 (per_step (ciFiles i) 5)" and ?l = "clamp10 (per_step (ciLines i) 100)"
  have f: "?f \<le> 10" and l: "?l \<le> 10" using clamp10_bounds by simp_all
  have flags: "flag_score (ciSecurity i) 10 \<le> 10" "flag_score (ciApi i) 8 \<le> 8" "flag_score (ciDatabase i) 9 \<le> 9"
    "flag_score (ciCrossService i) 8 \<le> 8"
    by (simp_all add: flag_score_def)
  have m: "default_mean i \<le> 935 / 100" using f l flags by (simp add: default_mean_def field_simps)
  have r9: "js_round (default_mean i) \<le> 9"
  proof -
    have "js_round (default_mean i) \<le> js_round (935 / 100)" using js_round_mono [OF m] .
    also have "js_round (935 / 100) = 9" by (simp add: js_round_def floor_eq_iff)
    finally show ?thesis .
  qed
  then have "(of_int (js_round (default_mean i)) :: rat) \<le> 9" by simp
  then have s9: "scoreComplexity i DEFAULT_COMPLEXITY_FACTORS \<le> 9" unfolding default_score by (simp add: clamp10_def)
  have "ciSecurity i \<and> ciApi i \<and> ciDatabase i \<and> 25 < ciFiles i \<and> 500 < ciLines i"
    if h: "crStrategy (evaluateComplexity i None None) = HumanLed"
  proof -
    have big: "85 / 10 \<le> default_mean i"
    proof (rule ccontr)
      assume "\<not> 85 / 10 \<le> default_mean i"
      then have "js_round (default_mean i) \<le> 8" by (simp add: js_round_def floor_le_iff)
      then have "js_round (default_mean i) \<le> 8" .
      have "clamp10 (of_int (js_round (default_mean i))) = of_int (max 1 (min 10 (js_round (default_mean i))))"
        by (simp add: clamp10_def of_int_max of_int_min)
      then have "routeByComplexity (scoreComplexity i DEFAULT_COMPLEXITY_FACTORS) DEFAULT_THRESHOLDS \<noteq> HumanLed"
        using \<open>js_round (default_mean i) \<le> 8\<close> default_route [of "max 1 (min 10 (js_round (default_mean i)))"]
        unfolding default_score by simp
      with h show False by (simp add: evaluate_default)
    qed
    have "ciSecurity i" "ciApi i" "ciDatabase i"
      using big f l flags unfolding default_mean_def flag_score_def by (auto split: if_splits)
    moreover have "5 < ?f" "5 < ?l"
      using big f l flags unfolding default_mean_def by (simp_all add: field_simps)
    then have "5 < per_step (ciFiles i) 5" "5 < per_step (ciLines i) 100" by (auto simp: clamp10_def max_def min_def split: if_splits)
    then have "25 < ciFiles i" "500 < ciLines i"
      using per_step_gt [of 5 5 "ciFiles i"] per_step_gt [of 100 5 "ciLines i"] by simp_all
    ultimately show ?thesis by simp
  qed
  moreover have "crScore (evaluateComplexity i None None) \<le> 9" using s9 by (simp add: evaluateComplexity_def or_else_def Let_def)
  ultimately show ?thesis by blast
qed

theorem human_led_needs_everything_witness:
  "crStrategy (evaluateComplexity \<lparr>ciFiles = 60, ciLines = 1200, ciSecurity = True, ciApi = True, ciDatabase = True, ciCrossService = True, ciNewDependencies = None\<rparr> None None) = HumanLed
    \<and> crScore (evaluateComplexity \<lparr>ciFiles = 60, ciLines = 1200, ciSecurity = True, ciApi = True, ciDatabase = True, ciCrossService = True, ciNewDependencies = None\<rparr> None None) \<le> 9"
  using human_led_needs_everything [of "\<lparr>ciFiles = 60, ciLines = 1200, ciSecurity = True, ciApi = True, ciDatabase = True, ciCrossService = True, ciNewDependencies = None\<rparr>"]
  by (simp add: evaluate_default default_score default_mean_def per_step_def clamp10_def flag_score_def js_round_def
      routeByComplexity_def DEFAULT_THRESHOLDS_def)

section \<open>Model selection\<close>

lemma find_index_Some:
  "find_index P xs = Some i \<Longrightarrow> i < length xs \<and> P (xs ! i) \<and> (\<forall>j < i. \<not> P (xs ! j))"
proof (induction P xs arbitrary: i rule: find_index.induct)
  case (2 P x xs)
  then show ?case by (cases "P x") (auto simp: less_Suc_eq_0_disj)
qed simp

lemma find_index_None: "find_index P xs = None \<longleftrightarrow> (\<forall>x \<in> set xs. \<not> P x)"
  by (induction xs) auto

definition no_upshift :: "ModelSelection \<Rightarrow> bool" where
  "no_upshift sel \<longleftrightarrow> (\<forall>p \<in> set (msPressure sel). 0 \<le> bpDownshift p)"

lemma downshift_mono:
  assumes "no_upshift sel" and "u \<le> v"
  shows "downshift sel u \<le> downshift sel v"
proof -
  have "\<forall>p \<in> set ps. 0 \<le> bpDownshift p \<Longrightarrow> sum_list (map bpDownshift (filter (\<lambda>p. u > bpAbove p) ps))
      \<le> sum_list (map bpDownshift (filter (\<lambda>p. v > bpAbove p) ps))" for ps
    using assms(2) by (induction ps) auto
  with assms(1) show ?thesis by (simp add: downshift_def pressures_def no_upshift_def)
qed

lemma match_index_cases:
  "match_index sel c u = (case find_index (in_range c) (sorted_rules sel) of None \<Rightarrow> None
     | Some i \<Rightarrow> Some (if downshift sel u > 0 then nat (max 0 (int i - downshift sel u)) else i))"
  by (simp add: match_index_def split: option.split)

lemma match_index_bound: "match_index sel c u = Some i \<Longrightarrow> i < length (sorted_rules sel)"
  using find_index_Some [of "in_range c" "sorted_rules sel"] by (auto simp: match_index_cases split: option.splits if_splits)

text \<open>The model of a selection that has a rule for the complexity.\<close>

lemma select_rule:
  assumes "match_index sel c u = Some i"
  shows "map_option mrsModel (selectModel sel c u) = Some (mrModel (sorted_rules sel ! i))"
  using assms by (simp add: selectModel_def Let_def)

text \<open>The selection: with a rule for the complexity, the first one in the order of the lower ends, moved down by the
  budget pressure but never below the first rule; otherwise the head of the fallback chain, whatever the pressure.
  More pressure never moves the choice up.\<close>

theorem model_selection:
  assumes "no_upshift sel" and "u \<le> v"
  shows "case find_index (in_range c) (sorted_rules sel) of
      None \<Rightarrow> map_option mrsModel (selectModel sel c u) = (case msFallback sel of [] \<Rightarrow> None | m # ms \<Rightarrow> Some m)
    | Some i \<Rightarrow> \<exists>k l. map_option mrsModel (selectModel sel c u) = Some (mrModel (sorted_rules sel ! k))
        \<and> map_option mrsModel (selectModel sel c v) = Some (mrModel (sorted_rules sel ! l))
        \<and> int k = max 0 (int i - downshift sel u) \<and> l \<le> k \<and> k \<le> i
        \<and> mrMin (sorted_rules sel ! l) \<le> mrMin (sorted_rules sel ! k)"
proof (cases "find_index (in_range c) (sorted_rules sel)")
  case None
  then show ?thesis by (simp add: selectModel_def match_index_def Let_def split: list.split)
next
  case (Some i)
  have pos: "0 \<le> downshift sel w" for w
    using assms(1) by (auto simp: downshift_def pressures_def no_upshift_def intro!: sum_list_nonneg)
  define idx where "idx w = nat (max 0 (int i - downshift sel w))" for w
  have m: "match_index sel c w = Some (idx w)" for w
    using pos [of w] Some by (auto simp: match_index_cases idx_def)
  have le: "idx v \<le> idx u" using downshift_mono [OF assms] by (auto simp: idx_def)
  have "idx u < length (sorted_rules sel)" using match_index_bound [OF m] .
  moreover have "sorted (map mrMin (sorted_rules sel))" by (simp add: sorted_rules_def)
  ultimately have "mrMin (sorted_rules sel ! idx v) \<le> mrMin (sorted_rules sel ! idx u)"
    using sorted_nth_mono [of "map mrMin (sorted_rules sel)" "idx v" "idx u"] le by simp
  moreover have "int (idx u) = max 0 (int i - downshift sel u)" "idx u \<le> i" using pos [of u] by (auto simp: idx_def)
  ultimately show ?thesis unfolding Some option.case using le
    by (intro exI [of _ "idx u"] exI [of _ "idx v"] conjI select_rule [OF m])
qed

definition demo_selection :: ModelSelection where
  "demo_selection = \<lparr>msRules = [\<lparr>mrMin = 1 / 2, mrMax = 1, mrModel = ''large'', mrRationale = None\<rparr>,
       \<lparr>mrMin = 0, mrMax = 1 / 2, mrModel = ''small'', mrRationale = None\<rparr>],
     msPressure = [\<lparr>bpAbove = 8 / 10, bpDownshift = 1, bpNotify = []\<rparr>], msFallback = [''default'']\<rparr>"

theorem model_selection_witness:
  "map_option mrsModel (selectModel demo_selection (9 / 10) 0) = Some ''large''
    \<and> map_option mrsModel (selectModel demo_selection (9 / 10) (9 / 10)) = Some ''small''"
proof -
  have s: "sorted_rules demo_selection = [\<lparr>mrMin = 0, mrMax = 1 / 2, mrModel = ''small'', mrRationale = None\<rparr>,
      \<lparr>mrMin = 1 / 2, mrMax = 1, mrModel = ''large'', mrRationale = None\<rparr>]"
    by (simp add: sorted_rules_def demo_selection_def)
  have n: "no_upshift demo_selection" by (simp add: no_upshift_def demo_selection_def)
  have d: "downshift demo_selection 0 = 0" "downshift demo_selection (9 / 10) = 1"
    by (simp_all add: downshift_def pressures_def demo_selection_def)
  have i: "find_index (in_range (9 / 10)) (sorted_rules demo_selection) = Some 1" by (simp add: s in_range_def)
  obtain k where k: "map_option mrsModel (selectModel demo_selection (9 / 10) 0) = Some (mrModel (sorted_rules demo_selection ! k))"
    "int k = max 0 (int 1 - 0)"
    using model_selection [OF n order_refl, of "9 / 10" 0, unfolded i option.case d] by blast
  obtain l where l: "map_option mrsModel (selectModel demo_selection (9 / 10) (9 / 10)) = Some (mrModel (sorted_rules demo_selection ! l))"
    "int l = max 0 (int 1 - 1)"
    using model_selection [OF n order_refl, of "9 / 10" "9 / 10", unfolded i option.case d] by blast
  have "k = 1" "l = 0" using k(2) l(2) by simp_all
  with k(1) l(1) show ?thesis by (simp add: s)
qed

end
