(* ===== verification/JsValues.thy ===== *)
theory JsValues
  imports Json Complex_Main
begin

text \<open>
  The JavaScript the expression evaluators use: plain values, property access, \<open>Number\<close>, truthiness, equality,
  and the string operations \<open>indexOf\<close>, \<open>split\<close>, \<open>slice\<close>. Numbers are exact rationals (no NaN or
  infinity, no rounding); an array or object carries the identity its references compare by, 0 for one made during
  the evaluation, which equals nothing; objects have own properties only.
\<close>

section \<open>Values\<close>

datatype pval =
    PUndef
  | PNull
  | PBool bool
  | PNum rat
  | PStr string
  | PArr nat "pval list"
  | PObj nat "(string \<times> pval) list"

fun to_boolean :: "pval \<Rightarrow> bool" where
  "to_boolean PUndef = False"
| "to_boolean PNull = False"
| "to_boolean (PBool b) = b"
| "to_boolean (PNum x) = (x \<noteq> 0)"
| "to_boolean (PStr s) = (s \<noteq> [])"
| "to_boolean (PArr n vs) = True"
| "to_boolean (PObj n kvs) = True"

fun strict_eq :: "pval \<Rightarrow> pval \<Rightarrow> bool" where
  "strict_eq PUndef PUndef = True"
| "strict_eq PNull PNull = True"
| "strict_eq (PBool a) (PBool b) = (a = b)"
| "strict_eq (PNum a) (PNum b) = (a = b)"
| "strict_eq (PStr a) (PStr b) = (a = b)"
| "strict_eq (PArr n vs) (PArr m ws) = (n = m \<and> n \<noteq> 0)"
| "strict_eq (PObj n vs) (PObj m ws) = (n = m \<and> n \<noteq> 0)"
| "strict_eq _ _ = False"

definition digits_nat :: "string \<Rightarrow> nat" where
  "digits_nat ds = fold (\<lambda>c n. 10 * n + (char_code c - 48)) ds 0"

definition array_index :: "string \<Rightarrow> nat option" where
  "array_index s = (if s \<noteq> [] \<and> list_all is_digit s \<and> (hd s \<noteq> CHR ''0'' \<or> length s = 1) then Some (digits_nat s) else None)"

definition get_prop :: "pval \<Rightarrow> string \<Rightarrow> pval" where
  "get_prop v k = (case v of
     PObj n kvs \<Rightarrow> or_else (map_of kvs k) PUndef
   | PArr n vs \<Rightarrow> if k = ''length'' then PNum (of_nat (length vs))
       else (case array_index k of None \<Rightarrow> PUndef | Some i \<Rightarrow> if i < length vs then vs ! i else PUndef)
   | _ \<Rightarrow> PUndef)"

section \<open>Strings\<close>

fun index_of :: "string \<Rightarrow> string \<Rightarrow> nat option" where
  "index_of pat [] = (if pat = [] then Some 0 else None)"
| "index_of pat (c # s) = (if take (length pat) (c # s) = pat then Some 0 else map_option Suc (index_of pat s))"

definition contains_text :: "string \<Rightarrow> string \<Rightarrow> bool" where
  "contains_text s pat \<longleftrightarrow> index_of pat s \<noteq> None"

lemma index_of_bound: "index_of pat s = Some i \<Longrightarrow> i + length pat \<le> length s"
proof (induction s arbitrary: i)
  case (Cons c s)
  show ?case
  proof (cases "take (length pat) (c # s) = pat")
    case True
    then have "length pat \<le> length (c # s)" by (metis length_take min.cobounded1)
    then show ?thesis using Cons.prems True by simp
  qed (use Cons in auto)
qed (auto split: if_splits)

function split_on :: "string \<Rightarrow> string \<Rightarrow> string list" where
  "split_on sep s = (if sep = [] then map (\<lambda>c. [c]) s
     else (case index_of sep s of None \<Rightarrow> [s] | Some i \<Rightarrow> take i s # split_on sep (drop (i + length sep) s)))"
  by pat_completeness auto
termination
  by (relation "measure (\<lambda>(sep, s). length s)") (auto dest!: index_of_bound simp flip: length_greater_0_conv)

declare split_on.simps [simp del]

text \<open>\<open>slice(1, -1)\<close>.\<close>

definition inner :: "string \<Rightarrow> string" where
  "inner s = drop 1 (take (length s - 1) s)"

definition starts_with :: "string \<Rightarrow> string \<Rightarrow> bool" where
  "starts_with s pre \<longleftrightarrow> take (length pre) s = pre"

definition ends_with :: "string \<Rightarrow> string \<Rightarrow> bool" where
  "ends_with s suf \<longleftrightarrow> starts_with (rev s) (rev suf)"

definition quoted_by :: "char \<Rightarrow> string \<Rightarrow> bool" where
  "quoted_by q s \<longleftrightarrow> s \<noteq> [] \<and> hd s = q \<and> last s = q"

section \<open>Numbers in text\<close>

text \<open>The numeric literals \<open>Number\<close> accepts, except \<open>Infinity\<close>: decimal with fraction and exponent,
  and hexadecimal, octal and binary integers.\<close>

definition exponent :: "string \<Rightarrow> int option" where
  "exponent s = (case s of
     [] \<Rightarrow> None
   | c # r \<Rightarrow> (let signed = c = CHR ''-'' \<or> c = CHR ''+''; ds = (if signed then r else s) in
       if ds \<noteq> [] \<and> list_all is_digit ds then Some (if c = CHR ''-'' then - int (digits_nat ds) else int (digits_nat ds)) else None))"

definition power10 :: "int \<Rightarrow> rat" where
  "power10 e = (if e < 0 then 1 / 10 ^ nat (- e) else 10 ^ nat e)"

definition unsigned_decimal :: "string \<Rightarrow> rat option" where
  "unsigned_decimal s =
     (let whole = takeWhile is_digit s; r = dropWhile is_digit s;
          dot = r \<noteq> [] \<and> hd r = CHR ''.''; frac = (if dot then takeWhile is_digit (tl r) else []);
          rest = (if dot then dropWhile is_digit (tl r) else r);
          mantissa = of_nat (digits_nat (whole @ frac)) / 10 ^ length frac
      in if whole @ frac = [] then None
         else if rest = [] then Some mantissa
         else if hd rest = CHR ''e'' \<or> hd rest = CHR ''E'' then map_option (\<lambda>e. mantissa * power10 e) (exponent (tl rest))
         else None)"

definition radix_digit :: "nat \<Rightarrow> char \<Rightarrow> nat option" where
  "radix_digit b c = (case unhex c of None \<Rightarrow> None | Some d \<Rightarrow> if d < b then Some d else None)"

definition radix_number :: "nat \<Rightarrow> string \<Rightarrow> rat option" where
  "radix_number b s = (if s = [] then None else
     map_option (\<lambda>ds. of_nat (fold (\<lambda>d n. b * n + d) ds 0)) (those (map (radix_digit b) s)))"

definition js_number :: "string \<Rightarrow> rat option" where
  "js_number text =
     (let s = trim text; p = toLowerCase (take 2 s) in
      if s = [] then Some 0
      else if p = ''0x'' then radix_number 16 (drop 2 s)
      else if p = ''0o'' then radix_number 8 (drop 2 s)
      else if p = ''0b'' then radix_number 2 (drop 2 s)
      else if hd s = CHR ''-'' then map_option uminus (unsigned_decimal (tl s))
      else if hd s = CHR ''+'' then unsigned_decimal (tl s)
      else unsigned_decimal s)"

text \<open>\<open>Number\<close> of any value; \<open>None\<close> is NaN. An array converts through its text: the empty one to 0, one
  element to that of the element, several to NaN.\<close>

fun text_number :: "pval \<Rightarrow> rat option" where
  "text_number PUndef = Some 0"
| "text_number PNull = Some 0"
| "text_number (PBool b) = None"
| "text_number (PNum x) = Some x"
| "text_number (PStr s) = js_number s"
| "text_number (PArr n vs) = (case vs of [] \<Rightarrow> Some 0 | [v] \<Rightarrow> text_number v | _ \<Rightarrow> None)"
| "text_number (PObj n kvs) = None"

definition number_of_value :: "pval \<Rightarrow> rat option" where
  "number_of_value v = (case v of
     PUndef \<Rightarrow> None
   | PNull \<Rightarrow> Some 0
   | PBool b \<Rightarrow> Some (if b then 1 else 0)
   | _ \<Rightarrow> text_number v)"

text \<open>The comparison of the CEL and Rego evaluators: by number when both sides convert.\<close>

definition loose_compare :: "string \<Rightarrow> pval \<Rightarrow> pval \<Rightarrow> bool" where
  "loose_compare operator lVal rVal = (case (number_of_value lVal, number_of_value rVal) of
     (Some l, Some r) \<Rightarrow>
       (if operator = ''>='' then l \<ge> r else if operator = ''<='' then l \<le> r else if operator = ''>'' then l > r
        else if operator = ''<'' then l < r else if operator = ''=='' then l = r else l \<noteq> r)
   | _ \<Rightarrow> if operator = ''=='' then strict_eq lVal rVal else operator = ''!='' \<and> \<not> strict_eq lVal rVal)"

definition value_size :: "pval \<Rightarrow> nat" where
  "value_size v = (case v of PArr n vs \<Rightarrow> length vs | PStr s \<Rightarrow> length s | PObj n kvs \<Rightarrow> length kvs | _ \<Rightarrow> 0)"

definition has_element :: "pval list \<Rightarrow> pval \<Rightarrow> bool" where
  "has_element vs v = list_ex (\<lambda>x. strict_eq x v) vs"

section \<open>Facts\<close>

lemma length_trim: "length (trim s) \<le> length s"
  by (simp add: trim_def) (metis length_dropWhile_le length_rev order.trans)

lemma split_on_length:
  assumes "sep \<noteq> []" and "contains_text s sep" and "p \<in> set (split_on sep s)"
  shows "length p < length s"
proof -
  have le: "q \<in> set (split_on sep t) \<Longrightarrow> length q \<le> length t" for q t
  proof (induction sep t rule: split_on.induct)
    case (1 sep t)
    show ?case
    proof (cases "sep = [] \<or> index_of sep t = None")
      case True
      then show ?thesis using "1.prems" by (subst (asm) split_on.simps) (cases t; auto split: if_splits)+
    next
      case False
      then obtain i where i: "sep \<noteq> []" "index_of sep t = Some i" by auto
      then have "q = take i t \<or> q \<in> set (split_on sep (drop (i + length sep) t))"
        using "1.prems" by (subst (asm) split_on.simps) simp
      then show ?thesis using "1.IH" [OF i] by fastforce
    qed
  qed
  obtain i where i: "index_of sep s = Some i" using assms(2) by (auto simp: contains_text_def)
  then have "p = take i s \<or> p \<in> set (split_on sep (drop (i + length sep) s))"
    using assms(1,3) by (subst (asm) split_on.simps) simp
  then have "length p \<le> max i (length s - (i + length sep))" using le by fastforce
  moreover have "0 < length sep" using assms(1) by simp
  ultimately show ?thesis using index_of_bound [OF i] by linarith
qed

end
