(* ===== verification/Expression.thy ===== *)
theory Expression
  imports JsValues
begin

text \<open>
  The simple expression evaluator of the policy gates, \<open>reference/src/policy/expression.ts\<close>: it cuts the text
  at \<open>||\<close> and \<open>&&\<close>, strips negations, and reads what is left as a membership test, a comparison or a
  truth test of a value.
\<close>

section \<open>Values of tokens\<close>

fun walk_path :: "string list \<Rightarrow> pval \<Rightarrow> pval" where
  "walk_path [] v = v"
| "walk_path (k # ks) v = (case v of PArr n vs \<Rightarrow> walk_path ks (get_prop v k) | PObj n kvs \<Rightarrow> walk_path ks (get_prop v k) | _ \<Rightarrow> PUndef)"

definition resolveProperty :: "string \<Rightarrow> pval \<Rightarrow> pval" where
  "resolveProperty path ctx = walk_path (split_on ''.'' path) ctx"

definition toNumber :: "pval \<Rightarrow> rat option" where
  "toNumber v = (case v of PNum x \<Rightarrow> Some x | PStr s \<Rightarrow> js_number s | _ \<Rightarrow> None)"

definition is_quoted :: "string \<Rightarrow> bool" where
  "is_quoted s \<longleftrightarrow> quoted_by (CHR 0x27) s \<or> quoted_by (CHR 0x22) s"

definition resolveValue :: "string \<Rightarrow> pval \<Rightarrow> pval" where
  "resolveValue token ctx =
     (if is_quoted token then PStr (inner token)
      else if token = ''true'' then PBool True
      else if token = ''false'' then PBool False
      else (case js_number token of
          Some n \<Rightarrow> if trim token \<noteq> [] then PNum n else resolveProperty token ctx
        | None \<Rightarrow> resolveProperty token ctx))"

section \<open>Atomic expressions\<close>

definition both :: "rat option \<Rightarrow> rat option \<Rightarrow> (rat \<Rightarrow> rat \<Rightarrow> bool) \<Rightarrow> bool" where
  "both l r f = (case (l, r) of (Some x, Some y) \<Rightarrow> f x y | _ \<Rightarrow> False)"

definition compare_values :: "string \<Rightarrow> pval \<Rightarrow> pval \<Rightarrow> bool" where
  "compare_values operator lVal rVal =
     (let l = toNumber lVal; r = toNumber rVal in
      if operator = ''>='' then both l r (\<ge>)
      else if operator = ''<='' then both l r (\<le>)
      else if operator = ''>'' then both l r (>)
      else if operator = ''<'' then both l r (<)
      else if operator = ''=='' then strict_eq lVal rVal \<or> both l r (=)
      else if operator = ''!='' then (if l \<noteq> None \<and> r \<noteq> None then l \<noteq> r else \<not> strict_eq lVal rVal)
      else False)"

definition evaluateComparison :: "string \<Rightarrow> string \<Rightarrow> string \<Rightarrow> pval \<Rightarrow> bool" where
  "evaluateComparison left operator right ctx =
     compare_values operator (resolveValue (trim left) ctx) (resolveValue (trim right) ctx)"

definition evaluateContains :: "string \<Rightarrow> string \<Rightarrow> pval \<Rightarrow> bool" where
  "evaluateContains collection value ctx =
     (case (resolveValue (trim collection) ctx, resolveValue (trim value) ctx) of
        (PArr n vs, v) \<Rightarrow> has_element vs v
      | (PStr s, PStr t) \<Rightarrow> contains_text s t
      | _ \<Rightarrow> False)"

definition operators :: "string list" where
  "operators = [''>='', ''<='', ''!='', ''=='', ''>'', ''<'']"

definition positive_atomic :: "string \<Rightarrow> pval \<Rightarrow> bool" where
  "positive_atomic e ctx =
     (case index_of '' contains '' e of
        Some i \<Rightarrow> evaluateContains (take i e) (drop (i + 10) e) ctx
      | None \<Rightarrow>
          (case find (contains_text e) operators of
             Some op \<Rightarrow> (let i = the (index_of op e) in evaluateComparison (take i e) op (drop (i + length op) e) ctx)
           | None \<Rightarrow> to_boolean (resolveValue e ctx)))"

lemma negation_shorter: "starts_with (trim e) ''!'' \<Longrightarrow> length (drop 1 (trim e)) < length e"
  using length_trim [of e] by (cases "trim e") (auto simp: starts_with_def)

function evaluateAtomic :: "string \<Rightarrow> pval \<Rightarrow> bool" where
  "evaluateAtomic e ctx =
     (let t = trim e in
      if starts_with t ''!'' then \<not> evaluateAtomic (drop 1 t) ctx else positive_atomic t ctx)"
  by pat_completeness auto

termination
  by (relation "measure (\<lambda>(e, ctx). length e)") (auto dest: negation_shorter [simplified])

declare evaluateAtomic.simps [simp del]

section \<open>The evaluator\<close>

lemma piece_shorter: "sep \<noteq> [] \<Longrightarrow> contains_text s sep \<Longrightarrow> p \<in> set (split_on sep s) \<Longrightarrow> length (trim p) < length s"
  using split_on_length [of sep s p] length_trim [of p] by simp

function evaluate :: "string \<Rightarrow> pval \<Rightarrow> bool" where
  "evaluate e ctx =
     (if contains_text e ''||'' then list_ex (\<lambda>p. evaluate (trim p) ctx) (split_on ''||'' e)
      else if contains_text e ''&&'' then list_all (\<lambda>p. evaluate (trim p) ctx) (split_on ''&&'' e)
      else evaluateAtomic e ctx)"
  by pat_completeness auto

termination
  by (relation "measure (\<lambda>(e, ctx). length e)") (auto intro: piece_shorter)

declare evaluate.simps [simp del]

text \<open>The answer of \<open>validate\<close>: the error, if any.\<close>

definition validate_expression :: "string \<Rightarrow> string option" where
  "validate_expression e = (if trim e = [] then Some ''Expression is empty'' else None)"

definition evaluateExpressionRule :: "string \<Rightarrow> pval \<Rightarrow> (string \<Rightarrow> pval \<Rightarrow> string + bool) \<Rightarrow> bool \<times> string option" where
  "evaluateExpressionRule rule ctx evaluator = (case evaluator rule ctx of
     Inr True \<Rightarrow> (True, None)
   | Inr False \<Rightarrow> (False, Some (''Expression failed: '' @ rule))
   | Inl err \<Rightarrow> (False, Some (''Expression error: '' @ err)))"

end
