(* ===== verification/Cel.thy ===== *)
theory Cel
  imports Expression
begin

text \<open>
  The CEL-like evaluator, \<open>reference/src/policy/cel-evaluator.ts\<close>, over texts as the code works on them: it cuts
  at \<open>||\<close> and \<open>&&\<close> first, then finds a comparison outside parentheses and quotes, then the last method
  call. Regular expressions in \<open>matches\<close> are those of the runtime, a parameter that answers \<open>None\<close> for an
  invalid pattern.
\<close>

section \<open>Finding operators and calls\<close>

type_synonym scan_state = "int \<times> bool \<times> bool"  \<comment> \<open>open parentheses, in double quotes, in single quotes\<close>

definition scan_char :: "char \<Rightarrow> scan_state \<Rightarrow> scan_state" where
  "scan_char c st = (case st of (depth, inDouble, inSingle) \<Rightarrow>
     let inD = (if c = CHR 0x22 \<and> \<not> inSingle then \<not> inDouble else inDouble);
         inS = (if c = CHR 0x27 \<and> \<not> inDouble then \<not> inSingle else inSingle)
     in (if inD \<or> inS then depth else if c = CHR ''('' then depth + 1 else if c = CHR '')'' then depth - 1 else depth, inD, inS))"

definition outside :: "scan_state \<Rightarrow> bool" where
  "outside st = (case st of (depth, inDouble, inSingle) \<Rightarrow> \<not> inDouble \<and> \<not> inSingle \<and> depth \<le> 0)"

fun top_level :: "string \<Rightarrow> scan_state \<Rightarrow> nat \<Rightarrow> string \<Rightarrow> nat option" where
  "top_level target st pos [] = None"
| "top_level target st pos (c # cs) =
     (if c = CHR 0x5C then (case cs of [] \<Rightarrow> None | x # xs \<Rightarrow> top_level target st (pos + 2) xs)
      else if outside (scan_char c st) \<and> starts_with (c # cs) target then Some pos
      else top_level target (scan_char c st) (pos + 1) cs)"

definition findTopLevelOperator :: "string \<Rightarrow> string \<Rightarrow> nat option" where
  "findTopLevelOperator e op = top_level ('' '' @ op @ '' '') (0, False, False) 0 e"

text \<open>The scan from the end for the parenthesis that opens the last call; the text comes reversed, with the number of
  characters left.\<close>

fun open_paren :: "int \<Rightarrow> string \<Rightarrow> nat option" where
  "open_paren depth [] = None"
| "open_paren depth (c # before) =
     (if c = CHR '')'' then open_paren (depth + 1) before
      else if c = CHR ''('' then (if depth - 1 = 0 then Some (length before) else open_paren (depth - 1) before)
      else open_paren depth before)"

definition last_dot :: "string \<Rightarrow> nat option" where
  "last_dot s = (if CHR ''.'' \<in> set s then Some (length s - 1 - length (takeWhile (\<lambda>c. c \<noteq> CHR ''.'') (rev s))) else None)"

definition method_start :: "string \<Rightarrow> nat option" where
  "method_start e = (case open_paren 0 (rev e) of None \<Rightarrow> None | Some i \<Rightarrow> last_dot (take i e))"

definition no_newline :: "string \<Rightarrow> bool" where
  "no_newline s \<longleftrightarrow> CHR 0x0A \<notin> set s \<and> CHR 0x0D \<notin> set s"

text \<open>The argument of \<open>name(...)\<close>, for the patterns \<open>has\<close> and \<open>size\<close>.\<close>

definition call_argument :: "string \<Rightarrow> string \<Rightarrow> string option" where
  "call_argument name e = (let arg = drop (length name + 1) (take (length e - 1) e) in
     if starts_with e (name @ ''('') \<and> ends_with e '')'' \<and> arg \<noteq> [] \<and> no_newline arg \<and> length e \<ge> length name + 3
     then Some arg else None)"

text \<open>What follows \<open>in\<close> and blanks.\<close>

definition after_in :: "string \<Rightarrow> string option" where
  "after_in s = (let r = dropWhile is_space s; t = dropWhile is_space (drop 2 r) in
     if s \<noteq> [] \<and> is_space (hd s) \<and> starts_with r ''in'' \<and> drop 2 r \<noteq> [] \<and> is_space (hd (drop 2 r)) \<and> t \<noteq> [] \<and> no_newline t
     then Some t else None)"

fun in_split :: "string \<Rightarrow> string \<Rightarrow> (string \<times> string) option" where
  "in_split before [] = None"
| "in_split before (c # s) =
     (if before \<noteq> [] \<and> after_in (c # s) \<noteq> None then Some (before, the (after_in (c # s)))
      else if \<not> no_newline [c] then None
      else in_split (before @ [c]) s)"

definition parseMacroArgs :: "string \<Rightarrow> string \<times> string" where
  "parseMacroArgs args = (case index_of '','' args of
     None \<Rightarrow> (''it'', trim args) | Some i \<Rightarrow> (trim (take i args), trim (drop (i + 1) args)))"

definition with_var :: "pval \<Rightarrow> string \<Rightarrow> pval \<Rightarrow> pval" where
  "with_var ctx x v = (case ctx of PObj n kvs \<Rightarrow> PObj 0 (map_set x v kvs) | _ \<Rightarrow> PObj 0 [(x, v)])"

section \<open>Lengths\<close>

lemma open_paren_bound: "open_paren d s = Some i \<Longrightarrow> i < length s"
  by (induction d s rule: open_paren.induct) (auto split: if_splits)

lemma last_dot_bound: "last_dot s = Some i \<Longrightarrow> i < length s"
  by (cases s) (auto simp: last_dot_def split: if_splits)

lemma method_start_bound: "method_start e = Some i \<Longrightarrow> i + 1 < length e"
proof -
  assume "method_start e = Some i"
  then obtain j where j: "open_paren 0 (rev e) = Some j" "last_dot (take j e) = Some i"
    by (auto simp: method_start_def split: option.splits)
  show "i + 1 < length e" using open_paren_bound [OF j(1)] last_dot_bound [OF j(2)] by simp
qed

lemma call_argument_length: "call_argument n e = Some a \<Longrightarrow> length a < length e"
  by (auto simp: call_argument_def Let_def split: if_splits)

lemma after_in_length: "after_in s = Some t \<Longrightarrow> length t + 2 < length s"
proof -
  assume a: "after_in s = Some t"
  let ?r = "dropWhile is_space s"
  have s: "s \<noteq> []" "is_space (hd s)" "starts_with ?r ''in''" "t = dropWhile is_space (drop 2 ?r)"
    using a by (simp_all add: after_in_def Let_def split: if_split_asm)
  have "length ?r < length s" using s(1,2) by (cases s) (auto simp: le_imp_less_Suc length_dropWhile_le)
  moreover have "2 \<le> length ?r" using s(3) unfolding starts_with_def by (auto dest: arg_cong [of _ _ length])
  moreover have "length t \<le> length ?r - 2" using s(4) length_dropWhile_le [of is_space "drop 2 ?r"] by simp
  ultimately show ?thesis by simp
qed

lemma in_split_length: "in_split b s = Some (x, y) \<Longrightarrow> length x < length b + length s \<and> length y < length s"
proof (induction s arbitrary: b)
  case (Cons c s)
  show ?case
  proof (cases "b \<noteq> [] \<and> after_in (c # s) \<noteq> None")
    case True
    then obtain t where t: "after_in (c # s) = Some t" by blast
    then have "x = b" "y = t" using Cons.prems True by simp_all
    then show ?thesis using after_in_length [OF t] by simp
  next
    case False
    then have "in_split (b @ [c]) s = Some (x, y)" using Cons.prems by (simp split: if_split_asm)
    from Cons.IH [OF this] show ?thesis by simp
  qed
qed simp

lemma top_level_bound: "top_level t st pos s = Some i \<Longrightarrow> pos \<le> i \<and> i < pos + length s"
proof (induction t st pos s rule: top_level.induct)
  case (2 t st pos c cs)
  show ?case
  proof (cases "c = CHR 0x5C")
    case True
    then show ?thesis using 2 by (cases cs) fastforce+
  next
    case False
    then show ?thesis using 2(2) [OF False] 2(3) by (cases "outside (scan_char c st) \<and> starts_with (c # cs) t") auto
  qed
qed simp

lemma find_operator_bound: "findTopLevelOperator e op = Some i \<Longrightarrow> i < length e"
  using top_level_bound by (fastforce simp: findTopLevelOperator_def)

lemma macro_body_length: "length (snd (parseMacroArgs args)) \<le> length args"
  using length_trim [of args] length_trim le_trans
  by (auto simp: parseMacroArgs_def split: option.split intro: le_trans [OF length_trim])

section \<open>The evaluator\<close>

definition slice :: "nat \<Rightarrow> nat \<Rightarrow> string \<Rightarrow> string" where
  "slice i j s = drop i (take j s)"

text \<open>Receiver, method and arguments of the last call.\<close>

definition method_call :: "string \<Rightarrow> (string \<times> string \<times> string) option" where
  "method_call e = (case method_start e of
     None \<Rightarrow> None
   | Some i \<Rightarrow> (let rest = drop (i + 1) e; p = or_else (index_of ''('' rest) 0 in
       Some (take i e, take p rest, trim (slice (p + 1) (length rest - 1) rest))))"

definition ternary :: "string \<Rightarrow> (string \<times> string \<times> string) option" where
  "ternary e = (case findTopLevelOperator e ''?'' of
     None \<Rightarrow> None
   | Some i \<Rightarrow> (case index_of '' : '' (drop (i + 3) e) of
       None \<Rightarrow> None
     | Some j \<Rightarrow> Some (take i e, trim (take j (drop (i + 3) e)), trim (drop (j + 3) (drop (i + 3) e)))))"

definition comparison :: "string \<Rightarrow> (string \<times> string \<times> string) option" where
  "comparison e = (case find (\<lambda>op. findTopLevelOperator e op \<noteq> None) operators of
     None \<Rightarrow> None
   | Some op \<Rightarrow> (let i = the (findTopLevelOperator e op) in
       Some (op, trim (take i e), trim (drop (i + length op + 2) e))))"

lemma method_call_length:
  assumes "method_call e = Some (r, m, args)"
  shows "length r < length e" and "length args + 2 \<le> length e"
proof -
  obtain i where i: "method_start e = Some i" using assms by (auto simp: method_call_def split: option.splits)
  let ?rest = "drop (i + 1) e" let ?p = "or_else (index_of ''('' ?rest) 0"
  have r: "r = take i e" and a: "args = trim (slice (?p + 1) (length ?rest - 1) ?rest)"
    using assms i by (simp_all add: method_call_def Let_def)
  show "length r < length e" using r method_start_bound [OF i] by simp
  have "length args \<le> length ?rest - 1" unfolding a using length_trim [of "slice (?p + 1) (length ?rest - 1) ?rest"]
    by (simp add: slice_def)
  then show "length args + 2 \<le> length e" using method_start_bound [OF i] by simp
qed

lemma ternary_length:
  assumes "ternary e = Some (c, a, b)"
  shows "length c < length e" and "length a < length e" and "length b < length e"
proof -
  obtain i j where i: "findTopLevelOperator e ''?'' = Some i" and j: "index_of '' : '' (drop (i + 3) e) = Some j"
    using assms by (auto simp: ternary_def split: option.splits)
  have c: "c = take i e" "a = trim (take j (drop (i + 3) e))" "b = trim (drop (j + 3) (drop (i + 3) e))"
    using assms i j by (simp_all add: ternary_def)
  have b: "i < length e" "j + 3 \<le> length e - (i + 3)" using find_operator_bound [OF i] index_of_bound [OF j] by simp_all
  show "length c < length e" "length a < length e" "length b < length e"
    using b c length_trim [of "take j (drop (i + 3) e)"] length_trim [of "drop (j + 3) (drop (i + 3) e)"] by simp_all
qed

lemma comparison_length:
  assumes "comparison e = Some (op, l, r)"
  shows "length l < length e" and "length r < length e"
proof -
  obtain i where i: "findTopLevelOperator e op = Some i" and lr: "l = trim (take i e)" "r = trim (drop (i + length op + 2) e)"
    using assms by (auto simp: comparison_def Let_def find_Some_iff split: option.splits)
  show "length l < length e" "length r < length e"
    using find_operator_bound [OF i] lr length_trim [of "take i e"] length_trim [of "drop (i + length op + 2) e"] by simp_all
qed

text \<open>\<open>element in collection\<close>: in an array, or a key of an object; the text of a key is that of a string, an integer, a
  literal or an array of these.\<close>

fun key_text :: "pval \<Rightarrow> string" where
  "key_text (PStr s) = s"
| "key_text PUndef = ''undefined''"
| "key_text PNull = ''null''"
| "key_text (PBool b) = bool_text b"
| "key_text (PNum x) = int_text \<lfloor>x\<rfloor>"
| "key_text (PArr n vs) = join '','' (map (\<lambda>v. if v = PUndef \<or> v = PNull then [] else key_text v) vs)"
| "key_text (PObj n kvs) = ''[object Object]''"

definition in_collection :: "pval \<Rightarrow> pval \<Rightarrow> pval" where
  "in_collection v c = PBool (case c of PArr n vs \<Rightarrow> has_element vs v | PObj n kvs \<Rightarrow> has_key (key_text v) kvs | _ \<Rightarrow> False)"

text \<open>A call of a method on a value; \<open>value\<close> and \<open>holds\<close> stand for the evaluation of the arguments: a value in
  the context, and the body of a macro for one element.\<close>

definition evaluateCELMethod ::
  "(string \<Rightarrow> string \<Rightarrow> bool option) \<Rightarrow> (string \<Rightarrow> pval) \<Rightarrow> (string \<Rightarrow> pval \<Rightarrow> string \<Rightarrow> bool)
    \<Rightarrow> (string \<Rightarrow> pval \<Rightarrow> string \<Rightarrow> pval) \<Rightarrow> pval \<Rightarrow> string \<Rightarrow> string \<Rightarrow> pval" where
  "evaluateCELMethod regex arg hold val receiver method args =
     (let x = fst (parseMacroArgs args); body = snd (parseMacroArgs args) in
      if method = ''size'' then PNum (of_nat (value_size receiver))
      else if method = ''startsWith'' then
        (case (receiver, arg args) of (PStr s, PStr p) \<Rightarrow> PBool (starts_with s p) | _ \<Rightarrow> PBool False)
      else if method = ''endsWith'' then
        (case (receiver, arg args) of (PStr s, PStr p) \<Rightarrow> PBool (ends_with s p) | _ \<Rightarrow> PBool False)
      else if method = ''contains'' then
        (case (receiver, arg args) of (PStr s, PStr p) \<Rightarrow> PBool (contains_text s p)
         | (PArr n vs, v) \<Rightarrow> PBool (has_element vs v) | _ \<Rightarrow> PBool False)
      else if method = ''matches'' then
        (case (receiver, arg args) of (PStr s, PStr p) \<Rightarrow> PBool (or_else (regex p s) False) | _ \<Rightarrow> PBool False)
      else if method = ''exists'' then
        (case receiver of PArr n vs \<Rightarrow> PBool (list_ex (\<lambda>v. hold x v body) vs) | _ \<Rightarrow> PBool False)
      else if method = ''all'' then
        (case receiver of PArr n vs \<Rightarrow> PBool (list_all (\<lambda>v. hold x v body) vs) | _ \<Rightarrow> PBool False)
      else if method = ''filter'' then
        (case receiver of PArr n vs \<Rightarrow> PArr 0 (filter (\<lambda>v. hold x v body) vs) | _ \<Rightarrow> PArr 0 [])
      else if method = ''map'' then
        (case receiver of PArr n vs \<Rightarrow> PArr 0 (map (\<lambda>v. val x v body) vs) | _ \<Rightarrow> PArr 0 [])
      else PUndef)"

lemma trimmed_lengths:
  "method_call (trim e) = Some (r, m, args) \<Longrightarrow> length r < length e"
  "method_call (trim e) = Some (r, m, args) \<Longrightarrow> Suc (2 * length args) < 2 * length e"
  "method_call (trim e) = Some (r, m, args) \<Longrightarrow> Suc (2 * length (snd (parseMacroArgs args))) < 2 * length e"
  "call_argument n (trim e) = Some a \<Longrightarrow> Suc (2 * length a) < 2 * length e"
  "in_split [] (trim e) = Some (x, y) \<Longrightarrow> Suc (2 * length x) < 2 * length e"
  "in_split [] (trim e) = Some (x, y) \<Longrightarrow> Suc (2 * length y) < 2 * length e"
  using length_trim [of e] method_call_length [of "trim e" r m args] macro_body_length [of args]
    call_argument_length [of n "trim e" a] in_split_length [of "[]" "trim e" x y] by auto

lemma trimmed_lengths_atomic:
  "ternary (trim e) = Some (c, a, b) \<Longrightarrow> length c < length e"
  "ternary (trim e) = Some (c, a, b) \<Longrightarrow> length a < length e"
  "ternary (trim e) = Some (c, a, b) \<Longrightarrow> length b < length e"
  "comparison (trim e) = Some (op, l, r) \<Longrightarrow> length l < length e"
  "comparison (trim e) = Some (op, l, r) \<Longrightarrow> length r < length e"
  "starts_with (trim e) ''!'' \<Longrightarrow> length (trim e) - Suc 0 < length e"
  "2 * length (trim e) < Suc (2 * length e)"
  "comparison (trim e) = Some (op, l, r) \<Longrightarrow> 2 * length l < Suc (2 * length e)"
  using length_trim [of e] ternary_length [of "trim e" c a b] comparison_length [of "trim e" op l r] negation_shorter [of e] by auto

lemma method_cong [fundef_cong]:
  assumes "arg args = arg' args" and "\<And>x v. hold x v (snd (parseMacroArgs args)) = hold' x v (snd (parseMacroArgs args))"
    and "\<And>x v. val x v (snd (parseMacroArgs args)) = val' x v (snd (parseMacroArgs args))"
    and "regex = regex'" and "receiver = receiver'" and "method = method'" and "args = args'"
  shows "evaluateCELMethod regex arg hold val receiver method args = evaluateCELMethod regex' arg' hold' val' receiver' method' args'"
  unfolding evaluateCELMethod_def assms(4-7) [symmetric] Let_def assms(1-3) ..

function parseCELValue :: "(string \<Rightarrow> string \<Rightarrow> bool option) \<Rightarrow> string \<Rightarrow> pval \<Rightarrow> pval"
  and resolveCELExpr :: "(string \<Rightarrow> string \<Rightarrow> bool option) \<Rightarrow> string \<Rightarrow> pval \<Rightarrow> pval"
  and evaluateCELAtomic :: "(string \<Rightarrow> string \<Rightarrow> bool option) \<Rightarrow> string \<Rightarrow> pval \<Rightarrow> bool" where
  "parseCELValue regex token ctx =
     (let t = trim token in
      if is_quoted t then PStr (inner t)
      else if t = ''true'' then PBool True
      else if t = ''false'' then PBool False
      else if t = ''null'' then PNull
      else if js_number t \<noteq> None \<and> t \<noteq> [] then PNum (the (js_number t))
      else resolveCELExpr regex t ctx)"
| "resolveCELExpr regex expr ctx =
     (let t = trim expr in
      case method_call t of
        Some (receiver, name, args) \<Rightarrow>
          evaluateCELMethod regex (\<lambda>a. parseCELValue regex a ctx)
            (\<lambda>x v body. evaluateCELAtomic regex body (with_var ctx x v))
            (\<lambda>x v body. parseCELValue regex body (with_var ctx x v))
            (resolveCELExpr regex receiver ctx) name args
      | None \<Rightarrow> (case call_argument ''has'' t of
          Some p \<Rightarrow> PBool (resolveProperty p ctx \<noteq> PUndef \<and> resolveProperty p ctx \<noteq> PNull)
        | None \<Rightarrow> (case call_argument ''size'' t of
            Some a \<Rightarrow> PNum (of_nat (value_size (parseCELValue regex a ctx)))
          | None \<Rightarrow> (case in_split [] t of
              Some (l, r) \<Rightarrow> in_collection (parseCELValue regex l ctx) (parseCELValue regex r ctx)
            | None \<Rightarrow> resolveProperty t ctx))))"
| "evaluateCELAtomic regex expression ctx =
     (let t = trim expression in
      if starts_with t ''!'' then \<not> evaluateCELAtomic regex (drop 1 t) ctx
      else (case ternary t of
          Some (c, a, b) \<Rightarrow> to_boolean (if evaluateCELAtomic regex c ctx then parseCELValue regex a ctx else parseCELValue regex b ctx)
        | None \<Rightarrow> (case comparison t of
            Some (op, l, r) \<Rightarrow> loose_compare op (resolveCELExpr regex l ctx) (parseCELValue regex r ctx)
          | None \<Rightarrow> to_boolean (resolveCELExpr regex t ctx))))"
  by pat_completeness auto

termination
  by (relation "measure (\<lambda>x. case x of Inl (regex, t, ctx) \<Rightarrow> 2 * length t + 1
       | Inr (Inl (regex, t, ctx)) \<Rightarrow> 2 * length t | Inr (Inr (regex, t, ctx)) \<Rightarrow> 2 * length t + 1)")
    (auto intro: trimmed_lengths trimmed_lengths_atomic)

declare parseCELValue.simps [simp del] resolveCELExpr.simps [simp del] evaluateCELAtomic.simps [simp del]

function evaluate_cel :: "(string \<Rightarrow> string \<Rightarrow> bool option) \<Rightarrow> string \<Rightarrow> pval \<Rightarrow> bool" where
  "evaluate_cel regex e ctx =
     (if contains_text e ''||'' then list_ex (\<lambda>p. evaluate_cel regex (trim p) ctx) (split_on ''||'' e)
      else if contains_text e ''&&'' then list_all (\<lambda>p. evaluate_cel regex (trim p) ctx) (split_on ''&&'' e)
      else evaluateCELAtomic regex e ctx)"
  by pat_completeness auto
termination
  by (relation "measure (\<lambda>(regex, e, ctx). length e)") (auto intro: piece_shorter)

declare evaluate_cel.simps [simp del]

end
