(* ===== verification/ExpressionProps.thy ===== *)
theory ExpressionProps
  imports Expression
begin

text \<open>
  The evaluator means what a condition says when its operands are free of operators, blanks and quotes around them;
  an operator inside a quoted operand is cut all the same.
\<close>

section \<open>Searching and splitting\<close>

lemma index_of_first:
  assumes "pat \<noteq> []" and "hd pat \<notin> set x"
  shows "index_of pat (x @ pat @ y) = Some (length x)"
  using assms
proof (induction x)
  case Nil
  have "take (length pat) (pat @ y) = pat" by simp
  then show ?case using Nil(1) by (cases "pat @ y") simp_all
next
  case (Cons c x)
  then have "take (length pat) (c # x @ pat @ y) \<noteq> pat" by (cases pat) auto
  then show ?case using Cons by simp
qed

lemma index_of_split: "index_of pat s = Some i \<Longrightarrow> \<exists>u v. s = u @ pat @ v"
proof (induction s arbitrary: i)
  case (Cons c s)
  show ?case
  proof (cases "take (length pat) (c # s) = pat")
    case True
    then have "c # s = [] @ pat @ drop (length pat) (c # s)" by (metis append_Nil append_take_drop_id)
    then show ?thesis by blast
  next
    case False
    then obtain j where "index_of pat s = Some j" using Cons.prems by (auto split: option.splits)
    then obtain u v where "s = u @ pat @ v" using Cons.IH by blast
    then have "c # s = (c # u) @ pat @ v" by simp
    then show ?thesis by blast
  qed
qed (auto split: if_splits)

lemma contains_chars: "contains_text s pat \<Longrightarrow> set pat \<subseteq> set s"
  unfolding contains_text_def using index_of_split by fastforce

lemma contains_infix: "pat \<noteq> [] \<Longrightarrow> hd pat \<notin> set x \<Longrightarrow> contains_text (x @ pat @ y) pat"
  by (simp add: contains_text_def index_of_first)

lemma split_on_first:
  assumes "sep \<noteq> []" and "hd sep \<notin> set x"
  shows "split_on sep (x @ sep @ y) = x # split_on sep y"
  using assms by (subst split_on.simps) (simp add: index_of_first)

lemma index_of_none:
  assumes "pat \<noteq> []" and "hd pat \<notin> set x"
  shows "index_of pat x = None"
proof (rule ccontr)
  assume "index_of pat x \<noteq> None"
  then have "set pat \<subseteq> set x" by (intro contains_chars) (simp add: contains_text_def)
  with assms show False using hd_in_set by blast
qed

lemma split_on_none: "sep \<noteq> [] \<Longrightarrow> hd sep \<notin> set x \<Longrightarrow> split_on sep x = [x]"
  by (subst split_on.simps) (simp add: index_of_none)

lemma first_word: "CHR '' '' \<notin> set x \<Longrightarrow> takeWhile (\<lambda>c. c \<noteq> CHR '' '') (x @ '' '' @ y) = x"
  by (induction x) auto

section \<open>Trimming\<close>

definition trimmed :: "string \<Rightarrow> bool" where
  "trimmed s \<longleftrightarrow> s \<noteq> [] \<and> \<not> is_space (hd s) \<and> \<not> is_space (last s)"

lemma space_is_space [simp]: "is_space CHR '' ''"
  by (simp add: is_space_def char_code_def)

lemma trim_trimmed [simp]: "trimmed s \<Longrightarrow> trim s = s"
proof -
  assume "trimmed s"
  have d: "xs \<noteq> [] \<Longrightarrow> \<not> is_space (hd xs) \<Longrightarrow> dropWhile is_space xs = xs" for xs by (cases xs) simp_all
  have "dropWhile is_space s = s" "dropWhile is_space (rev s) = rev s"
    using \<open>trimmed s\<close> d [of s] d [of "rev s"] by (simp_all add: trimmed_def hd_rev)
  then show ?thesis by (simp add: trim_def)
qed

lemma trim_around:
  assumes "trimmed s" and "set pre \<subseteq> {CHR '' ''}" and "set post \<subseteq> {CHR '' ''}"
  shows "trim (pre @ s @ post) = s"
proof -
  have a: "dropWhile is_space (xs @ ys) = dropWhile is_space ys" if "set xs \<subseteq> {CHR '' ''}" for xs ys
    using that by (induction xs) auto
  have h: "dropWhile is_space (s @ zs) = s @ zs" for zs using assms(1) by (cases s) (auto simp: trimmed_def)
  have r: "dropWhile is_space (rev post @ rev s) = rev s"
    using a [of "rev post" "rev s"] assms(1,3) by (cases s rule: rev_cases) (auto simp: trimmed_def)
  show ?thesis by (simp add: trim_def a [OF assms(2)] h r)
qed

lemmas trim_sides = trim_around [of _ "[]" "[]", simplified] trim_around [of _ "'' ''" "[]", simplified]
  trim_around [of _ "[]" "'' ''", simplified] trim_around [of _ "'' ''" "'' ''", simplified]

section \<open>Conditions\<close>

text \<open>The conditions the language is for, their text, and what they say.\<close>

datatype condition = Compare string string string | Member string string | Holds string | Negated condition

fun text_of :: "condition \<Rightarrow> string" where
  "text_of (Compare l op r) = l @ '' '' @ op @ '' '' @ r"
| "text_of (Member c v) = c @ '' contains '' @ v"
| "text_of (Holds v) = v"
| "text_of (Negated c) = CHR ''!'' # text_of c"

fun says :: "condition \<Rightarrow> pval \<Rightarrow> bool" where
  "says (Compare l op r) ctx = compare_values op (resolveValue l ctx) (resolveValue r ctx)"
| "says (Member c v) ctx = (case (resolveValue c ctx, resolveValue v ctx) of
     (PArr n vs, x) \<Rightarrow> has_element vs x | (PStr s, PStr t) \<Rightarrow> contains_text s t | _ \<Rightarrow> False)"
| "says (Holds v) ctx = to_boolean (resolveValue v ctx)"
| "says (Negated c) ctx = (\<not> says c ctx)"

definition special :: "char \<Rightarrow> bool" where
  "special c \<longleftrightarrow> c \<in> set ''!=<>&|'' \<or> is_space c"

definition token_ok :: "string \<Rightarrow> bool" where
  "token_ok s \<longleftrightarrow> s \<noteq> [] \<and> list_all (\<lambda>c. \<not> special c) s"

fun condition_ok :: "condition \<Rightarrow> bool" where
  "condition_ok (Compare l op r) = (token_ok l \<and> op \<in> set operators \<and> token_ok r)"
| "condition_ok (Member c v) = (token_ok c \<and> token_ok v)"
| "condition_ok (Holds v) = token_ok v"
| "condition_ok (Negated c) = condition_ok c"

fun joined :: "string \<Rightarrow> string list \<Rightarrow> string" where
  "joined sep [] = []"
| "joined sep [p] = p"
| "joined sep (p # q # ps) = p @ '' '' @ sep @ '' '' @ joined sep (q # ps)"

definition any_text :: "condition list list \<Rightarrow> string" where
  "any_text dnf = joined ''||'' (map (\<lambda>cs. joined ''&&'' (map text_of cs)) dnf)"

lemma token_trimmed: "token_ok s \<Longrightarrow> trimmed s"
  using hd_in_set [of s] last_in_set [of s] by (auto simp: token_ok_def trimmed_def special_def list_all_iff)

lemma token_chars: "token_ok s \<Longrightarrow> c \<in> set s \<Longrightarrow> \<not> special c"
  by (auto simp: token_ok_def list_all_iff)

lemma token_not: "token_ok s \<Longrightarrow> special c \<Longrightarrow> c \<notin> set s"
  using token_chars by blast

lemma special_simps [simp]:
  "special CHR ''!''" "special CHR ''=''" "special CHR ''<''" "special CHR ''>''" "special CHR ''&''" "special CHR ''|''" "special CHR '' ''"
  by (simp_all add: special_def)

section \<open>Atomic conditions\<close>

lemma no_contains:
  assumes l: "token_ok l" and r: "token_ok r" and op: "op \<in> set operators"
  shows "index_of '' contains '' (l @ '' '' @ op @ '' '' @ r) = None"
proof (rule ccontr)
  let ?t = "l @ '' '' @ op @ '' '' @ r"
  assume "index_of '' contains '' ?t \<noteq> None"
  then obtain u v where uv: "?t = u @ '' contains '' @ v" using index_of_split by blast
  let ?n = "\<lambda>s. takeWhile (\<lambda>c. c \<noteq> CHR '' '') s"
  have nl: "CHR '' '' \<notin> set l" "CHR '' '' \<notin> set r" "CHR '' '' \<notin> set op"
    using token_not [OF l] token_not [OF r] op by (auto simp: operators_def)
  have "length (filter (\<lambda>c. c = CHR '' '') ?t) = 2"
  proof -
    have "filter (\<lambda>c. c = CHR '' '') x = []" if "CHR '' '' \<notin> set x" for x using that by (auto simp: filter_empty_conv)
    then show ?thesis using nl by simp
  qed
  then have "length (filter (\<lambda>c. c = CHR '' '') u) + length (filter (\<lambda>c. c = CHR '' '') v) = 0"
    unfolding uv by simp
  then have "CHR '' '' \<notin> set u" by (auto simp: filter_empty_conv)
  have "?n ?t = l" using first_word [OF nl(1)] .
  moreover have "?n ?t = u" using first_word [OF \<open>CHR '' '' \<notin> set u\<close>, of "''contains '' @ v"] uv by simp
  ultimately have "l = u" by simp
  then have "op @ '' '' @ r = ''contains '' @ v" using uv by simp
  then have "?n (op @ '' '' @ r) = ?n (''contains '' @ v)" by simp
  moreover have "?n (op @ '' '' @ r) = op" using first_word [OF nl(3)] .
  ultimately have "op = ''contains''" by simp
  then show False using op by (simp add: operators_def)
qed

lemma first_operator:
  assumes l: "token_ok l" and r: "token_ok r" and op: "op \<in> set operators"
  shows "find (contains_text (l @ '' '' @ op @ '' '' @ r)) operators = Some op"
proof -
  let ?t = "l @ '' '' @ op @ '' '' @ r"
  have hd: "hd op \<notin> set l" "op \<noteq> []" "hd op \<noteq> CHR '' ''" using op token_not [OF l] by (auto simp: operators_def)
  then have yes: "contains_text ?t op" using contains_infix [of op "l @ '' ''" "'' '' @ r"] by simp
  have no: "\<not> contains_text ?t pat" if "c \<in> set pat" "special c" "c \<noteq> CHR '' ''" "c \<notin> set op" for pat c
    using contains_chars [of ?t pat] that token_not [OF l] token_not [OF r] by auto
  from op consider "op = ''>=''" | "op = ''<=''" | "op = ''!=''" | "op = ''==''" | "op = ''>''" | "op = ''<''"
    by (auto simp: operators_def)
  then show ?thesis
    by cases (use yes no [of "CHR ''>''"] no [of "CHR ''<''"] no [of "CHR ''!''"] no [of "CHR ''=''"] in \<open>simp_all add: operators_def\<close>)
qed

lemma compare_atomic:
  assumes "token_ok l" and "token_ok r" and "op \<in> set operators"
  shows "positive_atomic (l @ '' '' @ op @ '' '' @ r) ctx = says (Compare l op r) ctx"
proof -
  have i: "index_of op (l @ '' '' @ op @ '' '' @ r) = Some (length l + 1)"
    using index_of_first [of op "l @ '' ''" "'' '' @ r"] assms(3) token_not [OF assms(1)] by (auto simp: operators_def)
  show ?thesis
    using trim_sides(2) [OF token_trimmed [OF assms(2)]] trim_sides(3) [OF token_trimmed [OF assms(1)]]
    unfolding positive_atomic_def no_contains [OF assms(1,2,3)] first_operator [OF assms(1,2,3)] option.case Let_def i option.sel
    by (simp add: evaluateComparison_def)
qed

lemma member_atomic:
  assumes "token_ok c" and "token_ok v"
  shows "positive_atomic (c @ '' contains '' @ v) ctx = says (Member c v) ctx"
proof -
  have "index_of '' contains '' (c @ '' contains '' @ v) = Some (length c)"
    using token_not [OF assms(1)] by (intro index_of_first) auto
  then show ?thesis
    by (simp add: positive_atomic_def evaluateContains_def token_trimmed [OF assms(1)] token_trimmed [OF assms(2)])
qed

lemma holds_atomic:
  assumes "token_ok v"
  shows "positive_atomic v ctx = says (Holds v) ctx"
proof -
  have n: "\<not> contains_text v pat" if "c \<in> set pat" "special c" for pat c
    using contains_chars [of v pat] that token_not [OF assms] by blast
  have "find (contains_text v) operators = None"
    using n [of "CHR ''>''"] n [of "CHR ''<''"] n [of "CHR ''=''"] by (simp add: operators_def)
  moreover have "index_of '' contains '' v = None"
    using n [of "CHR '' ''" "'' contains ''"] by (simp add: contains_text_def)
  ultimately show ?thesis by (simp add: positive_atomic_def)
qed

lemma text_trimmed: "condition_ok c \<Longrightarrow> trimmed (text_of c)"
proof (induction c)
  case (Compare l op r)
  then show ?case using token_trimmed [of l] token_trimmed [of r] by (auto simp: trimmed_def)
next
  case (Member a v)
  then show ?case using token_trimmed [of a] token_trimmed [of v] by (auto simp: trimmed_def)
next
  case (Negated c)
  then show ?case by (auto simp: trimmed_def is_space_def char_code_def)
qed (simp add: token_trimmed)

lemma positive_start: "token_ok l \<Longrightarrow> \<not> starts_with (l @ rest) ''!''"
  using token_not [of l "CHR ''!''"] by (cases l) (auto simp: token_ok_def starts_with_def)

lemma atomic_says: "condition_ok c \<Longrightarrow> evaluateAtomic (text_of c) ctx = says c ctx"
proof (induction c)
  case (Compare l op r)
  then show ?case using text_trimmed [OF Compare] positive_start [of l] compare_atomic [of l r op ctx]
    by (subst evaluateAtomic.simps) (simp add: Let_def)
next
  case (Member a v)
  then show ?case using text_trimmed [OF Member] positive_start [of a] member_atomic [of a v ctx]
    by (subst evaluateAtomic.simps) (simp add: Let_def)
next
  case (Holds v)
  then show ?case using text_trimmed [OF Holds] positive_start [of v "[]"] holds_atomic [of v ctx]
    by (subst evaluateAtomic.simps) (simp add: Let_def)
next
  case (Negated c)
  then show ?case using text_trimmed [OF Negated.prems]
    by (subst evaluateAtomic.simps) (simp add: Let_def starts_with_def)
qed

section \<open>Conjunctions and disjunctions\<close>

lemma joined_pieces:
  assumes "sep \<noteq> []" and "hd sep \<noteq> CHR '' ''" and "\<forall>p \<in> set ps. trimmed p \<and> hd sep \<notin> set p" and "ps \<noteq> []"
    and "set pre \<subseteq> {CHR '' ''}"
  shows "map trim (split_on sep (pre @ joined sep ps)) = ps"
  using assms(3-5)
proof (induction ps arbitrary: pre rule: induct_list012)
  case (2 p)
  then have "hd sep \<notin> set (pre @ p)" using assms(2) by auto
  then show ?case using 2 trim_around [of p pre "[]"] by (simp add: split_on_none [OF assms(1)])
next
  case (3 p q ps)
  have "hd sep \<notin> set (pre @ p @ '' '')" using 3(3,5) assms(2) by auto
  from split_on_first [OF assms(1) this, of "'' '' @ joined sep (q # ps)"]
  have "split_on sep (pre @ joined sep (p # q # ps)) = (pre @ p @ '' '') # split_on sep ('' '' @ joined sep (q # ps))" by simp
  then show ?case using 3(2) [of "'' ''"] 3(3,5) trim_around [of p pre "'' ''"] by simp
qed simp

lemma joined_contains:
  assumes "sep \<noteq> []" and "hd sep \<noteq> CHR '' ''" and "\<forall>p \<in> set ps. hd sep \<notin> set p"
  shows "contains_text (joined sep ps) sep \<longleftrightarrow> 1 < length ps"
  using assms(3)
proof (cases ps rule: remdups_adj.cases)
  case (3 p q qs)
  then have "hd sep \<notin> set (p @ '' '')" using assms(2,3) by auto
  from contains_infix [OF assms(1) this, of "'' '' @ joined sep (q # qs)"] 3 show ?thesis by simp
qed (use assms in \<open>auto simp: contains_text_def index_of_none\<close>)

lemma joined_chars: "c \<notin> set sep \<Longrightarrow> c \<noteq> CHR '' '' \<Longrightarrow> c \<in> set (joined sep ps) \<longleftrightarrow> (\<exists>p \<in> set ps. c \<in> set p)"
  by (induction ps rule: induct_list012) auto

lemma joined_trimmed: "\<forall>p \<in> set ps. trimmed p \<Longrightarrow> ps \<noteq> [] \<Longrightarrow> trimmed (joined sep ps)"
  by (induction ps rule: induct_list012) (auto simp: trimmed_def)

lemma text_chars:
  assumes "condition_ok c" and "x = CHR ''|'' \<or> x = CHR ''&''"
  shows "x \<notin> set (text_of c)"
  using assms token_not by (induction c) (auto simp: operators_def)

text \<open>What a condition says does not depend on blanks around its text.\<close>

lemma evaluate_pieces:
  "contains_text e sep \<Longrightarrow> list_ex (\<lambda>p. evaluate (trim p) ctx) (split_on sep e) = list_ex (\<lambda>p. evaluate p ctx) (map trim (split_on sep e))"
  "contains_text e sep \<Longrightarrow> list_all (\<lambda>p. evaluate (trim p) ctx) (split_on sep e) = list_all (\<lambda>p. evaluate p ctx) (map trim (split_on sep e))"
  by (simp_all add: list_ex_iff list_all_iff)

lemma evaluate_condition:
  assumes "condition_ok c"
  shows "evaluate (text_of c) ctx = says c ctx"
proof -
  have "\<not> contains_text (text_of c) ''||''" "\<not> contains_text (text_of c) ''&&''"
    using text_chars [OF assms] by (simp_all add: contains_text_def index_of_none)
  then show ?thesis using atomic_says [OF assms] by (subst evaluate.simps) simp
qed

lemma evaluate_all:
  assumes "\<forall>c \<in> set cs. condition_ok c" and "cs \<noteq> []"
  shows "evaluate (joined ''&&'' (map text_of cs)) ctx = list_all (\<lambda>c. says c ctx) cs"
proof -
  let ?e = "joined ''&&'' (map text_of cs)"
  have amp: "\<forall>p \<in> set (map text_of cs). trimmed p \<and> hd ''&&'' \<notin> set p"
    using assms(1) text_trimmed text_chars by auto
  have "\<not> contains_text ?e ''||''"
    using joined_chars [of "CHR ''|''" "''&&''" "map text_of cs"] text_chars assms(1)
    by (auto simp: contains_text_def index_of_none)
  moreover have "contains_text ?e ''&&'' \<longleftrightarrow> 1 < length cs"
    using joined_contains [of "''&&''" "map text_of cs"] amp by simp
  moreover have "map trim (split_on ''&&'' ?e) = map text_of cs"
    using joined_pieces [of "''&&''" "map text_of cs" "[]"] amp assms(2) by simp
  ultimately have e: "evaluate ?e ctx = (if 1 < length cs then list_all (\<lambda>p. evaluate p ctx) (map text_of cs) else evaluateAtomic ?e ctx)"
    by (subst evaluate.simps) (simp add: evaluate_pieces)
  show ?thesis
  proof (cases "1 < length cs")
    case True
    then show ?thesis using e assms(1) by (simp add: list_all_iff evaluate_condition)
  next
    case False
    then obtain c where "cs = [c]" using assms(2) by (cases cs) auto
    then show ?thesis using e assms(1) by (simp add: atomic_says)
  qed
qed

definition conditions_ok :: "condition list list \<Rightarrow> bool" where
  "conditions_ok dnf \<longleftrightarrow> dnf \<noteq> [] \<and> list_all (\<lambda>cs. cs \<noteq> [] \<and> list_all condition_ok cs) dnf"

text \<open>A disjunction of conjunctions of comparisons, membership tests, truth tests and their negations, written out
  with operands free of operators and blanks, evaluates to what it says.\<close>

theorem conditions_mean_what_they_say:
  assumes "conditions_ok dnf"
  shows "evaluate (any_text dnf) ctx = list_ex (list_all (\<lambda>c. says c ctx)) dnf"
proof -
  let ?ts = "map (\<lambda>cs. joined ''&&'' (map text_of cs)) dnf"
  have ok: "\<forall>cs \<in> set dnf. cs \<noteq> [] \<and> (\<forall>c \<in> set cs. condition_ok c)" and ne: "dnf \<noteq> []"
    using assms by (auto simp: conditions_ok_def list_all_iff)
  have bar: "\<forall>p \<in> set ?ts. trimmed p \<and> hd ''||'' \<notin> set p"
  proof
    fix p assume "p \<in> set ?ts"
    then obtain cs where cs: "cs \<in> set dnf" "p = joined ''&&'' (map text_of cs)" by auto
    have "trimmed p" unfolding cs(2) using ok cs(1) text_trimmed by (intro joined_trimmed) auto
    moreover have "CHR ''|'' \<notin> set p" unfolding cs(2)
      using joined_chars [of "CHR ''|''" "''&&''" "map text_of cs"] text_chars ok cs(1) by auto
    ultimately show "trimmed p \<and> hd ''||'' \<notin> set p" by simp
  qed
  have c: "contains_text (any_text dnf) ''||'' \<longleftrightarrow> 1 < length dnf"
    using joined_contains [of "''||''" ?ts] bar by (simp add: any_text_def)
  have p: "map trim (split_on ''||'' (any_text dnf)) = ?ts"
    using joined_pieces [of "''||''" ?ts "[]"] bar ne by (simp add: any_text_def)
  show ?thesis
  proof (cases "1 < length dnf")
    case True
    then have "evaluate (any_text dnf) ctx = list_ex (\<lambda>p. evaluate p ctx) ?ts"
      using c p by (subst evaluate.simps) (simp add: evaluate_pieces)
    then show ?thesis using ok by (simp add: list_ex_iff evaluate_all)
  next
    case False
    then obtain cs where "dnf = [cs]" using ne by (cases dnf) auto
    then show ?thesis using ok by (simp add: any_text_def evaluate_all)
  qed
qed

definition demo_ctx :: pval where
  "demo_ctx = PObj 0 [(''coverage'', PNum 91), (''name'', PStr ''a||b''), (''tags'', PArr 1 [PStr ''core''])]"

definition demo_conditions :: "condition list list" where
  "demo_conditions = [[Compare ''coverage'' ''>='' ''80.5'', Negated (Member ''tags'' ''true'')], [Holds ''missing'']]"

theorem conditions_mean_what_they_say_witness:
  "evaluate (any_text demo_conditions) demo_ctx
    \<and> any_text demo_conditions = ''coverage >= 80.5 && !tags contains true || missing''"
proof -
  have "conditions_ok demo_conditions" by code_simp
  from conditions_mean_what_they_say [OF this, of demo_ctx]
  have "evaluate (any_text demo_conditions) demo_ctx = list_ex (list_all (\<lambda>c. says c demo_ctx)) demo_conditions" .
  moreover have "list_ex (list_all (\<lambda>c. says c demo_ctx)) demo_conditions" by code_simp
  moreover have "any_text demo_conditions = ''coverage >= 80.5 && !tags contains true || missing''" by code_simp
  ultimately show ?thesis by simp
qed

text \<open>An operator inside a quoted operand is cut like any other: a name compares unequal to itself in quotes.\<close>

definition quoted_text :: string where
  "quoted_text = CHR 0x22 # ''a||b'' @ [CHR 0x22]"

theorem quoted_operator_is_cut:
  "\<not> evaluate (''name == '' @ quoted_text) demo_ctx \<and> says (Compare ''name'' ''=='' quoted_text) demo_ctx"
  by code_simp

end
