(* ===== verification/CelProps.thy ===== *)
theory CelProps
  imports Cel ExpressionProps
begin

text \<open>
  Comparisons and quantifiers of the CEL-like evaluator mean what they say, as long as operands are plain; a logical
  operator in the body of a quantifier cuts it in two, and null compares equal to zero.
\<close>

section \<open>Plain text\<close>

definition plain_char :: "char \<Rightarrow> bool" where
  "plain_char c \<longleftrightarrow> c \<notin> set ''!=<>&|()?:,'' \<and> c \<noteq> CHR 0x22 \<and> c \<noteq> CHR 0x27 \<and> c \<noteq> CHR 0x5C \<and> \<not> is_space c"

definition plain :: "string \<Rightarrow> bool" where
  "plain s \<longleftrightarrow> s \<noteq> [] \<and> list_all plain_char s"

definition quoted :: "string \<Rightarrow> string" where
  "quoted s = CHR 0x22 # s @ [CHR 0x22]"

text \<open>An operand: plain, or plain text in double quotes.\<close>

definition operand :: "string \<Rightarrow> bool" where
  "operand r \<longleftrightarrow> plain r \<or> (\<exists>s. r = quoted s \<and> list_all plain_char s)"

definition plain_value :: "string \<Rightarrow> pval \<Rightarrow> pval" where
  "plain_value t ctx = (if is_quoted t then PStr (inner t) else if t = ''true'' then PBool True else if t = ''false'' then PBool False
     else if t = ''null'' then PNull else if js_number t \<noteq> None then PNum (the (js_number t)) else resolveProperty t ctx)"

lemma plain_not: "plain s \<Longrightarrow> \<not> plain_char c \<Longrightarrow> c \<notin> set s"
  by (auto simp: plain_def list_all_iff)

lemma not_plain [simp]:
  "\<not> plain_char CHR ''!''" "\<not> plain_char CHR ''=''" "\<not> plain_char CHR ''<''" "\<not> plain_char CHR ''>''" "\<not> plain_char CHR ''&''"
  "\<not> plain_char CHR ''|''" "\<not> plain_char CHR ''(''" "\<not> plain_char CHR '')''" "\<not> plain_char CHR ''?''" "\<not> plain_char CHR '':''"
  "\<not> plain_char CHR '',''" "\<not> plain_char CHR 0x22" "\<not> plain_char CHR 0x27" "\<not> plain_char CHR 0x5C" "\<not> plain_char CHR '' ''"
  by (simp_all add: plain_char_def)

lemma plain_space: "plain s \<Longrightarrow> c \<in> set s \<Longrightarrow> \<not> is_space c"
  by (auto simp: plain_def list_all_iff plain_char_def)

lemma plain_trimmed: "plain s \<Longrightarrow> trimmed s"
  using plain_space [of s "hd s"] plain_space [of s "last s"] by (auto simp: trimmed_def plain_def)

lemma operand_trimmed: "operand r \<Longrightarrow> trimmed r"
  by (auto simp: operand_def plain_trimmed) (simp add: trimmed_def quoted_def is_space_def char_code_def)

lemma operand_not: "operand r \<Longrightarrow> \<not> plain_char c \<Longrightarrow> c \<noteq> CHR 0x22 \<Longrightarrow> c \<notin> set r"
  by (auto simp: operand_def quoted_def plain_not list_all_iff)

section \<open>Scanning\<close>

abbreviation top :: "string \<Rightarrow> int \<Rightarrow> nat \<Rightarrow> string \<Rightarrow> nat option" where
  "top target d pos s \<equiv> top_level target (d, False, False) pos s"

lemma scan_plain: "plain_char c \<Longrightarrow> scan_char c (d, q, False) = (d, q, False)"
  by (auto simp: scan_char_def plain_char_def Let_def)

lemma no_match: "c \<noteq> CHR '' '' \<Longrightarrow> \<not> starts_with (c # cs) (CHR '' '' # t)"
  by (simp add: starts_with_def)

lemma top_plain: "list_all plain_char x \<Longrightarrow> top (CHR '' '' # t) d pos (x @ y) = top (CHR '' '' # t) d (pos + length x) y"
proof (induction x arbitrary: pos)
  case (Cons c x)
  have c: "plain_char c" "list_all plain_char x" using Cons.prems by simp_all
  have n: "c \<noteq> CHR 0x5C" "c \<noteq> CHR '' ''" using c(1) not_plain by blast+
  show ?case unfolding append_Cons top_level.simps(2) scan_plain [OF c(1)] Cons.IH [OF c(2)]
    using n by (simp add: no_match)
qed simp

lemma top_in_quotes: "list_all plain_char x \<Longrightarrow> top_level (CHR '' '' # t) (d, True, False) pos (x @ y) = top_level (CHR '' '' # t) (d, True, False) (pos + length x) y"
proof (induction x arbitrary: pos)
  case (Cons c x)
  have c: "plain_char c" "list_all plain_char x" using Cons.prems by simp_all
  have n: "c \<noteq> CHR 0x5C" "c \<noteq> CHR '' ''" using c(1) not_plain by blast+
  show ?case unfolding append_Cons top_level.simps(2) scan_plain [OF c(1)] Cons.IH [OF c(2)]
    using n by (simp add: no_match)
qed simp

lemma top_operand: "operand r \<Longrightarrow> top (CHR '' '' # t) d pos (r @ y) = top (CHR '' '' # t) d (pos + length r) y"
proof -
  assume "operand r"
  then consider "plain r" | s where "r = quoted s" "list_all plain_char s" by (auto simp: operand_def)
  then show ?thesis
  proof cases
    case 1
    then show ?thesis by (simp add: plain_def top_plain)
  next
    case 2
    have "top (CHR '' '' # t) d pos (r @ y) = top_level (CHR '' '' # t) (d, True, False) (pos + 1) (s @ CHR 0x22 # y)"
      using 2(1) by (simp add: quoted_def scan_char_def no_match outside_def)
    also have "\<dots> = top_level (CHR '' '' # t) (d, True, False) (pos + 1 + length s) (CHR 0x22 # y)"
      using top_in_quotes [OF 2(2)] by simp
    also have "\<dots> = top (CHR '' '' # t) d (pos + length r) y"
      using 2(1) by (simp add: quoted_def scan_char_def no_match outside_def)
    finally show ?thesis .
  qed
qed

text \<open>Inside parentheses nothing is found.\<close>

lemma top_inside:
  assumes "\<forall>c \<in> set x. plain_char c \<or> c \<in> set '' !=<>,''" and "0 < d"
  shows "top t d pos (x @ y) = top t d (pos + length x) y"
  using assms(1)
proof (induction x arbitrary: pos)
  case (Cons c x)
  then have "c \<noteq> CHR 0x5C" by (auto simp: plain_char_def)
  moreover have "scan_char c (d, False, False) = (d, False, False)" using Cons.prems by (auto simp: scan_char_def plain_char_def Let_def)
  ultimately show ?case using Cons assms(2) by (simp add: outside_def)
qed simp

lemma op_chars: "op \<in> set operators \<Longrightarrow> set op \<subseteq> set ''!=<>'' \<and> op \<noteq> []"
  by (auto simp: operators_def)

lemma top_operator_token: "op \<in> set operators \<Longrightarrow> top (CHR '' '' # t) d pos (op @ y) = top (CHR '' '' # t) d (pos + length op) y"
  by (auto simp: operators_def scan_char_def no_match)

lemma find_operator:
  assumes l: "plain l" and r: "operand r" and op: "op \<in> set operators" and op': "op' \<in> set operators \<or> op' = ''?''"
  shows "findTopLevelOperator (l @ '' '' @ op @ '' '' @ r) op' = (if op' = op then Some (length l) else None)"
proof -
  let ?t = "CHR '' '' # op' @ '' ''"
  have s1: "starts_with (CHR '' '' # op @ CHR '' '' # r) ?t \<longleftrightarrow> op' = op"
    using op op' by (auto simp: operators_def starts_with_def)
  have s2: "\<not> starts_with (CHR '' '' # r) ?t"
  proof -
    have "hd r \<notin> set ''!=<>?''" using r by (cases r) (auto simp: operand_def quoted_def plain_def)
    then show ?thesis using op' by (cases r) (auto simp: operators_def starts_with_def)
  qed
  have "findTopLevelOperator (l @ '' '' @ op @ '' '' @ r) op' = top ?t 0 (length l) (CHR '' '' # op @ CHR '' '' # r)"
    using l by (simp add: findTopLevelOperator_def top_plain plain_def)
  also have "\<dots> = (if op' = op then Some (length l) else top ?t 0 (length l + 1) (op @ CHR '' '' # r))"
    using s1 by (simp add: scan_char_def outside_def)
  also have "top ?t 0 (length l + 1) (op @ CHR '' '' # r) = top ?t 0 (length l + 1 + length op) (CHR '' '' # r)"
    by (rule top_operator_token [OF op])
  also have "\<dots> = top ?t 0 (length l + length op + 2) r" using s2 by (simp add: scan_char_def)
  also have "\<dots> = None" using top_operand [OF r, of "op' @ '' ''" 0 _ "[]"] by simp
  finally show ?thesis .
qed

section \<open>Comparisons\<close>

lemma operators_distinct: "find (\<lambda>op'. op' = op) operators = (if op \<in> set operators then Some op else None)"
  by (auto simp: operators_def)

lemma find_cong: "(\<And>x. x \<in> set xs \<Longrightarrow> P x = Q x) \<Longrightarrow> find P xs = find Q xs"
  by (induction xs) auto

lemma find_op:
  assumes "plain l" and "operand r" and "op \<in> set operators"
  shows "find (\<lambda>op'. findTopLevelOperator (l @ '' '' @ op @ '' '' @ r) op' \<noteq> None) operators = Some op"
proof -
  have "find (\<lambda>op'. findTopLevelOperator (l @ '' '' @ op @ '' '' @ r) op' \<noteq> None) operators = find (\<lambda>op'. op' = op) operators"
    by (rule find_cong) (simp only: find_operator [OF assms disjI1] split: if_split, simp)
  then show ?thesis using operators_distinct assms(3) by simp
qed

lemma comparison_plain:
  assumes l: "plain l" and r: "operand r" and op: "op \<in> set operators"
  shows "comparison (l @ '' '' @ op @ '' '' @ r) = Some (op, l, r)"
proof -
  let ?e = "l @ '' '' @ op @ '' '' @ r"
  have i: "findTopLevelOperator ?e op = Some (length l)"
    using find_operator [OF l r op disjI1 [OF op]] by (simp only: simp_thms if_True)
  have "take (length l) ?e = l" "drop (length l + length op + 2) ?e = r" by simp_all
  then show ?thesis
    unfolding comparison_def find_op [OF l r op] option.case i option.sel Let_def
    using trim_trimmed [OF plain_trimmed [OF l]] trim_trimmed [OF operand_trimmed [OF r]] by (simp only:)
qed

lemma ternary_plain: "plain l \<Longrightarrow> operand r \<Longrightarrow> op \<in> set operators \<Longrightarrow> ternary (l @ '' '' @ op @ '' '' @ r) = None"
  unfolding ternary_def find_operator [OF _ _ _ disjI2 [OF refl]] by (auto simp: operators_def)

lemma open_paren_none: "CHR ''('' \<notin> set s \<Longrightarrow> open_paren d s = None"
  by (induction d s rule: open_paren.induct) auto

lemma no_call: "CHR ''('' \<notin> set s \<Longrightarrow> method_call s = None"
  by (simp add: method_call_def method_start_def open_paren_none)

lemma starts_with_chars: "starts_with s p \<Longrightarrow> set p \<subseteq> set s"
  unfolding starts_with_def by (metis set_take_subset)

lemma no_argument: "CHR ''('' \<notin> set s \<Longrightarrow> call_argument n s = None"
  using starts_with_chars [of s "n @ ''(''"] by (auto simp: call_argument_def Let_def)

lemma no_in: "\<forall>c \<in> set s. \<not> is_space c \<Longrightarrow> in_split b s = None"
  by (induction s arbitrary: b) (auto simp: after_in_def Let_def)

lemma resolve_plain: "plain s \<Longrightarrow> resolveCELExpr regex s ctx = resolveProperty s ctx"
  using trim_trimmed [OF plain_trimmed] plain_not [of s "CHR ''(''"] plain_space [of s]
  by (subst resolveCELExpr.simps) (simp add: no_call no_argument no_in)

lemma parse_operand: "operand r \<Longrightarrow> parseCELValue regex r ctx = plain_value r ctx"
proof -
  assume r: "operand r"
  have t: "trim r = r" "r \<noteq> []" using trim_trimmed [OF operand_trimmed [OF r]] operand_trimmed [OF r] by (simp_all add: trimmed_def)
  show ?thesis
  proof (cases "plain r")
    case True
    then show ?thesis using t by (subst parseCELValue.simps) (simp add: plain_value_def resolve_plain Let_def)
  next
    case False
    then have "is_quoted r" using r by (auto simp: operand_def is_quoted_def quoted_by_def quoted_def)
    then show ?thesis using t by (subst parseCELValue.simps) (simp add: plain_value_def Let_def)
  qed
qed

lemma plain_start: "plain l \<Longrightarrow> \<not> starts_with (l @ y) ''!''"
  by (cases l) (auto simp: plain_def starts_with_def)

lemma joined_text_trimmed: "plain l \<Longrightarrow> operand r \<Longrightarrow> trimmed (l @ x @ r)"
  using plain_trimmed [of l] operand_trimmed [of r] by (simp add: trimmed_def)

lemma atomic_comparison:
  assumes "plain l" and "operand r" and "op \<in> set operators"
  shows "evaluateCELAtomic regex (l @ '' '' @ op @ '' '' @ r) ctx = loose_compare op (resolveProperty l ctx) (plain_value r ctx)"
proof -
  let ?e = "l @ '' '' @ op @ '' '' @ r"
  have t: "trim ?e = ?e"
    using trim_trimmed [OF joined_text_trimmed [OF assms(1,2), of "'' '' @ op @ '' ''"]] by (simp only: append_assoc)
  show ?thesis
    by (subst evaluateCELAtomic.simps)
      (simp only: Let_def t plain_start [OF assms(1)] if_False ternary_plain [OF assms] comparison_plain [OF assms] option.case prod.case
        resolve_plain [OF assms(1)] parse_operand [OF assms(2)])
qed

lemma no_connective:
  assumes "CHR ''|'' \<notin> set e" and "CHR ''&'' \<notin> set e"
  shows "evaluate_cel regex e ctx = evaluateCELAtomic regex e ctx"
proof -
  have "\<not> contains_text e ''||''" "\<not> contains_text e ''&&''"
    using contains_chars [of e "''||''"] contains_chars [of e "''&&''"] assms by auto
  then show ?thesis by (subst evaluate_cel.simps) simp
qed

section \<open>Quantifiers\<close>

definition quantified :: "string \<Rightarrow> string \<Rightarrow> string \<Rightarrow> string \<Rightarrow> string" where
  "quantified p name x body = p @ ''.'' @ name @ ''('' @ x @ '', '' @ body @ '')''"

lemma plain_head: "plain l \<Longrightarrow> hd (l @ y) = hd l \<and> plain_char (hd l)"
  by (cases l) (auto simp: plain_def)

lemma top_body:
  assumes "plain x" and "plain l" and "operand r" and "op \<in> set operators"
  shows "top (CHR '' '' # t) 1 pos (x @ '', '' @ (l @ '' '' @ op @ '' '' @ r) @ '')'') = None"
proof -
  have c: "\<forall>c \<in> set (x @ '', '' @ l @ '' '' @ op @ '' ''). plain_char c \<or> c \<in> set '' !=<>,''"
    using assms(1,2,4) op_chars [OF assms(4)] by (auto simp: plain_def list_all_iff)
  have "x @ '', '' @ (l @ '' '' @ op @ '' '' @ r) @ '')'' = (x @ '', '' @ l @ '' '' @ op @ '' '') @ r @ '')''" by simp
  then have "top (CHR '' '' # t) 1 pos (x @ '', '' @ (l @ '' '' @ op @ '' '' @ r) @ '')'')
      = top (CHR '' '' # t) 1 (pos + length (x @ '', '' @ l @ '' '' @ op @ '' '')) (r @ '')'')"
    using top_inside [OF c, of 1] by (simp only: zero_less_one)
  also have "\<dots> = None"
    unfolding top_operand [OF assms(3)] by (simp add: scan_char_def no_match)
  finally show ?thesis .
qed

lemma find_in_quantified:
  assumes "plain p" and "plain name" and "plain x" and "plain l" and "operand r" and "op \<in> set operators"
  shows "findTopLevelOperator (quantified p name x (l @ '' '' @ op @ '' '' @ r)) op' = None"
proof -
  let ?rest = "x @ '', '' @ (l @ '' '' @ op @ '' '' @ r) @ '')''"
  have pl: "list_all plain_char (p @ ''.'' @ name)" using assms(1,2) by (auto simp: plain_def plain_char_def is_space_def char_code_def)
  have "findTopLevelOperator (quantified p name x (l @ '' '' @ op @ '' '' @ r)) op'
      = top (CHR '' '' # op' @ '' '') 0 0 ((p @ ''.'' @ name) @ CHR ''('' # ?rest)"
    by (simp add: findTopLevelOperator_def quantified_def)
  also have "\<dots> = top (CHR '' '' # op' @ '' '') 1 (length (p @ ''.'' @ name) + 1) ?rest"
    unfolding top_plain [OF pl] by (simp add: scan_char_def no_match outside_def)
  also have "\<dots> = None" by (rule top_body [OF assms(3-6)])
  finally show ?thesis .
qed

lemma open_paren_plain: "CHR ''('' \<notin> set s \<Longrightarrow> CHR '')'' \<notin> set s \<Longrightarrow> open_paren d (s @ y) = open_paren d y"
  by (induction s) auto

lemma last_dot_at: "CHR ''.'' \<notin> set y \<Longrightarrow> last_dot (x @ CHR ''.'' # y) = Some (length x)"
proof -
  assume "CHR ''.'' \<notin> set y"
  then have "takeWhile (\<lambda>c. c \<noteq> CHR ''.'') (rev y @ CHR ''.'' # rev x) = rev y"
    by (subst takeWhile_append2) auto
  then show ?thesis by (simp add: last_dot_def)
qed

lemma index_of_append: "c \<notin> set x \<Longrightarrow> index_of [c] (x @ c # y) = Some (length x)"
  by (induction x) auto

lemma method_of_quantified:
  assumes p: "plain p" and n: "plain name" "CHR ''.'' \<notin> set name" and x: "plain x"
    and b: "CHR ''('' \<notin> set body" "CHR '')'' \<notin> set body" and t: "trimmed body"
  shows "method_call (quantified p name x body) = Some (p, name, x @ '', '' @ body)"
proof -
  let ?args = "x @ '', '' @ body"
  let ?rest = "name @ CHR ''('' # ?args @ '')''"
  have e: "quantified p name x body = (p @ CHR ''.'' # name) @ CHR ''('' # ?args @ '')''" by (simp add: quantified_def)
  have a: "CHR ''('' \<notin> set (rev ?args)" "CHR '')'' \<notin> set (rev ?args)" using plain_not [OF x] b by auto
  have o: "open_paren 0 (rev (quantified p name x body)) = Some (length (p @ CHR ''.'' # name))"
    unfolding e using open_paren_plain [OF a, of 1] by simp
  have "take (length (p @ CHR ''.'' # name)) (quantified p name x body) = p @ CHR ''.'' # name" unfolding e by simp
  then have s: "method_start (quantified p name x body) = Some (length p)"
    unfolding method_start_def o option.case using last_dot_at [OF n(2), of p] by (simp only:)
  have r: "drop (length p + 1) (quantified p name x body) = ?rest" "take (length p) (quantified p name x body) = p"
    by (simp_all add: quantified_def)
  have i: "index_of ''('' ?rest = Some (length name)" using index_of_append plain_not [OF n(1)] by simp
  have "take (length ?rest - 1) ?rest = name @ CHR ''('' # ?args" unfolding butlast_conv_take [symmetric] by (simp add: butlast_append)
  then have "slice (length name + 1) (length ?rest - 1) ?rest = ?args" unfolding slice_def by (simp only:) simp
  moreover have "trim ?args = ?args"
    by (rule trim_trimmed) (use t plain_trimmed [OF x] in \<open>simp add: trimmed_def\<close>)
  ultimately show ?thesis
    unfolding method_call_def s option.case r Let_def i by (simp add: or_else_def)
qed

lemma macro_of:
  assumes "plain x" and "trimmed body"
  shows "parseMacroArgs (x @ '', '' @ body) = (x, body)"
proof -
  have "index_of '','' (x @ CHR '','' # '' '' @ body) = Some (length x)" using index_of_append plain_not [OF assms(1)] by simp
  then show ?thesis
    using trim_trimmed [OF plain_trimmed [OF assms(1)]] trim_sides(2) [OF assms(2)] by (simp add: parseMacroArgs_def)
qed

lemma quantified_trimmed: "plain p \<Longrightarrow> trimmed (quantified p name x body)"
  using plain_trimmed [of p] by (simp add: trimmed_def quantified_def is_space_def char_code_def)

lemma atomic_quantified:
  assumes p: "plain p" and n: "plain name" "CHR ''.'' \<notin> set name" and x: "plain x"
    and l: "plain l" and r: "operand r" and op: "op \<in> set operators"
  shows "evaluateCELAtomic regex (quantified p name x (l @ '' '' @ op @ '' '' @ r)) ctx
    = to_boolean (evaluateCELMethod regex (\<lambda>a. parseCELValue regex a ctx)
        (\<lambda>x v body. evaluateCELAtomic regex body (with_var ctx x v)) (\<lambda>x v body. parseCELValue regex body (with_var ctx x v))
        (resolveProperty p ctx) name (x @ '', '' @ l @ '' '' @ op @ '' '' @ r))"
proof -
  let ?b = "l @ '' '' @ op @ '' '' @ r" let ?e = "quantified p name x ?b"
  have none: "findTopLevelOperator ?e op' = None" for op' by (rule find_in_quantified [OF p n(1) x l r op])
  have c: "comparison ?e = None" "ternary ?e = None" unfolding comparison_def ternary_def none by (simp_all add: operators_def)
  have t: "trim ?e = ?e" by (rule trim_trimmed [OF quantified_trimmed [OF p]])
  have bt: "trimmed ?b" using joined_text_trimmed [OF l r, of "'' '' @ op @ '' ''"] by (simp only: append_assoc)
  have bc: "CHR ''('' \<notin> set ?b" "CHR '')'' \<notin> set ?b"
    using plain_not [OF l] operand_not [OF r] op_chars [OF op] by auto
  have s: "\<not> starts_with ?e ''!''" unfolding quantified_def by (rule plain_start [OF p])
  show ?thesis
    by (subst evaluateCELAtomic.simps, subst resolveCELExpr.simps)
      (simp only: Let_def t s if_False c option.case prod.case method_of_quantified [OF p n x bc bt] resolve_plain [OF p])
qed

section \<open>The properties\<close>

lemma no_connective_in:
  assumes "plain l" and "operand r" and "op \<in> set operators"
  shows "CHR ''|'' \<notin> set (l @ '' '' @ op @ '' '' @ r) \<and> CHR ''&'' \<notin> set (l @ '' '' @ op @ '' '' @ r)"
  using plain_not [OF assms(1)] operand_not [OF assms(2)] op_chars [OF assms(3)] by auto

lemma cel_comparison:
  assumes "plain l" and "operand r" and "op \<in> set operators"
  shows "evaluate_cel regex (l @ '' '' @ op @ '' '' @ r) ctx = loose_compare op (resolveProperty l ctx) (plain_value r ctx)"
  unfolding no_connective [OF no_connective_in [OF assms, THEN conjunct1] no_connective_in [OF assms, THEN conjunct2]]
  by (rule atomic_comparison [OF assms])

lemma cel_quantifiers:
  assumes "plain p" and "plain x" and "plain l" and "operand r" and "op \<in> set operators"
  shows "evaluate_cel regex (quantified p ''exists'' x (l @ '' '' @ op @ '' '' @ r)) ctx =
      (case resolveProperty p ctx of
         PArr n vs \<Rightarrow> \<exists>v \<in> set vs. loose_compare op (resolveProperty l (with_var ctx x v)) (plain_value r (with_var ctx x v))
       | _ \<Rightarrow> False)"
    and "evaluate_cel regex (quantified p ''all'' x (l @ '' '' @ op @ '' '' @ r)) ctx =
      (case resolveProperty p ctx of
         PArr n vs \<Rightarrow> \<forall>v \<in> set vs. loose_compare op (resolveProperty l (with_var ctx x v)) (plain_value r (with_var ctx x v))
       | _ \<Rightarrow> False)"
proof -
  note body = assms(3-5)
  have m: "parseMacroArgs (x @ '', '' @ l @ '' '' @ op @ '' '' @ r) = (x, l @ '' '' @ op @ '' '' @ r)"
    using macro_of [OF assms(2) joined_text_trimmed [OF assms(3,4), of "'' '' @ op @ '' ''"]] by (simp only: append_assoc)
  note c = no_connective_in [OF body, THEN conjunct1] no_connective_in [OF body, THEN conjunct2]
  have q: "evaluate_cel regex (quantified p name x (l @ '' '' @ op @ '' '' @ r)) ctx
      = to_boolean (evaluateCELMethod regex (\<lambda>a. parseCELValue regex a ctx)
        (\<lambda>x v body. evaluateCELAtomic regex body (with_var ctx x v)) (\<lambda>x v body. parseCELValue regex body (with_var ctx x v))
        (resolveProperty p ctx) name (x @ '', '' @ l @ '' '' @ op @ '' '' @ r))"
    if n: "plain name" "CHR ''.'' \<notin> set name" for name
  proof -
    have "CHR ''|'' \<notin> set (quantified p name x (l @ '' '' @ op @ '' '' @ r))"
      "CHR ''&'' \<notin> set (quantified p name x (l @ '' '' @ op @ '' '' @ r))"
      using c plain_not [OF assms(1)] plain_not [OF n(1)] plain_not [OF assms(2)] by (auto simp: quantified_def)
    from no_connective [OF this] show ?thesis using atomic_quantified [OF assms(1) n assms(2) body] by simp
  qed
  have names: "plain ''exists''" "plain ''all''" by (simp_all add: plain_def plain_char_def is_space_def char_code_def)
  show "evaluate_cel regex (quantified p ''exists'' x (l @ '' '' @ op @ '' '' @ r)) ctx =
      (case resolveProperty p ctx of
         PArr n vs \<Rightarrow> \<exists>v \<in> set vs. loose_compare op (resolveProperty l (with_var ctx x v)) (plain_value r (with_var ctx x v))
       | _ \<Rightarrow> False)"
    using q [OF names(1)] unfolding evaluateCELMethod_def m Let_def
    by (simp add: atomic_comparison [OF body] list_ex_iff del: append_Cons append.simps split: pval.split)
  show "evaluate_cel regex (quantified p ''all'' x (l @ '' '' @ op @ '' '' @ r)) ctx =
      (case resolveProperty p ctx of
         PArr n vs \<Rightarrow> \<forall>v \<in> set vs. loose_compare op (resolveProperty l (with_var ctx x v)) (plain_value r (with_var ctx x v))
       | _ \<Rightarrow> False)"
    using q [OF names(2)] unfolding evaluateCELMethod_def m Let_def
    by (simp add: atomic_comparison [OF body] list_all_iff del: append_Cons append.simps split: pval.split)
qed

text \<open>The table of the comparisons, written out: the number a value converts to, and what each operator asks of two
  values. \<open>js_number\<close> is the number a text reads as, \<open>strict_eq\<close> the identity of values.\<close>

fun as_number :: "pval \<Rightarrow> rat option" where
  "as_number PUndef = None"
| "as_number PNull = Some 0"
| "as_number (PBool b) = Some (if b then 1 else 0)"
| "as_number (PNum x) = Some x"
| "as_number (PStr s) = js_number s"
| "as_number (PArr n vs) = (case vs of [] \<Rightarrow> Some 0 | [v] \<Rightarrow> text_number v | _ \<Rightarrow> None)"
| "as_number (PObj n kvs) = None"

definition related :: "string \<Rightarrow> pval \<Rightarrow> pval \<Rightarrow> bool" where
  "related op v w \<longleftrightarrow>
     (\<exists>a b. as_number v = Some a \<and> as_number w = Some b \<and>
        (op = ''>='' \<and> b \<le> a \<or> op = ''<='' \<and> a \<le> b \<or> op = ''>'' \<and> b < a \<or> op = ''<'' \<and> a < b
         \<or> op = ''=='' \<and> a = b \<or> op = ''!='' \<and> a \<noteq> b))
     \<or> (as_number v = None \<or> as_number w = None) \<and>
        (op = ''=='' \<and> strict_eq v w \<or> op = ''!='' \<and> \<not> strict_eq v w)"

lemma as_number_value: "number_of_value v = as_number v"
  by (cases v) (simp_all add: number_of_value_def split: list.split)

lemma loose_related: "op \<in> set operators \<Longrightarrow> loose_compare op v w = related op v w"
  unfolding loose_compare_def related_def as_number_value operators_def by (auto split: option.split)

text \<open>C26. A comparison of a property with an operand holds by this table: when both values convert to numbers these are
  ordered or equated, otherwise \<open>==\<close> and \<open>!=\<close> test identity and the ordering operators fail. With \<open>exists\<close> and \<open>all\<close>
  over a comparison and the variable bound to each element in turn, some element satisfies it, all do; of what is no
  array, neither holds. Paths and variables are any text without blanks, quotes, parentheses and operators; the
  operand on the right may be quoted.\<close>

theorem cel_compares_by_the_table:
  assumes "plain p" and "plain x" and "plain l" and "operand r" and "op \<in> set operators"
  shows "evaluate_cel regex (l @ '' '' @ op @ '' '' @ r) ctx = related op (resolveProperty l ctx) (plain_value r ctx)
    \<and> evaluate_cel regex (quantified p ''exists'' x (l @ '' '' @ op @ '' '' @ r)) ctx =
      (case resolveProperty p ctx of
         PArr n vs \<Rightarrow> \<exists>v \<in> set vs. related op (resolveProperty l (with_var ctx x v)) (plain_value r (with_var ctx x v))
       | _ \<Rightarrow> False)
    \<and> evaluate_cel regex (quantified p ''all'' x (l @ '' '' @ op @ '' '' @ r)) ctx =
      (case resolveProperty p ctx of
         PArr n vs \<Rightarrow> \<forall>v \<in> set vs. related op (resolveProperty l (with_var ctx x v)) (plain_value r (with_var ctx x v))
       | _ \<Rightarrow> False)"
  using cel_comparison [OF assms(3-5)] cel_quantifiers [OF assms] unfolding loose_related [OF assms(5)] by blast

definition review_context :: pval where
  "review_context = PObj 1 [(''findings'', PArr 2 [PObj 3 [(''severity'', PStr ''low''), (''line'', PNum 3)],
     PObj 4 [(''severity'', PStr ''high''), (''line'', PNum 12)]]), (''count'', PNum 0), (''owner'', PNull)]"

definition no_regex :: "string \<Rightarrow> string \<Rightarrow> bool option" where
  "no_regex p s = None"

lemmas cel_evaluation = review_context_def resolveProperty_def split_on.simps get_prop_def walk_path.simps or_else_def

theorem cel_compares_by_the_table_witness:
  "evaluate_cel no_regex (quantified ''findings'' ''exists'' ''x'' (''x.severity'' @ '' '' @ ''=='' @ '' '' @ quoted ''high'')) review_context
    \<and> \<not> evaluate_cel no_regex (quantified ''findings'' ''all'' ''x'' (''x.severity'' @ '' '' @ ''=='' @ '' '' @ quoted ''high'')) review_context"
proof -
  have p: "plain ''findings''" "plain ''x''" "plain ''x.severity''"
    by (simp_all add: plain_def plain_char_def is_space_def char_code_def)
  have r: "operand (quoted ''high'')" "''=='' \<in> set operators"
    by (auto simp: operand_def operators_def plain_char_def is_space_def char_code_def)
  have v: "plain_value (quoted ''high'') c = PStr ''high''" for c
    by (simp add: plain_value_def quoted_def is_quoted_def quoted_by_def inner_def)
  have f: "resolveProperty ''findings'' review_context = PArr 2 [PObj 3 [(''severity'', PStr ''low''), (''line'', PNum 3)],
     PObj 4 [(''severity'', PStr ''high''), (''line'', PNum 12)]]" by code_simp
  have "evaluate_cel no_regex (quantified ''findings'' ''exists'' ''x'' (''x.severity'' @ '' '' @ ''=='' @ '' '' @ quoted ''high'')) review_context"
    unfolding conjunct1 [OF conjunct2 [OF cel_compares_by_the_table [OF p r]]] f pval.case v loose_related [OF r(2), symmetric] by code_simp
  moreover have "\<not> evaluate_cel no_regex (quantified ''findings'' ''all'' ''x'' (''x.severity'' @ '' '' @ ''=='' @ '' '' @ quoted ''high'')) review_context"
    unfolding conjunct2 [OF conjunct2 [OF cel_compares_by_the_table [OF p r]]] f pval.case v loose_related [OF r(2), symmetric] by code_simp
  ultimately show ?thesis ..
qed

text \<open>
  Connectives are cut before parentheses are looked at: the quantifier \<open>findings.exists(x, x.severity == "high" && x.line > 10)\<close>
  becomes two halves, neither of which is a call or a comparison, and is false although the second finding satisfies
  the body; and \<open>null\<close> equals the number 0: \<open>owner == 0\<close> holds of an owner that is null, and \<open>count != null\<close>
  fails of a count that is 0.
\<close>

lemma connective_cuts_a_quantifier:
  "\<not> evaluate_cel no_regex (''findings.exists(x, x.severity == '' @ quoted ''high'' @ '' && x.line > 10)'') review_context"
  "evaluate_cel no_regex (quantified ''findings'' ''exists'' ''x'' (''x.severity == '' @ quoted ''high'')) review_context"
  "evaluate_cel no_regex ''owner == 0'' review_context"
  "\<not> evaluate_cel no_regex ''count != null'' review_context"
  by code_simp+

end
