(* ===== verification/Admission.thy ===== *)
theory Admission
  imports Policy
begin

text \<open>
  Admission (\<open>reference/src/policy/admission.ts\<close>) with its authentication (\<open>authentication.ts\<close>) and the
  mutating gates (\<open>mutating-gate.ts\<close>): authenticate, authorize, mutate, enforce, ending at the first stage
  that fails. An authorizer that throws makes the whole call throw (\<open>None\<close>).
\<close>

section \<open>Authentication\<close>

record AuthIdentity =
  aiActor :: string
  aiActorType :: AuthorType
  aiRoles :: "string list"
  aiGroups :: "string list"
  aiScopes :: "string list"

text \<open>A refusal with its reason, or success with the identity, if any.\<close>

type_synonym AuthenticationResult = "string option + AuthIdentity option"


definition createAlwaysAuthenticator :: "AuthIdentity \<Rightarrow> string \<Rightarrow> AuthenticationResult" where
  "createAlwaysAuthenticator i token = Inr (Some i)"

section \<open>Mutating gates\<close>

record 'b AdmResource =
  arName :: string
  arLabels :: "(string, string) jsmap"
  arAnnotations :: "(string, string) jsmap"
  arBody :: 'b

record 'b MutatingGate =
  mgName :: string
  mgMutate :: "'b AdmResource \<Rightarrow> AuthorType \<Rightarrow> 'b AdmResource"

text \<open>The spread of one object over another.\<close>

definition spread :: "(string, 'v) jsmap \<Rightarrow> (string, 'v) jsmap \<Rightarrow> (string, 'v) jsmap" where
  "spread old new = fold (\<lambda>e m. map_set (fst e) (snd e) m) new old"


definition createMetadataEnricher :: "(string, string) jsmap \<Rightarrow> 'b MutatingGate" where
  "createMetadataEnricher as =
     \<lparr>mgName = ''metadata-enricher'', mgMutate = (\<lambda>r t. r\<lparr>arAnnotations := spread (arAnnotations r) as\<rparr>)\<rparr>"

definition createReviewerAssigner :: "('b AdmResource \<Rightarrow> AuthorType \<Rightarrow> string list) \<Rightarrow> 'b MutatingGate" where
  "createReviewerAssigner f = \<lparr>mgName = ''reviewer-assigner'',
     mgMutate = (\<lambda>r t. r\<lparr>arAnnotations := map_set ''ai-sdlc.io/reviewers'' (join '','' (f r t)) (arAnnotations r)\<rparr>)\<rparr>"


section \<open>The pipeline\<close>












section \<open>Properties\<close>









end
