(* ===== verification/WorktreeMutex.thy ===== *)
theory WorktreeMutex
  imports Prelude Transitions
begin

text \<open>
  The mutex around git worktree commands, \<open>pipeline-cli/src/runtime/worktree-mutex.ts\<close>: in every process a chain of
  promises that callers of \<open>withWorktreeMutex\<close> append to, and between processes a lock directory. A step is what
  the event loop runs without a break: joining the chain, continuing after the wait, a timer, one poll of the lock
  directory, the \<open>finally\<close> block, a signal.
\<close>

section \<open>State\<close>

text \<open>Where a caller is; the number is the time its timer was started, or its deadline.\<close>

datatype CallerPhase = WaitingTurn int | GaveUpTurn | PollingLock int | Critical | LockTimedOut | Finished

text \<open>A caller with its slot of the chain: \<open>caReleased\<close> says that its promise is resolved.\<close>

record MutexCaller =
  caWorkDir :: "string option"
  caTimeoutMs :: int
  caPhase :: CallerPhase
  caReleased :: bool

record MutexProcess =
  mpCallers :: "MutexCaller list"  \<comment> \<open>in the order they joined the chain\<close>
  mpDepth :: int
  mpHandler :: "string option"     \<comment> \<open>the directory of the installed signal handler\<close>

record MutexSystem =
  msProcess :: "nat \<Rightarrow> MutexProcess"
  msLocks :: "string list"         \<comment> \<open>the lock directories that exist\<close>

definition DEFAULT_MUTEX_TIMEOUT_MS :: int where
  "DEFAULT_MUTEX_TIMEOUT_MS = 60000"

section \<open>The lock directory\<close>

definition tryAcquireFileLock :: "string \<Rightarrow> string list \<Rightarrow> bool \<times> string list" where
  "tryAcquireFileLock w locks = (if w \<in> set locks then (False, locks) else (True, w # locks))"

definition releaseFileLock :: "string \<Rightarrow> string list \<Rightarrow> string list" where
  "releaseFileLock w locks = removeAll w locks"

definition isFileLockHeld :: "string \<Rightarrow> string list \<Rightarrow> bool" where
  "isFileLockHeld w locks \<longleftrightarrow> w \<in> set locks"

section \<open>The steps of a caller\<close>

text \<open>The tail of the chain that caller \<open>i\<close> found when it joined.\<close>

definition prev_released :: "MutexCaller list \<Rightarrow> nat \<Rightarrow> bool" where
  "prev_released cs i \<longleftrightarrow> i = 0 \<or> caReleased (cs ! (i - 1))"

definition join_chain :: "string option \<Rightarrow> int option \<Rightarrow> int \<Rightarrow> MutexProcess \<Rightarrow> MutexProcess" where
  "join_chain workDir timeoutMs now p = p\<lparr>
     mpCallers := mpCallers p @ [\<lparr>caWorkDir = workDir, caTimeoutMs = or_else timeoutMs DEFAULT_MUTEX_TIMEOUT_MS,
       caPhase = WaitingTurn now, caReleased = False\<rparr>],
     mpDepth := mpDepth p + 1\<rparr>"

definition set_caller :: "nat \<Rightarrow> MutexCaller \<Rightarrow> MutexProcess \<Rightarrow> MutexProcess" where
  "set_caller i c p = p\<lparr>mpCallers := (mpCallers p)[i := c]\<rparr>"

text \<open>What a caller does next, with the lock directories it leaves; \<open>None\<close> where the step cannot happen. The wait
  ends with the turn whenever the previous promise is resolved; only otherwise does the timer win.\<close>

datatype CallerStep = TakeTurn int | TimeOut int | PassOn | Poll int | GiveUpLock int | Leave

definition caller_step :: "CallerStep \<Rightarrow> bool \<Rightarrow> MutexCaller \<Rightarrow> string list \<Rightarrow> (MutexCaller \<times> string list) option" where
  "caller_step st prev c locks = (case (st, caPhase c) of
     (TakeTurn now, WaitingTurn since) \<Rightarrow>
       if prev then Some (c\<lparr>caPhase := (if truthy (caWorkDir c) then PollingLock (now + caTimeoutMs c) else Critical)\<rparr>, locks)
       else None
   | (TimeOut now, WaitingTurn since) \<Rightarrow>
       if \<not> prev \<and> now \<ge> since + caTimeoutMs c then Some (c\<lparr>caPhase := GaveUpTurn\<rparr>, locks) else None
   | (PassOn, GaveUpTurn) \<Rightarrow> if prev \<and> \<not> caReleased c then Some (c\<lparr>caReleased := True\<rparr>, locks) else None
   | (Poll now, PollingLock deadline) \<Rightarrow>
       if now < deadline
       then (let r = tryAcquireFileLock (the (caWorkDir c)) locks in
             Some (if fst r then c\<lparr>caPhase := Critical\<rparr> else c, snd r))
       else None
   | (GiveUpLock now, PollingLock deadline) \<Rightarrow>
       if \<not> now < deadline then Some (c\<lparr>caPhase := LockTimedOut, caReleased := True\<rparr>, locks) else None
   | (Leave, Critical) \<Rightarrow>
       Some (c\<lparr>caPhase := Finished, caReleased := True\<rparr>,
         if truthy (caWorkDir c) then releaseFileLock (the (caWorkDir c)) locks else locks)
   | _ \<Rightarrow> None)"

definition leaves_queue :: "CallerStep \<Rightarrow> bool" where
  "leaves_queue st \<longleftrightarrow> (case st of TimeOut now \<Rightarrow> True | GiveUpLock now \<Rightarrow> True | Leave \<Rightarrow> True | _ \<Rightarrow> False)"

section \<open>The system\<close>

text \<open>A killed process runs no handler; a signal runs it, and the process ends with all its callers.\<close>

datatype MutexEvent =
    Join nat "string option" "int option" int
  | Step nat nat CallerStep
  | Install nat string
  | Signal nat
  | Kill nat

definition setupWorktreeSignalHandler :: "string \<Rightarrow> MutexProcess \<Rightarrow> MutexProcess" where
  "setupWorktreeSignalHandler w p = (case mpHandler p of None \<Rightarrow> p\<lparr>mpHandler := Some w\<rparr> | Some v \<Rightarrow> p)"

definition new_process :: MutexProcess where
  "new_process = \<lparr>mpCallers = [], mpDepth = 0, mpHandler = None\<rparr>"

definition handle_signal :: "MutexProcess \<Rightarrow> string list \<Rightarrow> string list" where
  "handle_signal p locks = (case mpHandler p of None \<Rightarrow> locks | Some w \<Rightarrow> releaseFileLock w locks)"

definition with_process :: "nat \<Rightarrow> MutexProcess \<Rightarrow> MutexSystem \<Rightarrow> MutexSystem" where
  "with_process p x s = s\<lparr>msProcess := (msProcess s)(p := x)\<rparr>"

definition mutex_event :: "MutexSystem \<Rightarrow> MutexEvent \<Rightarrow> MutexSystem option" where
  "mutex_event s ev = (case ev of
     Join p w t now \<Rightarrow> Some (with_process p (join_chain w t now (msProcess s p)) s)
   | Step p i st \<Rightarrow> (let x = msProcess s p; cs = mpCallers x in
       if i < length cs then
         map_option (\<lambda>(c, locks). (with_process p
             ((set_caller i c x)\<lparr>mpDepth := (if leaves_queue st then mpDepth x - 1 else mpDepth x)\<rparr>) s)\<lparr>msLocks := locks\<rparr>)
           (caller_step st (prev_released cs i) (cs ! i) (msLocks s))
       else None)
   | Install p w \<Rightarrow> Some (with_process p (setupWorktreeSignalHandler w (msProcess s p)) s)
   | Signal p \<Rightarrow> Some ((with_process p new_process s)\<lparr>msLocks := handle_signal (msProcess s p) (msLocks s)\<rparr>)
   | Kill p \<Rightarrow> Some (with_process p new_process s))"

definition mutex_step :: "MutexSystem \<Rightarrow> MutexEvent \<Rightarrow> MutexSystem \<Rightarrow> bool" where
  "mutex_step s ev s' \<longleftrightarrow> mutex_event s ev = Some s'"

definition mutex_start :: MutexSystem where
  "mutex_start = \<lparr>msProcess = (\<lambda>p. new_process), msLocks = []\<rparr>"

fun mutex_run :: "MutexSystem \<Rightarrow> MutexEvent list \<Rightarrow> MutexSystem option" where
  "mutex_run s [] = Some s"
| "mutex_run s (e # es) = (case mutex_event s e of None \<Rightarrow> None | Some s1 \<Rightarrow> mutex_run s1 es)"

lemma mutex_run_iff: "mutex_run s es = Some s' \<longleftrightarrow> runs mutex_step s es s'"
  by (induction es arbitrary: s) (auto simp: mutex_step_def split: option.splits)

text \<open>Caller \<open>i\<close> of process \<open>p\<close> runs its critical section with the lock of directory \<open>w\<close>.\<close>

definition inside :: "MutexSystem \<Rightarrow> nat \<Rightarrow> nat \<Rightarrow> string \<Rightarrow> bool" where
  "inside s p i w \<longleftrightarrow> i < length (mpCallers (msProcess s p)) \<and> caPhase (mpCallers (msProcess s p) ! i) = Critical
     \<and> caWorkDir (mpCallers (msProcess s p) ! i) = Some w \<and> w \<noteq> []"

end
