(* ===== verification/WorktreeMutexProps.thy ===== *)
theory WorktreeMutexProps
  imports WorktreeMutex
begin

text \<open>
  The chain of a process serves one caller at a time and is never wedged; between processes the lock directory is
  exclusive unless a signal handler removes the lock of another process, which it can.
\<close>

section \<open>The chain of one process\<close>

definition active :: "CallerPhase \<Rightarrow> bool" where
  "active ph \<longleftrightarrow> (case ph of PollingLock d \<Rightarrow> True | Critical \<Rightarrow> True | _ \<Rightarrow> False)"

definition in_queue :: "CallerPhase \<Rightarrow> bool" where
  "in_queue ph \<longleftrightarrow> active ph \<or> (case ph of WaitingTurn t \<Rightarrow> True | _ \<Rightarrow> False)"

definition slot_ok :: "MutexCaller \<Rightarrow> bool" where
  "slot_ok c \<longleftrightarrow> (case caPhase c of
     WaitingTurn t \<Rightarrow> \<not> caReleased c | PollingLock d \<Rightarrow> \<not> caReleased c | Critical \<Rightarrow> \<not> caReleased c
   | GaveUpTurn \<Rightarrow> True | LockTimedOut \<Rightarrow> caReleased c | Finished \<Rightarrow> caReleased c)"

text \<open>A caller that had its turn, or whose promise is resolved, has only resolved promises before it.\<close>

definition chain_ok :: "MutexCaller list \<Rightarrow> bool" where
  "chain_ok cs \<longleftrightarrow> (\<forall>c \<in> set cs. slot_ok c) \<and>
     (\<forall>i < length cs. caReleased (cs ! i) \<or> active (caPhase (cs ! i)) \<longrightarrow> (\<forall>j < i. caReleased (cs ! j)))"

definition depth_of :: "MutexCaller list \<Rightarrow> int" where
  "depth_of cs = int (length (filter (\<lambda>c. in_queue (caPhase c)) cs))"

definition process_ok :: "MutexProcess \<Rightarrow> bool" where
  "process_ok p \<longleftrightarrow> chain_ok (mpCallers p) \<and> mpDepth p = depth_of (mpCallers p)"

lemma phase_simps [simp]:
  "active Critical" "active (PollingLock d)" "\<not> active (WaitingTurn t)" "\<not> active GaveUpTurn" "\<not> active LockTimedOut" "\<not> active Finished"
  "in_queue Critical" "in_queue (PollingLock d)" "in_queue (WaitingTurn t)" "\<not> in_queue GaveUpTurn" "\<not> in_queue LockTimedOut" "\<not> in_queue Finished"
  by (simp_all add: active_def in_queue_def)

lemma caller_step_cases:
  assumes "caller_step st prev c locks = Some (c', locks')"
  obtains (turn) now t where "st = TakeTurn now" "caPhase c = WaitingTurn t" "prev" "active (caPhase c')" "caReleased c' = caReleased c" "locks' = locks"
      "caPhase c' = Critical \<longrightarrow> \<not> truthy (caWorkDir c)" "caWorkDir c' = caWorkDir c"
  | (out) now t where "st = TimeOut now" "caPhase c = WaitingTurn t" "\<not> prev" "c' = c\<lparr>caPhase := GaveUpTurn\<rparr>" "locks' = locks"
  | (pass) "st = PassOn" "caPhase c = GaveUpTurn" "prev" "\<not> caReleased c" "c' = c\<lparr>caReleased := True\<rparr>" "locks' = locks"
  | (poll) now d where "st = Poll now" "caPhase c = PollingLock d" "c' = c" "locks' = locks" "the (caWorkDir c) \<in> set locks"
  | (enter) now d where "st = Poll now" "caPhase c = PollingLock d" "c' = c\<lparr>caPhase := Critical\<rparr>"
      "the (caWorkDir c) \<notin> set locks" "locks' = the (caWorkDir c) # locks"
  | (lose) now d where "st = GiveUpLock now" "caPhase c = PollingLock d" "c' = c\<lparr>caPhase := LockTimedOut, caReleased := True\<rparr>" "locks' = locks"
  | (leave) "st = Leave" "caPhase c = Critical" "c' = c\<lparr>caPhase := Finished, caReleased := True\<rparr>"
      "locks' = (if truthy (caWorkDir c) then removeAll (the (caWorkDir c)) locks else locks)"
  using assms
  by (cases st; cases "caPhase c")
    (auto simp: caller_step_def Let_def tryAcquireFileLock_def releaseFileLock_def split: if_split_asm)

lemma prev_released_iff:
  "chain_ok cs \<Longrightarrow> i < length cs \<Longrightarrow> prev_released cs i \<longleftrightarrow> (\<forall>j < i. caReleased (cs ! j))"
proof
  assume ok: "chain_ok cs" "i < length cs" and p: "prev_released cs i"
  show "\<forall>j < i. caReleased (cs ! j)"
  proof (intro allI impI)
    fix j assume "j < i"
    then have r: "caReleased (cs ! (i - 1))" "i - 1 < length cs" using p ok(2) by (auto simp: prev_released_def)
    show "caReleased (cs ! j)"
    proof (cases "j = i - 1")
      case False
      then have "j < i - 1" using \<open>j < i\<close> by simp
      then show ?thesis using ok(1) r unfolding chain_ok_def by blast
    qed (use r in simp)
  qed
qed (cases i, simp_all add: prev_released_def)

lemma slot_step: "caller_step st prev c locks = Some (c', locks') \<Longrightarrow> slot_ok c \<Longrightarrow> slot_ok c'"
  by (erule caller_step_cases) (auto simp: slot_ok_def active_def split: CallerPhase.splits)

lemma step_resolves: "caller_step st prev c locks = Some (c', locks') \<Longrightarrow> slot_ok c \<Longrightarrow>
    caReleased c' \<or> active (caPhase c') \<Longrightarrow> prev \<or> caReleased c \<or> active (caPhase c)"
  by (erule caller_step_cases) (auto simp: slot_ok_def)

lemma step_keeps_released: "caller_step st prev c locks = Some (c', locks') \<Longrightarrow> caReleased c \<Longrightarrow> caReleased c'"
  by (erule caller_step_cases) auto

lemma chain_step:
  assumes ok: "chain_ok cs" and i: "i < length cs" and st: "caller_step st (prev_released cs i) (cs ! i) locks = Some (c', locks')"
  shows "chain_ok (cs[i := c'])"
proof -
  have s: "slot_ok (cs ! i)" using ok i by (simp add: chain_ok_def)
  have "\<forall>c \<in> set (cs[i := c']). slot_ok c" using slot_step [OF st s] ok set_update_subset_insert [of cs i c'] unfolding chain_ok_def by auto
  moreover have "\<forall>j < k. caReleased (cs[i := c'] ! j)"
    if k: "k < length cs" "caReleased (cs[i := c'] ! k) \<or> active (caPhase (cs[i := c'] ! k))" for k
  proof -
    have all: "\<forall>j < k. caReleased (cs ! j)"
    proof (cases "k = i")
      case True
      with k i have "caReleased c' \<or> active (caPhase c')" by simp
      from step_resolves [OF st s this] ok i True prev_released_iff [OF ok i] show ?thesis unfolding chain_ok_def by blast
    next
      case False
      then have "k < length cs" "caReleased (cs ! k) \<or> active (caPhase (cs ! k))" using k by simp_all
      then show ?thesis using ok unfolding chain_ok_def by blast
    qed
    then show ?thesis using step_keeps_released [OF st] i by (auto simp: nth_list_update)
  qed
  ultimately show ?thesis by (simp add: chain_ok_def)
qed

lemma depth_split: "depth_of (xs @ c # ys) = depth_of xs + (if in_queue (caPhase c) then 1 else 0) + depth_of ys"
  by (simp add: depth_of_def)

lemma depth_update:
  assumes "i < length cs"
  shows "depth_of (cs[i := c']) = depth_of cs
    - (if in_queue (caPhase (cs ! i)) then 1 else 0) + (if in_queue (caPhase c') then 1 else 0)"
  using arg_cong [OF id_take_nth_drop [OF assms], of depth_of] arg_cong [OF upd_conv_take_nth_drop [OF assms, of c'], of depth_of]
  unfolding depth_split by linarith

lemma depth_step:
  "caller_step st prev c locks = Some (c', locks') \<Longrightarrow>
    (if in_queue (caPhase c') then 1 else 0) - (if in_queue (caPhase c) then 1 else 0) = (if leaves_queue st then -1 else 0 :: int)"
  by (erule caller_step_cases) (auto simp: leaves_queue_def in_queue_def)

lemma process_join: "process_ok p \<Longrightarrow> process_ok (join_chain w t now p)"
  by (auto simp: process_ok_def chain_ok_def join_chain_def slot_ok_def depth_of_def nth_append less_Suc_eq)

lemma process_new: "process_ok new_process"
  by (simp add: process_ok_def new_process_def chain_ok_def depth_of_def)

lemma process_handler: "process_ok p \<Longrightarrow> process_ok (setupWorktreeSignalHandler w p)"
  by (simp add: process_ok_def setupWorktreeSignalHandler_def split: option.split)

lemma process_step:
  assumes "process_ok p" and "i < length (mpCallers p)"
    and "caller_step st (prev_released (mpCallers p) i) (mpCallers p ! i) locks = Some (c', locks')"
  shows "process_ok ((set_caller i c' p)\<lparr>mpDepth := (if leaves_queue st then mpDepth p - 1 else mpDepth p)\<rparr>)"
  using chain_step [OF _ assms(2,3)] depth_step [OF assms(3)] assms(1) depth_update [OF assms(2), of c']
  by (simp add: process_ok_def set_caller_def split: if_split_asm)

definition all_ok :: "MutexSystem \<Rightarrow> bool" where
  "all_ok s \<longleftrightarrow> (\<forall>p. process_ok (msProcess s p))"

lemma step_all_ok: "mutex_step s ev s' \<Longrightarrow> all_ok s \<Longrightarrow> all_ok s'"
proof (cases ev)
  case (Step p i st)
  assume s: "mutex_step s ev s'" and ok: "all_ok s"
  then obtain c' locks' where c: "i < length (mpCallers (msProcess s p))"
      "caller_step st (prev_released (mpCallers (msProcess s p)) i) (mpCallers (msProcess s p) ! i) (msLocks s) = Some (c', locks')"
      "s' = (with_process p ((set_caller i c' (msProcess s p))\<lparr>mpDepth :=
        (if leaves_queue st then mpDepth (msProcess s p) - 1 else mpDepth (msProcess s p))\<rparr>) s)\<lparr>msLocks := locks'\<rparr>"
    unfolding Step by (auto simp: mutex_step_def mutex_event_def Let_def split: if_split_asm)
  from ok have "process_ok (msProcess s p)" by (simp add: all_ok_def)
  from process_step [OF this c(1,2)] ok show ?thesis unfolding c(3)
    by (cases "leaves_queue st") (simp_all add: all_ok_def with_process_def)
qed (auto simp: mutex_step_def mutex_event_def all_ok_def with_process_def process_join process_new process_handler)

interpretation mutex: step_invariant mutex_step all_ok
  by unfold_locales (rule step_all_ok)

lemma start_ok: "all_ok mutex_start"
  by (simp add: all_ok_def mutex_start_def process_new)

lemma active_unreleased: "chain_ok cs \<Longrightarrow> k < length cs \<Longrightarrow> active (caPhase (cs ! k)) \<Longrightarrow> \<not> caReleased (cs ! k)"
proof -
  assume "chain_ok cs" "k < length cs" and a: "active (caPhase (cs ! k))"
  then have "slot_ok (cs ! k)" by (simp add: chain_ok_def)
  with a show ?thesis by (cases "caPhase (cs ! k)") (simp_all add: slot_ok_def)
qed

lemma active_order:
  assumes ok: "chain_ok cs" and "a < length cs" "active (caPhase (cs ! a))" and b: "b < length cs" "active (caPhase (cs ! b))"
  shows "\<not> a < b"
proof
  assume "a < b"
  have "\<forall>j < b. caReleased (cs ! j)" using ok b unfolding chain_ok_def by simp
  with \<open>a < b\<close> active_unreleased [OF assms(1-3)] show False by simp
qed

text \<open>
  In every run of the mutex, a process has at most one caller past its wait, so at most one in its critical section,
  and its depth counts the callers that wait, poll or are inside.
\<close>

theorem one_caller_at_a_time:
  assumes "runs mutex_step mutex_start es s"
    and "i < length (mpCallers (msProcess s p))" and "active (caPhase (mpCallers (msProcess s p) ! i))"
    and "j < length (mpCallers (msProcess s p))" and "active (caPhase (mpCallers (msProcess s p) ! j))"
  shows "i = j \<and> mpDepth (msProcess s p) = depth_of (mpCallers (msProcess s p))"
proof -
  have p: "process_ok (msProcess s p)" using mutex.along [OF assms(1) start_ok] by (simp add: all_ok_def)
  then have ok: "chain_ok (mpCallers (msProcess s p))" by (simp add: process_ok_def)
  have "i = j" using active_order [OF ok assms(2-5)] active_order [OF ok assms(4,5,2,3)] by simp
  with p show ?thesis by (simp add: process_ok_def)
qed

text \<open>C37. 
  A queue is never wedged: as long as a caller of a process waits, one of its callers is past its wait, or one that
  waits can take its turn, or one that gave up passes the turn on.
\<close>

theorem queue_never_wedged:
  assumes "runs mutex_step mutex_start es s"
    and "i < length (mpCallers (msProcess s p))" and "caPhase (mpCallers (msProcess s p) ! i) = WaitingTurn t"
  shows "\<exists>k < length (mpCallers (msProcess s p)). active (caPhase (mpCallers (msProcess s p) ! k))
    \<or> (\<exists>s'. mutex_step s (Step p k PassOn) s') \<or> (\<forall>now. \<exists>s'. mutex_step s (Step p k (TakeTurn now)) s')"
proof -
  let ?cs = "mpCallers (msProcess s p)"
  have ok: "chain_ok ?cs" using mutex.along [OF assms(1) start_ok] by (simp add: all_ok_def process_ok_def)
  have slot: "slot_ok (?cs ! k)" if "k < length ?cs" for k using ok that by (simp add: chain_ok_def)
  have "\<not> caReleased (?cs ! i)" using slot [OF assms(2)] assms(3) by (simp add: slot_ok_def)
  define k where "k = (LEAST k. \<not> caReleased (?cs ! k))"
  have k: "\<not> caReleased (?cs ! k)" "k \<le> i" and before: "\<forall>j < k. caReleased (?cs ! j)"
    using LeastI [of "\<lambda>k. \<not> caReleased (?cs ! k)"] Least_le [of "\<lambda>k. \<not> caReleased (?cs ! k)"] not_less_Least \<open>\<not> caReleased (?cs ! i)\<close>
    unfolding k_def by blast+
  then have len: "k < length ?cs" using assms(2) by simp
  have prev: "prev_released ?cs k" using before prev_released_iff [OF ok len] by simp
  show ?thesis
  proof (intro exI [of _ k] conjI len)
    show "active (caPhase (?cs ! k)) \<or> (\<exists>s'. mutex_step s (Step p k PassOn) s') \<or> (\<forall>now. \<exists>s'. mutex_step s (Step p k (TakeTurn now)) s')"
      using slot [OF len] k(1) prev len
      by (cases "caPhase (?cs ! k)") (simp_all add: slot_ok_def mutex_step_def mutex_event_def caller_step_def Let_def)
  qed
qed

section \<open>The lock between processes\<close>

text \<open>A signal to a process whose handler removes the lock another process holds.\<close>

definition stray_signal :: "MutexSystem \<Rightarrow> MutexEvent \<Rightarrow> bool" where
  "stray_signal s ev \<longleftrightarrow> (\<exists>p w q i. ev = Signal p \<and> mpHandler (msProcess s p) = Some w \<and> q \<noteq> p \<and> inside s q i w)"

definition careful_step :: "MutexSystem \<Rightarrow> MutexEvent \<Rightarrow> MutexSystem \<Rightarrow> bool" where
  "careful_step s ev s' \<longleftrightarrow> mutex_step s ev s' \<and> \<not> stray_signal s ev"

definition locks_ok :: "MutexSystem \<Rightarrow> bool" where
  "locks_ok s \<longleftrightarrow> (\<forall>p i w. inside s p i w \<longrightarrow> w \<in> set (msLocks s))
     \<and> (\<forall>p i q j w. inside s p i w \<longrightarrow> inside s q j w \<longrightarrow> p = q \<and> i = j)"

lemma inside_step:
  assumes "i < length (mpCallers (msProcess s p))"
  shows "inside (with_process p ((set_caller i c (msProcess s p))\<lparr>mpDepth := d\<rparr>) s) q j w \<longleftrightarrow>
    (if q = p \<and> j = i then caPhase c = Critical \<and> caWorkDir c = Some w \<and> w \<noteq> [] else inside s q j w)"
  using assms by (auto simp: inside_def with_process_def set_caller_def nth_list_update)

lemma inside_other: "inside (with_process p x s) q j w \<longleftrightarrow> (if q = p then
    j < length (mpCallers x) \<and> caPhase (mpCallers x ! j) = Critical \<and> caWorkDir (mpCallers x ! j) = Some w \<and> w \<noteq> []
  else inside s q j w)"
  by (simp add: inside_def with_process_def)

lemma inside_locks [simp]: "inside (s\<lparr>msLocks := l\<rparr>) = inside s"
  by (simp add: inside_def fun_eq_iff)

lemma inside_join: "inside (with_process p (join_chain v t now (msProcess s p)) s) q j w \<longleftrightarrow> inside s q j w"
  by (auto simp: inside_other join_chain_def nth_append) (auto simp: inside_def)

lemma inside_install: "inside (with_process p (setupWorktreeSignalHandler v (msProcess s p)) s) q j w \<longleftrightarrow> inside s q j w"
  by (simp add: inside_def with_process_def setupWorktreeSignalHandler_def split: option.split)

lemma inside_ended: "inside (with_process p new_process s) q j w \<longleftrightarrow> q \<noteq> p \<and> inside s q j w"
  by (simp add: inside_other new_process_def)

lemma locks_process [simp]: "msLocks (with_process p x s) = msLocks s"
  by (simp add: with_process_def)

lemma locks_caller_step:
  assumes ok: "locks_ok s" and i: "i < length (mpCallers (msProcess s p))"
    and st: "caller_step st prev (mpCallers (msProcess s p) ! i) (msLocks s) = Some (c', locks')"
  shows "locks_ok ((with_process p ((set_caller i c' (msProcess s p))\<lparr>mpDepth := d\<rparr>) s)\<lparr>msLocks := locks'\<rparr>)"
proof -
  let ?c = "mpCallers (msProcess s p) ! i"
  have was: "inside s p i w \<longleftrightarrow> caPhase ?c = Critical \<and> caWorkDir ?c = Some w \<and> w \<noteq> []" for w
    using i by (simp add: inside_def)
  from st show ?thesis
  proof (cases rule: caller_step_cases)
    case leave
    have keep: "w \<in> set locks'" if "inside s q j w" "\<not> (q = p \<and> j = i)" for q j w
    proof (cases "caWorkDir ?c = Some w")
      case True
      then have "inside s p i w" using that(1) i leave(2) by (simp add: inside_def)
      then show ?thesis using that ok unfolding locks_ok_def by blast
    next
      case False
      then have "\<not> (truthy (caWorkDir ?c) \<and> the (caWorkDir ?c) = w)" by (auto simp: truthy_def split: option.splits)
      then show ?thesis using that(1) ok leave(4) by (auto simp: locks_ok_def)
    qed
    have "caPhase c' \<noteq> Critical" using leave(3) by simp
    with keep ok show ?thesis unfolding locks_ok_def inside_locks inside_step [OF i] by (simp split: if_split)
  qed (use ok was in \<open>auto simp: locks_ok_def inside_step [OF i] truthy_def\<close>)
qed

lemma step_locks_ok:
  assumes "careful_step s ev s'" and ok: "locks_ok s"
  shows "locks_ok s'"
proof (cases ev)
  case (Step p i st)
  then obtain c' locks' d where c: "i < length (mpCallers (msProcess s p))"
      "caller_step st (prev_released (mpCallers (msProcess s p)) i) (mpCallers (msProcess s p) ! i) (msLocks s) = Some (c', locks')"
      "s' = (with_process p ((set_caller i c' (msProcess s p))\<lparr>mpDepth := d\<rparr>) s)\<lparr>msLocks := locks'\<rparr>"
    using assms(1) by (auto simp: careful_step_def mutex_step_def mutex_event_def Let_def split: if_split_asm)
  show ?thesis unfolding c(3) by (rule locks_caller_step [OF ok c(1,2)])
next
  case (Signal p)
  then have s': "s' = (with_process p new_process s)\<lparr>msLocks := handle_signal (msProcess s p) (msLocks s)\<rparr>"
    using assms(1) by (simp add: careful_step_def mutex_step_def mutex_event_def)
  have "w \<in> set (handle_signal (msProcess s p) (msLocks s))" if "q \<noteq> p" "inside s q j w" for q j w
    using assms(1) ok that unfolding Signal careful_step_def stray_signal_def locks_ok_def
    by (auto simp: handle_signal_def releaseFileLock_def split: option.splits)
  then show ?thesis using ok unfolding s' by (auto simp: locks_ok_def inside_ended)
qed (use assms in \<open>auto simp: careful_step_def mutex_step_def mutex_event_def locks_ok_def inside_join inside_install inside_ended\<close>)

interpretation lock: step_invariant careful_step locks_ok
  by unfold_locales (rule step_locks_ok)

lemma start_locks_ok: "locks_ok mutex_start"
  by (simp add: locks_ok_def inside_def mutex_start_def new_process_def)

text \<open>C15. 
  As long as no signal reaches a process whose handler would remove the lock of another process, at most one caller
  of all processes runs its critical section with a given lock directory, and the directory exists meanwhile.
\<close>

theorem lock_is_exclusive:
  assumes "runs careful_step mutex_start es s" and "inside s p i w" and "inside s q j w"
  shows "p = q \<and> i = j \<and> isFileLockHeld w (msLocks s)"
  using lock.along [OF assms(1) start_locks_ok] assms(2,3) unfolding locks_ok_def isFileLockHeld_def by blast

text \<open>Process 0 enters; process 1 installs its handler and waits for the lock; process 2 waits as well.\<close>

definition contended :: "MutexEvent list" where
  "contended = [Join 0 (Some ''repo'') None 0, Step 0 0 (TakeTurn 0), Step 0 0 (Poll 0),
     Install 1 ''repo'', Join 1 (Some ''repo'') None 10, Step 1 0 (TakeTurn 10), Step 1 0 (Poll 10),
     Join 2 (Some ''repo'') None 20, Step 2 0 (TakeTurn 20), Step 2 0 (Poll 20)]"

definition contended_state :: MutexSystem where
  "contended_state = the (mutex_run mutex_start contended)"

lemma contended_run: "runs mutex_step mutex_start contended contended_state"
proof -
  have "mutex_run mutex_start contended \<noteq> None" by code_simp
  then show ?thesis unfolding mutex_run_iff [symmetric] contended_state_def by auto
qed

lemma careful_run: "runs mutex_step s es s' \<Longrightarrow> \<forall>e \<in> set es. \<forall>p. e \<noteq> Signal p \<Longrightarrow> runs careful_step s es s'"
  by (induction rule: runs.induct) (auto simp: careful_step_def stray_signal_def)

lemma contended_inside: "inside contended_state 0 0 ''repo''"
proof -
  have "length (mpCallers (msProcess contended_state 0)) = 1 \<and> caPhase (mpCallers (msProcess contended_state 0) ! 0) = Critical
      \<and> caWorkDir (mpCallers (msProcess contended_state 0) ! 0) = Some ''repo''" by code_simp
  then show ?thesis by (simp add: inside_def)
qed

theorem lock_is_exclusive_witness: "isFileLockHeld ''repo'' (msLocks contended_state)"
proof -
  have "runs careful_step mutex_start contended contended_state"
    using careful_run [OF contended_run] by (simp add: contended_def)
  from lock_is_exclusive [OF this contended_inside contended_inside] show ?thesis by simp
qed

theorem one_caller_at_a_time_witness: "mpDepth (msProcess contended_state 0) = 1"
proof -
  have c: "0 < length (mpCallers (msProcess contended_state 0))" "active (caPhase (mpCallers (msProcess contended_state 0) ! 0))"
    using contended_inside by (simp_all add: inside_def)
  have "depth_of (mpCallers (msProcess contended_state 0)) = 1" by code_simp
  with one_caller_at_a_time [OF contended_run c c] show ?thesis by simp
qed

text \<open>Two callers of one process; the first has not continued yet.\<close>

theorem queue_never_wedged_witness:
  "\<exists>s. mutex_run mutex_start [Join 0 None None 0, Join 0 None (Some 5) 1] = Some s
    \<and> (\<exists>k < 2. active (caPhase (mpCallers (msProcess s 0) ! k))
      \<or> (\<exists>s'. mutex_step s (Step 0 k PassOn) s') \<or> (\<forall>now. \<exists>s'. mutex_step s (Step 0 k (TakeTurn now)) s'))"
proof -
  define s where "s = the (mutex_run mutex_start [Join 0 None None 0, Join 0 None (Some 5) 1])"
  have r: "mutex_run mutex_start [Join 0 None None 0, Join 0 None (Some 5) 1] = Some s"
    by (simp add: s_def mutex_event_def)
  have c: "length (mpCallers (msProcess s 0)) = 2 \<and> caPhase (mpCallers (msProcess s 0) ! 1) = WaitingTurn 1"
    unfolding s_def by code_simp
  have "runs mutex_step mutex_start [Join 0 None None 0, Join 0 None (Some 5) 1] s" using r by (simp only: mutex_run_iff)
  from queue_never_wedged [OF this, of 1 0 1] c r show ?thesis by auto
qed

text \<open>
  The handler removes the lock directory whether or not its process holds it: a signal to process 1, which only waits,
  removes the lock of process 0, and process 2 enters beside it.
\<close>

theorem waiting_process_removes_the_lock:
  "\<exists>s. runs mutex_step mutex_start (contended @ [Signal 1, Step 2 0 (Poll 220)]) s
    \<and> inside s 0 0 ''repo'' \<and> inside s 2 0 ''repo''"
proof -
  have "map_option (\<lambda>s. caPhase (mpCallers (msProcess s 0) ! 0) = Critical \<and> caPhase (mpCallers (msProcess s 2) ! 0) = Critical
      \<and> caWorkDir (mpCallers (msProcess s 0) ! 0) = Some ''repo'' \<and> caWorkDir (mpCallers (msProcess s 2) ! 0) = Some ''repo''
      \<and> length (mpCallers (msProcess s 0)) = 1 \<and> length (mpCallers (msProcess s 2)) = 1)
     (mutex_run mutex_start (contended @ [Signal 1, Step 2 0 (Poll 220)])) = Some True" by code_simp
  then obtain s where "mutex_run mutex_start (contended @ [Signal 1, Step 2 0 (Poll 220)]) = Some s"
    "caPhase (mpCallers (msProcess s 0) ! 0) = Critical" "caPhase (mpCallers (msProcess s 2) ! 0) = Critical"
    "caWorkDir (mpCallers (msProcess s 0) ! 0) = Some ''repo''" "caWorkDir (mpCallers (msProcess s 2) ! 0) = Some ''repo''"
    "length (mpCallers (msProcess s 0)) = 1" "length (mpCallers (msProcess s 2)) = 1" by auto
  then show ?thesis unfolding mutex_run_iff by (intro exI [of _ s]) (simp add: inside_def)
qed

end
