(* ===== verification/UsageLock.thy ===== *)
theory UsageLock
  imports Prelude Transitions
begin

text \<open>
  The advisory lock of the usage ledger, \<open>reference/src/usage/fs-lock.ts\<close>: a lock directory with an owner file, and
  a claim file under which locks are removed. A step is one file operation of one call of \<open>withUsageLock\<close>; calls of
  any processes interleave between them, and a call may die anywhere. File operations fail only because a path exists
  or is absent. Calls are named by their tokens.
\<close>

section \<open>State\<close>

definition WAIT_LIMIT_MS :: int where "WAIT_LIMIT_MS = 20000"
definition CLAIM_STALE_MS :: int where "CLAIM_STALE_MS = 10000"

datatype ClaimUse = ToReclaim | ToRelease

text \<open>What a call does next. The first number is the time it began to wait for the lock, the second the time it began to
  wait for the claim.\<close>

datatype LockPhase =
    Trying int                     \<comment> \<open>make the lock directory\<close>
  | FirstCheck int                 \<comment> \<open>is the lock stale?\<close>
  | Claiming ClaimUse int int      \<comment> \<open>create the claim file\<close>
  | ClaimSeen ClaimUse int int     \<comment> \<open>look at the age of the claim found\<close>
  | ClaimExpired ClaimUse int int  \<comment> \<open>remove the claim found stale\<close>
  | SecondCheck int                \<comment> \<open>is the lock still stale?\<close>
  | Removing int                   \<comment> \<open>move the stale lock aside\<close>
  | OwnerFile                      \<comment> \<open>write the owner file\<close>
  | Holding                        \<comment> \<open>inside the callback\<close>
  | Touching                       \<comment> \<open>inside, refresh the lock\<close>
  | CheckingOwner                  \<comment> \<open>is the lock still mine?\<close>
  | RemovingOwn                    \<comment> \<open>move my lock aside\<close>
  | Dropping ClaimUse int          \<comment> \<open>read the claim\<close>
  | Unlinking ClaimUse int         \<comment> \<open>remove the claim\<close>
  | Backoff int                    \<comment> \<open>give up or try again\<close>
  | Returned
  | Refused
  | Dead

record LockDir =
  ldMtime :: int
  ldOwner :: "nat option"

record ClaimFile =
  cfMtime :: int
  cfToken :: nat

record LockState =
  lsNow :: int
  lsLock :: "LockDir option"
  lsClaim :: "ClaimFile option"
  lsCalls :: "(nat, LockPhase) jsmap"

definition at_phase :: "LockState \<Rightarrow> nat \<Rightarrow> LockPhase \<Rightarrow> bool" where
  "at_phase s t ph \<longleftrightarrow> map_of (lsCalls s) t = Some ph"

section \<open>Steps\<close>

definition isStale :: "int \<Rightarrow> LockState \<Rightarrow> bool" where
  "isStale staleAfterMs s = (case lsLock s of None \<Rightarrow> False | Some d \<Rightarrow> lsNow s - ldMtime d > staleAfterMs)"

definition ownerOf :: "LockState \<Rightarrow> nat option" where
  "ownerOf s = (case lsLock s of None \<Rightarrow> None | Some d \<Rightarrow> ldOwner d)"

definition goto :: "nat \<Rightarrow> LockPhase \<Rightarrow> LockState \<Rightarrow> LockState" where
  "goto t ph s = s\<lparr>lsCalls := map_set t ph (lsCalls s)\<rparr>"

text \<open>What follows when the claim is given back, or was never had.\<close>

definition without_claim :: "ClaimUse \<Rightarrow> int \<Rightarrow> LockPhase" where
  "without_claim u started = (case u of ToReclaim \<Rightarrow> Backoff started | ToRelease \<Rightarrow> Returned)"

definition acquireClaim :: "ClaimUse \<Rightarrow> int \<Rightarrow> int \<Rightarrow> nat \<Rightarrow> LockState \<Rightarrow> LockState" where
  "acquireClaim u started since t s = (case lsClaim s of
     None \<Rightarrow> goto t (case u of ToReclaim \<Rightarrow> SecondCheck started | ToRelease \<Rightarrow> CheckingOwner)
       (s\<lparr>lsClaim := Some \<lparr>cfMtime = lsNow s, cfToken = t\<rparr>\<rparr>)
   | Some c \<Rightarrow> goto t (ClaimSeen u started since) s)"

definition claim_seen :: "ClaimUse \<Rightarrow> int \<Rightarrow> int \<Rightarrow> nat \<Rightarrow> LockState \<Rightarrow> LockState" where
  "claim_seen u started since t s = (case lsClaim s of
     None \<Rightarrow> goto t (Claiming u started since) s
   | Some c \<Rightarrow>
       if lsNow s - cfMtime c > CLAIM_STALE_MS then goto t (ClaimExpired u started since) s
       else if lsNow s - since > WAIT_LIMIT_MS then goto t (without_claim u started) s
       else goto t (Claiming u started since) s)"

definition releaseClaim :: "ClaimUse \<Rightarrow> int \<Rightarrow> nat \<Rightarrow> LockState \<Rightarrow> LockState" where
  "releaseClaim u started t s = (case lsClaim s of
     None \<Rightarrow> goto t (without_claim u started) s
   | Some c \<Rightarrow> if cfToken c = t then goto t (Unlinking u started) s else goto t (without_claim u started) s)"

text \<open>The owner file changes the age of the directory when it is created in it.\<close>

definition write_owner :: "nat \<Rightarrow> LockState \<Rightarrow> LockState" where
  "write_owner t s = s\<lparr>lsLock := map_option (\<lambda>d. d\<lparr>ldOwner := Some t,
     ldMtime := (if ldOwner d = None then lsNow s else ldMtime d)\<rparr>) (lsLock s)\<rparr>"

definition act :: "int \<Rightarrow> int \<Rightarrow> nat \<Rightarrow> LockPhase \<Rightarrow> LockState \<Rightarrow> LockState option" where
  "act staleAfterMs waitLimitMs t ph s = (case ph of
     Trying st \<Rightarrow> Some (if lsLock s = None then goto t OwnerFile (s\<lparr>lsLock := Some \<lparr>ldMtime = lsNow s, ldOwner = None\<rparr>\<rparr>)
       else goto t (FirstCheck st) s)
   | FirstCheck st \<Rightarrow> Some (goto t (if isStale staleAfterMs s then Claiming ToReclaim st (lsNow s) else Backoff st) s)
   | Claiming u st since \<Rightarrow> Some (acquireClaim u st since t s)
   | ClaimSeen u st since \<Rightarrow> Some (claim_seen u st since t s)
   | ClaimExpired u st since \<Rightarrow> Some (goto t (Claiming u st since) (s\<lparr>lsClaim := None\<rparr>))
   | SecondCheck st \<Rightarrow> Some (goto t (if isStale staleAfterMs s then Removing st else Dropping ToReclaim st) s)
   | Removing st \<Rightarrow> Some (goto t (Dropping ToReclaim st) (s\<lparr>lsLock := None\<rparr>))
   | OwnerFile \<Rightarrow> Some (goto t Holding (write_owner t s))
   | Holding \<Rightarrow> None
   | Touching \<Rightarrow> Some (goto t Holding (s\<lparr>lsLock := map_option (\<lambda>d. d\<lparr>ldMtime := lsNow s\<rparr>) (lsLock s)\<rparr>))
   | CheckingOwner \<Rightarrow> Some (goto t (if ownerOf s = Some t then RemovingOwn else Dropping ToRelease 0) s)
   | RemovingOwn \<Rightarrow> Some (goto t (Dropping ToRelease 0) (s\<lparr>lsLock := None\<rparr>))
   | Dropping u st \<Rightarrow> Some (releaseClaim u st t s)
   | Unlinking u st \<Rightarrow> Some (goto t (without_claim u st) (s\<lparr>lsClaim := None\<rparr>))
   | Backoff st \<Rightarrow> Some (goto t (if lsNow s - st > waitLimitMs then Refused else Trying st) s)
   | Returned \<Rightarrow> None
   | Refused \<Rightarrow> None
   | Dead \<Rightarrow> None)"

datatype LockEvent = Call nat | Act nat | Touch nat | Leave nat | Crash nat | Tick nat

definition lock_event :: "int \<Rightarrow> int \<Rightarrow> LockState \<Rightarrow> LockEvent \<Rightarrow> LockState option" where
  "lock_event staleAfterMs waitLimitMs s ev = (case ev of
     Call t \<Rightarrow> if map_of (lsCalls s) t = None then Some (goto t (Trying (lsNow s)) s) else None
   | Act t \<Rightarrow> (case map_of (lsCalls s) t of None \<Rightarrow> None | Some ph \<Rightarrow> act staleAfterMs waitLimitMs t ph s)
   | Touch t \<Rightarrow> if at_phase s t Holding then Some (if ownerOf s = Some t then goto t Touching s else s) else None
   | Leave t \<Rightarrow> if at_phase s t Holding then Some (goto t (Claiming ToRelease 0 (lsNow s)) s) else None
   | Crash t \<Rightarrow> if map_of (lsCalls s) t = None then None else Some (goto t Dead s)
   | Tick n \<Rightarrow> Some (s\<lparr>lsNow := lsNow s + int n\<rparr>))"

definition lock_step :: "int \<Rightarrow> int \<Rightarrow> LockState \<Rightarrow> LockEvent \<Rightarrow> LockState \<Rightarrow> bool" where
  "lock_step staleAfterMs waitLimitMs s ev s' \<longleftrightarrow> lock_event staleAfterMs waitLimitMs s ev = Some s'"

definition lock_start :: LockState where
  "lock_start = \<lparr>lsNow = 0, lsLock = None, lsClaim = None, lsCalls = []\<rparr>"

fun lock_run :: "int \<Rightarrow> int \<Rightarrow> LockState \<Rightarrow> LockEvent list \<Rightarrow> LockState option" where
  "lock_run staleAfterMs waitLimitMs s [] = Some s"
| "lock_run staleAfterMs waitLimitMs s (e # es) = (case lock_event staleAfterMs waitLimitMs s e of
     None \<Rightarrow> None | Some s1 \<Rightarrow> lock_run staleAfterMs waitLimitMs s1 es)"

lemma lock_run_iff: "lock_run a w s es = Some s' \<longleftrightarrow> runs (lock_step a w) s es s'"
  by (induction es arbitrary: s) (auto simp: lock_step_def split: option.splits)

text \<open>Inside the callback.\<close>

definition in_callback :: "LockState \<Rightarrow> nat \<Rightarrow> bool" where
  "in_callback s t \<longleftrightarrow> at_phase s t Holding \<or> at_phase s t Touching"

end
