(* ===== verification/UsageLockProps.thy ===== *)
theory UsageLockProps
  imports UsageLock
begin

text \<open>
  The lock is exclusive as long as its holders keep it fresh and no call removes, as stale, the claim of a call that is
  still at work under it. Claims of dead calls may be removed; but when two calls find the same dead claim stale, the
  second may remove the claim the first took in its place, which is enough to let two calls in.
\<close>

section \<open>The invariant\<close>

definition owns :: "LockPhase \<Rightarrow> bool" where
  "owns ph \<longleftrightarrow> ph \<in> {OwnerFile, Holding, Touching}"

definition has_claim :: "LockPhase \<Rightarrow> bool" where
  "has_claim ph \<longleftrightarrow> (case ph of SecondCheck st \<Rightarrow> True | Removing st \<Rightarrow> True | CheckingOwner \<Rightarrow> True | RemovingOwn \<Rightarrow> True
     | Dropping u st \<Rightarrow> True | Unlinking u st \<Rightarrow> True | _ \<Rightarrow> False)"

definition removes :: "LockPhase \<Rightarrow> bool" where
  "removes ph \<longleftrightarrow> (case ph of Removing st \<Rightarrow> True | RemovingOwn \<Rightarrow> True | _ \<Rightarrow> False)"

definition some_call :: "(LockPhase \<Rightarrow> bool) \<Rightarrow> LockState \<Rightarrow> nat \<Rightarrow> bool" where
  "some_call P s t \<longleftrightarrow> (\<exists>ph. at_phase s t ph \<and> P ph)"

definition lock_ok :: "LockState \<Rightarrow> bool" where
  "lock_ok s \<longleftrightarrow>
     (\<forall>t. some_call has_claim s t \<longrightarrow> map_option cfToken (lsClaim s) = Some t)
   \<and> (\<forall>t. some_call owns s t \<longrightarrow> lsLock s \<noteq> None \<and> (ownerOf s = None \<or> ownerOf s = Some t))
   \<and> (\<forall>t u. some_call owns s t \<longrightarrow> some_call owns s u \<longrightarrow> t = u)
   \<and> (\<forall>t u. some_call removes s t \<longrightarrow> lsLock s \<noteq> None \<and> \<not> some_call owns s u)"

lemma phase_sets [simp]:
  "owns OwnerFile" "owns Holding" "owns Touching" "\<not> owns (Trying a)" "\<not> owns (FirstCheck a)" "\<not> owns (Claiming u a b)"
  "\<not> owns (ClaimSeen u a b)" "\<not> owns (ClaimExpired u a b)" "\<not> owns (SecondCheck a)" "\<not> owns (Removing a)" "\<not> owns CheckingOwner"
  "\<not> owns RemovingOwn" "\<not> owns (Dropping u a)" "\<not> owns (Unlinking u a)" "\<not> owns (Backoff a)" "\<not> owns Returned" "\<not> owns Refused" "\<not> owns Dead"
  by (simp_all add: owns_def)

lemma claim_sets [simp]:
  "has_claim (SecondCheck a)" "has_claim (Removing a)" "has_claim CheckingOwner" "has_claim RemovingOwn" "has_claim (Dropping u a)"
  "has_claim (Unlinking u a)" "\<not> has_claim (Trying a)" "\<not> has_claim (FirstCheck a)" "\<not> has_claim (Claiming u a b)"
  "\<not> has_claim (ClaimSeen u a b)" "\<not> has_claim (ClaimExpired u a b)" "\<not> has_claim OwnerFile" "\<not> has_claim Holding"
  "\<not> has_claim Touching" "\<not> has_claim (Backoff a)" "\<not> has_claim Returned" "\<not> has_claim Refused" "\<not> has_claim Dead"
  "removes (Removing a)" "removes RemovingOwn" "\<not> removes (SecondCheck a)" "\<not> removes CheckingOwner" "\<not> removes (Dropping u a)"
  "\<not> removes (Unlinking u a)" "\<not> removes (Trying a)" "\<not> removes (FirstCheck a)" "\<not> removes (Claiming u a b)"
  "\<not> removes (ClaimSeen u a b)" "\<not> removes (ClaimExpired u a b)" "\<not> removes OwnerFile" "\<not> removes Holding"
  "\<not> removes Touching" "\<not> removes (Backoff a)" "\<not> removes Returned" "\<not> removes Refused" "\<not> removes Dead"
  by (simp_all add: has_claim_def removes_def)

lemma without_claim_sets [simp]: "\<not> owns (without_claim u a)" "\<not> has_claim (without_claim u a)" "\<not> removes (without_claim u a)"
  by (cases u; simp add: without_claim_def)+

lemma some_call_goto [simp]: "some_call P (goto t ph s) u \<longleftrightarrow> (if u = t then P ph else some_call P s u)"
  by (auto simp: some_call_def at_phase_def goto_def)

lemma some_call_frame [simp]:
  "some_call P (s\<lparr>lsLock := l\<rparr>) = some_call P s" "some_call P (s\<lparr>lsClaim := c\<rparr>) = some_call P s"
  "some_call P (s\<lparr>lsNow := n\<rparr>) = some_call P s" "some_call P (write_owner v s) = some_call P s"
  by (simp_all add: some_call_def at_phase_def fun_eq_iff write_owner_def)

lemma goto_frame [simp]: "lsLock (goto t ph s) = lsLock s" "lsClaim (goto t ph s) = lsClaim s" "ownerOf (goto t ph s) = ownerOf s"
  "lsNow (goto t ph s) = lsNow s"
  by (simp_all add: goto_def ownerOf_def)

lemma owner_frame [simp]: "ownerOf (s\<lparr>lsClaim := c\<rparr>) = ownerOf s" "ownerOf (s\<lparr>lsNow := n\<rparr>) = ownerOf s"
  "ownerOf (s\<lparr>lsLock := l\<rparr>) = (case l of None \<Rightarrow> None | Some d \<Rightarrow> ldOwner d)"
  by (simp_all add: ownerOf_def)

lemma write_owner_frame [simp]: "lsClaim (write_owner t s) = lsClaim s" "lsLock (write_owner t s) = None \<longleftrightarrow> lsLock s = None"
  "ownerOf (write_owner t s) = (if lsLock s = None then None else Some t)"
  by (auto simp: write_owner_def ownerOf_def split: option.splits)

text \<open>The lock of a call that owns it is not stale.\<close>

definition kept_fresh :: "int \<Rightarrow> LockState \<Rightarrow> bool" where
  "kept_fresh staleAfterMs s \<longleftrightarrow> \<not> (isStale staleAfterMs s \<and> list_ex (\<lambda>e. owns (snd e) \<and> map_of (lsCalls s) (fst e) = Some (snd e)) (lsCalls s))"

lemma kept_freshD: "kept_fresh a s \<Longrightarrow> isStale a s \<Longrightarrow> \<not> some_call owns s t"
  unfolding kept_fresh_def some_call_def at_phase_def list_ex_iff by (metis fst_conv map_of_SomeD snd_conv)

text \<open>The step that removes, as stale, the claim file of a call that is at work under it.\<close>

definition robs_claim :: "LockState \<Rightarrow> LockEvent \<Rightarrow> bool" where
  "robs_claim s ev = (case ev of
     Act t \<Rightarrow> (case (map_of (lsCalls s) t, lsClaim s) of
         (Some (ClaimExpired u st since), Some c) \<Rightarrow>
           (case map_of (lsCalls s) (cfToken c) of None \<Rightarrow> False | Some ph \<Rightarrow> has_claim ph)
       | _ \<Rightarrow> False)
   | _ \<Rightarrow> False)"

definition steady_step :: "int \<Rightarrow> int \<Rightarrow> LockState \<Rightarrow> LockEvent \<Rightarrow> LockState \<Rightarrow> bool" where
  "steady_step a w s ev s' \<longleftrightarrow> lock_step a w s ev s' \<and> kept_fresh a s \<and> \<not> robs_claim s ev"

lemma at_some: "map_of (lsCalls s) t = Some ph \<Longrightarrow> some_call P s t \<longleftrightarrow> P ph"
  by (simp add: some_call_def at_phase_def)

lemma lock_okD:
  assumes "lock_ok s"
  shows "some_call has_claim s t \<Longrightarrow> map_option cfToken (lsClaim s) = Some t"
    and "some_call owns s t \<Longrightarrow> lsLock s \<noteq> None" and "some_call owns s t \<Longrightarrow> ownerOf s = None \<or> ownerOf s = Some t"
    and "some_call owns s t \<Longrightarrow> some_call owns s u \<Longrightarrow> t = u"
    and "some_call removes s t \<Longrightarrow> lsLock s \<noteq> None" and "some_call removes s t \<Longrightarrow> \<not> some_call owns s u"
  using assms unfolding lock_ok_def by blast+

lemma lock_okI:
  assumes "\<And>t. some_call has_claim s t \<Longrightarrow> map_option cfToken (lsClaim s) = Some t"
    and "\<And>t. some_call owns s t \<Longrightarrow> lsLock s \<noteq> None \<and> (ownerOf s = None \<or> ownerOf s = Some t)"
    and "\<And>t u. some_call owns s t \<Longrightarrow> some_call owns s u \<Longrightarrow> t = u"
    and "\<And>t u. some_call removes s t \<Longrightarrow> lsLock s \<noteq> None \<and> \<not> some_call owns s u"
  shows "lock_ok s"
  using assms unfolding lock_ok_def by blast

text \<open>A step that changes neither the lock nor the claim.\<close>

lemma removes_phases: "removes ph \<Longrightarrow> has_claim ph \<and> \<not> owns ph"
  by (cases ph) simp_all

lemma removes_claims: "some_call removes s v \<Longrightarrow> some_call has_claim s v"
  using removes_phases by (auto simp: some_call_def)

lemma move_ok:
  assumes ok: "lock_ok s" and t: "map_of (lsCalls s) t = Some ph"
    and c: "has_claim ph' \<longrightarrow> has_claim ph" and o: "owns ph' \<longrightarrow> owns ph"
    and rm: "removes ph' \<longrightarrow> lsLock s \<noteq> None \<and> (\<forall>u. \<not> some_call owns s u)"
  shows "lock_ok (goto t ph' s)"
proof -
  have hc: "some_call has_claim (goto t ph' s) v \<longrightarrow> some_call has_claim s v"
    and ho: "some_call owns (goto t ph' s) v \<longrightarrow> some_call owns s v" for v
    using c o at_some [OF t] by (simp_all split: if_split)
  have hr: "lsLock s \<noteq> None \<and> \<not> some_call owns s u" if "some_call removes (goto t ph' s) v" for u v
    using that rm lock_okD(5,6) [OF ok, of v] by (cases "v = t") simp_all
  show ?thesis
  proof (rule lock_okI)
    fix v w
    show "map_option cfToken (lsClaim (goto t ph' s)) = Some v" if "some_call has_claim (goto t ph' s) v"
      using lock_okD(1) [OF ok hc [THEN mp, OF that]] by simp
    show "lsLock (goto t ph' s) \<noteq> None \<and> (ownerOf (goto t ph' s) = None \<or> ownerOf (goto t ph' s) = Some v)"
      if "some_call owns (goto t ph' s) v"
      using lock_okD(2,3) [OF ok ho [THEN mp, OF that]] by simp
    show "v = w" if "some_call owns (goto t ph' s) v" "some_call owns (goto t ph' s) w"
      using that ho lock_okD(4) [OF ok, of v w] by blast
    show "lsLock (goto t ph' s) \<noteq> None \<and> \<not> some_call owns (goto t ph' s) w" if "some_call removes (goto t ph' s) v"
      using hr [OF that, of w] ho [of w] by simp
  qed
qed

lemma idle_ok: "lock_ok s \<Longrightarrow> map_of (lsCalls s) t = Some ph \<Longrightarrow> \<not> has_claim ph' \<Longrightarrow> \<not> owns ph' \<Longrightarrow> \<not> removes ph'
    \<Longrightarrow> lock_ok (goto t ph' s)"
  by (rule move_ok) simp_all

lemma take_lock_ok:
  assumes ok: "lock_ok s" and free: "lsLock s = None"
  shows "lock_ok (goto t OwnerFile (s\<lparr>lsLock := Some \<lparr>ldMtime = n, ldOwner = None\<rparr>\<rparr>))"
proof -
  have none: "\<not> some_call owns s u" "\<not> some_call removes s u" for u using lock_okD [OF ok] free by blast+
  show ?thesis using lock_okD(1) [OF ok] by (intro lock_okI) (simp_all add: none split: if_split_asm)
qed

lemma take_claim_ok:
  assumes ok: "lock_ok s" and free: "lsClaim s = None" and ph: "\<not> owns ph" "\<not> removes ph"
  shows "lock_ok (goto t ph (s\<lparr>lsClaim := Some \<lparr>cfMtime = n, cfToken = t\<rparr>\<rparr>))"
proof -
  have none: "\<not> some_call has_claim s u" for u using lock_okD(1) [OF ok, of u] free by auto
  then have "\<not> some_call removes s u" for u using removes_claims by blast
  then show ?thesis using lock_okD(2-4) [OF ok] ph none
    by (intro lock_okI) (simp_all add: owner_frame split: if_split_asm)
qed

text \<open>Removing the lock: nobody owns it, and no other call is about to remove it.\<close>

lemma remove_lock_ok:
  assumes ok: "lock_ok s" and t: "map_of (lsCalls s) t = Some ph" "removes ph"
  shows "lock_ok (goto t (Dropping u a) (s\<lparr>lsLock := None\<rparr>))"
proof -
  have c: "map_option cfToken (lsClaim s) = Some t"
    using lock_okD(1) [OF ok, of t] at_some [OF t(1)] removes_phases [OF t(2)] by blast
  have own: "\<not> some_call owns s v" for v using lock_okD(6) [OF ok, of t v] at_some [OF t(1)] t(2) by blast
  have hc: "v = t" if "some_call has_claim s v" for v using lock_okD(1) [OF ok that] c by simp
  then have rm: "v = t" if "some_call removes s v" for v using removes_claims [OF that] by blast
  show ?thesis
  proof (rule lock_okI)
    fix v w
    show "map_option cfToken (lsClaim (goto t (Dropping u a) (s\<lparr>lsLock := None\<rparr>))) = Some v"
      if "some_call has_claim (goto t (Dropping u a) (s\<lparr>lsLock := None\<rparr>)) v"
      using that c hc [of v] by (simp split: if_split_asm)
  qed (use own rm in \<open>auto split: if_split_asm\<close>)
qed

lemma drop_claim_ok:
  assumes ok: "lock_ok s" and t: "map_of (lsCalls s) t = Some (Unlinking u a)"
  shows "lock_ok (goto t (without_claim u a) (s\<lparr>lsClaim := None\<rparr>))"
proof -
  have c: "map_option cfToken (lsClaim s) = Some t" using lock_okD(1) [OF ok, of t] at_some [OF t] by simp
  have only: "v = t" if "some_call has_claim s v" for v using lock_okD(1) [OF ok that] c by simp
  have rm: "\<not> some_call removes s v" if "v \<noteq> t" for v using only [OF removes_claims] that by blast
  show ?thesis
  proof (rule lock_okI)
    fix v w
    show "v = w" if "some_call owns (goto t (without_claim u a) (s\<lparr>lsClaim := None\<rparr>)) v"
      "some_call owns (goto t (without_claim u a) (s\<lparr>lsClaim := None\<rparr>)) w"
      using that lock_okD(4) [OF ok, of v w] by (simp split: if_split_asm)
  qed (use only rm lock_okD(2,3) [OF ok] in \<open>auto split: if_split_asm\<close>)
qed

lemma write_owner_ok:
  assumes ok: "lock_ok s" and t: "map_of (lsCalls s) t = Some OwnerFile"
  shows "lock_ok (goto t Holding (write_owner t s))"
proof -
  have o: "some_call owns s t" using at_some [OF t] by simp
  have only: "u = t" if "some_call owns s u" for u using lock_okD(4) [OF ok o that] by simp
  have none: "\<not> some_call removes s u" for u using lock_okD(6) [OF ok, of u t] o by blast
  have lock: "lsLock s \<noteq> None" using lock_okD(2) [OF ok o] .
  show ?thesis
  proof (rule lock_okI)
    fix v w
    show "v = w" if "some_call owns (goto t Holding (write_owner t s)) v" "some_call owns (goto t Holding (write_owner t s)) w"
      using that only by (simp split: if_split_asm)
  qed (use only none lock lock_okD(1) [OF ok] in \<open>auto split: if_split_asm\<close>)
qed

lemma touch_ok:
  assumes ok: "lock_ok s" and t: "map_of (lsCalls s) t = Some Touching"
  shows "lock_ok (goto t Holding (s\<lparr>lsLock := map_option (\<lambda>d. d\<lparr>ldMtime := n\<rparr>) (lsLock s)\<rparr>))"
proof -
  let ?l = "map_option (\<lambda>d. d\<lparr>ldMtime := n\<rparr>) (lsLock s)"
  have o: "some_call owns s t" using at_some [OF t] by simp
  have only: "u = t" if "some_call owns s u" for u using lock_okD(4) [OF ok o that] by simp
  have none: "\<not> some_call removes s u" for u using lock_okD(6) [OF ok, of u t] o by blast
  have lock: "lsLock s \<noteq> None" using lock_okD(2) [OF ok o] .
  have same: "ownerOf (s\<lparr>lsLock := ?l\<rparr>) = ownerOf s" by (simp add: ownerOf_def split: option.split)
  have own: "ownerOf s = None \<or> ownerOf s = Some t" using lock_okD(3) [OF ok o] .
  show ?thesis
  proof (rule lock_okI)
    fix v w
    show "v = w" if "some_call owns (goto t Holding (s\<lparr>lsLock := ?l\<rparr>)) v" "some_call owns (goto t Holding (s\<lparr>lsLock := ?l\<rparr>)) w"
      using that only by (simp split: if_split_asm)
    show "lsLock (goto t Holding (s\<lparr>lsLock := ?l\<rparr>)) \<noteq> None \<and>
        (ownerOf (goto t Holding (s\<lparr>lsLock := ?l\<rparr>)) = None \<or> ownerOf (goto t Holding (s\<lparr>lsLock := ?l\<rparr>)) = Some v)"
      if "some_call owns (goto t Holding (s\<lparr>lsLock := ?l\<rparr>)) v"
      unfolding goto_frame same using that only lock own by (auto split: if_split_asm)
  qed (use none lock_okD(1) [OF ok] in \<open>auto split: if_split_asm\<close>)
qed

lemma expire_ok:
  assumes ok: "lock_ok s" and free: "\<forall>c. lsClaim s = Some c \<longrightarrow> \<not> some_call has_claim s (cfToken c)"
  shows "lock_ok (goto t (Claiming u x y) (s\<lparr>lsClaim := None\<rparr>))"
proof -
  have "\<not> some_call has_claim s v" for v
    using lock_okD(1) [OF ok, of v] free by auto
  then show ?thesis using lock_okD [OF ok] by (intro lock_okI) (auto split: if_split_asm)
qed

lemma act_ok:
  assumes ok: "lock_ok s" and t: "map_of (lsCalls s) t = Some ph" and st: "act a w t ph s = Some s'"
    and fresh: "kept_fresh a s" and free: "\<forall>u x y c. ph = ClaimExpired u x y \<longrightarrow> lsClaim s = Some c \<longrightarrow> \<not> some_call has_claim s (cfToken c)"
  shows "lock_ok s'"
proof -
  note idle = idle_ok [OF ok t]
  have drop: "lock_ok (goto t (Dropping u x) s)" if "has_claim ph" for u x
    by (rule move_ok [OF ok t]) (simp_all add: that)
  show ?thesis
  proof (cases ph)
  case (Trying x)
  then show ?thesis using st take_lock_ok [OF ok] idle [of "FirstCheck x"] by (auto simp: act_def split: if_split_asm)
next
  case (FirstCheck x)
  then show ?thesis using st idle [of "Claiming ToReclaim x (lsNow s)"] idle [of "Backoff x"] by (simp add: act_def split: if_split_asm)
next
  case (Claiming u x y)
  show ?thesis
  proof (cases "lsClaim s")
    case None
    then show ?thesis using Claiming st take_claim_ok [OF ok None, of "SecondCheck x"] take_claim_ok [OF ok None, of CheckingOwner]
      by (cases u) (auto simp: act_def acquireClaim_def)
  next
    case (Some c)
    then show ?thesis using Claiming st idle [of "ClaimSeen u x y"] by (simp add: act_def acquireClaim_def)
  qed
next
  case (ClaimSeen u x y)
  then show ?thesis using st idle [of "Claiming u x y"] idle [of "ClaimExpired u x y"] idle [of "without_claim u x"]
    by (simp add: act_def claim_seen_def split: option.split_asm if_split_asm)
next
  case (ClaimExpired u x y)
  then show ?thesis using st expire_ok [OF ok, of t u x y] free by (simp add: act_def)
next
  case (SecondCheck x)
  have "lock_ok (goto t (Removing x) s)" if "isStale a s"
  proof (rule move_ok [OF ok t])
    have "lsLock s \<noteq> None" using that by (auto simp: isStale_def split: option.splits)
    then show "removes (Removing x) \<longrightarrow> lsLock s \<noteq> None \<and> (\<forall>u. \<not> some_call owns s u)"
      using kept_freshD [OF fresh that] by simp
  qed (simp_all add: SecondCheck)
  then show ?thesis using SecondCheck st drop [of ToReclaim x] by (simp add: act_def split: if_split_asm)
next
  case CheckingOwner
  have "lock_ok (goto t RemovingOwn s)" if o: "ownerOf s = Some t"
  proof (rule move_ok [OF ok t])
    have "\<not> some_call owns s u" for u
      using lock_okD(3) [OF ok, of u] o at_some [OF t, of owns] CheckingOwner by auto
    moreover have "lsLock s \<noteq> None" using o by (cases "lsLock s") (simp_all add: ownerOf_def)
    ultimately show "removes RemovingOwn \<longrightarrow> lsLock s \<noteq> None \<and> (\<forall>u. \<not> some_call owns s u)" by simp
  qed (simp_all add: CheckingOwner)
  then show ?thesis using CheckingOwner st drop [of ToRelease 0] by (simp add: act_def split: if_split_asm)
next
  case (Removing x)
  then show ?thesis using st remove_lock_ok [OF ok t, of ToReclaim x] by (simp add: act_def)
next
  case RemovingOwn
  then show ?thesis using st remove_lock_ok [OF ok t, of ToRelease 0] by (simp add: act_def)
next
  case (Unlinking u x)
  then show ?thesis using st drop_claim_ok [OF ok, of t u x] t by (simp add: act_def)
next
  case (Dropping u x)
  have "lock_ok (goto t (Unlinking u x) s)" by (rule move_ok [OF ok t]) (simp_all add: Dropping)
  then show ?thesis using Dropping st idle [of "without_claim u x"]
    by (simp add: act_def releaseClaim_def split: option.split_asm if_split_asm)
next
  case (Backoff x)
  then show ?thesis using st idle [of Refused] idle [of "Trying x"] by (simp add: act_def split: if_split_asm)
next
  case OwnerFile
  then show ?thesis using st write_owner_ok [OF ok, of t] t by (simp add: act_def)
next
  case Touching
  then show ?thesis using st touch_ok [OF ok, of t] t by (auto simp: act_def)
qed (use st in \<open>simp_all add: act_def\<close>)
qed

lemma lock_step_ok:
  assumes "steady_step a w s ev s'" and ok: "lock_ok s"
  shows "lock_ok s'"
proof -
  have st: "lock_event a w s ev = Some s'" and fresh: "kept_fresh a s" and free: "\<not> robs_claim s ev"
    using assms(1) by (simp_all add: steady_step_def lock_step_def)
  show ?thesis
  proof (cases ev)
    case (Call t)
    have none: "\<not> some_call P s t" if "map_of (lsCalls s) t = None" for P
      using that by (simp add: some_call_def at_phase_def)
    have "map_of (lsCalls s) t = None" and s': "s' = goto t (Trying (lsNow s)) s"
      using st Call by (simp_all add: lock_event_def split: if_split_asm)
    from none [OF this(1)] show ?thesis
      using lock_okD [OF ok] unfolding s' by (intro lock_okI) (auto split: if_split_asm)
  next
    case (Act t)
    then obtain ph where t: "map_of (lsCalls s) t = Some ph" and "act a w t ph s = Some s'"
      using st by (auto simp: lock_event_def split: option.splits)
    moreover have "\<forall>u x y c. ph = ClaimExpired u x y \<longrightarrow> lsClaim s = Some c \<longrightarrow> \<not> some_call has_claim s (cfToken c)"
      using free t Act by (auto simp: robs_claim_def some_call_def at_phase_def)
    ultimately show ?thesis using act_ok [OF ok _ _ fresh] by blast
  next
    case (Touch t)
    then have t: "map_of (lsCalls s) t = Some Holding" and s': "s' = (if ownerOf s = Some t then goto t Touching s else s)"
      using st by (simp_all add: lock_event_def at_phase_def split: if_split_asm)
    have "lock_ok (goto t Touching s)" by (rule move_ok [OF ok t]) simp_all
    with ok s' show ?thesis by simp
  next
    case (Leave t)
    then have "map_of (lsCalls s) t = Some Holding" "s' = goto t (Claiming ToRelease 0 (lsNow s)) s"
      using st by (simp_all add: lock_event_def at_phase_def split: if_split_asm)
    then show ?thesis using idle_ok [OF ok] by simp
  next
    case (Crash t)
    then obtain ph where "map_of (lsCalls s) t = Some ph" "s' = goto t Dead s"
      using st by (auto simp: lock_event_def split: if_split_asm)
    then show ?thesis using idle_ok [OF ok] by simp
  next
    case (Tick n)
    then have s': "s' = s\<lparr>lsNow := lsNow s + int n\<rparr>" using st by (simp add: lock_event_def)
    show ?thesis using ok unfolding s' lock_ok_def by simp
  qed
qed

interpretation usage: step_invariant "steady_step a w" lock_ok
  by unfold_locales (rule lock_step_ok)

lemma lock_start_ok: "lock_ok lock_start"
  by (simp add: lock_ok_def some_call_def at_phase_def lock_start_def)

section \<open>Properties\<close>

text \<open>C16. 
  In every run in which the lock of a call that holds it never grows stale and no call removes, as stale, the claim
  of a call still at work under it, at most one call is inside its callback; the lock directory exists and carries no
  other owner. Calls may die anywhere, and the claims of dead calls may be removed.
\<close>

theorem usage_lock_exclusive:
  assumes "runs (steady_step a w) lock_start es s" and "in_callback s t" and "in_callback s u"
  shows "t = u \<and> lsLock s \<noteq> None \<and> (ownerOf s = None \<or> ownerOf s = Some t)"
proof -
  have ok: "lock_ok s" using usage.along [OF assms(1) lock_start_ok] .
  have o: "some_call owns s t" "some_call owns s u"
    using assms(2,3) by (auto simp: in_callback_def some_call_def intro: phase_sets)
  show ?thesis using lock_okD(2,3) [OF ok o(1)] lock_okD(4) [OF ok o] by blast
qed

text \<open>Call 0 dies inside, call 1 dies with the claim; call 2 removes the dead claim, moves the stale lock aside and
  enters; call 3 waits.\<close>

definition one_reclaimer :: "LockEvent list" where
  "one_reclaimer = [Call 0, Act 0, Act 0, Crash 0, Tick 30001, Call 1, Act 1, Act 1, Act 1, Crash 1, Tick 10001,
     Call 2, Act 2, Act 2, Act 2, Act 2, Act 2, Act 2, Act 2, Act 2, Act 2, Act 2, Act 2, Act 2, Act 2, Call 3, Act 3, Act 3]"

fun fresh_run :: "int \<Rightarrow> int \<Rightarrow> LockState \<Rightarrow> LockEvent list \<Rightarrow> LockState option" where
  "fresh_run a w s [] = Some s"
| "fresh_run a w s (e # es) = (if kept_fresh a s then (case lock_event a w s e of
     None \<Rightarrow> None | Some s1 \<Rightarrow> fresh_run a w s1 es) else None)"

definition fresh_step :: "int \<Rightarrow> int \<Rightarrow> LockState \<Rightarrow> LockEvent \<Rightarrow> LockState \<Rightarrow> bool" where
  "fresh_step a w s ev s' \<longleftrightarrow> lock_step a w s ev s' \<and> kept_fresh a s"

lemma fresh_run_iff: "fresh_run a w s es = Some s' \<longleftrightarrow> runs (fresh_step a w) s es s'"
  by (induction es arbitrary: s) (auto simp: fresh_step_def lock_step_def split: option.splits)

fun steady_run :: "int \<Rightarrow> int \<Rightarrow> LockState \<Rightarrow> LockEvent list \<Rightarrow> LockState option" where
  "steady_run a w s [] = Some s"
| "steady_run a w s (e # es) = (if kept_fresh a s \<and> \<not> robs_claim s e then (case lock_event a w s e of
     None \<Rightarrow> None | Some s1 \<Rightarrow> steady_run a w s1 es) else None)"

lemma steady_run_iff: "steady_run a w s es = Some s' \<longleftrightarrow> runs (steady_step a w) s es s'"
  by (induction es arbitrary: s) (auto simp: steady_step_def lock_step_def split: option.splits)

lemma reclaimed_run:
  "map_option (\<lambda>s. map_of (lsCalls s) 2) (steady_run 30000 20000 lock_start one_reclaimer) = Some (Some Holding)"
  by code_simp

theorem usage_lock_exclusive_witness:
  "\<exists>s. runs (steady_step 30000 20000) lock_start one_reclaimer s \<and> in_callback s 2 \<and> lsLock s \<noteq> None \<and> \<not> in_callback s 3"
proof -
  obtain s where r: "runs (steady_step 30000 20000) lock_start one_reclaimer s" and "map_of (lsCalls s) 2 = Some Holding"
    using reclaimed_run unfolding steady_run_iff [symmetric] by auto
  then have i: "in_callback s 2" by (simp add: in_callback_def at_phase_def)
  show ?thesis using usage_lock_exclusive [OF r i, of 3] usage_lock_exclusive [OF r i i] i r by auto
qed

text \<open>Call 0 dies inside, call 1 dies with the claim; calls 2 and 3 both find the claim stale, call 2 removes it and takes
  its own, call 3 removes that one; both verify the lock of call 0 as stale, call 2 moves it aside, call 4 enters, call 3
  moves the lock of call 4 aside, call 5 enters.\<close>

definition two_reclaimers :: "LockEvent list" where
  "two_reclaimers =
     [Call 0, Act 0, Act 0, Crash 0, Tick 30001, Call 1, Act 1, Act 1, Act 1, Crash 1, Tick 10001,
      Call 2, Act 2, Act 2, Act 2, Act 2, Call 3, Act 3, Act 3, Act 3, Act 3,
      Act 2, Act 2, Act 2, Act 3, Act 3, Act 3, Act 2, Call 4, Act 4, Act 4, Act 3, Call 5, Act 5, Act 5]"

text \<open>Without the condition on claims the lock is not exclusive: under the claim a lock that is live is never moved, the
  invariant of the file says; but a stale claim is removed by its path, which need no longer be the claim found stale.\<close>

lemma dead_claim_lets_two_in:
  "\<exists>s. runs (fresh_step 30000 20000) lock_start two_reclaimers s \<and> in_callback s 4 \<and> in_callback s 5"
proof -
  have "map_option (\<lambda>s. (map_of (lsCalls s) 4, map_of (lsCalls s) 5)) (fresh_run 30000 20000 lock_start two_reclaimers)
      = Some (Some Holding, Some Holding)" by code_simp
  then obtain s where "fresh_run 30000 20000 lock_start two_reclaimers = Some s"
    "map_of (lsCalls s) 4 = Some Holding" "map_of (lsCalls s) 5 = Some Holding" by auto
  then show ?thesis unfolding fresh_run_iff by (auto simp: in_callback_def at_phase_def)
qed

end
