(* ===== verification/Playbook.thy ===== *)
theory Playbook
  imports JsValues
begin

text \<open>
  The failure playbook of the orchestrator, \<open>pipeline-cli/src/orchestrator/playbook/\<close>: the catalogue and its
  parser, the patterns the detectors look for, the state tracker of a worker, the nine handlers, and the runner that
  drives the first handler that claims a failure. Commands, the redispatch and the clock act on a world that is a
  parameter; a command may throw. The tracker's file, which is for forensics only, and the
  environment of a command are left out; times are milliseconds and numbers exact.
\<close>

section \<open>Modes and states\<close>

datatype FailureMode = SecretScanBlocked | PushRaceWithMergeQueue | RebaseConflict | VerificationFailure
  | ReviewerMajorOrCritical | EnvHookFailure | AttestationVerifyMismatch | LongRunningPRBlocksWorker
  | StackedPRBaseSquashed | UnknownFailureMode

datatype WorkerState = DEV_RUNNING | REVIEW_RUNNING | FINALIZING | ITERATE_DEV | REMEDIATE_SECRETSCAN
  | REMEDIATE_PUSH_RACE | REMEDIATE_REBASE | REMEDIATE_VERIFICATION | REMEDIATE_REVIEW | REMEDIATE_ENV_HOOK
  | REMEDIATE_ATTESTATION | REMEDIATE_STACKED_PR | SLEEP_RETRY | PARKED | NEEDS_HUMAN_ATTENTION | DONE | DONE_WITH_FLAG

fun MODE_TO_REMEDIATE_STATE :: "FailureMode \<Rightarrow> WorkerState" where
  "MODE_TO_REMEDIATE_STATE SecretScanBlocked = REMEDIATE_SECRETSCAN"
| "MODE_TO_REMEDIATE_STATE PushRaceWithMergeQueue = REMEDIATE_PUSH_RACE"
| "MODE_TO_REMEDIATE_STATE RebaseConflict = REMEDIATE_REBASE"
| "MODE_TO_REMEDIATE_STATE VerificationFailure = REMEDIATE_VERIFICATION"
| "MODE_TO_REMEDIATE_STATE ReviewerMajorOrCritical = REMEDIATE_REVIEW"
| "MODE_TO_REMEDIATE_STATE EnvHookFailure = REMEDIATE_ENV_HOOK"
| "MODE_TO_REMEDIATE_STATE AttestationVerifyMismatch = REMEDIATE_ATTESTATION"
| "MODE_TO_REMEDIATE_STATE LongRunningPRBlocksWorker = PARKED"
| "MODE_TO_REMEDIATE_STATE StackedPRBaseSquashed = REMEDIATE_STACKED_PR"
| "MODE_TO_REMEDIATE_STATE UnknownFailureMode = NEEDS_HUMAN_ATTENTION"

definition CATALOGUED_MODES :: "FailureMode list" where
  "CATALOGUED_MODES = [SecretScanBlocked, PushRaceWithMergeQueue, StackedPRBaseSquashed, RebaseConflict,
     VerificationFailure, ReviewerMajorOrCritical, EnvHookFailure, AttestationVerifyMismatch, LongRunningPRBlocksWorker]"

fun mode_name :: "FailureMode \<Rightarrow> string" where
  "mode_name SecretScanBlocked = ''SecretScanBlocked''"
| "mode_name PushRaceWithMergeQueue = ''PushRaceWithMergeQueue''"
| "mode_name RebaseConflict = ''RebaseConflict''"
| "mode_name VerificationFailure = ''VerificationFailure''"
| "mode_name ReviewerMajorOrCritical = ''ReviewerMajorOrCritical''"
| "mode_name EnvHookFailure = ''EnvHookFailure''"
| "mode_name AttestationVerifyMismatch = ''AttestationVerifyMismatch''"
| "mode_name LongRunningPRBlocksWorker = ''LongRunningPRBlocksWorker''"
| "mode_name StackedPRBaseSquashed = ''StackedPRBaseSquashed''"
| "mode_name UnknownFailureMode = ''UnknownFailureMode''"

section \<open>The catalogue\<close>

record CataloguePatternEntry =
  ceMode :: FailureMode
  ceBudget :: nat
  ceDescription :: string
  ceEscalateImmediately :: bool

definition builtin_entry :: "FailureMode \<Rightarrow> nat \<Rightarrow> string \<Rightarrow> CataloguePatternEntry" where
  "builtin_entry m b why = \<lparr>ceMode = m, ceBudget = b, ceDescription = why, ceEscalateImmediately = False\<rparr>"

definition DEFAULT_CATALOGUE :: "CataloguePatternEntry list" where
  "DEFAULT_CATALOGUE =
    [builtin_entry SecretScanBlocked 2 ''git push rejected with `push declined due to repository rule violations` + `Secret Scanning` mention. Reformat literal-secret patterns to template-literal construction; recommit; retry push.'',
     builtin_entry PushRaceWithMergeQueue 3 ''git push rejected with `protected branch hook declined` + `queued for merging`. Sleep 60s and retry push.'',
     builtin_entry RebaseConflict 1 ''git rebase origin/main exits non-zero with conflict markers. Invoke /ai-sdlc rebase (AISDLC-105) to attempt mechanical resolution.'',
     builtin_entry VerificationFailure 2 ''pnpm build/test/lint/format exits non-zero in dev verify stage. Re-spawn dev with combined verification stderr feedback.'',
     builtin_entry ReviewerMajorOrCritical 2 ''Aggregated reviewer verdict has any critical or major finding. Re-spawn dev with combined reviewer feedback.'',
     builtin_entry EnvHookFailure 1 ''husky pre-commit fails with tsc/command-not-found. Retry with --no-verify ONLY if change is data-only (backlog/, docs/, spec/, root *.md).'',
     builtin_entry AttestationVerifyMismatch 1 ''CI reports contentHashV3 mismatch after a sibling PR merged. Re-sign attestation per AISDLC-102; re-spawn 3 reviewers if contentHashV3 changed.'',
     builtin_entry LongRunningPRBlocksWorker 1 ''Worker's PR open + queued for >2h without merge OR rejection. Park worker; release worktree; emit WorkerParked.'',
     builtin_entry StackedPRBaseSquashed 1 ''Previously-opened PR's mergeStateStatus flips to DIRTY AND base PR was merged via squash/rebase strategy. git fetch origin main && git rebase --reapply-cherry-picks; force-push.'']"

definition effectiveBudgets :: "CataloguePatternEntry list \<Rightarrow> (FailureMode, nat) jsmap" where
  "effectiveBudgets catalogue =
     fold (\<lambda>p m. map_set (ceMode p) (ceBudget p) m) catalogue
       (map_set UnknownFailureMode 0
         (map (\<lambda>m. (m, case find (\<lambda>p. ceMode p = m) DEFAULT_CATALOGUE of None \<Rightarrow> 1 | Some p \<Rightarrow> ceBudget p)) CATALOGUED_MODES))"

datatype CatalogueParseError = MissingMode | MissingBudget FailureMode | UnexpectedTopLevel string | OutsideEntry string
  | BadVersion "string option" | UnknownMode string | BadBudget "FailureMode option" string | UnknownField string
  | DuplicateMode FailureMode

text \<open>The entry being read: mode, budget, description, escalation, as far as they have been seen.\<close>

record PartialEntry =
  peMode :: "FailureMode option"
  peBudget :: "nat option"
  peDescription :: "string option"
  peEscalate :: "bool option"

definition no_fields :: PartialEntry where
  "no_fields = \<lparr>peMode = None, peBudget = None, peDescription = None, peEscalate = None\<rparr>"

definition stripQuotes :: "string \<Rightarrow> string" where
  "stripQuotes raw = (if length raw \<ge> 2 \<and> (quoted_by (CHR 0x27) raw \<or> quoted_by (CHR 0x22) raw) then inner raw else raw)"

text \<open>\<open>parseInt(_, 10)\<close>: the digits at the start, after blanks and a sign; \<open>None\<close> is NaN.\<close>

definition parse_int :: "string \<Rightarrow> int option" where
  "parse_int text = (let s = dropWhile is_space text;
       signed = s \<noteq> [] \<and> (hd s = CHR ''-'' \<or> hd s = CHR ''+''); ds = takeWhile is_digit (if signed then tl s else s) in
     if ds = [] then None
     else Some (if s \<noteq> [] \<and> hd s = CHR ''-'' then - int (digits_nat ds) else int (digits_nat ds)))"

definition mode_of_name :: "string \<Rightarrow> FailureMode option" where
  "mode_of_name s = find (\<lambda>m. mode_name m = s) CATALOGUED_MODES"

definition applyPatternField :: "PartialEntry \<Rightarrow> string \<Rightarrow> CatalogueParseError + PartialEntry" where
  "applyPatternField target text = (case index_of '':'' text of
     None \<Rightarrow> Inr target
   | Some colon \<Rightarrow>
       (let key = trim (take colon text); value = stripQuotes (trim (drop (colon + 1) text)) in
        if key = ''mode'' then (case mode_of_name value of None \<Rightarrow> Inl (UnknownMode value) | Some m \<Rightarrow> Inr (target\<lparr>peMode := Some m\<rparr>))
        else if key = ''budget'' then (case parse_int value of
            None \<Rightarrow> Inl (BadBudget (peMode target) value)
          | Some n \<Rightarrow> if n < 0 then Inl (BadBudget (peMode target) value) else Inr (target\<lparr>peBudget := Some (nat n)\<rparr>))
        else if key = ''escalateImmediately'' then Inr (target\<lparr>peEscalate := Some (value = ''true'')\<rparr>)
        else if key = ''description'' then Inr (target\<lparr>peDescription := Some value\<rparr>)
        else Inl (UnknownField key)))"

record CatalogueParser =
  cpVersion :: "string option"
  cpInPatterns :: bool
  cpPatterns :: "CataloguePatternEntry list"
  cpCurrent :: "PartialEntry option"

definition flush_entry :: "CatalogueParser \<Rightarrow> CatalogueParseError + CatalogueParser" where
  "flush_entry p = (case cpCurrent p of
     None \<Rightarrow> Inr p
   | Some c \<Rightarrow> (case peMode c of
       None \<Rightarrow> Inl MissingMode
     | Some m \<Rightarrow> (case peBudget c of
         None \<Rightarrow> Inl (MissingBudget m)
       | Some b \<Rightarrow> Inr (p\<lparr>cpPatterns := cpPatterns p @ [\<lparr>ceMode = m, ceBudget = b, ceDescription = or_else (peDescription c) [],
             ceEscalateImmediately = or_else (peEscalate c) False\<rparr>], cpCurrent := None\<rparr>))))"

text \<open>The value of a \<open>version:\<close> line, as its pattern matches it.\<close>

definition version_value :: "string \<Rightarrow> string option" where
  "version_value line = (let after = drop 8 line; r = dropWhile is_space after in
     if starts_with line ''version:'' \<and> after \<noteq> [] \<and> CHR 0x0D \<notin> set (if r = [] then [last after] else r)
     then Some (stripQuotes (trim after)) else None)"

definition drop_cr :: "string \<Rightarrow> string" where
  "drop_cr line = (if line \<noteq> [] \<and> last line = CHR 0x0D then butlast line else line)"

definition parse_line :: "string \<Rightarrow> CatalogueParser \<Rightarrow> CatalogueParseError + CatalogueParser" where
  "parse_line rawLine p = (let line = drop_cr rawLine; item = dropWhile is_space line in
     if trim line = [] \<or> starts_with (trim line) ''#'' then Inr p
     else if \<not> cpInPatterns p then
       (case version_value line of
          Some v \<Rightarrow> Inr (p\<lparr>cpVersion := Some v\<rparr>)
        | None \<Rightarrow> if starts_with line ''patterns:'' \<and> list_all is_space (drop 9 line) then Inr (p\<lparr>cpInPatterns := True\<rparr>)
            else Inl (UnexpectedTopLevel line))
     else if starts_with item ''-'' \<and> tl item \<noteq> [] \<and> is_space (hd (tl item)) then
       (case flush_entry p of
          Inl e \<Rightarrow> Inl e
        | Inr p1 \<Rightarrow> (case applyPatternField no_fields (dropWhile is_space (tl item)) of
            Inl e \<Rightarrow> Inl e | Inr c \<Rightarrow> Inr (p1\<lparr>cpCurrent := Some c\<rparr>)))
     else (case cpCurrent p of
         None \<Rightarrow> Inl (OutsideEntry line)
       | Some c \<Rightarrow> (case applyPatternField c (trim line) of Inl e \<Rightarrow> Inl e | Inr c1 \<Rightarrow> Inr (p\<lparr>cpCurrent := Some c1\<rparr>))))"

fun parse_lines :: "string list \<Rightarrow> CatalogueParser \<Rightarrow> CatalogueParseError + CatalogueParser" where
  "parse_lines [] p = Inr p"
| "parse_lines (l # ls) p = (case parse_line l p of Inl e \<Rightarrow> Inl e | Inr p1 \<Rightarrow> parse_lines ls p1)"

fun validatePatterns :: "FailureMode list \<Rightarrow> CataloguePatternEntry list \<Rightarrow> CatalogueParseError option" where
  "validatePatterns seen [] = None"
| "validatePatterns seen (p # ps) = (if ceMode p \<in> set seen then Some (DuplicateMode (ceMode p)) else validatePatterns (ceMode p # seen) ps)"

definition start_parser :: CatalogueParser where
  "start_parser = \<lparr>cpVersion = None, cpInPatterns = False, cpPatterns = [], cpCurrent = None\<rparr>"

definition parseCatalogueYaml :: "string \<Rightarrow> CatalogueParseError + CataloguePatternEntry list" where
  "parseCatalogueYaml yaml = (case parse_lines (split_on [CHR 0x0A] yaml) start_parser of
     Inl e \<Rightarrow> Inl e
   | Inr p \<Rightarrow> (case flush_entry p of
       Inl e \<Rightarrow> Inl e
     | Inr p1 \<Rightarrow> if cpVersion p1 \<noteq> Some ''v1'' then Inl (BadVersion (cpVersion p1))
         else (case validatePatterns [] (cpPatterns p1) of Some e \<Rightarrow> Inl e | None \<Rightarrow> Inr (cpPatterns p1))))"

text \<open>With the text of the file, if it exists.\<close>

definition loadFailurePatternCatalogue :: "string option \<Rightarrow> CatalogueParseError + CataloguePatternEntry list" where
  "loadFailurePatternCatalogue file = (case file of None \<Rightarrow> Inr DEFAULT_CATALOGUE | Some text \<Rightarrow> parseCatalogueYaml text)"

section \<open>Patterns\<close>

text \<open>The regular expressions of the detectors: each is a choice of sequences of these pieces, tried at every position.\<close>

datatype Piece =
    Text string                     \<comment> \<open>a literal, upper and lower case alike\<close>
  | Exactly string                  \<comment> \<open>a literal\<close>
  | AnyText                         \<comment> \<open>\<open>.*\<close>\<close>
  | Some1 "char \<Rightarrow> bool"            \<comment> \<open>one or more of a class\<close>
  | Maybe string                    \<comment> \<open>an optional literal, upper and lower case alike\<close>
  | OneOf "char \<Rightarrow> bool"            \<comment> \<open>one of a class\<close>

fun after_any :: "(string \<Rightarrow> bool) \<Rightarrow> (char \<Rightarrow> bool) \<Rightarrow> string \<Rightarrow> bool" where
  "after_any k P [] = k []"
| "after_any k P (c # s) = (k (c # s) \<or> P c \<and> after_any k P s)"

fun matches_here :: "Piece list \<Rightarrow> string \<Rightarrow> bool" where
  "matches_here [] s = True"
| "matches_here (Text t # ps) s = (toLowerCase (take (length t) s) = toLowerCase t \<and> length t \<le> length s \<and> matches_here ps (drop (length t) s))"
| "matches_here (Exactly t # ps) s = (take (length t) s = t \<and> matches_here ps (drop (length t) s))"
| "matches_here (AnyText # ps) s = after_any (matches_here ps) (\<lambda>c. c \<noteq> CHR 0x0A \<and> c \<noteq> CHR 0x0D) s"
| "matches_here (Some1 P # ps) s = (s \<noteq> [] \<and> P (hd s) \<and> after_any (matches_here ps) P (tl s))"
| "matches_here (Maybe t # ps) s = (toLowerCase (take (length t) s) = toLowerCase t \<and> length t \<le> length s \<and> matches_here ps (drop (length t) s)
     \<or> matches_here ps s)"
| "matches_here (OneOf P # ps) s = (s \<noteq> [] \<and> P (hd s) \<and> matches_here ps (tl s))"

fun matches_in :: "Piece list \<Rightarrow> string \<Rightarrow> bool" where
  "matches_in ps [] = matches_here ps []"
| "matches_in ps (c # s) = (matches_here ps (c # s) \<or> matches_in ps s)"

definition pattern_test :: "Piece list list \<Rightarrow> string \<Rightarrow> bool" where
  "pattern_test choices s = list_ex (\<lambda>ps. matches_in ps s) choices"

end
