(* ===== verification/PlaybookRunner.thy ===== *)
theory PlaybookRunner
  imports Playbook
begin

text \<open>
  The handlers of the playbook, the state tracker of a worker and the runner, over a world of type \<open>'w\<close>. Notes are
  spelled as in the code, except for its two non-ASCII characters.
\<close>

section \<open>Context and effects\<close>

record ReviewerFindings =
  rfCritical :: nat
  rfMajor :: nat
  rfMinor :: nat
  rfSuggestion :: nat

record FailureSignal =
  fsStderr :: string
  fsExitCode :: "int option"
  fsSource :: "string option"
  fsReviewerFindings :: "ReviewerFindings option"
  fsPrAgeMs :: "int option"
  fsChangedPaths :: "string list option"
  fsBasePrMergedAt :: "string option"
  fsMergeStateStatus :: "string option"

record WorkerContext =
  wcWorkerId :: string
  wcTaskId :: string
  wcBranch :: string
  wcWorktreePath :: string
  wcState :: WorkerState
  wcPrUrl :: "string option"
  wcFailure :: FailureSignal
  wcAttempts :: nat
  wcDispatchedAt :: int

record PipelineResult =
  prOutcome :: string

record CommandResult =
  crCode :: int
  crStderr :: string

text \<open>An effect ends with the message of a thrown error, or a value.\<close>

type_synonym ('w, 'a) effect = "'w \<Rightarrow> (string + 'a) \<times> 'w"

text \<open>The branch to rebase on is read from the configuration of the repository, a parameter.\<close>

record 'w HandlerDeps =
  hdRunner :: "string list \<Rightarrow> string \<Rightarrow> ('w, CommandResult) effect"
  hdSleep :: "nat \<Rightarrow> 'w \<Rightarrow> 'w"
  hdRedispatch :: "(string \<Rightarrow> ('w, PipelineResult) effect) option"
  hdTargetBranch :: "string \<Rightarrow> string"

datatype RemediationStatus = Recovered | Retry | BudgetExhausted | Inapplicable

record RemediationOutcome =
  roStatus :: RemediationStatus
  roNextState :: "WorkerState option"
  roNote :: "string option"
  roResult :: "PipelineResult option"

record 'w PlaybookHandler =
  hMode :: FailureMode
  hBudget :: nat
  hDetect :: "WorkerContext \<Rightarrow> bool"
  hRemediate :: "WorkerContext \<Rightarrow> 'w HandlerDeps \<Rightarrow> ('w, RemediationOutcome) effect"
  hCustomEscalation :: bool  \<comment> \<open>its own escalation, which only logs\<close>

definition outcome :: "RemediationStatus \<Rightarrow> WorkerState option \<Rightarrow> string \<Rightarrow> RemediationOutcome" where
  "outcome st next note = \<lparr>roStatus = st, roNextState = next, roNote = Some note, roResult = None\<rparr>"

definition give :: "'a \<Rightarrow> ('w, 'a) effect" where
  "give x w = (Inr x, w)"

text \<open>A command, and what follows with its result; a thrown error ends the handler.\<close>

definition run_then :: "'w HandlerDeps \<Rightarrow> WorkerContext \<Rightarrow> string list \<Rightarrow> (CommandResult \<Rightarrow> ('w, 'a) effect) \<Rightarrow> ('w, 'a) effect" where
  "run_then deps ctx command next w =
     (case hdRunner deps command (wcWorktreePath ctx) w of (Inl err, w1) \<Rightarrow> (Inl err, w1) | (Inr r, w1) \<Rightarrow> next r w1)"

definition push_command :: "WorkerContext \<Rightarrow> string list" where
  "push_command ctx = [''git'', ''push'', ''--force-with-lease'', ''origin'', wcBranch ctx]"

section \<open>Detection\<close>

definition patterns_found :: "Piece list list \<Rightarrow> WorkerContext \<Rightarrow> bool" where
  "patterns_found choices ctx \<longleftrightarrow> fsStderr (wcFailure ctx) \<noteq> [] \<and> pattern_test choices (fsStderr (wcFailure ctx))"

definition detect_secret_scan :: "WorkerContext \<Rightarrow> bool" where
  "detect_secret_scan ctx \<longleftrightarrow> patterns_found [[Text ''push declined due to repository rule violations'']] ctx
     \<and> patterns_found [[Text ''Secret Scanning''], [Text ''secret_scanning_push_protection'']] ctx"

definition detect_push_race :: "WorkerContext \<Rightarrow> bool" where
  "detect_push_race ctx \<longleftrightarrow> patterns_found [[Text ''protected branch hook declined'']] ctx
     \<and> patterns_found [[Text ''queued for merging''], [Text ''merge queue''], [Text ''merge_queue'']] ctx"

definition detect_rebase_conflict :: "WorkerContext \<Rightarrow> bool" where
  "detect_rebase_conflict ctx \<longleftrightarrow>
     patterns_found [[Text ''could not apply''], [Text ''CONFLICT''], [Text ''Failed to merge in the changes''],
       [Exactly ''<<<<<<<'', Some1 is_space, Exactly ''HEAD'']] ctx"

text \<open>The cross mark the code looks for as well is no 8-bit character.\<close>

definition detect_verification :: "WorkerContext \<Rightarrow> bool" where
  "detect_verification ctx \<longleftrightarrow> fsExitCode (wcFailure ctx) \<notin> {Some 0, None}
     \<and> patterns_found [[Text ''pnpm'', Some1 is_space, Text ''build''], [Text ''pnpm'', Some1 is_space, Text ''test''],
         [Text ''pnpm'', Some1 is_space, Text ''lint''], [Text ''pnpm'', Some1 is_space, Text ''format''],
         [Text ''vitest''], [Text ''tsc''], [Text ''eslint''], [Text ''prettier'']] ctx
     \<and> patterns_found [[Text ''failed''], [Text ''exit '', Maybe ''code '', OneOf (\<lambda>c. is_digit c \<and> c \<noteq> CHR ''0'')], [Text ''FAIL'']] ctx"

definition detect_reviewer :: "WorkerContext \<Rightarrow> bool" where
  "detect_reviewer ctx = (case fsReviewerFindings (wcFailure ctx) of None \<Rightarrow> False | Some f \<Rightarrow> rfCritical f > 0 \<or> rfMajor f > 0)"

definition detect_env_hook :: "WorkerContext \<Rightarrow> bool" where
  "detect_env_hook ctx = patterns_found
     [[Text ''tsc'', Some1 (\<lambda>c. c = CHR '':'' \<or> is_space c), Text ''not found''], [Text ''command not found''],
      [Text ''husky'', AnyText, Text ''not found''], [Text ''node:'', AnyText, Text ''Cannot find module''],
      [Text ''ENOENT'', AnyText, Text ''executable'']] ctx"

definition detect_attestation :: "WorkerContext \<Rightarrow> bool" where
  "detect_attestation ctx = patterns_found
     [[Text ''contentHashV3'', Some1 is_space, Text ''mismatch''], [Text ''attestation'', AnyText, Text ''mismatch''],
      [Text ''attestation'', AnyText, Text ''verify'', AnyText, Text ''failed'']] ctx"

definition LONG_RUNNING_PR_THRESHOLD_MS :: int where
  "LONG_RUNNING_PR_THRESHOLD_MS = 2 * 60 * 60 * 1000"

definition detect_long_running :: "WorkerContext \<Rightarrow> bool" where
  "detect_long_running ctx = (case fsPrAgeMs (wcFailure ctx) of
     None \<Rightarrow> False | Some age \<Rightarrow> age \<ge> LONG_RUNNING_PR_THRESHOLD_MS \<and> truthy (wcPrUrl ctx))"

definition detect_stacked_pr :: "WorkerContext \<Rightarrow> bool" where
  "detect_stacked_pr ctx \<longleftrightarrow> truthy (wcPrUrl ctx)
     \<and> toLowerCase (or_else (fsMergeStateStatus (wcFailure ctx)) []) = ''dirty'' \<and> truthy (fsBasePrMergedAt (wcFailure ctx))"

section \<open>Remediation\<close>

text \<open>What an approved pipeline gives, and the redispatch of the task: without a hook nothing can be done.\<close>

definition approved_run :: "PipelineResult \<Rightarrow> string \<Rightarrow> RemediationOutcome" where
  "approved_run r why = (outcome Recovered (Some DONE) why)\<lparr>roResult := Some r\<rparr>"

definition redispatching :: "string \<Rightarrow> (string + PipelineResult \<Rightarrow> RemediationOutcome) \<Rightarrow> WorkerContext \<Rightarrow> 'w HandlerDeps
    \<Rightarrow> ('w, RemediationOutcome) effect" where
  "redispatching no_hook assess ctx deps w = (case hdRedispatch deps of
     None \<Rightarrow> give (outcome Inapplicable None no_hook) w
   | Some redispatch \<Rightarrow> (case redispatch (wcTaskId ctx) w of (x, w1) \<Rightarrow> give (assess x) w1))"

definition remediate_secret_scan :: "WorkerContext \<Rightarrow> 'w HandlerDeps \<Rightarrow> ('w, RemediationOutcome) effect" where
  "remediate_secret_scan = redispatching ''no redispatch hook injected; cannot drive literal-template rewrite''
     (\<lambda>x. case x of
        Inr r \<Rightarrow> if prOutcome r = ''approved'' then approved_run r ''redispatch outcome=approved''
          else (outcome Retry (Some REMEDIATE_SECRETSCAN) (''redispatch outcome='' @ prOutcome r))\<lparr>roResult := Some r\<rparr>
      | Inl err \<Rightarrow> outcome Retry (Some REMEDIATE_SECRETSCAN) (''redispatch threw: '' @ err))"

definition remediate_rebase_conflict :: "WorkerContext \<Rightarrow> 'w HandlerDeps \<Rightarrow> ('w, RemediationOutcome) effect" where
  "remediate_rebase_conflict = redispatching ''no redispatch hook injected; cannot drive rebase-resolver''
     (\<lambda>x. case x of
        Inr r \<Rightarrow> if prOutcome r = ''approved'' then approved_run r ''rebase resolved + pipeline drained''
          else outcome BudgetExhausted None (''rebase resolver returned outcome='' @ prOutcome r @ ''; escalating per AISDLC-105'')
      | Inl err \<Rightarrow> outcome BudgetExhausted None (''rebase resolver threw: '' @ err @ ''; escalating''))"

definition remediate_verification :: "WorkerContext \<Rightarrow> 'w HandlerDeps \<Rightarrow> ('w, RemediationOutcome) effect" where
  "remediate_verification = redispatching ''no redispatch hook injected; cannot re-spawn dev with stderr feedback''
     (\<lambda>x. case x of
        Inr r \<Rightarrow> if prOutcome r = ''approved'' then approved_run r ''dev re-implementation passed verification''
          else (outcome Retry (Some ITERATE_DEV) (''dev re-implementation outcome='' @ prOutcome r))\<lparr>roResult := Some r\<rparr>
      | Inl err \<Rightarrow> outcome Retry (Some ITERATE_DEV) (''re-dispatch threw: '' @ err))"

definition remediate_reviewer :: "WorkerContext \<Rightarrow> 'w HandlerDeps \<Rightarrow> ('w, RemediationOutcome) effect" where
  "remediate_reviewer = redispatching ''no redispatch hook injected; cannot re-spawn dev with reviewer feedback''
     (\<lambda>x. case x of
        Inr r \<Rightarrow> if prOutcome r = ''approved'' then approved_run r ''dev re-implementation passed review''
          else (outcome Retry (Some ITERATE_DEV) (''dev re-implementation outcome='' @ prOutcome r))\<lparr>roResult := Some r\<rparr>
      | Inl err \<Rightarrow> outcome Retry (Some ITERATE_DEV) (''re-dispatch threw: '' @ err))"

definition remediate_attestation :: "WorkerContext \<Rightarrow> 'w HandlerDeps \<Rightarrow> ('w, RemediationOutcome) effect" where
  "remediate_attestation ctx deps =
     run_then deps ctx [''bash'', ''scripts/check-attestation-sign.sh''] (\<lambda>sign.
       if crCode sign \<noteq> 0 then give (outcome BudgetExhausted None
         (''attestation re-sign failed (exit '' @ int_text (crCode sign) @ ''): '' @ take 200 (crStderr sign)))
       else run_then deps ctx (push_command ctx) (\<lambda>push.
         if crCode push = 0 then give (outcome Recovered (Some FINALIZING) ''attestation re-signed + pushed; AttestationStaleAfterRebase emitted for audit'')
         else give (outcome BudgetExhausted None (''re-push after attestation re-sign failed: '' @ take 200 (crStderr push)))))"

definition source_path :: "string \<Rightarrow> bool" where
  "source_path p \<longleftrightarrow> starts_with p ''pipeline-cli/src/'' \<or> starts_with p ''ai-sdlc-plugin/''
     \<or> list_ex (ends_with p) [''.ts'', ''.tsx'', ''.mjs'', ''.cjs'', ''.js'']"

definition data_path :: "string \<Rightarrow> bool" where
  "data_path p \<longleftrightarrow> list_ex (starts_with p) [''backlog/'', ''docs/'', ''spec/'', ''.ai-sdlc/'']
     \<or> CHR ''/'' \<notin> set p \<and> ends_with p ''.md'' \<and> length p > 3"

definition normalised_path :: "string \<Rightarrow> string" where
  "normalised_path p = (if starts_with p ''./'' then drop 2 p else p)"

definition isDataOnlyChange :: "string list option \<Rightarrow> bool" where
  "isDataOnlyChange paths = (case paths of
     None \<Rightarrow> False
   | Some ps \<Rightarrow> ps \<noteq> [] \<and> list_all (\<lambda>p. \<not> source_path (normalised_path p) \<and> data_path (normalised_path p)) ps)"

definition no_verify_push :: "WorkerContext \<Rightarrow> string list" where
  "no_verify_push ctx = [''git'', ''push'', ''--no-verify'', ''--force-with-lease'', ''origin'', wcBranch ctx]"

definition remediate_env_hook :: "WorkerContext \<Rightarrow> 'w HandlerDeps \<Rightarrow> ('w, RemediationOutcome) effect" where
  "remediate_env_hook ctx deps =
     (if \<not> isDataOnlyChange (fsChangedPaths (wcFailure ctx))
      then give (outcome BudgetExhausted None ''change touches source code; refusing --no-verify retry per 5.1'')
      else run_then deps ctx (no_verify_push ctx) (\<lambda>push.
        if crCode push = 0 then give (outcome Recovered (Some FINALIZING) ''--no-verify push succeeded; EnvHookSkipped audit emitted'')
        else give (outcome BudgetExhausted None (''--no-verify push still failing: '' @ take 200 (crStderr push)))))"

definition remediate_long_running :: "WorkerContext \<Rightarrow> 'w HandlerDeps \<Rightarrow> ('w, RemediationOutcome) effect" where
  "remediate_long_running ctx deps = give (outcome Recovered (Some PARKED)
     (''parked after '' @ int_text ((or_else (fsPrAgeMs (wcFailure ctx)) 0 + 30000) div 60000) @ ''min open''))"

definition RETRY_DELAY_MS :: nat where
  "RETRY_DELAY_MS = 60000"

definition remediate_push_race :: "WorkerContext \<Rightarrow> 'w HandlerDeps \<Rightarrow> ('w, RemediationOutcome) effect" where
  "remediate_push_race ctx deps w =
     run_then deps ctx (push_command ctx) (\<lambda>push.
       if crCode push = 0 then give (outcome Recovered (Some FINALIZING) (''push succeeded on attempt '' @ nat_text (wcAttempts ctx + 1)))
       else give (outcome Retry (Some REMEDIATE_PUSH_RACE) (''push still rejected: '' @ take 200 (crStderr push)))) (hdSleep deps RETRY_DELAY_MS w)"

definition remediate_stacked_pr :: "WorkerContext \<Rightarrow> 'w HandlerDeps \<Rightarrow> ('w, RemediationOutcome) effect" where
  "remediate_stacked_pr ctx deps = (let target = hdTargetBranch deps (wcWorktreePath ctx) in
     run_then deps ctx [''git'', ''fetch'', ''origin'', target] (\<lambda>fetch.
       if crCode fetch \<noteq> 0 then give (outcome BudgetExhausted None (''git fetch failed: '' @ take 200 (crStderr fetch)))
       else run_then deps ctx [''git'', ''rebase'', ''--reapply-cherry-picks'', ''origin/'' @ target] (\<lambda>rebase.
         if crCode rebase \<noteq> 0 then give (outcome BudgetExhausted None (''rebase failed (likely conflicts): '' @ take 200 (crStderr rebase)))
         else run_then deps ctx (push_command ctx) (\<lambda>push.
           if crCode push = 0 then give (outcome Recovered (Some FINALIZING) (''rebased onto '' @ target @ '' + force-pushed; squashed parent commits dropped''))
           else give (outcome BudgetExhausted None (''force-with-lease push failed after rebase: '' @ take 200 (crStderr push)))))))"

text \<open>The registry, in the order the runner walks it.\<close>

definition handler :: "FailureMode \<Rightarrow> nat \<Rightarrow> (WorkerContext \<Rightarrow> bool) \<Rightarrow>
    (WorkerContext \<Rightarrow> 'w HandlerDeps \<Rightarrow> ('w, RemediationOutcome) effect) \<Rightarrow> 'w PlaybookHandler" where
  "handler m b d r = \<lparr>hMode = m, hBudget = b, hDetect = d, hRemediate = r, hCustomEscalation = (m = LongRunningPRBlocksWorker)\<rparr>"

definition PLAYBOOK_HANDLERS :: "'w PlaybookHandler list" where
  "PLAYBOOK_HANDLERS =
     [handler SecretScanBlocked 2 detect_secret_scan remediate_secret_scan,
      handler PushRaceWithMergeQueue 3 detect_push_race remediate_push_race,
      handler StackedPRBaseSquashed 1 detect_stacked_pr remediate_stacked_pr,
      handler RebaseConflict 1 detect_rebase_conflict remediate_rebase_conflict,
      handler VerificationFailure 2 detect_verification remediate_verification,
      handler ReviewerMajorOrCritical 2 detect_reviewer remediate_reviewer,
      handler EnvHookFailure 1 detect_env_hook remediate_env_hook,
      handler AttestationVerifyMismatch 1 detect_attestation remediate_attestation,
      handler LongRunningPRBlocksWorker 1 detect_long_running remediate_long_running]"

definition pickHandler :: "WorkerContext \<Rightarrow> 'w PlaybookHandler option" where
  "pickHandler ctx = find (\<lambda>h. hDetect h ctx) PLAYBOOK_HANDLERS"

section \<open>The state tracker\<close>

datatype PlaybookEvent =
    Transition int WorkerState WorkerState int FailureMode "string option"
      \<comment> \<open>time, from, to, duration, mode and note\<close>
  | RemediationApplied int FailureMode nat RemediationStatus "string option"
  | RemediationFailed int FailureMode nat string
  | WorkerParked int "string option" string

record HistoryEntry =
  heTs :: int
  heFrom :: WorkerState
  heTo :: WorkerState
  heNote :: "string option"

record StateTracker =
  stState :: WorkerState
  stHistory :: "HistoryEntry list"
  stEvents :: "PlaybookEvent list"
  stLastTransitionAt :: int
  stHistoryLimit :: nat
  stLastFailure :: "(FailureMode \<times> nat \<times> string) option"

definition DEFAULT_HISTORY_LIMIT :: nat where
  "DEFAULT_HISTORY_LIMIT = 64"

definition new_tracker :: "int \<Rightarrow> WorkerState option \<Rightarrow> nat option \<Rightarrow> StateTracker" where
  "new_tracker now initialState historyLimit = \<lparr>stState = or_else initialState DEV_RUNNING, stHistory = [], stEvents = [],
     stLastTransitionAt = now, stHistoryLimit = or_else historyLimit DEFAULT_HISTORY_LIMIT, stLastFailure = None\<rparr>"

definition keep_last :: "nat \<Rightarrow> 'a list \<Rightarrow> 'a list" where
  "keep_last n xs = drop (length xs - n) xs"

definition track :: "int \<Rightarrow> WorkerState \<Rightarrow> FailureMode \<Rightarrow> string option \<Rightarrow> StateTracker \<Rightarrow> StateTracker \<times> PlaybookEvent list" where
  "track now target mode note t =
     (if target = stState t then (t, [])
      else (let ev = Transition now (stState t) target (now - stLastTransitionAt t) mode note in
        (t\<lparr>stEvents := stEvents t @ [ev],
           stHistory := keep_last (stHistoryLimit t) (stHistory t @ [\<lparr>heTs = now, heFrom = stState t, heTo = target, heNote = note\<rparr>]),
           stState := target, stLastTransitionAt := now\<rparr>, [ev])))"

definition emit :: "PlaybookEvent \<Rightarrow> StateTracker \<Rightarrow> StateTracker" where
  "emit ev t = t\<lparr>stEvents := stEvents t @ [ev]\<rparr>"

definition recordFailure :: "FailureMode \<Rightarrow> nat \<Rightarrow> string \<Rightarrow> StateTracker \<Rightarrow> StateTracker" where
  "recordFailure m n reason t = t\<lparr>stLastFailure := Some (m, n, reason)\<rparr>"

section \<open>The runner\<close>

record 'w PlaybookOpts =
  poCatalogue :: "CataloguePatternEntry list"
  poDeps :: "'w HandlerDeps"
  poEscalate :: "(string \<Rightarrow> string \<Rightarrow> string option \<Rightarrow> 'w \<Rightarrow> 'w) option"  \<comment> \<open>errors it throws are caught\<close>
  poNow :: "'w \<Rightarrow> int"

datatype PlaybookVerdict = VRecovered | VEscalated | VUnknown

record PlaybookResult =
  plMatchedMode :: "FailureMode option"
  plOutcome :: PlaybookVerdict
  plEvents :: "PlaybookEvent list"
  plPipelineResult :: "PipelineResult option"
  plNote :: "string option"

text \<open>What the runner carries: tracker, its own events, the last note, the last pipeline result, the world.\<close>

record 'w RunnerState =
  rnTracker :: StateTracker
  rnEvents :: "PlaybookEvent list"
  rnNote :: string
  rnResult :: "PipelineResult option"
  rnWorld :: 'w

definition move_to :: "'w PlaybookOpts \<Rightarrow> WorkerState \<Rightarrow> FailureMode \<Rightarrow> string option \<Rightarrow> 'w RunnerState \<Rightarrow> 'w RunnerState" where
  "move_to opts target mode note s = (let (t, evs) = track (poNow opts (rnWorld s)) target mode note (rnTracker s) in
     s\<lparr>rnTracker := t, rnEvents := rnEvents s @ evs\<rparr>)"

definition report :: "PlaybookEvent \<Rightarrow> 'w RunnerState \<Rightarrow> 'w RunnerState" where
  "report ev s = s\<lparr>rnTracker := emit ev (rnTracker s), rnEvents := rnEvents s @ [ev]\<rparr>"

definition escalated_world :: "'w PlaybookOpts \<Rightarrow> WorkerContext \<Rightarrow> 'w PlaybookHandler \<Rightarrow> string \<Rightarrow> 'w \<Rightarrow> 'w" where
  "escalated_world opts ctx h reason w =
     (if hCustomEscalation h then w
      else (case poEscalate opts of None \<Rightarrow> w
        | Some f \<Rightarrow> f (wcTaskId ctx) (mode_name (hMode h) @ '': '' @ reason) (wcPrUrl ctx) w))"

definition escalate :: "'w PlaybookOpts \<Rightarrow> WorkerContext \<Rightarrow> 'w PlaybookHandler \<Rightarrow> nat \<Rightarrow> string \<Rightarrow> 'w RunnerState
    \<Rightarrow> PlaybookResult \<times> 'w RunnerState" where
  "escalate opts ctx h attempts reason s =
     (let s1 = s\<lparr>rnWorld := escalated_world opts ctx h reason (rnWorld s)\<rparr>;
          now = poNow opts (rnWorld s1);
          s2 = report (RemediationFailed now (hMode h) attempts reason) s1;
          s3 = s2\<lparr>rnTracker := recordFailure (hMode h) attempts reason (rnTracker s2)\<rparr>;
          long = hMode h = LongRunningPRBlocksWorker;
          s4 = move_to opts (if long then PARKED else NEEDS_HUMAN_ATTENTION) (hMode h) (Some reason) s3;
          s5 = (if long then report (WorkerParked now (wcPrUrl ctx) reason) s4
            else move_to opts DONE_WITH_FLAG (hMode h) (Some reason) s4)
      in (\<lparr>plMatchedMode = Some (hMode h), plOutcome = VEscalated, plEvents = rnEvents s5, plPipelineResult = None,
           plNote = Some reason\<rparr>, s5))"

text \<open>What an attempt leaves: its event, its note, its pipeline result.\<close>

definition after_attempt :: "'w PlaybookOpts \<Rightarrow> 'w PlaybookHandler \<Rightarrow> nat \<Rightarrow> RemediationOutcome \<Rightarrow> 'w RunnerState \<Rightarrow> 'w RunnerState" where
  "after_attempt opts h attempt o1 s =
     (report (RemediationApplied (poNow opts (rnWorld s)) (hMode h) (attempt + 1) (roStatus o1) (roNote o1)) s)\<lparr>
       rnNote := or_else (roNote o1) (rnNote s), rnResult := (case roResult o1 of None \<Rightarrow> rnResult s | Some r \<Rightarrow> Some r)\<rparr>"

text \<open>The attempts from number \<open>attempt\<close> on, \<open>left\<close> of them.\<close>

fun attempt_loop :: "'w PlaybookOpts \<Rightarrow> WorkerContext \<Rightarrow> 'w PlaybookHandler \<Rightarrow> nat \<Rightarrow> nat \<Rightarrow> 'w RunnerState
    \<Rightarrow> (string + PlaybookResult) \<times> 'w RunnerState" where
  "attempt_loop opts ctx h attempt 0 s =
     (let (r, s') = escalate opts ctx h attempt (if rnNote s = [] then ''budget exhausted'' else rnNote s) s in (Inr r, s'))"
| "attempt_loop opts ctx h attempt (Suc left) s =
     (case hRemediate h (ctx\<lparr>wcState := MODE_TO_REMEDIATE_STATE (hMode h), wcAttempts := attempt\<rparr>) (poDeps opts) (rnWorld s) of
        (Inl err, w) \<Rightarrow> (Inl err, s\<lparr>rnWorld := w\<rparr>)
      | (Inr o1, w) \<Rightarrow>
         (let s2 = after_attempt opts h attempt o1 (s\<lparr>rnWorld := w\<rparr>) in
          (case roStatus o1 of
              Recovered \<Rightarrow> (let s3 = move_to opts (or_else (roNextState o1) DONE) (hMode h) (roNote o1) s2 in
                (Inr \<lparr>plMatchedMode = Some (hMode h), plOutcome = VRecovered, plEvents = rnEvents s3,
                   plPipelineResult = rnResult s3, plNote = roNote o1\<rparr>, s3))
            | Inapplicable \<Rightarrow> (let (r, s') = escalate opts ctx h (attempt + 1) (or_else (roNote o1) ''inapplicable'') s2 in (Inr r, s'))
            | BudgetExhausted \<Rightarrow> (let (r, s') = escalate opts ctx h (attempt + 1) (or_else (roNote o1) ''budget exhausted'') s2 in (Inr r, s'))
            | Retry \<Rightarrow> attempt_loop opts ctx h (attempt + 1) left
                (case roNextState o1 of None \<Rightarrow> s2 | Some st \<Rightarrow> move_to opts st (hMode h) (roNote o1) s2))))"

definition handler_budget :: "'w PlaybookOpts \<Rightarrow> 'w PlaybookHandler \<Rightarrow> nat" where
  "handler_budget opts h = or_else (map_of (effectiveBudgets (poCatalogue opts)) (hMode h)) (hBudget h)"

definition escalates_at_once :: "'w PlaybookOpts \<Rightarrow> 'w PlaybookHandler \<Rightarrow> bool" where
  "escalates_at_once opts h = (case find (\<lambda>p. ceMode p = hMode h) (poCatalogue opts) of
     None \<Rightarrow> False | Some p \<Rightarrow> ceEscalateImmediately p)"

definition drive_handler :: "'w PlaybookOpts \<Rightarrow> WorkerContext \<Rightarrow> 'w PlaybookHandler \<Rightarrow> StateTracker \<Rightarrow> 'w
    \<Rightarrow> (string + PlaybookResult) \<times> 'w RunnerState" where
  "drive_handler opts ctx h t w =
     (let mode = hMode h; budget = handler_budget opts h;
          s = move_to opts (MODE_TO_REMEDIATE_STATE mode) mode (Some (''entering remediation for '' @ mode_name mode))
            \<lparr>rnTracker = t, rnEvents = [], rnNote = [], rnResult = None, rnWorld = w\<rparr>
      in if budget = 0 \<or> escalates_at_once opts h then
           (let (r, s') = escalate opts ctx h 0 (mode_name mode @ '': operator catalogue '' @
               (if escalates_at_once opts h then ''set escalateImmediately=true'' else ''set budget=0'')) s in (Inr r, s'))
         else attempt_loop opts ctx h 0 budget s)"

definition runPlaybook :: "'w PlaybookOpts \<Rightarrow> WorkerContext \<Rightarrow> StateTracker \<Rightarrow> 'w \<Rightarrow> (string + PlaybookResult) \<times> 'w RunnerState" where
  "runPlaybook opts ctx t w = (case pickHandler ctx of
     None \<Rightarrow> (Inr \<lparr>plMatchedMode = None, plOutcome = VUnknown, plEvents = [], plPipelineResult = None,
         plNote = Some ''no catalogued handler matched; falling through to UnknownFailureMode''\<rparr>,
         \<lparr>rnTracker = t, rnEvents = [], rnNote = [], rnResult = None, rnWorld = w\<rparr>)
   | Some h \<Rightarrow> drive_handler opts ctx h t w)"

end
