(* ===== verification/PlaybookProps.thy ===== *)
theory PlaybookProps
  imports PlaybookRunner
begin

text \<open>
  What a run of the playbook does: bounded attempts of the first handler that claims the failure, a terminal state, a
  linked history, and commands that skip the hooks for data changes only.
\<close>

section \<open>Attempts and verdict\<close>

fun attempts_of :: "PlaybookEvent list \<Rightarrow> (nat \<times> RemediationStatus) list" where
  "attempts_of [] = []"
| "attempts_of (e # es) = (case e of RemediationApplied ts m n st note \<Rightarrow> (n, st) # attempts_of es | _ \<Rightarrow> attempts_of es)"

lemma attempts_append [simp]: "attempts_of (xs @ ys) = attempts_of xs @ attempts_of ys"
  by (induction xs) (auto split: PlaybookEvent.split)

lemma attempts_track [simp]: "attempts_of (snd (track now target m note t)) = []"
  by (simp add: track_def Let_def)

lemma move_simps [simp]:
  "attempts_of (rnEvents (move_to opts st m note s)) = attempts_of (rnEvents s)"
  "stState (rnTracker (move_to opts st m note s)) = st"
  "rnWorld (move_to opts st m note s) = rnWorld s" "rnNote (move_to opts st m note s) = rnNote s"
  "stLastFailure (rnTracker (move_to opts st m note s)) = stLastFailure (rnTracker s)"
  by (auto simp: move_to_def track_def Let_def)

lemma report_simps [simp]:
  "attempts_of (rnEvents (report ev s)) = attempts_of (rnEvents s) @ attempts_of [ev]"
  "stState (rnTracker (report ev s)) = stState (rnTracker s)" "rnWorld (report ev s) = rnWorld s"
  "rnNote (report ev s) = rnNote s" "stLastFailure (rnTracker (report ev s)) = stLastFailure (rnTracker s)"
  by (simp_all add: report_def emit_def)

lemma after_attempt_simps [simp]:
  "attempts_of (rnEvents (after_attempt opts h n o1 s)) = attempts_of (rnEvents s) @ [(Suc n, roStatus o1)]"
  "rnWorld (after_attempt opts h n o1 s) = rnWorld s"
  by (simp_all add: after_attempt_def)

text \<open>The attempts so far: numbered from one, all of them to be tried again.\<close>

definition all_retried :: "nat \<Rightarrow> (nat \<times> RemediationStatus) list \<Rightarrow> bool" where
  "all_retried n as \<longleftrightarrow> as = map (\<lambda>i. (i, Retry)) [1..<Suc n]"

definition ended :: "'w PlaybookHandler \<Rightarrow> nat \<Rightarrow> PlaybookResult \<Rightarrow> 'w RunnerState \<Rightarrow> bool" where
  "ended h budget r s \<longleftrightarrow> (\<exists>n st. n \<le> budget \<and> plMatchedMode r = Some (hMode h)
     \<and> (all_retried n (attempts_of (plEvents r)) \<and> plOutcome r = VEscalated
        \<or> 0 < n \<and> (\<exists>before. all_retried (n - 1) before \<and> attempts_of (plEvents r) = before @ [(n, st)]) \<and> st \<noteq> Retry
          \<and> plOutcome r = (if st = Recovered then VRecovered else VEscalated))
     \<and> (plOutcome r = VEscalated \<longrightarrow>
          stState (rnTracker s) = (if hMode h = LongRunningPRBlocksWorker then PARKED else DONE_WITH_FLAG)
          \<and> (\<exists>reason. plNote r = Some reason \<and> stLastFailure (rnTracker s) = Some (hMode h, n, reason))))"

lemma escalate_result:
  assumes "escalate opts ctx h n reason s = (r, s')"
  shows "plMatchedMode r = Some (hMode h)" and "plOutcome r = VEscalated" and "plNote r = Some reason"
    and "attempts_of (plEvents r) = attempts_of (rnEvents s)"
    and "stState (rnTracker s') = (if hMode h = LongRunningPRBlocksWorker then PARKED else DONE_WITH_FLAG)"
    and "stLastFailure (rnTracker s') = Some (hMode h, n, reason)"
  using assms by (auto simp: escalate_def Let_def recordFailure_def)

lemma ended_retried:
  assumes "escalate opts ctx h n reason s = (r, s')" and "all_retried n (attempts_of (rnEvents s))" and "n \<le> budget"
  shows "ended h budget r s'"
  unfolding ended_def using escalate_result [OF assms(1)] assms(2,3)
  by (intro exI [of _ n] exI [of _ Recovered]) simp

lemma ended_last:
  assumes "escalate opts ctx h (Suc n) reason s = (r, s')" and "all_retried n before"
    and "attempts_of (rnEvents s) = before @ [(Suc n, st)]" and "st \<in> {BudgetExhausted, Inapplicable}" and "Suc n \<le> budget"
  shows "ended h budget r s'"
  unfolding ended_def using escalate_result [OF assms(1)] assms(2-)
  by (intro exI [of _ "Suc n"] exI [of _ st]) auto

lemma attempt_loop_ends:
  "attempt_loop opts ctx h attempt left s = (Inr r, s') \<Longrightarrow> all_retried attempt (attempts_of (rnEvents s))
    \<Longrightarrow> ended h (attempt + left) r s'"
proof (induction left arbitrary: attempt s)
  case 0
  then show ?case by (auto split: prod.splits intro: ended_retried)
next
  case (Suc left)
  obtain x w where rem: "hRemediate h (ctx\<lparr>wcState := MODE_TO_REMEDIATE_STATE (hMode h), wcAttempts := attempt\<rparr>) (poDeps opts) (rnWorld s) = (x, w)"
    by fastforce
  with Suc.prems(1) obtain o1 where o1: "x = Inr o1" by (cases x) auto
  define s2 where "s2 = after_attempt opts h attempt o1 (s\<lparr>rnWorld := w\<rparr>)"
  have as: "attempts_of (rnEvents s2) = attempts_of (rnEvents s) @ [(Suc attempt, roStatus o1)]" by (simp add: s2_def)
  show ?case
  proof (cases "roStatus o1")
    case Recovered
    then have "r = \<lparr>plMatchedMode = Some (hMode h), plOutcome = VRecovered, plEvents = rnEvents s', plPipelineResult = rnResult s', plNote = roNote o1\<rparr>"
      "attempts_of (rnEvents s') = attempts_of (rnEvents s2)"
      using Suc.prems(1) rem o1 by (auto simp: s2_def Let_def)
    then show ?thesis unfolding ended_def using as Recovered Suc.prems(2)
      by (intro exI [of _ "Suc attempt"] exI [of _ Recovered]) auto
  next
    case Retry
    define s3 where "s3 = (case roNextState o1 of None \<Rightarrow> s2 | Some st \<Rightarrow> move_to opts st (hMode h) (roNote o1) s2)"
    have "attempt_loop opts ctx h (Suc attempt) left s3 = (Inr r, s')"
      using Suc.prems(1) rem o1 Retry by (simp add: s3_def s2_def Let_def cong: option.case_cong)
    moreover have "all_retried (Suc attempt) (attempts_of (rnEvents s3))"
      using as Retry Suc.prems(2) by (simp add: s3_def all_retried_def split: option.split)
    ultimately show ?thesis using Suc.IH by fastforce
  next
    case BudgetExhausted
    then have "escalate opts ctx h (Suc attempt) (or_else (roNote o1) ''budget exhausted'') s2 = (r, s')"
      using Suc.prems(1) rem o1 by (auto simp: s2_def Let_def split: prod.splits)
    from ended_last [OF this Suc.prems(2) as] BudgetExhausted show ?thesis by simp
  next
    case Inapplicable
    then have "escalate opts ctx h (Suc attempt) (or_else (roNote o1) ''inapplicable'') s2 = (r, s')"
      using Suc.prems(1) rem o1 by (auto simp: s2_def Let_def split: prod.splits)
    from ended_last [OF this Suc.prems(2) as] Inapplicable show ?thesis by simp
  qed
qed

lemma drive_ends:
  assumes "drive_handler opts ctx h t w = (Inr r, s)"
  shows "ended h (handler_budget opts h) r s"
proof -
  define s0 where "s0 = move_to opts (MODE_TO_REMEDIATE_STATE (hMode h)) (hMode h)
    (Some (''entering remediation for '' @ mode_name (hMode h))) \<lparr>rnTracker = t, rnEvents = [], rnNote = [], rnResult = None, rnWorld = w\<rparr>"
  have z: "all_retried 0 (attempts_of (rnEvents s0))" by (simp add: s0_def all_retried_def)
  show ?thesis
  proof (cases "handler_budget opts h = 0 \<or> escalates_at_once opts h")
    case True
    then obtain reason where "escalate opts ctx h 0 reason s0 = (r, s)"
      using assms by (auto simp: drive_handler_def Let_def s0_def split: prod.splits)
    then show ?thesis using ended_retried [OF _ z] by blast
  next
    case False
    then have "attempt_loop opts ctx h 0 (handler_budget opts h) s0 = (Inr r, s)"
      using assms by (auto simp: drive_handler_def Let_def s0_def)
    from attempt_loop_ends [OF this z] show ?thesis by simp
  qed
qed

lemma registry_consistent: "map hMode PLAYBOOK_HANDLERS = CATALOGUED_MODES"
  by (simp add: PLAYBOOK_HANDLERS_def CATALOGUED_MODES_def handler_def)

text \<open>C17. 
  Where no handler claims the failure, the playbook leaves everything alone. Otherwise it drives the first one that
  does, at most as often as its budget allows: the attempts are numbered in order, each but the last to be tried
  again, and it recovers exactly when the last attempt did. An escalation ends in the state of its mode and records the
  number of attempts and the reason.
\<close>

theorem playbook_verdict:
  assumes "runPlaybook opts ctx t w = (Inr r, s)"
  shows "(plOutcome r = VUnknown \<and> (\<forall>h \<in> set PLAYBOOK_HANDLERS. \<not> hDetect (h :: 'w PlaybookHandler) ctx) \<and> plEvents r = []
        \<and> rnTracker s = t \<and> rnWorld s = (w :: 'w))
    \<or> (\<exists>i < length (PLAYBOOK_HANDLERS :: 'w PlaybookHandler list). hDetect (PLAYBOOK_HANDLERS ! i :: 'w PlaybookHandler) ctx
        \<and> (\<forall>j < i. \<not> hDetect (PLAYBOOK_HANDLERS ! j :: 'w PlaybookHandler) ctx)
        \<and> ended (PLAYBOOK_HANDLERS ! i) (handler_budget opts (PLAYBOOK_HANDLERS ! i)) r s)"
proof (cases "pickHandler ctx :: 'w PlaybookHandler option")
  case None
  have "plOutcome r = VUnknown" "plEvents r = []" "rnTracker s = t" "rnWorld s = w"
    using assms None by (auto simp: runPlaybook_def)
  then show ?thesis using None by (simp add: pickHandler_def find_None_iff)
next
  case (Some h)
  then have "find (\<lambda>h. hDetect h ctx) PLAYBOOK_HANDLERS = Some h" by (simp add: pickHandler_def)
  then obtain i where i: "i < length (PLAYBOOK_HANDLERS :: 'w PlaybookHandler list)" "hDetect h ctx" "h = PLAYBOOK_HANDLERS ! i"
      "\<forall>j < i. \<not> hDetect (PLAYBOOK_HANDLERS ! j :: 'w PlaybookHandler) ctx"
    unfolding find_Some_iff by metis
  moreover have "ended h (handler_budget opts h) r s" using assms Some by (auto simp: runPlaybook_def intro: drive_ends)
  ultimately show ?thesis using i by (intro disjI2 exI [of _ i]) simp
qed

text \<open>A major finding of a reviewer: the first new run of the pipeline fails, the second is approved.\<close>

definition review_deps :: "nat HandlerDeps" where
  "review_deps = \<lparr>hdRunner = (\<lambda>command dir w. (Inl ''no command'', w)), hdSleep = (\<lambda>ms w. w),
     hdRedispatch = Some (\<lambda>task w. (Inr \<lparr>prOutcome = (if w = 0 then ''developer-failed'' else ''approved'')\<rparr>, Suc w)),
     hdTargetBranch = (\<lambda>dir. ''main'')\<rparr>"

definition review_opts :: "nat PlaybookOpts" where
  "review_opts = \<lparr>poCatalogue = DEFAULT_CATALOGUE, poDeps = review_deps, poEscalate = None, poNow = int\<rparr>"

definition review_ctx :: WorkerContext where
  "review_ctx = \<lparr>wcWorkerId = ''w'', wcTaskId = ''T-1'', wcBranch = ''feature'', wcWorktreePath = ''wt'', wcState = DEV_RUNNING,
     wcPrUrl = None, wcFailure = \<lparr>fsStderr = [], fsExitCode = Some 1, fsSource = None,
       fsReviewerFindings = Some \<lparr>rfCritical = 0, rfMajor = 1, rfMinor = 0, rfSuggestion = 0\<rparr>, fsPrAgeMs = None,
       fsChangedPaths = None, fsBasePrMergedAt = None, fsMergeStateStatus = None\<rparr>, wcAttempts = 0, wcDispatchedAt = 0\<rparr>"

theorem playbook_verdict_witness:
  "\<exists>r s. runPlaybook review_opts review_ctx (new_tracker 0 None None) 0 = (Inr r, s)
    \<and> plOutcome r = VRecovered \<and> attempts_of (plEvents r) = [(1, Retry), (2, Recovered)]
    \<and> (\<exists>i < length (PLAYBOOK_HANDLERS :: nat PlaybookHandler list).
        ended (PLAYBOOK_HANDLERS ! i) (handler_budget review_opts (PLAYBOOK_HANDLERS ! i)) r s)"
proof -
  have run: "(case runPlaybook review_opts review_ctx (new_tracker 0 None None) 0 of
      (Inl e, s) \<Rightarrow> False | (Inr r, s) \<Rightarrow> plOutcome r = VRecovered \<and> attempts_of (plEvents r) = [(1, Retry), (2, Recovered)])"
    by code_simp
  then obtain r s where r: "runPlaybook review_opts review_ctx (new_tracker 0 None None) 0 = (Inr r, s)"
    "plOutcome r = VRecovered" "attempts_of (plEvents r) = [(1, Retry), (2, Recovered)]"
    by (auto split: prod.splits sum.splits)
  from playbook_verdict [OF r(1)] r show ?thesis by auto
qed

section \<open>The history of a worker\<close>

fun linked :: "HistoryEntry list \<Rightarrow> bool" where
  "linked (a # b # es) = (heTo a = heFrom b \<and> heFrom a \<noteq> heTo a \<and> linked (b # es))"
| "linked [a] = (heFrom a \<noteq> heTo a)"
| "linked [] = True"

definition tracker_ok :: "StateTracker \<Rightarrow> bool" where
  "tracker_ok t \<longleftrightarrow> length (stHistory t) \<le> stHistoryLimit t \<and> linked (stHistory t)
     \<and> (stHistory t \<noteq> [] \<longrightarrow> heTo (last (stHistory t)) = stState t)"

lemma linked_tl: "linked es \<Longrightarrow> linked (tl es)"
  by (induction es rule: linked.induct) auto

lemma linked_drop: "linked es \<Longrightarrow> linked (drop n es)"
  by (induction n arbitrary: es) (auto simp: drop_Suc linked_tl)

lemma linked_snoc: "linked es \<Longrightarrow> (es \<noteq> [] \<longrightarrow> heTo (last es) = heFrom e) \<Longrightarrow> heFrom e \<noteq> heTo e \<Longrightarrow> linked (es @ [e])"
  by (induction es rule: linked.induct) auto

lemma keep_last_facts:
  "linked es \<Longrightarrow> linked (keep_last n es)" "length (keep_last n es) \<le> n" "keep_last n es \<noteq> [] \<Longrightarrow> last (keep_last n es) = last es"
  by (simp_all add: keep_last_def linked_drop last_drop)

lemma track_keeps: "tracker_ok t \<Longrightarrow> tracker_ok (fst (track now target m why t))"
proof (cases "target = stState t")
  case False
  assume ok: "tracker_ok t"
  let ?e = "\<lparr>heTs = now, heFrom = stState t, heTo = target, heNote = why\<rparr>"
  have "linked (stHistory t @ [?e])" using ok False by (intro linked_snoc) (simp_all add: tracker_ok_def)
  then show ?thesis using False keep_last_facts [where n = "stHistoryLimit t" and es = "stHistory t @ [?e]"]
    by (simp add: track_def Let_def tracker_ok_def)
qed (simp add: track_def)

lemma runner_frame [simp]:
  "rnTracker (report ev s) = emit ev (rnTracker s)" "tracker_ok (emit ev t) = tracker_ok t"
  "tracker_ok (recordFailure m n reason t) = tracker_ok t"
  by (simp_all add: report_def emit_def recordFailure_def tracker_ok_def)

lemma move_tracked: "tracker_ok (rnTracker s) \<Longrightarrow> tracker_ok (rnTracker (move_to opts st m why s))"
  using track_keeps [of "rnTracker s" "poNow opts (rnWorld s)" st m why] by (simp add: move_to_def split_beta)

lemma escalate_tracked: "tracker_ok (rnTracker s) \<Longrightarrow> tracker_ok (rnTracker (snd (escalate opts ctx h n reason s)))"
  by (simp add: escalate_def Let_def) (auto intro!: move_tracked)

lemma attempts_tracked: "tracker_ok (rnTracker s) \<Longrightarrow> tracker_ok (rnTracker (snd (attempt_loop opts ctx h attempt left s)))"
proof (induction left arbitrary: attempt s)
  case 0
  then show ?case by (simp add: split_beta escalate_tracked)
next
  case (Suc left)
  obtain x w where rem: "hRemediate h (ctx\<lparr>wcState := MODE_TO_REMEDIATE_STATE (hMode h), wcAttempts := attempt\<rparr>) (poDeps opts) (rnWorld s) = (x, w)"
    by fastforce
  show ?case
  proof (cases x)
    case (Inr o1)
    define s2 where "s2 = after_attempt opts h attempt o1 (s\<lparr>rnWorld := w\<rparr>)"
    have ok: "tracker_ok (rnTracker s2)" using Suc.prems by (simp add: s2_def after_attempt_def)
    show ?thesis
    proof (cases "roStatus o1")
      case Recovered
      then show ?thesis using rem Inr move_tracked [OF ok] by (simp add: s2_def Let_def)
    next
      case Retry
      have "tracker_ok (rnTracker (case roNextState o1 of None \<Rightarrow> s2 | Some st \<Rightarrow> move_to opts st (hMode h) (roNote o1) s2))"
        using ok move_tracked [OF ok] by (simp split: option.split)
      from Suc.IH [OF this] show ?thesis using rem Inr Retry by (simp add: s2_def Let_def cong: option.case_cong)
    next
      case BudgetExhausted
      then show ?thesis using rem Inr escalate_tracked [OF ok] by (simp add: s2_def Let_def split_beta)
    next
      case Inapplicable
      then show ?thesis using rem Inr escalate_tracked [OF ok] by (simp add: s2_def Let_def split_beta)
    qed
  qed (use rem Suc.prems in simp)
qed

text \<open>C29. 
  The history of a worker is at most as long as its limit, each transition starts where the one before ended, none
  stays in place, and the last leads to the current state; every run of the playbook keeps it so, even one that throws.
\<close>

theorem history_linked:
  assumes "tracker_ok t"
  shows "tracker_ok (rnTracker (snd (runPlaybook opts ctx t (w :: 'w))))"
proof (cases "pickHandler ctx :: 'w PlaybookHandler option")
  case (Some h)
  then show ?thesis using assms
    by (simp add: runPlaybook_def drive_handler_def Let_def split_beta move_tracked escalate_tracked attempts_tracked)
qed (use assms in \<open>simp add: runPlaybook_def\<close>)

theorem history_linked_witness:
  "tracker_ok (rnTracker (snd (runPlaybook review_opts review_ctx (new_tracker 0 None (Some 2)) 0)))
    \<and> length (stHistory (rnTracker (snd (runPlaybook review_opts review_ctx (new_tracker 0 None (Some 2)) 0)))) = 2"
proof -
  have "tracker_ok (new_tracker 0 None (Some 2))" by (simp add: tracker_ok_def new_tracker_def)
  from history_linked [OF this] have "tracker_ok (rnTracker (snd (runPlaybook review_opts review_ctx (new_tracker 0 None (Some 2)) 0)))" .
  moreover have "(case runPlaybook review_opts review_ctx (new_tracker 0 None (Some 2)) 0 of (x, s) \<Rightarrow> length (stHistory (rnTracker s)) = 2)"
    by code_simp
  ultimately show ?thesis by (simp only: split_beta)
qed

section \<open>Skipping the hooks\<close>

text \<open>What the effects of a run preserve, whatever a command other than a push without hooks does.\<close>

definition skips_hooks :: "string list \<Rightarrow> bool" where
  "skips_hooks command \<longleftrightarrow> take 3 command = [''git'', ''push'', ''--no-verify'']"

definition keeps :: "('w \<Rightarrow> bool) \<Rightarrow> ('w, 'a) effect \<Rightarrow> bool" where
  "keeps P f \<longleftrightarrow> (\<forall>w. P w \<longrightarrow> P (snd (f w)))"

definition deps_keep :: "('w \<Rightarrow> bool) \<Rightarrow> 'w HandlerDeps \<Rightarrow> bool" where
  "deps_keep P deps \<longleftrightarrow> (\<forall>c d. \<not> skips_hooks c \<longrightarrow> keeps P (hdRunner deps c d)) \<and> (\<forall>ms w. P w \<longrightarrow> P (hdSleep deps ms w))
     \<and> (\<forall>f task. hdRedispatch deps = Some f \<longrightarrow> keeps P (f task))"

lemma keeps_give [intro!, simp]: "keeps P (give x)"
  by (simp add: keeps_def give_def)

lemma keeps_if [intro]: "(b \<Longrightarrow> keeps P f) \<Longrightarrow> (\<not> b \<Longrightarrow> keeps P g) \<Longrightarrow> keeps P (if b then f else g)"
  by simp

lemma keeps_run:
  assumes "deps_keep P deps" and "\<not> skips_hooks c" and "\<And>r. keeps P (next r)"
  shows "keeps P (run_then deps ctx c next)"
  unfolding keeps_def
proof (intro allI impI)
  fix w assume "P w"
  then have "P (snd (hdRunner deps c (wcWorktreePath ctx) w))" using assms(1,2) by (simp add: deps_keep_def keeps_def)
  then show "P (snd (run_then deps ctx c next w))"
    using assms(3) by (auto simp: run_then_def keeps_def split: prod.splits sum.splits)
qed

lemma keeps_redispatching:
  assumes "deps_keep P deps"
  shows "keeps P (redispatching no_hook assess ctx deps)"
proof (cases "hdRedispatch deps")
  case (Some f)
  then have "keeps P (f (wcTaskId ctx))" using assms by (simp add: deps_keep_def)
  then show ?thesis using Some
    by (auto simp: keeps_def redispatching_def give_def split: prod.splits sum.splits)
qed (simp add: keeps_def redispatching_def give_def)

lemma keeps_handlers:
  assumes "deps_keep P deps" and "\<not> isDataOnlyChange (fsChangedPaths (wcFailure ctx))" and "h \<in> set PLAYBOOK_HANDLERS"
  shows "keeps P (hRemediate h ctx deps)"
proof -
  note run = keeps_run [OF assms(1)]
  have "keeps P (remediate_env_hook ctx deps)" using assms(2) by (simp add: remediate_env_hook_def)
  moreover have "keeps P (remediate_attestation ctx deps)"
    by (auto simp: remediate_attestation_def skips_hooks_def push_command_def intro!: run)
  moreover have "keeps P (remediate_stacked_pr ctx deps)"
    by (auto simp: remediate_stacked_pr_def Let_def skips_hooks_def push_command_def intro!: run)
  moreover have "keeps P (remediate_push_race ctx deps)"
  proof -
    have "keeps P (\<lambda>w. run_then deps ctx (push_command ctx) next (hdSleep deps ms w))" if "\<And>r. keeps P (next r)" for ms and "next" :: "CommandResult \<Rightarrow> ('a, RemediationOutcome) effect"
      using run [of "push_command ctx" "next" ctx] that assms(1) by (simp add: keeps_def deps_keep_def skips_hooks_def push_command_def)
    then show ?thesis unfolding remediate_push_race_def [abs_def] by (auto simp: remediate_push_race_def [abs_def])
  qed
  moreover have "keeps P (remediate_long_running ctx deps)" by (simp add: remediate_long_running_def)
  ultimately show ?thesis using assms(3) keeps_redispatching [OF assms(1)]
    by (auto simp: PLAYBOOK_HANDLERS_def handler_def remediate_secret_scan_def remediate_rebase_conflict_def
        remediate_verification_def remediate_reviewer_def)
qed

lemma escalate_keeps:
  assumes "\<forall>f task why url w. poEscalate opts = Some f \<longrightarrow> P w \<longrightarrow> P (f task why url w)" and "P (rnWorld s)"
  shows "P (rnWorld (snd (escalate opts ctx h n reason s)))"
  using assms by (simp add: escalate_def Let_def escalated_world_def recordFailure_def split: option.split)

lemma attempts_keep:
  assumes esc: "\<forall>f task why url w. poEscalate opts = Some f \<longrightarrow> P w \<longrightarrow> P (f task why url w)"
    and rem: "\<And>(st :: WorkerState) (n :: nat). keeps P (hRemediate h (ctx\<lparr>wcState := st, wcAttempts := n\<rparr>) (poDeps opts))"
  shows "P (rnWorld s) \<Longrightarrow> P (rnWorld (snd (attempt_loop opts ctx h attempt left s)))"
proof (induction left arbitrary: attempt s)
  case 0
  then show ?case using escalate_keeps [of opts P s, OF esc] by (simp add: split_beta)
next
  case (Suc left)
  obtain x w where run: "hRemediate h (ctx\<lparr>wcState := MODE_TO_REMEDIATE_STATE (hMode h), wcAttempts := attempt\<rparr>) (poDeps opts) (rnWorld s) = (x, w)"
    by fastforce
  then have w: "P w" using rem [where st = "MODE_TO_REMEDIATE_STATE (hMode h)" and n = attempt] Suc.prems unfolding keeps_def by (metis snd_conv)
  show ?case
  proof (cases x)
    case (Inr o1)
    define s2 where "s2 = after_attempt opts h attempt o1 (s\<lparr>rnWorld := w\<rparr>)"
    have s2: "P (rnWorld s2)" using w by (simp add: s2_def)
    note stop = escalate_keeps [of opts P s2, OF esc s2]
    show ?thesis
    proof (cases "roStatus o1")
      case Retry
      have "P (rnWorld (case roNextState o1 of None \<Rightarrow> s2 | Some st \<Rightarrow> move_to opts st (hMode h) (roNote o1) s2))"
        using s2 by (simp split: option.split)
      from Suc.IH [OF this] show ?thesis using run Inr Retry by (simp add: s2_def Let_def cong: option.case_cong)
    qed (use run Inr s2 stop in \<open>simp_all add: s2_def Let_def split_beta\<close>)
  qed (use run w in simp)
qed

text \<open>C18. 
  Whatever the change, no hook of the repository is skipped unless all of its paths are data: what every command but a
  push with \<open>--no-verify\<close> preserves, and the other effects too, holds after a run on any other change.
\<close>

theorem hooks_run_for_source_changes:
  assumes "\<not> isDataOnlyChange (fsChangedPaths (wcFailure ctx))" and "deps_keep P (poDeps opts)"
    and "\<forall>f task why url w. poEscalate opts = Some f \<longrightarrow> P w \<longrightarrow> P (f task why url w)" and "P w"
  shows "P (rnWorld (snd (runPlaybook opts ctx t (w :: 'w))))"
proof (cases "pickHandler ctx :: 'w PlaybookHandler option")
  case (Some h)
  then have "h \<in> set PLAYBOOK_HANDLERS" unfolding pickHandler_def find_Some_iff by auto
  then have rem: "keeps P (hRemediate h (ctx\<lparr>wcState := st, wcAttempts := n\<rparr>) (poDeps opts))" for st n
    using assms(1,2) by (intro keeps_handlers) simp_all
  show ?thesis using Some assms(4) attempts_keep [OF assms(3) rem] escalate_keeps [of opts P, OF assms(3)]
    by (simp add: runPlaybook_def drive_handler_def Let_def split_beta)
qed (use assms(4) in \<open>simp add: runPlaybook_def\<close>)

text \<open>A failing hook on a change of source, in a world that records the commands.\<close>

definition hook_deps :: "string list list HandlerDeps" where
  "hook_deps = \<lparr>hdRunner = (\<lambda>command dir w. (Inr \<lparr>crCode = 0, crStderr = []\<rparr>, w @ [command])), hdSleep = (\<lambda>ms w. w),
     hdRedispatch = None, hdTargetBranch = (\<lambda>dir. ''main'')\<rparr>"

definition hook_opts :: "string list list PlaybookOpts" where
  "hook_opts = \<lparr>poCatalogue = DEFAULT_CATALOGUE, poDeps = hook_deps, poEscalate = None, poNow = (\<lambda>w. 0)\<rparr>"

definition hook_ctx :: WorkerContext where
  "hook_ctx = review_ctx\<lparr>wcFailure := (wcFailure review_ctx)\<lparr>fsStderr := ''tsc: not found'',
     fsReviewerFindings := None, fsChangedPaths := Some [''docs/a.md'', ''docs/b.ts'']\<rparr>\<rparr>"

theorem hooks_run_for_source_changes_witness:
  "list_all (\<lambda>command. \<not> skips_hooks command) (rnWorld (snd (runPlaybook hook_opts hook_ctx (new_tracker 0 None None) [])))"
proof -
  have "\<not> isDataOnlyChange (fsChangedPaths (wcFailure hook_ctx))" by code_simp
  then show ?thesis
    by (rule hooks_run_for_source_changes [where P = "list_all (\<lambda>command. \<not> skips_hooks command)"])
      (simp_all add: hook_opts_def hook_deps_def deps_keep_def keeps_def)
qed

end
