(* ===== verification/Filters.thy ===== *)
theory Filters
  imports DependencyGraph Timebox Playbook
begin

text \<open>
  The admission filters of the orchestrator, \<open>pipeline-cli/src/orchestrator/filters/\<close>: each looks at one candidate
  and rejects it or lets it pass, and \<open>runFilterChain\<close> walks them in order up to the first rejection. What they see
  outside the graph (pull requests, worktrees, processes, the environment, files) is a record of observations, constant
  during a chain; a call that throws is observed as \<open>None\<close>. Task ids hold no dollar sign; the dash and the ellipsis
  of the reasons are spelled in ASCII.
\<close>

section \<open>Results\<close>

datatype FilterName = OpenPullRequestExists | OrphanParent | AlreadyInFlight | BlastRadiusOverlap | DependencyReadiness
  | Dispatchability | DorReadiness | ExternalDependencies | Blocked | CapturesPending

datatype InFlightSignal = OpenPr nat | ActiveWorktree string | LiveSubprocess int

datatype FilterDetail =
    OpenPullRequestExistsDetail nat bool string "string option"  \<comment> \<open>number, draft, branch, URL\<close>
  | OrphanParentDetail "string list"
  | AlreadyInFlightDetail InFlightSignal string
  | DependencyBlockedDetail "string list"
  | BlastRadiusOverlapDetail string "string list" nat  \<comment> \<open>task in flight, up to three paths, number of paths\<close>
  | DispatchabilityBlockedDetail string
  | DorBlockedDetail "string option"
  | AwaitingExternalDetail "ExternalDependency list" "ExternalDependency list"
  | BlockedDetail string "string option" "string list option"
  | CapturesPendingDetail string string

record FilterResult =
  frFilter :: FilterName
  frPassed :: bool
  frReason :: "string option"
  frDetail :: "FilterDetail option"

definition pass :: "FilterName \<Rightarrow> FilterResult" where
  "pass f = \<lparr>frFilter = f, frPassed = True, frReason = None, frDetail = None\<rparr>"

definition reject :: "FilterName \<Rightarrow> string \<Rightarrow> FilterDetail \<Rightarrow> FilterResult" where
  "reject f reason detail = \<lparr>frFilter = f, frPassed = False, frReason = Some reason, frDetail = Some detail\<rparr>"

section \<open>What the filters look at\<close>

record OpenPREntry =
  peNumber :: nat
  peDraft :: bool
  peUrl :: "string option"

record BlockedFrontmatter =
  bfReason :: "string option"
  bfUntil :: "string option"
  bfUnblockedBy :: "string list option"

text \<open>The candidate with the fields of its front matter.\<close>

record FilterCandidate =
  fcTaskId :: string
  fcTitle :: "string option"
  fcLabels :: "string list option"
  fcDispatchable :: "bool option"
  fcDispatchableReason :: "string option"
  fcBlocked :: "BlockedFrontmatter option"

text \<open>
  The observations: the branch pattern of the configuration; the three lists of pull requests; the directories under
  \<open>.worktrees\<close> with an \<open>.active-task\<close> file, with its text if it can be read; the process table; the paths a task is
  expected to touch; the calibration log and the clearance file, if they exist and can be read; the clearances given
  directly; the environment variables.
\<close>

record FilterWorld =
  fwBranchPattern :: string
  fwPRsOfBranch :: "string \<Rightarrow> OpenPREntry list option"
  fwPRsMatching :: "string \<Rightarrow> nat list option"
  fwOpenHeads :: "string list option"
  fwRepoRoot :: string
  fwSentinels :: "(string \<times> string option) list"
  fwDetectSubprocess :: "bool option"
  fwDetectEnv :: "string option"
  fwProcessTable :: "string option"
  fwBypass :: "string option"
  fwBypassTask :: "string option"
  fwBlastFiles :: "string \<Rightarrow> string list option"
  fwCalibrationLog :: "string option"
  fwClearedKeys :: "string list option"
  fwClearanceFile :: "string option"
  fwCaptureFlag :: "string option"
  fwPendingCaptures :: "string \<Rightarrow> bool"

definition flag_words :: "string list" where
  "flag_words = [''1'', ''true'', ''yes'', ''on'']"

section \<open>An open pull request for the branch\<close>

definition slug_char :: "char \<Rightarrow> bool" where
  "slug_char c \<longleftrightarrow> is_digit c \<or> 97 \<le> char_code c \<and> char_code c \<le> 122"

fun dashed :: "bool \<Rightarrow> string \<Rightarrow> string" where
  "dashed gap [] = []"
| "dashed gap (c # s) = (if slug_char c then c # dashed False s else if gap then dashed True s else CHR ''-'' # dashed True s)"

definition slugify :: "string \<Rightarrow> string" where
  "slugify heading = (let dash = (\<lambda>c. c = CHR ''-''); s = dropWhile dash (dashed False (toLowerCase heading)) in
     take 50 (rev (dropWhile dash (rev s))))"

definition replace_all :: "string \<Rightarrow> string \<Rightarrow> string \<Rightarrow> string" where
  "replace_all old new s = join new (split_on old s)"

definition FALLBACK_SLUG :: string where
  "FALLBACK_SLUG = ''task''"

definition branch_of :: "string \<Rightarrow> string \<Rightarrow> string option \<Rightarrow> string" where
  "branch_of template taskId heading = (let taskIdLower = toLowerCase taskId;
       rawSlug = (if truthy heading then slugify (the heading) else []);
       slug = (if rawSlug \<noteq> [] then rawSlug else if contains_text template ''{slug}'' then FALLBACK_SLUG else taskIdLower)
     in replace_all ''{slug}'' slug (replace_all ''{issueIdLower}'' taskIdLower template))"

type_synonym pr_cache = "(string, OpenPREntry list) jsmap"

text \<open>The pull requests of a branch, from the cache of the tick or asked for and kept there.\<close>

definition cached_prs :: "FilterWorld \<Rightarrow> string \<Rightarrow> pr_cache \<Rightarrow> OpenPREntry list \<times> pr_cache" where
  "cached_prs w branch cache = (case map_of cache branch of
     Some prs \<Rightarrow> (prs, cache)
   | None \<Rightarrow> (let prs = or_else (fwPRsOfBranch w branch) [] in (prs, map_set branch prs cache)))"

definition checkOpenPullRequestExists :: "FilterWorld \<Rightarrow> FilterCandidate \<Rightarrow> pr_cache \<Rightarrow> FilterResult \<times> pr_cache" where
  "checkOpenPullRequestExists w c cache = (let branch = branch_of (fwBranchPattern w) (fcTaskId c) (fcTitle c);
       (prs, cache') = cached_prs w branch cache in
     (case prs of
        [] \<Rightarrow> pass OpenPullRequestExists
      | pr # _ \<Rightarrow> reject OpenPullRequestExists
          (''open PR #'' @ nat_text (peNumber pr) @ (if truthy (peUrl pr) then '' '' @ the (peUrl pr) else [])
            @ '' ('' @ (if peDraft pr then ''draft'' else ''open'') @ '') already exists for branch '' @ branch)
          (OpenPullRequestExistsDetail (peNumber pr) (peDraft pr) branch (peUrl pr)), cache'))"

section \<open>An orphan parent\<close>

definition is_child :: "string \<Rightarrow> DependencyNode \<Rightarrow> bool" where
  "is_child key n \<longleftrightarrow> trim (parentTaskId n) \<noteq> [] \<and> toLowerCase (trim (parentTaskId n)) = key \<and> toLowerCase (nodeId n) \<noteq> key"

text \<open>Whether a child is open, and the completed children seen before the first open one.\<close>

fun scan_children :: "string \<Rightarrow> DependencyNode list \<Rightarrow> string list \<Rightarrow> bool \<times> string list" where
  "scan_children key [] done = (False, done)"
| "scan_children key (n # ns) done =
     (if \<not> is_child key n then scan_children key ns done
      else if status n = Completed then scan_children key ns (done @ [toLowerCase (nodeId n)])
      else (True, done))"

definition checkOrphanParent :: "DependencyGraph \<Rightarrow> FilterCandidate \<Rightarrow> FilterResult" where
  "checkOrphanParent g c = (let key = toLowerCase (fcTaskId c) in
     case map_of (nodes g) key of
       None \<Rightarrow> pass OrphanParent
     | Some n \<Rightarrow>
        if trim (parentTaskId n) \<noteq> [] then pass OrphanParent
        else (case scan_children key (map snd (nodes g)) [] of (open_child, done) \<Rightarrow>
          if open_child \<or> done = [] then pass OrphanParent
          else (let sorted = sort_by code_unit_cmp done in reject OrphanParent
            (''orphan-parent-needs-closure ('' @ nat_text (length sorted) @ '' completed child(ren), no open: ''
              @ join '', '' (take 5 sorted) @ '')'') (OrphanParentDetail sorted))))"

section \<open>A task in flight\<close>

text \<open>The task id at some place of the command, not followed by a digit, in either case.\<close>

fun names_task :: "string \<Rightarrow> string \<Rightarrow> bool" where
  "names_task key [] \<longleftrightarrow> key = []"
| "names_task key (c # s) \<longleftrightarrow> (let t = c # s; after = drop (length key) t in
     length key \<le> length t \<and> toLowerCase (take (length key) t) = key \<and> (after = [] \<or> \<not> is_digit (hd after)) \<or> names_task key s)"

fun print_flag :: "string \<Rightarrow> bool" where
  "print_flag [] = False"
| "print_flag (c # s) \<longleftrightarrow> (let after = drop 3 (c # s) in
     starts_with (c # s) '' -p'' \<and> (after = [] \<or> is_space (hd after)) \<or> print_flag s)"

definition claude_line :: "string \<Rightarrow> string \<Rightarrow> int option" where
  "claude_line key line = (let t = trim line in
     case index_of '' '' t of
       None \<Rightarrow> None
     | Some i \<Rightarrow> (let command = trim (drop (i + 1) t) in
         case parse_int (trim (take i t)) of
           None \<Rightarrow> None
         | Some pid \<Rightarrow> if contains_text command ''claude'' \<and> (contains_text command ''--print'' \<or> print_flag command)
             \<and> names_task key command then Some pid else None))"

fun first_some :: "('a \<Rightarrow> 'b option) \<Rightarrow> 'a list \<Rightarrow> 'b option" where
  "first_some f [] = None"
| "first_some f (x # xs) = (case f x of None \<Rightarrow> first_some f xs | Some y \<Rightarrow> Some y)"

definition findClaudeSubprocess :: "string \<Rightarrow> string \<Rightarrow> int option" where
  "findClaudeSubprocess table taskId = first_some (claude_line (toLowerCase taskId)) (split_on [CHR 0x0A] table)"

definition isDetectSubprocessEnabled :: "string option \<Rightarrow> bool" where
  "isDetectSubprocessEnabled raw = (case raw of None \<Rightarrow> True | Some v \<Rightarrow> toLowerCase (trim v) \<in> set flag_words)"

definition in_flight :: "InFlightSignal \<Rightarrow> string \<Rightarrow> string \<Rightarrow> FilterResult" where
  "in_flight signal what why = reject AlreadyInFlight (''Already-in-flight check: failed ('' @ why @ '')'') (AlreadyInFlightDetail signal what)"

definition checkAlreadyInFlight :: "FilterWorld \<Rightarrow> FilterCandidate \<Rightarrow> FilterResult" where
  "checkAlreadyInFlight w c = (let key = toLowerCase (fcTaskId c);
       worktree = fwRepoRoot w @ ''/.worktrees/'' @ key in
     case or_else (fwPRsMatching w (''ai-sdlc/'' @ key @ ''-*'')) [] of
       n # _ \<Rightarrow> in_flight (OpenPr n) (''PR #'' @ nat_text n @ '' already open'') (''PR #'' @ nat_text n @ '' open'')
     | [] \<Rightarrow>
        if has_key key (fwSentinels w)
        then in_flight (ActiveWorktree worktree) (''active worktree sentinel at '' @ worktree @ ''/.active-task'') ''active worktree''
        else if or_else (fwDetectSubprocess w) (isDetectSubprocessEnabled (fwDetectEnv w)) then
          (case fwProcessTable w of
             None \<Rightarrow> pass AlreadyInFlight
           | Some table \<Rightarrow> (case findClaudeSubprocess table (fcTaskId c) of
               None \<Rightarrow> pass AlreadyInFlight
             | Some pid \<Rightarrow> in_flight (LiveSubprocess pid)
                 (''live claude --print subprocess for '' @ fcTaskId c @ '' (PID '' @ int_text pid @ '')'')
                 (''live subprocess PID '' @ int_text pid)))
        else pass AlreadyInFlight)"

section \<open>An open dependency\<close>

definition checkDependencyReadiness :: "collation \<Rightarrow> DependencyGraph \<Rightarrow> FilterCandidate \<Rightarrow> FilterResult" where
  "checkDependencyReadiness lc g c = (let ids = map (\<lambda>n. toLowerCase (nodeId n)) (blockers lc g (fcTaskId c)) in
     if ids = [] then pass DependencyReadiness
     else reject DependencyReadiness (nat_text (length ids) @ '' blocker(s) still open: '' @ join '', '' (take 5 ids))
       (DependencyBlockedDetail ids))"

section \<open>Overlapping paths\<close>

definition isGlobalBypassEnabled :: "FilterWorld \<Rightarrow> bool" where
  "isGlobalBypassEnabled w \<longleftrightarrow> truthy (fwBypass w) \<and> toLowerCase (trim (the (fwBypass w))) \<in> set flag_words"

definition isPerTaskBypassEnabled :: "FilterWorld \<Rightarrow> string \<Rightarrow> bool" where
  "isPerTaskBypassEnabled w taskId \<longleftrightarrow> truthy (fwBypassTask w) \<and> toLowerCase (trim (the (fwBypassTask w))) = toLowerCase taskId"

text \<open>The digits of an id, with dots between digits.\<close>

fun id_digits :: "string \<Rightarrow> string" where
  "id_digits [] = []"
| "id_digits (c # s) = (if is_digit c \<or> c = CHR ''.'' \<and> s \<noteq> [] \<and> is_digit (hd s) then c # id_digits s else [])"

definition extractTaskIdFromBranch :: "string \<Rightarrow> string option" where
  "extractTaskIdFromBranch branch = (let prefix = ''ai-sdlc/aisdlc-''; n = length prefix; tail = drop n branch in
     if toLowerCase (take n branch) = prefix \<and> tail \<noteq> [] \<and> is_digit (hd tail)
     then Some (toUpperCase (drop 8 (take n branch) @ id_digits tail)) else None)"

definition collectInFlightTaskIds :: "FilterWorld \<Rightarrow> string list" where
  "collectInFlightTaskIds w = set_of_iter
     (map toUpperCase (List.map_filter extractTaskIdFromBranch (or_else (fwOpenHeads w) []))
      @ List.map_filter (\<lambda>(dir, text). case text of
           None \<Rightarrow> None | Some s \<Rightarrow> if trim s = [] then None else Some (toUpperCase (trim s))) (fwSentinels w))"

definition covers_path :: "string list \<Rightarrow> string \<Rightarrow> bool" where
  "covers_path b p = (if ends_with p ''/'' then list_ex (\<lambda>q. starts_with q p \<or> q = butlast p) b
     else p \<in> set b \<or> list_ex (\<lambda>q. ends_with q ''/'' \<and> starts_with p q) b)"

definition intersectFileSets :: "string list \<Rightarrow> string list \<Rightarrow> string list" where
  "intersectFileSets a b = filter (covers_path b) a"

definition overlap_with :: "FilterWorld \<Rightarrow> FilterCandidate \<Rightarrow> string list \<Rightarrow> string \<Rightarrow> FilterResult option" where
  "overlap_with w c paths other =
     (if toLowerCase other = toLowerCase (fcTaskId c) then None
      else (case fwBlastFiles w other of
          None \<Rightarrow> None
        | Some theirs \<Rightarrow> (let overlap = intersectFileSets paths theirs; shown = take 3 overlap in
            if overlap = [] then None
            else Some (reject BlastRadiusOverlap
              (''blast-radius overlap with in-flight '' @ other @ '': '' @ join '', '' shown
                @ (if length overlap > 3 then ''... (+'' @ nat_text (length overlap - 3) @ '' more)'' else []))
              (BlastRadiusOverlapDetail other shown (length overlap))))))"

definition checkBlastRadiusOverlap :: "FilterWorld \<Rightarrow> FilterCandidate \<Rightarrow> FilterResult" where
  "checkBlastRadiusOverlap w c =
     (if isGlobalBypassEnabled w
      then (pass BlastRadiusOverlap)\<lparr>frReason := Some ''AI_SDLC_BLAST_RADIUS_OVERLAP_BYPASS is set - skipped''\<rparr>
      else if isPerTaskBypassEnabled w (fcTaskId c)
      then (pass BlastRadiusOverlap)\<lparr>frReason := Some (''AI_SDLC_BLAST_RADIUS_OVERLAP_BYPASS_TASK='' @ fcTaskId c @ '' - skipped'')\<rparr>
      else (case fwBlastFiles w (fcTaskId c) of
          None \<Rightarrow> pass BlastRadiusOverlap
        | Some [] \<Rightarrow> (pass BlastRadiusOverlap)\<lparr>frReason := Some ''no blast-radius files declared - admitted (degrade-open)''\<rparr>
        | Some paths \<Rightarrow> or_else (first_some (overlap_with w c paths) (collectInFlightTaskIds w)) (pass BlastRadiusOverlap)))"

text \<open>The paths a task names in its front matter.\<close>

definition strip_quotes :: "string \<Rightarrow> string" where
  "strip_quotes s = (let q = (\<lambda>c. c = CHR 0x27 \<or> c = CHR 0x22); a = (if s \<noteq> [] \<and> q (hd s) then tl s else s) in
     if a \<noteq> [] \<and> q (last a) then butlast a else a)"

text \<open>\<open>references:\<close> with a list in brackets: what stands before the last bracket of the line.\<close>

definition compact_list :: "string \<Rightarrow> string option" where
  "compact_list line = (let r = dropWhile is_space (drop 11 line);
       body = rev (dropWhile (\<lambda>c. c \<noteq> CHR '']'') (rev (takeWhile (\<lambda>c. c \<noteq> CHR 0x0D) (tl r)))) in
     if starts_with line ''references:'' \<and> r \<noteq> [] \<and> hd r = CHR ''['' \<and> length body > 1 then Some (butlast body) else None)"

definition list_item :: "string \<Rightarrow> string option" where
  "list_item line = (let r = dropWhile is_space line; item = dropWhile is_space (tl r) in
     if line \<noteq> [] \<and> is_space (hd line) \<and> r \<noteq> [] \<and> hd r = CHR ''-'' \<and> tl r \<noteq> [] \<and> is_space (hd (tl r))
       \<and> item \<noteq> [] \<and> CHR 0x0D \<notin> set item
     then Some (strip_quotes (trim item)) else None)"

definition top_level_key :: "string \<Rightarrow> bool" where
  "top_level_key line \<longleftrightarrow> line \<noteq> [] \<and> (hd line = CHR ''_'' \<or> 97 \<le> char_code (hd line) \<and> char_code (hd line) \<le> 122)"

fun reference_lines :: "bool \<Rightarrow> string list \<Rightarrow> string list \<Rightarrow> string list" where
  "reference_lines inRefs [] refs = refs"
| "reference_lines inRefs (line # ls) refs =
     (if starts_with line ''references:'' \<and> list_all is_space (drop 11 line) then reference_lines True ls refs
      else (case compact_list line of
          Some items \<Rightarrow> refs @ filter (\<lambda>r. r \<noteq> []) (map (\<lambda>s. strip_quotes (trim s)) (split_on '','' items))
        | None \<Rightarrow>
           if \<not> inRefs then reference_lines inRefs ls refs
           else if top_level_key line then refs
           else (case list_item line of
               Some r \<Rightarrow> reference_lines inRefs ls (if r = [] then refs else refs @ [r])
             | None \<Rightarrow> reference_lines inRefs ls refs)))"

definition parseReferencesFromFrontmatter :: "string \<Rightarrow> string list" where
  "parseReferencesFromFrontmatter frontmatter = reference_lines False (split_on [CHR 0x0A] frontmatter) []"

definition frontmatter_of :: "string \<Rightarrow> string option" where
  "frontmatter_of raw = (if starts_with raw (''---'' @ [CHR 0x0A])
     then (case index_of (CHR 0x0A # ''---'') (drop 4 raw) of None \<Rightarrow> None | Some i \<Rightarrow> Some (take i (drop 4 raw)))
     else None)"

definition task_file :: "string \<Rightarrow> string \<Rightarrow> bool" where
  "task_file key name \<longleftrightarrow> starts_with (toLowerCase name) (key @ '' '') \<or> starts_with (toLowerCase name) (key @ ''-'')
     \<or> toLowerCase name = key @ ''.md''"

text \<open>Over the entries of \<open>tasks\<close> and \<open>completed\<close> with their text, if it can be read.\<close>

definition defaultComputeBlastRadiusFiles :: "(string \<times> string option) list \<Rightarrow> string \<Rightarrow> string list" where
  "defaultComputeBlastRadiusFiles entries taskId =
     (case first_some (\<lambda>(name, raw). if task_file (toLowerCase taskId) name then raw else None) entries of
        None \<Rightarrow> []
      | Some raw \<Rightarrow> (case frontmatter_of raw of None \<Rightarrow> [] | Some fm \<Rightarrow> parseReferencesFromFrontmatter fm))"

section \<open>Not for dispatch, not ready, waiting, blocked\<close>

definition checkDispatchability :: "FilterCandidate \<Rightarrow> FilterResult" where
  "checkDispatchability c = (if fcDispatchable c \<noteq> Some False then pass Dispatchability
     else (let reason = or_else (fcDispatchableReason c) ''marked dispatchable:false in frontmatter'' in
       reject Dispatchability reason (DispatchabilityBlockedDetail reason)))"

definition DOR_BYPASS_LABEL :: string where
  "DOR_BYPASS_LABEL = ''dor-bypass''"

definition hasBypassLabel :: "string list option \<Rightarrow> bool" where
  "hasBypassLabel labels = list_ex (\<lambda>l. toLowerCase (trim l) = DOR_BYPASS_LABEL) (or_else labels [])"

record CalibrationEntry =
  ceIssueId :: string
  ceOverallVerdict :: string
  ceOutcome :: string
  ceSignedAt :: "string option"

definition text_member :: "(string \<times> jsval) list \<Rightarrow> string \<Rightarrow> string option" where
  "text_member kvs k = (case map_of kvs k of Some (VStr s) \<Rightarrow> Some s | _ \<Rightarrow> None)"

definition signed_at :: "(string \<times> jsval) list \<Rightarrow> string option" where
  "signed_at kvs = (case map_of kvs ''verdict'' of Some (VObj v) \<Rightarrow> text_member v ''signedAt'' | _ \<Rightarrow> None)"

text \<open>A line that parses to an entry.\<close>

definition calibration_entry :: "string \<Rightarrow> CalibrationEntry option" where
  "calibration_entry line = (case jsonParse line of
     Some (VObj kvs) \<Rightarrow> (case (text_member kvs ''issueId'', text_member kvs ''overallVerdict'', text_member kvs ''outcome'') of
         (Some i, Some v, Some out) \<Rightarrow> if v = ''admit'' \<or> v = ''needs-clarification''
            then Some \<lparr>ceIssueId = i, ceOverallVerdict = v, ceOutcome = out, ceSignedAt = signed_at kvs\<rparr> else None
       | _ \<Rightarrow> None)
   | _ \<Rightarrow> None)"

fun latest_entry :: "string \<Rightarrow> string list \<Rightarrow> CalibrationEntry option \<Rightarrow> CalibrationEntry option" where
  "latest_entry key [] latest = latest"
| "latest_entry key (line # ls) latest = (case calibration_entry line of
     Some e \<Rightarrow> latest_entry key ls (if toLowerCase (ceIssueId e) = key then Some e else latest)
   | None \<Rightarrow> latest_entry key ls latest)"

definition readLatestEntry :: "string \<Rightarrow> string \<Rightarrow> CalibrationEntry option" where
  "readLatestEntry records taskId = latest_entry (toLowerCase taskId) (split_on [CHR 0x0A] records) None"

definition checkDorReadiness :: "FilterWorld \<Rightarrow> FilterCandidate \<Rightarrow> FilterResult" where
  "checkDorReadiness w c =
     (if hasBypassLabel (fcLabels c) then pass DorReadiness
      else (case fwCalibrationLog w of
          None \<Rightarrow> pass DorReadiness
        | Some records \<Rightarrow> (case readLatestEntry records (fcTaskId c) of
            None \<Rightarrow> pass DorReadiness
          | Some e \<Rightarrow>
              if ceOutcome e = ''override'' \<or> ceOverallVerdict e = ''admit'' then pass DorReadiness
              else reject DorReadiness (''latest verdict=needs-clarification (signedAt='' @ or_else (ceSignedAt e) ''unknown'' @ '')'')
                (DorBlockedDetail (ceSignedAt e)))))"

definition clearanceKey :: "string \<Rightarrow> string \<Rightarrow> string" where
  "clearanceKey taskId dep = toLowerCase taskId @ ''::'' @ dep"

definition clearance_of :: "jsval \<Rightarrow> string option" where
  "clearance_of v = (case v of
     VObj kvs \<Rightarrow> (case (text_member kvs ''taskId'', text_member kvs ''externalDepId'') of
         (Some t, Some d) \<Rightarrow> Some (clearanceKey t d) | _ \<Rightarrow> None)
   | _ \<Rightarrow> None)"

definition loadClearanceSet :: "string option \<Rightarrow> string list" where
  "loadClearanceSet raw = (case raw of
     None \<Rightarrow> []
   | Some text \<Rightarrow> (case jsonParse text of Some (VArr vs) \<Rightarrow> List.map_filter clearance_of vs | _ \<Rightarrow> []))"

definition collectBlocking :: "DependencyNode \<Rightarrow> string list \<Rightarrow> ExternalDependency list" where
  "collectBlocking n cleared = filter (\<lambda>d. extKind d = Manual \<and> clearanceKey (nodeId n) (extId d) \<notin> set cleared) (externalDependencies n)"

definition checkExternalDependencies :: "FilterWorld \<Rightarrow> DependencyGraph \<Rightarrow> FilterCandidate \<Rightarrow> FilterResult" where
  "checkExternalDependencies w g c = (case map_of (nodes g) (toLowerCase (fcTaskId c)) of
     None \<Rightarrow> pass ExternalDependencies
   | Some n \<Rightarrow> (let cleared = or_else (fwClearedKeys w) (loadClearanceSet (fwClearanceFile w)); blocking = collectBlocking n cleared in
       if externalDependencies n = [] \<or> blocking = [] then pass ExternalDependencies
       else reject ExternalDependencies
         (nat_text (length blocking) @ '' manual external dep(s) unresolved: '' @ join '', '' (map extId blocking))
         (AwaitingExternalDetail blocking (externalDependencies n))))"

definition blocked_reason :: "FilterCandidate \<Rightarrow> string" where
  "blocked_reason c = trim (or_else (Option.bind (fcBlocked c) bfReason) [])"

definition checkBlocked :: "FilterCandidate \<Rightarrow> FilterResult" where
  "checkBlocked c = (if blocked_reason c = [] then pass Blocked
     else (let ids = Option.bind (fcBlocked c) bfUnblockedBy in
       reject Blocked (blocked_reason c)
         (BlockedDetail (blocked_reason c) (Option.bind (fcBlocked c) bfUntil) (if ids = Some [] then None else ids))))"

definition isCaptureFlagEnabled :: "string option \<Rightarrow> bool" where
  "isCaptureFlagEnabled flag \<longleftrightarrow> toLowerCase (or_else flag []) \<in> set (flag_words @ [''experimental''])"

definition checkCapturesPending :: "FilterWorld \<Rightarrow> FilterCandidate \<Rightarrow> FilterResult" where
  "checkCapturesPending w c =
     (if \<not> isCaptureFlagEnabled (fwCaptureFlag w) \<or> \<not> fwPendingCaptures w (fcTaskId c) then pass CapturesPending
      else reject CapturesPending
        (''task '' @ fcTaskId c @ '' has pending captures (triage=tbd) - triage required before dispatch'')
        (CapturesPendingDetail (fcTaskId c) (''Task '' @ fcTaskId c @ '' has unresolved emergent captures (triage=tbd). ''
           @ ''Run `cli-capture list --pending` to review and triage before dispatch.'')))"

section \<open>The chain\<close>

record FilterChainResult =
  fcrPassed :: bool
  fcrTrace :: "FilterResult list"
  fcrFailure :: "FilterResult option"

fun walk_chain :: "FilterResult list \<Rightarrow> FilterResult list \<Rightarrow> FilterChainResult" where
  "walk_chain [] trace = \<lparr>fcrPassed = True, fcrTrace = trace, fcrFailure = None\<rparr>"
| "walk_chain (r # rs) trace =
     (if frPassed r then walk_chain rs (trace @ [r]) else \<lparr>fcrPassed = False, fcrTrace = trace @ [r], fcrFailure = Some r\<rparr>)"

text \<open>The verdicts of the filters after the first, which alone changes the cache, in the order of the chain.\<close>

definition later_filters :: "collation \<Rightarrow> FilterWorld \<Rightarrow> DependencyGraph \<Rightarrow> FilterCandidate \<Rightarrow> FilterResult list" where
  "later_filters lc w g c = [checkOrphanParent g c, checkAlreadyInFlight w c, checkDependencyReadiness lc g c,
     checkBlastRadiusOverlap w c, checkDispatchability c, checkDorReadiness w c, checkExternalDependencies w g c,
     checkBlocked c, checkCapturesPending w c]"

definition runFilterChain :: "collation \<Rightarrow> FilterWorld \<Rightarrow> DependencyGraph \<Rightarrow> FilterCandidate \<Rightarrow> pr_cache \<Rightarrow> FilterChainResult \<times> pr_cache" where
  "runFilterChain lc w g c cache =
     (let (openPR, cache') = checkOpenPullRequestExists w c cache in (walk_chain (openPR # later_filters lc w g c) [], cache'))"

end
