(* ===== verification/OrchestratorTick.thy ===== *)
theory OrchestratorTick
  imports Filters
begin

text \<open>
  The admission half of a tick of the orchestrator, \<open>pipeline-cli/src/orchestrator/loop.ts\<close> with \<open>in-flight.ts\<close> and the
  cost channel of \<open>hc-cost.ts\<close>: which candidates of the frontier are dispatched, what is recorded of the others, and how
  long the loop sleeps. The frontier, the graph, the front matter and the observations of the filters are inputs of a
  tick; times are their ISO texts, one a tick. The dispatch itself, its outcomes and its events are left out; what it
  does to the map of tasks in flight and to the cadence is here.
\<close>

section \<open>Tasks in flight\<close>

record DispatchState =
  dsStartedAt :: string
  dsWorktreePath :: string
  dsLive :: bool  \<comment> \<open>dispatched by this process\<close>

type_synonym InFlightMap = "(string, DispatchState) jsmap"

text \<open>A worktree with its \<open>.active-task\<close> file: its text and its time, as far as they can be read.\<close>

record WorktreeSentinel =
  wsName :: string
  wsText :: "string option"
  wsModified :: "string option"

definition add_sentinel :: "string \<Rightarrow> WorktreeSentinel \<Rightarrow> InFlightMap \<Rightarrow> InFlightMap" where
  "add_sentinel dir s m = (case (wsText s, wsModified s) of
     (Some raw, Some modified) \<Rightarrow> (let key = toLowerCase (trim raw);
         entry = \<lparr>dsStartedAt = modified, dsWorktreePath = dir @ ''/'' @ wsName s, dsLive = False\<rparr> in
       if trim raw = [] then m
       else (case map_of m key of
           None \<Rightarrow> map_set key entry m
         | Some old \<Rightarrow> if \<not> str_less modified (dsStartedAt old) then m else map_set key entry m))
   | _ \<Rightarrow> m)"

definition reconstructInFlightFromWorktrees :: "string \<Rightarrow> WorktreeSentinel list \<Rightarrow> InFlightMap" where
  "reconstructInFlightFromWorktrees dir sentinels = fold (add_sentinel dir) sentinels []"

definition isInFlight :: "InFlightMap \<Rightarrow> string \<Rightarrow> DispatchState option" where
  "isInFlight m taskId = map_of m (toLowerCase taskId)"

definition claimInFlight :: "string \<Rightarrow> DispatchState \<Rightarrow> InFlightMap \<Rightarrow> bool \<times> InFlightMap" where
  "claimInFlight taskId s m = (case map_of m (toLowerCase taskId) of
     Some e \<Rightarrow> (False, m) | None \<Rightarrow> (True, map_set (toLowerCase taskId) s m))"

definition releaseInFlight :: "string \<Rightarrow> InFlightMap \<Rightarrow> InFlightMap" where
  "releaseInFlight taskId m = map_del (toLowerCase taskId) m"

section \<open>Cadence\<close>

record OrchestratorConfig =
  ocTickIntervalSec :: int
  ocMaxConcurrent :: int
  ocDryRun :: bool
  ocWorkDir :: string

record CadenceState =
  caIntervalSec :: int
  caIdleStreak :: nat
  caLastFrontierIds :: "string list"

definition MAX_IDLE_SLEEP_SEC :: int where
  "MAX_IDLE_SLEEP_SEC = 5 * 60"

definition makeInitialCadenceState :: "int \<Rightarrow> CadenceState" where
  "makeInitialCadenceState baseSec = \<lparr>caIntervalSec = max 0 baseSec, caIdleStreak = 0, caLastFrontierIds = []\<rparr>"

definition resetCadence :: "OrchestratorConfig \<Rightarrow> CadenceState \<Rightarrow> CadenceState" where
  "resetCadence cfg s = s\<lparr>caIntervalSec := max 0 (ocTickIntervalSec cfg), caIdleStreak := 0\<rparr>"

definition applyNewTaskWake :: "OrchestratorConfig \<Rightarrow> string list \<Rightarrow> CadenceState \<Rightarrow> CadenceState" where
  "applyNewTaskWake cfg ids s = (let current = set_of_iter ids in
     (if list_ex (\<lambda>i. i \<notin> set (caLastFrontierIds s)) current then resetCadence cfg s else s)\<lparr>caLastFrontierIds := current\<rparr>)"

datatype OrchestratorIdleEvent = OrchestratorIdleNoWork string nat | OrchestratorIdleAllFiltered string nat nat

definition recordIdleTick :: "OrchestratorConfig \<Rightarrow> nat option \<Rightarrow> string \<Rightarrow> CadenceState \<Rightarrow> OrchestratorIdleEvent \<times> CadenceState" where
  "recordIdleTick cfg rejected now s = (let streak = Suc (caIdleStreak s); base = max 1 (ocTickIntervalSec cfg) in
     (case rejected of None \<Rightarrow> OrchestratorIdleNoWork now streak | Some n \<Rightarrow> OrchestratorIdleAllFiltered now streak n,
      s\<lparr>caIdleStreak := streak, caIntervalSec := min MAX_IDLE_SLEEP_SEC (max base (caIntervalSec s * 2))\<rparr>))"

section \<open>Stuck candidates\<close>

record StuckCounterEntry =
  stTicks :: nat
  stReason :: "FilterName option"
  stEmitted :: bool

definition STUCK_CANDIDATE_THRESHOLD :: nat where
  "STUCK_CANDIDATE_THRESHOLD = 5"

datatype OrchestratorBlockedEvent =
    OrchestratorBlockedByDependency "string list"
  | OrchestratorBlockedByDor "string option"
  | OrchestratorAwaitingExternal "(string \<times> ExternalDependencyKind) list" "(string \<times> ExternalDependencyKind) list"
  | OrchestratorOrphanParent "string list"
  | TaskBlocked string "string option"
  | OrchestratorBlockedByDispatchability string
  | OrchestratorBlockedByBlastRadiusOverlap string "string list" nat
  | OrchestratorBlockedByOpenPullRequest nat bool string "string option"

text \<open>Without the time and the task, which the events of a candidate share.\<close>

definition toBlockedEvent :: "FilterResult \<Rightarrow> OrchestratorBlockedEvent option" where
  "toBlockedEvent failure = (case frDetail failure of
     None \<Rightarrow> None
   | Some (DependencyBlockedDetail ids) \<Rightarrow> Some (OrchestratorBlockedByDependency ids)
   | Some (DorBlockedDetail signed) \<Rightarrow> Some (OrchestratorBlockedByDor signed)
   | Some (AwaitingExternalDetail blocking alldeps) \<Rightarrow> (let short = map (\<lambda>d. (extId d, extKind d)) in
       Some (OrchestratorAwaitingExternal (short blocking) (short alldeps)))
   | Some (OrphanParentDetail ids) \<Rightarrow> Some (OrchestratorOrphanParent ids)
   | Some (BlockedDetail reason til ids) \<Rightarrow> Some (TaskBlocked reason til)
   | Some (DispatchabilityBlockedDetail reason) \<Rightarrow> Some (OrchestratorBlockedByDispatchability reason)
   | Some (BlastRadiusOverlapDetail other paths n) \<Rightarrow> Some (OrchestratorBlockedByBlastRadiusOverlap other paths n)
   | Some (OpenPullRequestExistsDetail n draft branch url) \<Rightarrow> Some (OrchestratorBlockedByOpenPullRequest n draft branch url)
   | Some (AlreadyInFlightDetail signal what) \<Rightarrow> None
   | Some (CapturesPendingDetail i advisory) \<Rightarrow> None)"

text \<open>The stuck event of a candidate: the filter that rejected it last and the ticks since the first.\<close>

record OrchestratorFilterEvent =
  oeTs :: string
  oeTaskId :: string
  oeTrace :: FilterChainResult
  oeStuck :: "(FilterName option \<times> nat) option"
  oeBlocked :: "OrchestratorBlockedEvent option"

type_synonym StuckCounters = "(string, StuckCounterEntry) jsmap"

definition pruneStuckCounters :: "string list \<Rightarrow> StuckCounters \<Rightarrow> StuckCounters" where
  "pruneStuckCounters candidateIds counters = filter (\<lambda>e. fst e \<in> set (map toLowerCase candidateIds)) counters"

definition recordFilterEvent :: "string \<Rightarrow> FilterChainResult \<Rightarrow> string \<Rightarrow> StuckCounters \<Rightarrow> OrchestratorFilterEvent \<times> StuckCounters" where
  "recordFilterEvent taskId chain now counters = (let key = toLowerCase taskId;
       event = \<lparr>oeTs = now, oeTaskId = taskId, oeTrace = chain, oeStuck = None, oeBlocked = None\<rparr> in
     if fcrPassed chain then (event, map_del key counters)
     else (let reason = map_option frFilter (fcrFailure chain);
           prior = map_of counters key;
           ticks = (case prior of None \<Rightarrow> 0 | Some e \<Rightarrow> stTicks e) + 1;
           emitted = (case prior of None \<Rightarrow> False | Some e \<Rightarrow> stEmitted e);
           stuck = ticks > STUCK_CANDIDATE_THRESHOLD \<and> \<not> emitted in
       (event\<lparr>oeStuck := (if stuck then Some (reason, ticks) else None), oeBlocked := Option.bind (fcrFailure chain) toBlockedEvent\<rparr>,
        map_set key \<lparr>stTicks = ticks, stReason = reason, stEmitted = (emitted \<or> stuck)\<rparr> counters)))"

section \<open>The cost channel\<close>

record HcCostConfig =
  hcEnabled :: bool
  hcWeight :: rat

definition HC_COST_DEFAULT_WEIGHT :: rat where
  "HC_COST_DEFAULT_WEIGHT = 1"

record HcCostApplication =
  haOriginalPriority :: rat
  haAdjustedPriority :: rat
  haIsCostSensitive :: bool
  haPriorityDelta :: rat

definition applyHcCost :: "rat \<Rightarrow> rat option \<Rightarrow> HcCostConfig \<Rightarrow> HcCostApplication" where
  "applyHcCost prio budget cfg =
     (if \<not> hcEnabled cfg \<or> budget = None \<or> hcWeight cfg = HC_COST_DEFAULT_WEIGHT
      then \<lparr>haOriginalPriority = prio, haAdjustedPriority = prio, haIsCostSensitive = (budget \<noteq> None), haPriorityDelta = 0\<rparr>
      else \<lparr>haOriginalPriority = prio, haAdjustedPriority = prio * hcWeight cfg, haIsCostSensitive = True,
        haPriorityDelta = prio * hcWeight cfg - prio\<rparr>)"

definition order_by_cost :: "HcCostConfig \<Rightarrow> (string \<Rightarrow> rat option) \<Rightarrow> string list \<Rightarrow> string list" where
  "order_by_cost cfg budget picks =
     (if hcEnabled cfg \<and> hcWeight cfg \<noteq> HC_COST_DEFAULT_WEIGHT
      then sort_by (\<lambda>a b. let x = haAdjustedPriority (applyHcCost 1 (budget a) cfg); y = haAdjustedPriority (applyHcCost 1 (budget b) cfg) in
        if y < x then - 1 else if x < y then 1 else 0) picks
      else picks)"

section \<open>A tick\<close>

text \<open>The frontier as ids with titles, and what the adapters load.\<close>

record TickInput =
  tiCandidates :: "(string \<times> string) list"
  tiGraph :: DependencyGraph
  tiWorld :: FilterWorld
  tiLabels :: "string \<Rightarrow> string list"
  tiBlocked :: "string \<Rightarrow> BlockedFrontmatter option"
  tiDispatchable :: "string \<Rightarrow> bool option \<times> string option"
  tiRecoverable :: "string \<Rightarrow> bool"
  tiBypassFilters :: bool
  tiHcCost :: HcCostConfig
  tiMaxBudgetUsd :: "string \<Rightarrow> rat option"
  tiNow :: string

record TickState =
  tsInFlight :: InFlightMap
  tsStuck :: StuckCounters
  tsCadence :: CadenceState

record TickResult =
  trDispatched :: "string list"
  trFilterEvents :: "OrchestratorFilterEvent list"
  trIdle :: "OrchestratorIdleEvent option"
  trNextSleepSec :: int
  trAlreadyInFlight :: "(string \<times> string) list"  \<comment> \<open>task, since when\<close>

definition filter_candidate :: "TickInput \<Rightarrow> string \<times> string \<Rightarrow> FilterCandidate" where
  "filter_candidate ti c = (case c of (i, heading) \<Rightarrow>
     \<lparr>fcTaskId = i, fcTitle = (if heading = [] then None else Some heading), fcLabels = Some (tiLabels ti i),
      fcDispatchable = fst (tiDispatchable ti i), fcDispatchableReason = snd (tiDispatchable ti i), fcBlocked = tiBlocked ti i\<rparr>)"

text \<open>
  The candidates not in flight. An entry of a dead process whose worktree can be taken up again gives way: it is
  removed and the candidate goes on.
\<close>

fun drop_in_flight :: "TickInput \<Rightarrow> (string \<times> string) list \<Rightarrow> InFlightMap
    \<Rightarrow> (string \<times> string) list \<times> (string \<times> string) list \<times> InFlightMap" where
  "drop_in_flight ti [] m = ([], [], m)"
| "drop_in_flight ti (c # cs) m = (case isInFlight m (fst c) of
     None \<Rightarrow> (case drop_in_flight ti cs m of (kept, held, m') \<Rightarrow> (c # kept, held, m'))
   | Some e \<Rightarrow>
       if \<not> dsLive e \<and> tiRecoverable ti (fst c)
       then (case drop_in_flight ti cs (map_del (toLowerCase (fst c)) m) of (kept, held, m') \<Rightarrow> (c # kept, held, m'))
       else (case drop_in_flight ti cs m of (kept, held, m') \<Rightarrow> (kept, (fst c, dsStartedAt e) # held, m')))"

text \<open>What the walk over the candidates carries.\<close>

record PickState =
  pkPicks :: "string list"
  pkCache :: pr_cache
  pkStuck :: StuckCounters
  pkEvents :: "OrchestratorFilterEvent list"

definition evaluate_candidate :: "collation \<Rightarrow> TickInput \<Rightarrow> string \<times> string \<Rightarrow> PickState \<Rightarrow> PickState" where
  "evaluate_candidate lc ti c s =
     (if tiBypassFilters ti then s\<lparr>pkPicks := pkPicks s @ [fst c]\<rparr>
      else (let (chain, cache) = runFilterChain lc (tiWorld ti) (tiGraph ti) (filter_candidate ti c) (pkCache s);
            (event, stuck) = recordFilterEvent (fst c) chain (tiNow ti) (pkStuck s) in
        s\<lparr>pkPicks := (if fcrPassed chain then pkPicks s @ [fst c] else pkPicks s), pkCache := cache, pkStuck := stuck,
          pkEvents := pkEvents s @ [event]\<rparr>))"

fun pick_candidates :: "collation \<Rightarrow> TickInput \<Rightarrow> int \<Rightarrow> (string \<times> string) list \<Rightarrow> PickState \<Rightarrow> PickState" where
  "pick_candidates lc ti budget [] s = s"
| "pick_candidates lc ti budget (c # cs) s =
     (if int (length (pkPicks s)) \<ge> budget then s else pick_candidates lc ti budget cs (evaluate_candidate lc ti c s))"

text \<open>The picks claim their slots before the first dispatch is awaited; those who won give them back at the end.\<close>

fun claim_all :: "(string \<Rightarrow> DispatchState) \<Rightarrow> string list \<Rightarrow> InFlightMap \<Rightarrow> string list \<times> InFlightMap" where
  "claim_all entry [] m = ([], m)"
| "claim_all entry (i # is) m = (case claimInFlight i (entry i) m of
     (won, m1) \<Rightarrow> (case claim_all entry is m1 of (claimed, m2) \<Rightarrow> (if won then i # claimed else claimed, m2)))"

definition dispatch_entry :: "OrchestratorConfig \<Rightarrow> TickInput \<Rightarrow> string \<Rightarrow> DispatchState" where
  "dispatch_entry cfg ti i = \<lparr>dsStartedAt = tiNow ti, dsWorktreePath = ocWorkDir cfg @ ''/.worktrees/'' @ toLowerCase i, dsLive = False\<rparr>"

definition idle_result :: "OrchestratorConfig \<Rightarrow> TickInput \<Rightarrow> nat option \<Rightarrow> OrchestratorFilterEvent list \<Rightarrow> (string \<times> string) list
    \<Rightarrow> TickState \<Rightarrow> TickResult \<times> TickState" where
  "idle_result cfg ti rejected events held s = (let (idle, cadence) = recordIdleTick cfg rejected (tiNow ti) (tsCadence s) in
     (\<lparr>trDispatched = [], trFilterEvents = events, trIdle = Some idle, trNextSleepSec = caIntervalSec cadence, trAlreadyInFlight = held\<rparr>,
      s\<lparr>tsCadence := cadence\<rparr>))"

definition runOrchestratorTick :: "collation \<Rightarrow> OrchestratorConfig \<Rightarrow> TickInput \<Rightarrow> TickState \<Rightarrow> TickResult \<times> TickState" where
  "runOrchestratorTick lc cfg ti s = (let ids = map fst (tiCandidates ti) in
     if ids = [] then idle_result cfg ti None [] [] (s\<lparr>tsStuck := pruneStuckCounters [] (tsStuck s)\<rparr>)
     else (let s1 = s\<lparr>tsCadence := applyNewTaskWake cfg ids (tsCadence s), tsStuck := pruneStuckCounters ids (tsStuck s)\<rparr> in
       if ocDryRun cfg then idle_result cfg ti None [] [] s1
       else (let (kept, held, inFlight) = drop_in_flight ti (tiCandidates ti) (tsInFlight s1);
             walk = pick_candidates lc ti (max 0 (ocMaxConcurrent cfg)) kept
               \<lparr>pkPicks = [], pkCache = [], pkStuck = tsStuck s1, pkEvents = []\<rparr>;
             s2 = s1\<lparr>tsInFlight := inFlight, tsStuck := pkStuck walk\<rparr>;
             events = pkEvents walk in
         if pkPicks walk = []
         then idle_result cfg ti (if events = [] then None else Some (length events)) events held s2
         else (let picks = order_by_cost (tiHcCost ti) (tiMaxBudgetUsd ti) (pkPicks walk);
               (claimed, m) = claim_all (dispatch_entry cfg ti) picks inFlight;
               cadence = resetCadence cfg (tsCadence s2) in
           (\<lparr>trDispatched = picks, trFilterEvents = events, trIdle = None, trNextSleepSec = caIntervalSec cadence, trAlreadyInFlight = held\<rparr>,
            s2\<lparr>tsInFlight := fold releaseInFlight claimed m, tsCadence := cadence\<rparr>)))))"

end
