(* ===== verification/FilterProps.thy ===== *)
theory FilterProps
  imports Filters DependencyProps
begin

text \<open>
  What the admission chain lets through, and what its overlap test misses.
\<close>

section \<open>The chain\<close>

lemma walk_chain_result:
  "walk_chain rs trace = \<lparr>fcrPassed = list_all frPassed rs,
     fcrTrace = trace @ (case find (\<lambda>r. \<not> frPassed r) rs of None \<Rightarrow> rs | Some r \<Rightarrow> takeWhile frPassed rs @ [r]),
     fcrFailure = find (\<lambda>r. \<not> frPassed r) rs\<rparr>"
  by (induction rs arbitrary: trace) (auto split: option.splits)

lemma verdict_simps [simp]: "frPassed (pass f)" "\<not> frPassed (reject f why detail)"
  "frPassed (r\<lparr>frReason := x\<rparr>) = frPassed r" "\<not> frPassed (in_flight sig what why)"
  by (simp_all add: pass_def reject_def in_flight_def)

definition candidate_branch :: "FilterWorld \<Rightarrow> FilterCandidate \<Rightarrow> string" where
  "candidate_branch w c = branch_of (fwBranchPattern w) (fcTaskId c) (fcTitle c)"

lemma chain_result:
  "fst (runFilterChain lc w g c cache) = walk_chain (fst (checkOpenPullRequestExists w c cache) # later_filters lc w g c) []"
  "snd (runFilterChain lc w g c cache) = snd (checkOpenPullRequestExists w c cache)"
  by (simp_all add: runFilterChain_def split_beta)

lemma open_pr_passed: "frPassed (fst (checkOpenPullRequestExists w c cache)) \<longleftrightarrow> fst (cached_prs w (candidate_branch w c) cache) = []"
  by (simp add: checkOpenPullRequestExists_def candidate_branch_def Let_def split_beta split: list.split)

text \<open>A parent none of whose children, of which it has some, is open.\<close>

definition orphan_parent :: "DependencyGraph \<Rightarrow> string \<Rightarrow> bool" where
  "orphan_parent g k \<longleftrightarrow> (\<exists>n. map_of (nodes g) k = Some n \<and> trim (parentTaskId n) = [])
     \<and> (\<exists>e \<in> set (nodes g). is_child k (snd e)) \<and> (\<forall>e \<in> set (nodes g). is_child k (snd e) \<longrightarrow> status (snd e) = Completed)"

lemma scan_children_open: "fst (scan_children k ns seen) \<longleftrightarrow> (\<exists>n \<in> set ns. is_child k n \<and> status n \<noteq> Completed)"
  by (induction ns arbitrary: seen) auto

lemma scan_children_done: "\<not> fst (scan_children k ns seen) \<Longrightarrow> snd (scan_children k ns seen) = [] \<longleftrightarrow> seen = [] \<and> (\<forall>n \<in> set ns. \<not> is_child k n)"
  by (induction ns arbitrary: seen) auto

lemma orphan_passed: "frPassed (checkOrphanParent g c) \<longleftrightarrow> \<not> orphan_parent g (toLowerCase (fcTaskId c))"
proof -
  let ?key = "toLowerCase (fcTaskId c)" and ?r = "scan_children (toLowerCase (fcTaskId c)) (map snd (nodes g)) []"
  have "fst ?r \<or> snd ?r = [] \<longleftrightarrow> (\<exists>e \<in> set (nodes g). is_child ?key (snd e) \<and> status (snd e) \<noteq> Completed)
      \<or> (\<forall>e \<in> set (nodes g). \<not> is_child ?key (snd e))"
    using scan_children_done [of ?key "map snd (nodes g)" "[]"] by (auto simp: scan_children_open)
  then show ?thesis by (auto simp: checkOrphanParent_def orphan_parent_def Let_def split_beta split: option.split)
qed

text \<open>A sign that the task is being worked on: a pull request, a worktree, a process.\<close>

definition being_worked_on :: "FilterWorld \<Rightarrow> string \<Rightarrow> bool" where
  "being_worked_on w taskId \<longleftrightarrow> or_else (fwPRsMatching w (''ai-sdlc/'' @ toLowerCase taskId @ ''-*'')) [] \<noteq> []
     \<or> has_key (toLowerCase taskId) (fwSentinels w)
     \<or> or_else (fwDetectSubprocess w) (isDetectSubprocessEnabled (fwDetectEnv w))
        \<and> (\<exists>table. fwProcessTable w = Some table \<and> findClaudeSubprocess table taskId \<noteq> None)"

lemma in_flight_passed: "frPassed (checkAlreadyInFlight w c) \<longleftrightarrow> \<not> being_worked_on w (fcTaskId c)"
  by (auto simp: checkAlreadyInFlight_def being_worked_on_def Let_def split: list.split option.split)

lemma dependency_passed:
  "frPassed (checkDependencyReadiness lc g c) \<longleftrightarrow>
     (\<forall>k n. (dep_edge g)\<^sup>+\<^sup>+ (toLowerCase (fcTaskId c)) k \<longrightarrow> map_of (nodes g) k = Some n \<longrightarrow> status n = Completed)"
  using blockers_Nil_iff [of lc g "fcTaskId c"] by (simp add: checkDependencyReadiness_def Let_def)

definition overlaps_task :: "FilterWorld \<Rightarrow> string \<Rightarrow> string \<Rightarrow> bool" where
  "overlaps_task w taskId other \<longleftrightarrow> toLowerCase other \<noteq> toLowerCase taskId
     \<and> (\<exists>ours theirs. fwBlastFiles w taskId = Some ours \<and> fwBlastFiles w other = Some theirs \<and> (\<exists>p \<in> set ours. covers_path theirs p))"

lemma first_some_cases: "first_some f xs = None \<longleftrightarrow> (\<forall>x \<in> set xs. f x = None)"
  "first_some f xs = Some y \<Longrightarrow> \<exists>x \<in> set xs. f x = Some y"
  by (induction xs) (auto split: option.splits)

lemma overlap_with_cases:
  "overlap_with w c paths other = None \<longleftrightarrow> toLowerCase other = toLowerCase (fcTaskId c)
     \<or> (\<forall>theirs. fwBlastFiles w other = Some theirs \<longrightarrow> (\<forall>p \<in> set paths. \<not> covers_path theirs p))"
  "overlap_with w c paths other = Some r \<Longrightarrow> \<not> frPassed r"
  by (auto simp: overlap_with_def intersectFileSets_def Let_def filter_empty_conv split: option.splits if_splits)

lemma overlap_none:
  "fwBlastFiles w (fcTaskId c) = Some paths \<Longrightarrow> overlap_with w c paths other = None \<longleftrightarrow> \<not> overlaps_task w (fcTaskId c) other"
  unfolding overlap_with_cases(1) overlaps_task_def by simp

lemma first_overlap_passed:
  "frPassed (or_else (first_some (overlap_with w c paths) ids) (pass BlastRadiusOverlap)) \<longleftrightarrow>
     (\<forall>other \<in> set ids. overlap_with w c paths other = None)"
proof (cases "first_some (overlap_with w c paths) ids")
  case None
  then have "\<forall>other \<in> set ids. overlap_with w c paths other = None" by (rule first_some_cases(1) [THEN iffD1])
  then show ?thesis using None by (simp add: or_else_def)
next
  case (Some r)
  then obtain x where x: "x \<in> set ids" "overlap_with w c paths x = Some r" using first_some_cases(2) [OF Some] by blast
  then have "\<not> frPassed r" using overlap_with_cases(2) [OF x(2)] by simp
  moreover have "\<not> (\<forall>other \<in> set ids. overlap_with w c paths other = None)" using x by force
  ultimately show ?thesis using Some by (simp add: or_else_def)
qed

lemma overlap_passed:
  "frPassed (checkBlastRadiusOverlap w c) \<longleftrightarrow> isGlobalBypassEnabled w \<or> isPerTaskBypassEnabled w (fcTaskId c)
     \<or> (\<forall>other \<in> set (collectInFlightTaskIds w). \<not> overlaps_task w (fcTaskId c) other)"
proof (cases "isGlobalBypassEnabled w \<or> isPerTaskBypassEnabled w (fcTaskId c)")
  case False
  show ?thesis
  proof (cases "fwBlastFiles w (fcTaskId c)")
    case None
    then show ?thesis using False by (simp add: checkBlastRadiusOverlap_def overlaps_task_def)
  next
    case (Some paths)
    have "frPassed (checkBlastRadiusOverlap w c) \<longleftrightarrow>
        frPassed (or_else (first_some (overlap_with w c paths) (collectInFlightTaskIds w)) (pass BlastRadiusOverlap))" if "paths \<noteq> []"
      using False Some that by (auto simp: checkBlastRadiusOverlap_def neq_Nil_conv)
    moreover have "frPassed (checkBlastRadiusOverlap w c) \<and> \<not> overlaps_task w (fcTaskId c) other" if "paths = []" for other
      using False Some that by (simp add: checkBlastRadiusOverlap_def overlaps_task_def)
    ultimately show ?thesis using False unfolding first_overlap_passed overlap_none [OF Some] by blast
  qed
qed (auto simp: checkBlastRadiusOverlap_def)

text \<open>The last entry of the calibration log for the task asks for clarification, without a bypass.\<close>

definition awaits_clarification :: "FilterWorld \<Rightarrow> FilterCandidate \<Rightarrow> bool" where
  "awaits_clarification w c \<longleftrightarrow> \<not> hasBypassLabel (fcLabels c)
     \<and> (\<exists>records e. fwCalibrationLog w = Some records \<and> readLatestEntry records (fcTaskId c) = Some e
        \<and> ceOutcome e \<noteq> ''override'' \<and> ceOverallVerdict e \<noteq> ''admit'')"

lemma dor_passed: "frPassed (checkDorReadiness w c) \<longleftrightarrow> \<not> awaits_clarification w c"
  by (auto simp: checkDorReadiness_def awaits_clarification_def split: option.split)

definition awaits_external :: "FilterWorld \<Rightarrow> DependencyGraph \<Rightarrow> string \<Rightarrow> bool" where
  "awaits_external w g taskId \<longleftrightarrow> (\<exists>n. map_of (nodes g) (toLowerCase taskId) = Some n \<and> (\<exists>d \<in> set (externalDependencies n).
     extKind d = Manual \<and> clearanceKey (nodeId n) (extId d) \<notin> set (or_else (fwClearedKeys w) (loadClearanceSet (fwClearanceFile w)))))"

lemma external_passed: "frPassed (checkExternalDependencies w g c) \<longleftrightarrow> \<not> awaits_external w g (fcTaskId c)"
  by (auto simp: checkExternalDependencies_def awaits_external_def collectBlocking_def Let_def filter_empty_conv split: option.split)

lemma flag_passed:
  "frPassed (checkDispatchability c) \<longleftrightarrow> fcDispatchable c \<noteq> Some False"
  "frPassed (checkBlocked c) \<longleftrightarrow> blocked_reason c = []"
  "frPassed (checkCapturesPending w c) \<longleftrightarrow> \<not> (isCaptureFlagEnabled (fwCaptureFlag w) \<and> fwPendingCaptures w (fcTaskId c))"
  by (simp_all add: checkDispatchability_def checkBlocked_def checkCapturesPending_def Let_def)

lemmas filters_passed = orphan_passed in_flight_passed dependency_passed overlap_passed dor_passed external_passed flag_passed

text \<open>C4. 
  A candidate is admitted exactly when its branch has no open pull request, it is no parent left with completed
  children, nothing shows that it is being worked on, every task it depends on, at any distance, is completed, no task
  in flight overlaps with it (unless the test is bypassed), it is for dispatch, its refinement asks for nothing, its
  manual dependencies are cleared, it is not blocked and no capture of it waits.
\<close>

theorem chain_admits_iff:
  "fcrPassed (fst (runFilterChain lc w (buildDependencyGraph ts cs) c cache)) \<longleftrightarrow>
     fst (cached_prs w (candidate_branch w c) cache) = [] \<and> \<not> orphan_parent (buildDependencyGraph ts cs) (toLowerCase (fcTaskId c))
     \<and> \<not> being_worked_on w (fcTaskId c)
     \<and> (\<nexists>k n. (dep_edge (buildDependencyGraph ts cs))\<^sup>+\<^sup>+ (toLowerCase (fcTaskId c)) k
          \<and> map_of (nodes (buildDependencyGraph ts cs)) k = Some n \<and> status n \<noteq> Completed)
     \<and> \<not> (\<not> isGlobalBypassEnabled w \<and> \<not> isPerTaskBypassEnabled w (fcTaskId c)
          \<and> (\<exists>other. other \<in> set (collectInFlightTaskIds w) \<and> overlaps_task w (fcTaskId c) other))
     \<and> fcDispatchable c \<noteq> Some False \<and> \<not> awaits_clarification w c \<and> \<not> awaits_external w (buildDependencyGraph ts cs) (fcTaskId c)
     \<and> blocked_reason c = [] \<and> \<not> (isCaptureFlagEnabled (fwCaptureFlag w) \<and> fwPendingCaptures w (fcTaskId c))"
  unfolding chain_result(1) walk_chain_result FilterChainResult.select_convs later_filters_def list.pred_inject
    open_pr_passed filters_passed
  by (simp only: list.pred_inject(1) simp_thms) blast

section \<open>Overlap\<close>

text \<open>Between plain files the overlap is the intersection. It is not symmetric for directories: a candidate that
  declares a directory inside one a task in flight has declared passes, the other way round it is refused.\<close>

lemma files_intersect:
  assumes "\<forall>p \<in> set a \<union> set b. \<not> ends_with p ''/''"
  shows "set (intersectFileSets a b) = set a \<inter> set b"
proof -
  have "covers_path b p \<longleftrightarrow> p \<in> set b" if "p \<in> set a" for p
  proof -
    have "\<not> ends_with p ''/''" using assms that by blast
    moreover have "\<not> list_ex (\<lambda>q. ends_with q ''/'' \<and> starts_with p q) b" using assms by (simp add: list_ex_iff)
    ultimately show ?thesis by (simp add: covers_path_def)
  qed
  then show ?thesis by (auto simp: intersectFileSets_def)
qed

lemma nested_directory_passes:
  assumes "ends_with outer ''/''" and "ends_with inside ''/''" and "starts_with inside outer" and "inside \<noteq> outer"
    and "butlast inside \<noteq> outer"
  shows "intersectFileSets [inside] [outer] = [] \<and> intersectFileSets [outer] [inside] = [outer]"
proof -
  have "length outer \<le> length inside" using assms(3) by (metis starts_with_def length_take min.cobounded1)
  moreover have "length outer \<noteq> length inside" using assms(3,4) by (auto simp: starts_with_def)
  ultimately have "length (take (length inside) outer) \<noteq> length inside" by simp
  then have "\<not> starts_with outer inside" unfolding starts_with_def by metis
  then show ?thesis using assms(1-3,5) by (simp add: intersectFileSets_def covers_path_def eq_commute)
qed

end
