(* ===== verification/TickProps.thy ===== *)
theory TickProps
  imports OrchestratorTick FilterProps
begin

text \<open>
  What a tick dispatches, when it calls a candidate stuck, and how long the loop sleeps.
\<close>

section \<open>The picks\<close>

text \<open>The cache holds what asking again would give.\<close>

definition cache_true :: "FilterWorld \<Rightarrow> pr_cache \<Rightarrow> bool" where
  "cache_true w cache \<longleftrightarrow> (\<forall>b prs. map_of cache b = Some prs \<longrightarrow> prs = or_else (fwPRsOfBranch w b) [])"

lemma cached_prs_true:
  assumes "cache_true w cache"
  shows "fst (cached_prs w b cache) = or_else (fwPRsOfBranch w b) []" and "cache_true w (snd (cached_prs w b cache))"
  using assms by (auto simp: cached_prs_def cache_true_def Let_def split: option.split)

lemma check_pr_cache:
  assumes "cache_true w cache"
  shows "fst (checkOpenPullRequestExists w c cache) = fst (checkOpenPullRequestExists w c [])"
    and "cache_true w (snd (checkOpenPullRequestExists w c cache))"
proof -
  have "cache_true w []" by (simp add: cache_true_def)
  then show "fst (checkOpenPullRequestExists w c cache) = fst (checkOpenPullRequestExists w c [])"
    using cached_prs_true(1) [OF assms] cached_prs_true(1) [of w "[]"] by (simp add: checkOpenPullRequestExists_def Let_def split_beta)
  show "cache_true w (snd (checkOpenPullRequestExists w c cache))"
    using cached_prs_true(2) [OF assms] by (simp add: checkOpenPullRequestExists_def Let_def split_beta)
qed

definition admitted :: "collation \<Rightarrow> TickInput \<Rightarrow> string \<times> string \<Rightarrow> bool" where
  "admitted lc ti c \<longleftrightarrow> tiBypassFilters ti \<or> fcrPassed (fst (runFilterChain lc (tiWorld ti) (tiGraph ti) (filter_candidate ti c) []))"

lemma evaluate_picks:
  assumes "cache_true (tiWorld ti) (pkCache s)"
  shows "pkPicks (evaluate_candidate lc ti c s) = pkPicks s @ (if admitted lc ti c then [fst c] else [])"
    and "cache_true (tiWorld ti) (pkCache (evaluate_candidate lc ti c s))"
proof -
  have "fst (runFilterChain lc (tiWorld ti) g k (pkCache s)) = fst (runFilterChain lc (tiWorld ti) g k [])" for g k
    by (simp add: chain_result check_pr_cache(1) [OF assms])
  then show "pkPicks (evaluate_candidate lc ti c s) = pkPicks s @ (if admitted lc ti c then [fst c] else [])"
    by (simp add: evaluate_candidate_def admitted_def split_beta Let_def)
  show "cache_true (tiWorld ti) (pkCache (evaluate_candidate lc ti c s))"
    using assms check_pr_cache(2) [OF assms] by (simp add: evaluate_candidate_def chain_result split_beta Let_def)
qed

lemma pick_candidates_exact:
  "cache_true (tiWorld ti) (pkCache s) \<Longrightarrow> pkPicks (pick_candidates lc ti (int n) cs s) =
     pkPicks s @ take (n - length (pkPicks s)) (map fst (filter (admitted lc ti) cs))"
proof (induction cs arbitrary: s)
  case (Cons c cs)
  let ?s = "evaluate_candidate lc ti c s"
  show ?case
  proof (cases "length (pkPicks s) \<ge> n")
    case False
    then have "pkPicks (pick_candidates lc ti (int n) (c # cs) s) = pkPicks (pick_candidates lc ti (int n) cs ?s)" by simp
    also have "\<dots> = pkPicks ?s @ take (n - length (pkPicks ?s)) (map fst (filter (admitted lc ti) cs))"
      using Cons.IH [OF evaluate_picks(2) [OF Cons.prems]] .
    finally show ?thesis using False by (simp add: evaluate_picks(1) [OF Cons.prems] take_Cons' Suc_diff_Suc)
  qed simp
qed simp

text \<open>A candidate that no entry holds, or only that of a dead process whose worktree can be taken up again.\<close>

definition free_candidate :: "TickInput \<Rightarrow> InFlightMap \<Rightarrow> string \<times> string \<Rightarrow> bool" where
  "free_candidate ti m c \<longleftrightarrow> (case isInFlight m (fst c) of None \<Rightarrow> True | Some e \<Rightarrow> \<not> dsLive e \<and> tiRecoverable ti (fst c))"

lemma drop_in_flight_kept:
  "distinct (map (\<lambda>c. toLowerCase (fst c)) cs) \<Longrightarrow> fst (drop_in_flight ti cs m) = filter (free_candidate ti m) cs"
proof (induction cs arbitrary: m)
  case (Cons c cs)
  have same: "filter (free_candidate ti (map_del (toLowerCase (fst c)) m)) cs = filter (free_candidate ti m) cs"
    using Cons.prems by (intro filter_cong) (auto simp: free_candidate_def isInFlight_def image_iff)
  note ih = Cons.IH [of m] Cons.IH [of "map_del (toLowerCase (fst c)) m"]
  show ?case
  proof (cases "isInFlight m (fst c)")
    case None
    then have "free_candidate ti m c" by (simp add: free_candidate_def)
    then show ?thesis using None ih(1) Cons.prems by (simp add: split_beta)
  next
    case (Some e)
    then have "free_candidate ti m c \<longleftrightarrow> \<not> dsLive e \<and> tiRecoverable ti (fst c)" by (simp add: free_candidate_def)
    then show ?thesis using Some ih same Cons.prems by (simp add: split_beta)
  qed
qed simp

definition tick_walk :: "collation \<Rightarrow> OrchestratorConfig \<Rightarrow> TickInput \<Rightarrow> TickState \<Rightarrow> PickState" where
  "tick_walk lc cfg ti s = pick_candidates lc ti (max 0 (ocMaxConcurrent cfg)) (fst (drop_in_flight ti (tiCandidates ti) (tsInFlight s)))
     \<lparr>pkPicks = [], pkCache = [], pkStuck = pruneStuckCounters (map fst (tiCandidates ti)) (tsStuck s), pkEvents = []\<rparr>"

lemma idle_dispatches [simp]: "trDispatched (fst (idle_result cfg ti n events held s)) = []"
  by (simp add: idle_result_def split_beta)

lemma tick_dispatched:
  "tiCandidates ti \<noteq> [] \<Longrightarrow> \<not> ocDryRun cfg \<Longrightarrow> trDispatched (fst (runOrchestratorTick lc cfg ti s)) =
     order_by_cost (tiHcCost ti) (tiMaxBudgetUsd ti) (pkPicks (tick_walk lc cfg ti s))"
  by (simp add: runOrchestratorTick_def tick_walk_def split_beta Let_def order_by_cost_def sort_by_def)

text \<open>C3. 
  A tick dispatches the first candidates of the frontier that are free and admitted, as many as it may, in the order of
  the cost channel; none is passed over for one behind it.
\<close>

theorem tick_dispatches_exactly:
  assumes "distinct (map (\<lambda>c. toLowerCase (fst c)) (tiCandidates ti))" and "\<not> ocDryRun cfg"
  shows "trDispatched (fst (runOrchestratorTick lc cfg ti s)) = order_by_cost (tiHcCost ti) (tiMaxBudgetUsd ti)
    (take (nat (ocMaxConcurrent cfg)) (map fst (filter (\<lambda>c. free_candidate ti (tsInFlight s) c \<and> admitted lc ti c) (tiCandidates ti))))"
proof (cases "tiCandidates ti = []")
  case True
  then show ?thesis by (simp add: runOrchestratorTick_def Let_def order_by_cost_def sort_by_def)
next
  case False
  have budget: "max 0 (ocMaxConcurrent cfg) = int (nat (ocMaxConcurrent cfg))" by simp
  have "pkPicks (tick_walk lc cfg ti s) = take (nat (ocMaxConcurrent cfg))
      (map fst (filter (admitted lc ti) (filter (free_candidate ti (tsInFlight s)) (tiCandidates ti))))"
    unfolding tick_walk_def budget drop_in_flight_kept [OF assms(1)] by (subst pick_candidates_exact) (simp_all add: cache_true_def)
  then show ?thesis using tick_dispatched [OF False assms(2)] by (simp add: conj_commute)
qed

text \<open>Three candidates for two places: the first is held by a dead process, the second is blocked by the operator.\<close>

definition quiet_world :: FilterWorld where
  "quiet_world = \<lparr>fwBranchPattern = ''ai-sdlc/{issueIdLower}-{slug}'', fwPRsOfBranch = (\<lambda>b. None), fwPRsMatching = (\<lambda>p. None),
     fwOpenHeads = None, fwRepoRoot = ''r'', fwSentinels = [], fwDetectSubprocess = Some False, fwDetectEnv = None,
     fwProcessTable = None, fwBypass = None, fwBypassTask = None, fwBlastFiles = (\<lambda>t. None), fwCalibrationLog = None,
     fwClearedKeys = Some [], fwClearanceFile = None, fwCaptureFlag = None, fwPendingCaptures = (\<lambda>i. False)\<rparr>"

definition busy_input :: TickInput where
  "busy_input = \<lparr>tiCandidates = [(''T-1'', ''a''), (''T-2'', ''b''), (''T-3'', ''c'')], tiGraph = empty_graph, tiWorld = quiet_world,
     tiLabels = (\<lambda>i. []), tiBlocked = (\<lambda>i. if i = ''T-2'' then Some \<lparr>bfReason = Some ''soak'', bfUntil = None, bfUnblockedBy = None\<rparr> else None),
     tiDispatchable = (\<lambda>i. (None, None)), tiRecoverable = (\<lambda>i. False), tiBypassFilters = False,
     tiHcCost = \<lparr>hcEnabled = False, hcWeight = 1\<rparr>, tiMaxBudgetUsd = (\<lambda>i. None), tiNow = ''now''\<rparr>"

definition busy_state :: TickState where
  "busy_state = \<lparr>tsInFlight = [(''t-1'', \<lparr>dsStartedAt = ''then'', dsWorktreePath = ''w'', dsLive = False\<rparr>)], tsStuck = [],
     tsCadence = makeInitialCadenceState 30\<rparr>"

definition busy_config :: OrchestratorConfig where
  "busy_config = \<lparr>ocTickIntervalSec = 30, ocMaxConcurrent = 2, ocDryRun = False, ocWorkDir = ''r''\<rparr>"

theorem tick_dispatches_exactly_witness:
  "trDispatched (fst (runOrchestratorTick (\<lambda>a b. 0) busy_config busy_input busy_state)) = [''T-3'']"
proof -
  have "distinct (map (\<lambda>c. toLowerCase (fst c)) (tiCandidates busy_input))" by code_simp
  moreover have "\<not> ocDryRun busy_config" by (simp add: busy_config_def)
  moreover have "order_by_cost (tiHcCost busy_input) (tiMaxBudgetUsd busy_input) (take (nat (ocMaxConcurrent busy_config))
      (map fst (filter (\<lambda>c. free_candidate busy_input (tsInFlight busy_state) c \<and> admitted (\<lambda>a b. 0) busy_input c) (tiCandidates busy_input)))) = [''T-3'']"
    by code_simp
  ultimately show ?thesis using tick_dispatches_exactly by simp
qed

section \<open>Stuck candidates\<close>

text \<open>The verdicts on one candidate in tick after tick.\<close>

fun record_all :: "string \<Rightarrow> string \<Rightarrow> FilterChainResult list \<Rightarrow> StuckCounters \<Rightarrow> OrchestratorFilterEvent list" where
  "record_all i now [] m = []"
| "record_all i now (c # cs) m = (case recordFilterEvent i c now m of (e, m1) \<Rightarrow> e # record_all i now cs m1)"

text \<open>The rejections in a row at the end of a list of verdicts.\<close>

definition skips :: "FilterChainResult list \<Rightarrow> nat" where
  "skips cs = length (takeWhile (\<lambda>c. \<not> fcrPassed c) (rev cs))"

lemma skips_simps [simp]: "skips [] = 0" "skips (cs @ [c]) = (if fcrPassed c then 0 else Suc (skips cs))"
  by (simp_all add: skips_def)

definition counts :: "StuckCounters \<Rightarrow> string \<Rightarrow> nat \<Rightarrow> bool" where
  "counts m k n \<longleftrightarrow> (case map_of m k of None \<Rightarrow> n = 0 | Some e \<Rightarrow> n = stTicks e \<and> stEmitted e = (n > STUCK_CANDIDATE_THRESHOLD))"

lemma record_counts:
  assumes "counts m (toLowerCase i) (skips before)"
  shows "counts (snd (recordFilterEvent i c now m)) (toLowerCase i) (skips (before @ [c]))"
    and "oeStuck (fst (recordFilterEvent i c now m)) =
      (if skips (before @ [c]) = 6 then Some (map_option frFilter (fcrFailure c), 6) else None)"
  using assms by (auto simp: counts_def recordFilterEvent_def STUCK_CANDIDATE_THRESHOLD_def Let_def split: option.splits)

lemma record_all_stuck:
  "counts m (toLowerCase i) (skips before) \<Longrightarrow> j < length cs \<Longrightarrow> oeStuck (record_all i now cs m ! j) =
     (if skips (before @ take (Suc j) cs) = 6 then Some (map_option frFilter (fcrFailure (cs ! j)), 6) else None)"
proof (induction cs arbitrary: before m j)
  case (Cons c cs)
  note rec = record_counts [OF Cons.prems(1), of c now]
  show ?case
  proof (cases j)
    case 0
    then show ?thesis using rec(2) by (simp add: split_beta)
  next
    case (Suc k)
    then show ?thesis using Cons.IH [OF rec(1), of k] Cons.prems(2) by (simp add: split_beta)
  qed
qed simp

text \<open>C30. A candidate that one filter alone rejects, when any does, is reported as stuck for that filter exactly on its
  sixth rejection in a row: not before, not again while the row goes on, and anew after an admission has ended it.\<close>

theorem stuck_on_the_sixth:
  assumes "map_of counters (toLowerCase i) = None" and "j < length cs"
    and "\<forall>c \<in> set cs. fcrPassed c \<or> map_option frFilter (fcrFailure c) = Some f"
  shows "oeStuck (record_all i now cs counters ! j) = (if skips (take (Suc j) cs) = 6 then Some (Some f, 6) else None)"
proof -
  have "counts counters (toLowerCase i) (skips [])" using assms(1) by (simp add: counts_def)
  from record_all_stuck [OF this assms(2)]
  have "oeStuck (record_all i now cs counters ! j) =
    (if skips (take (Suc j) cs) = 6 then Some (map_option frFilter (fcrFailure (cs ! j)), 6) else None)" by simp
  moreover have "\<not> fcrPassed (cs ! j)" if "skips (take (Suc j) cs) = 6"
    using that assms(2) by (simp add: take_Suc_conv_app_nth split: if_splits)
  ultimately show ?thesis using assms(2,3) by auto
qed

definition rejected_by :: "FilterName \<Rightarrow> FilterChainResult" where
  "rejected_by f = walk_chain [reject f ''r'' (DispatchabilityBlockedDetail ''r'')] []"

theorem stuck_on_the_sixth_witness:
  "map oeStuck (map (\<lambda>j. record_all ''T-1'' ''now'' (replicate 7 (rejected_by Blocked)) [] ! j) [4, 5, 6])
     = [None, Some (Some Blocked, 6), None]"
proof -
  have r: "fcrPassed (rejected_by Blocked) = False" "map_option frFilter (fcrFailure (rejected_by Blocked)) = Some Blocked"
    by (simp_all add: rejected_by_def reject_def)
  have "oeStuck (record_all ''T-1'' ''now'' (replicate 7 (rejected_by Blocked)) [] ! j) =
      (if skips (take (Suc j) (replicate 7 (rejected_by Blocked))) = 6 then Some (Some Blocked, 6) else None)" if "j < 7" for j
    using that r by (intro stuck_on_the_sixth) simp_all
  moreover have "skips (replicate n (rejected_by Blocked)) = n" for n
    by (simp add: skips_def r(1) takeWhile_eq_all_conv)
  from this [of "Suc m" for m] have "skips (rejected_by Blocked # replicate m (rejected_by Blocked)) = Suc m" for m by simp
  ultimately show ?thesis by simp
qed

text \<open>The counter does not look at the filter: two filters that take turns are reported all the same, under the name
  of the one that rejected last.\<close>

lemma stuck_over_several_filters:
  "oeStuck (record_all ''T-1'' ''now'' [rejected_by Blocked, rejected_by Blocked, rejected_by DorReadiness, rejected_by Blocked,
      rejected_by Blocked, rejected_by DorReadiness] [] ! 5) = Some (Some DorReadiness, 6)"
  by code_simp

section \<open>Idle ticks\<close>

fun run_ticks :: "collation \<Rightarrow> OrchestratorConfig \<Rightarrow> TickInput list \<Rightarrow> TickState \<Rightarrow> TickState" where
  "run_ticks lc cfg [] s = s"
| "run_ticks lc cfg (ti # tis) s = run_ticks lc cfg tis (snd (runOrchestratorTick lc cfg ti s))"

lemma run_ticks_append [simp]: "run_ticks lc cfg (xs @ ys) s = run_ticks lc cfg ys (run_ticks lc cfg xs s)"
  by (induction xs arbitrary: s) simp_all

lemma empty_tick_interval:
  "tiCandidates ti = [] \<Longrightarrow> caIntervalSec (tsCadence (snd (runOrchestratorTick lc cfg ti s))) =
     min MAX_IDLE_SLEEP_SEC (max (max 1 (ocTickIntervalSec cfg)) (caIntervalSec (tsCadence s) * 2))"
  by (simp add: runOrchestratorTick_def idle_result_def recordIdleTick_def Let_def)

lemma doubling:
  fixes b x :: int
  assumes "1 \<le> b" and "b \<le> x"
  shows "min 300 (max b (min 300 x * 2)) = min 300 (x * 2)"
  using assms by (simp add: min_def max_def)

text \<open>C38. 
  While the frontier stays empty the sleep doubles from the configured interval up to five minutes, and is five minutes
  at most even when the configured interval, which a busy loop sleeps, is longer.
\<close>

theorem idle_backoff:
  assumes "tis \<noteq> []" and "\<forall>ti \<in> set tis. tiCandidates ti = []" and "1 \<le> ocTickIntervalSec cfg"
    and "caIntervalSec (tsCadence s) = ocTickIntervalSec cfg"
  shows "caIntervalSec (tsCadence (run_ticks lc cfg tis s)) = min 300 (ocTickIntervalSec cfg * 2 ^ length tis)"
  using assms(1,2)
proof (induction tis rule: rev_induct)
  case (snoc ti tis)
  let ?b = "ocTickIntervalSec cfg"
  have step: "caIntervalSec (tsCadence (run_ticks lc cfg (tis @ [ti]) s)) =
      min 300 (max ?b (caIntervalSec (tsCadence (run_ticks lc cfg tis s)) * 2))"
    using snoc.prems assms(3) by (simp add: empty_tick_interval MAX_IDLE_SLEEP_SEC_def max_def)
  show ?case
  proof (cases "tis = []")
    case True
    then show ?thesis using step assms(3,4) by simp
  next
    case False
    have "?b * 1 \<le> ?b * 2 ^ length tis" using assms(3) by (intro mult_left_mono) simp_all
    then show ?thesis using step snoc.IH [OF False] snoc.prems(2) assms(3) doubling [of ?b "?b * 2 ^ length tis"]
      by (simp add: mult.assoc mult.commute [of _ 2])
  qed
qed simp

definition idle_input :: TickInput where
  "idle_input = busy_input\<lparr>tiCandidates := []\<rparr>"

theorem idle_backoff_witness:
  "caIntervalSec (tsCadence (run_ticks (\<lambda>a b. 0) busy_config [idle_input, idle_input, idle_input] busy_state)) = 240"
proof -
  have "caIntervalSec (tsCadence (run_ticks (\<lambda>a b. 0) busy_config [idle_input, idle_input, idle_input] busy_state)) =
    min 300 (ocTickIntervalSec busy_config * 2 ^ length [idle_input, idle_input, idle_input])"
    by (rule idle_backoff) (simp_all add: idle_input_def busy_config_def busy_state_def makeInitialCadenceState_def)
  then show ?thesis by (simp add: busy_config_def)
qed

end
