(* ===== verification/Spec2Isabelle.thy ===== *)
theory Spec2Isabelle
  imports DependencyProps CycleProps EffectiveProps WorkflowProps OrchestrationProps AuditFile DecisionProps
    ReconcilerProps PolicyProps BoardExamples GroupClaim RequeueProps ComplexityProps CelProps Admission
    WorktreeMutexProps UsageLockProps PlaybookProps TickProps
begin

text \<open>
  A verification library for the AI-SDLC orchestrator: the parts of the TypeScript packages
  \<open>src/pipeline-cli\<close> and \<open>src/reference\<close> that decide what runs next, who may run it and what is
  recorded of it.

  \<^bold>\<open>The program.\<close> A backlog of task files becomes a dependency graph; the frontier of
  dispatchable tasks is ordered by an effective priority that looks at what waits behind each task.
  Its manifest waits on a file-based dispatch board, where workers claim it, report progress by heartbeats
  and sessions, and reapers take back what went silent.
  A dispatched task runs through a workflow document, a graph of steps with loops and anchors. Groups
  of agents run orchestration plans; an authorization hook, derived from the autonomy levels of a
  policy, decides which step may start, and quality gates decide what passes. Resources are kept
  in their desired state by a reconciliation loop with retries. Decisions that need a person are
  events in a catalog, projected to records, escalated tier by tier and expired automatically.
  Actions end up in a hash-chained audit log.

  \<^bold>\<open>Shared theories.\<close>
  \<^item> \<open>Prelude\<close>: JavaScript maps (association lists in insertion order), iterated sets, strings,
    stable sorting by a comparator (locale \<open>comparator\<close>) and stack-driven graph walks (locale
    \<open>worklist\<close>).
  \<^item> \<open>Transitions\<close>: runs of a labelled step relation and their invariants (locales
    \<open>step_invariant\<close> and \<open>relative_invariant\<close>).

  \<^bold>\<open>Components, in the order of the code's own layers.\<close>
  \<^item> \<open>DependencyGraph\<close>, \<open>DependencyFacts\<close>, \<open>DependencyProps\<close>: \<open>pipeline-cli/src/deps/dependency-graph.ts\<close>.
    State: the graph built from open and completed task records, keyed by lower-cased id. Frontier,
    blockers, impact, pre-flight check; each is shown to be its set-theoretic specification on every
    graph a build returns.
  \<^item> \<open>Cycles\<close>, \<open>CycleFacts\<close>, \<open>CycleProps\<close>: the cycle finder, the topological sorts and the
    validation of the same file. The reported cycles are exactly cycles, absence means acyclic, the
    orders are topological; the layering loop does not end on a cyclic input and is option-valued.
  \<^item> \<open>EffectivePriority\<close>, \<open>EffectiveFacts\<close>, \<open>EffectiveProps\<close>: \<open>effective-priority.ts\<close>,
    \<open>dispatch.ts\<close> and the selection of \<open>critical-path.ts\<close>. On acyclic graphs the memoised searches
    return the maxima over the tasks and chains downstream.
  \<^item> \<open>Workflow\<close>, \<open>WorkflowFacts\<close>: \<open>pipeline-cli/src/workflow/graph.ts\<close>, \<open>validate.ts\<close>, the
    preparation half of \<open>engine.ts\<close>. \<open>WorkflowEngine\<close>, \<open>WorkflowRuns\<close>, \<open>WorkflowProps\<close>: run
    state, readiness and the driver over an abstract host. An accepted document lets no path reach
    shipping around its anchors, loops respect their caps, and a run ships only after an anchor, when its host covers
    no node across one.
  \<^item> \<open>Orchestration\<close>, \<open>OrchestrationFacts\<close>, \<open>OrchestrationLoop\<close>, \<open>OrchestrationProps\<close>:
    \<open>reference/src/agents/orchestration.ts\<close> and \<open>executor.ts\<close>. Plan builders, the round-based
    execution loop with any completion order, handoffs. The results are the unique solution of the
    dependency rules and do not depend on the completion order.
  \<^item> \<open>Json\<close>, \<open>JsonFacts\<close>, \<open>AuditLog\<close>, \<open>AuditFacts\<close>, \<open>AuditProps\<close>, \<open>AuditFile\<close>:
    \<open>reference/src/audit/\<close>. The canonical serializer and its parser, the hash chain, the JSONL file,
    signatures and key rotation. A recorded log verifies, its file reads back, and two logs with
    one last hash agree or exhibit a hash collision.
  \<^item> \<open>Decisions\<close>, \<open>Timebox\<close>, \<open>Escalation\<close>, \<open>DecisionProps\<close>: \<open>pipeline-cli/src/decisions/\<close> and
    the \<open>auto-expire\<close> verb of \<open>cli/decisions.ts\<close>. The fold of every event, time order, urgency and
    rank, durations, the escalation chain, governance tags, automatic expiry.
  \<^item> \<open>Policy\<close>, \<open>Autonomy\<close>, \<open>PolicyProps\<close>: \<open>reference/src/policy/\<close> (\<open>enforcement.ts\<close>,
    \<open>authorization.ts\<close>, \<open>abac.ts\<close>, \<open>autonomy.ts\<close>), \<open>core/compare.ts\<close>, and the gate and autonomy
    reconcilers. What enforcement lets through, deny over allow, globs as the texts their
    characters spell, what one autonomy pass may do.
  \<^item> \<open>Reconciler\<close>, \<open>ReconcilerFacts\<close>, \<open>ReconcilerProps\<close>: \<open>reference/src/reconciler/loop.ts\<close> and
    \<open>index.ts\<close> as a step relation whose state includes the runtime's pending promises and timers.
    Well-formedness along every run, single flight where no retry overlaps, and the run in which one does.
  \<^item> \<open>Board\<close>, \<open>BoardOps\<close>, \<open>BoardFacts\<close>, \<open>BoardProps\<close>, \<open>BoardSweep\<close>,
    \<open>BoardExamples\<close>: \<open>pipeline-cli/src/dispatch/board.ts\<close> with \<open>ranking.ts\<close> and \<open>requeue.ts\<close>. State:
    the directories of the board as maps from task ids to files with their modification times. One operation per
    exported function, composed to a step relation; where a task may be, who may hold it, which manifest a claim takes,
    what a sweep reaps. \<open>GroupClaim\<close>: the claims of one sequence group as interleaved scans, reads and
    decisions, with the twenty polls of the code; at most one claimant keeps its claim.
  \<^item> \<open>Sessions\<close>, \<open>SessionProps\<close>, \<open>RequeueProps\<close>: \<open>dispatch/sessions.ts\<close> and
    \<open>session-reaper.ts\<close> over the board: the session files, and the two reapers.
  \<^item> \<open>Complexity\<close>, \<open>ComplexityProps\<close>: \<open>complexity.ts\<close> and \<open>model-selection.ts\<close>: more risk
    never means less oversight, more budget pressure never a dearer model. \<open>Admission\<close>: \<open>admission.ts\<close>,
    \<open>authentication.ts\<close>, \<open>mutating-gate.ts\<close>: what is admitted, and when it comes back changed.
  \<^item> \<open>WorktreeMutex\<close>, \<open>WorktreeMutexProps\<close>: \<open>pipeline-cli/src/runtime/worktree-mutex.ts\<close>: the promise
    chain of every process and the lock directory between processes, as interleaved steps. Exclusion, no wedged queue,
    and the signal handler that breaks the first.
  \<^item> \<open>UsageLock\<close>, \<open>UsageLockProps\<close>: \<open>reference/src/usage/fs-lock.ts\<close>, one file operation a
    step, with calls that die anywhere. Exclusion while locks are kept fresh and no call removes, as stale, the claim
    of a call still at work, and the run in which a dead claim lets two calls in.
  \<^item> \<open>Filters\<close>, \<open>FilterProps\<close>, \<open>OrchestratorTick\<close>, \<open>TickProps\<close>: the admission half of a tick,
    \<open>pipeline-cli/src/orchestrator/filters/\<close>, \<open>loop.ts\<close>, \<open>in-flight.ts\<close>, \<open>hc-cost.ts\<close>: the ten filters and
    their chain, the tasks in flight, the picks, the counters of stuck candidates and the cadence. What the chain
    admits, what a tick dispatches, when a candidate is called stuck, how the sleep grows.
  \<^item> \<open>Playbook\<close>, \<open>PlaybookRunner\<close>, \<open>PlaybookProps\<close>: \<open>pipeline-cli/src/orchestrator/playbook/\<close>:
    the catalogue of failure modes and its parser, the nine handlers with their patterns, the tracker of a worker and
    the runner. Bounded attempts of the first handler that claims a failure, hooks skipped for data only, a linked
    history.
  \<^item> \<open>JsValues\<close>, \<open>Expression\<close>, \<open>ExpressionProps\<close>, \<open>Cel\<close>, \<open>CelProps\<close>:
    \<open>expression.ts\<close> and \<open>cel-evaluator.ts\<close> over texts. The expressions that compare by the written table, and
    those the scanners cut in two.
  \<^item> This theory: a property across orchestration, authorization and autonomy.

  \<^bold>\<open>Conventions.\<close> A \<open>Map\<close> is an association list with one entry per key; a thrown error is the
  left of a sum or \<open>None\<close>; an optional field is an option. Loops are structural, or have a
  termination proof over what is still unvisited, or carry fuel: \<open>exec_loop\<close> the number of steps of the
  plan (every round that does not end the loop settles one, \<open>exec_loop_final\<close>); the workflow's cycle
  search and Kahn's loop the number of nodes and edges (shown never to run out in
  \<open>WorkflowFacts\<close>); \<open>advance_loop\<close> the iteration guard the code itself has; the JSON parser the
  length of its text. The two loops of the code that may not end, the layering of a cyclic graph and the
  repeated advance of a workflow, are option-valued partial functions.

  \<^bold>\<open>Parameters.\<close> Code outside the repository is an argument: SHA-256 and HMAC (any functions from
  text to text; the tamper theorem says which collision an attack needs), \<open>Date.parse\<close>,
  \<open>toISOString\<close>, the clock and \<open>Math.random\<close>, \<open>localeCompare\<close> (used through the comparator
  contract), the expression and schema evaluators, the host of the workflow engine, the task
  function, the metrics getters, the roster, the terminal sender, the commands and the redispatch of the
  playbook with its target branch, what the admission filters observe of pull requests, worktrees, processes and
  files (one record), and the regular expressions of the runtime.

  \<^bold>\<open>Bounds of the model.\<close> Strings are lists of 8-bit characters with ASCII case mapping; numbers are
  integers, naturals or rationals, so floating-point rounding and \<open>NaN\<close> are outside the model. Objects have
  their own properties only. A file operation of the board succeeds and is atomic; what happens between two of them
  is modelled for the group claims.

  \<^bold>\<open>Not modelled.\<close> Reading and writing of files, git and GitHub calls, terminal and Slack
  rendering, the YAML and front-matter scanners, the JSON-schema validator, the sandboxes and
  runners, the dashboards, the plugin hooks and the SDKs in other languages: input and output around
  the decisions modelled here, or other languages. Of the decision code, the dispatch half of the
  orchestrator loop (sweep, outcomes, rollbacks), agent memory and discovery, the Rego-like evaluator, admission
  scoring, the workflow overlays and the dependency snapshots are not modelled.
\<close>

section \<open>Authorization inside an orchestration\<close>







end
